(* ===== verification/JsCore.thy ===== *)
theory JsCore
  imports Complex_Main Prelude
begin

text \<open>
  The part of JavaScript and of React that the admin frontend (clients/frontend) uses: primitive
  values with their truthiness and equality, numbers as IEEE doubles (exact rationals that
  \<^verbatim>\<open>parseInt\<close> and \<^verbatim>\<open>parseFloat\<close> round to 53 bits), exceptions, the
  element tree that JSX builds, and the events a user can fire on such a tree.  Strings are byte
  sequences (UTF-8), so lengths and white space are exact for ASCII text.
\<close>

section \<open>Values\<close>

datatype jsnum = NaN | Fin rat | PosInf | NegInf

datatype prim = Undef | Null | Bool bool | Num jsnum | Str string

datatype js_error =
    TypeError
  | ThrownError string

abbreviation num :: "int \<Rightarrow> prim" where
  "num i \<equiv> Num (Fin (of_int i))"

text \<open>\<^verbatim>\<open>!!v\<close>\<close>

fun truthy :: "prim \<Rightarrow> bool" where
  "truthy Undef = False"
| "truthy Null = False"
| "truthy (Bool b) = b"
| "truthy (Num NaN) = False"
| "truthy (Num (Fin q)) = (q \<noteq> 0)"
| "truthy (Num PosInf) = True"
| "truthy (Num NegInf) = True"
| "truthy (Str s) = (s \<noteq> '''')"

text \<open>\<^verbatim>\<open>v == null\<close>, which holds of null and undefined\<close>

definition nullish :: "prim \<Rightarrow> bool" where
  "nullish v \<longleftrightarrow> v = Undef \<or> v = Null"

text \<open>\<^verbatim>\<open>a === b\<close>: NaN differs from itself.\<close>

definition strict_eq :: "prim \<Rightarrow> prim \<Rightarrow> bool" where
  "strict_eq a b \<longleftrightarrow> a = b \<and> a \<noteq> Num NaN"

text \<open>\<^verbatim>\<open>a || b\<close> on primitive values\<close>

definition js_or :: "prim \<Rightarrow> prim \<Rightarrow> prim" where
  "js_or a b = (if truthy a then a else b)"

text \<open>
  An object with scalar properties is a map from property names to values; reading an absent
  property gives undefined.
\<close>

type_synonym props = "string \<rightharpoonup> prim"

definition get_prop :: "props \<Rightarrow> string \<Rightarrow> prim" where
  "get_prop m k = (case m k of None \<Rightarrow> Undef | Some v \<Rightarrow> v)"

lemma get_prop_upd [simp]: "get_prop (m(k \<mapsto> v)) k' = (if k' = k then v else get_prop m k')"
  by (simp add: get_prop_def)

lemma get_prop_del [simp]: "get_prop (m(k := None)) k' = (if k' = k then Undef else get_prop m k')"
  by (simp add: get_prop_def)

lemma get_prop_empty [simp]: "get_prop Map.empty k = Undef"
  by (simp add: get_prop_def)

text \<open>
  Strings are their UTF-8 bytes; the length JavaScript sees counts UTF-16 units: none for a
  continuation byte, two for the first byte of a sequence of four.
\<close>

definition js_length :: "string \<Rightarrow> nat" where
  "js_length s = sum_list (map (\<lambda>c. let n = of_char c :: nat in
     if 128 \<le> n \<and> n < 192 then 0 else if 240 \<le> n then 2 else 1) s)"

section \<open>Numbers\<close>

text \<open>Number of binary digits, and the exponent of the leading bit of a positive rational.\<close>

fun bits :: "nat \<Rightarrow> nat" where
  "bits n = (if n = 0 then 0 else Suc (bits (n div 2)))"

declare bits.simps [simp del]

definition pow2 :: "int \<Rightarrow> rat" where
  "pow2 e = (if 0 \<le> e then 2 ^ nat e else 1 / 2 ^ nat (- e))"

definition ilog2 :: "rat \<Rightarrow> int" where
  "ilog2 q =
     (let (a, b) = quotient_of q; l = int (bits (nat a)) - int (bits (nat b))
      in if pow2 l \<le> q then l else l - 1)"

definition round_half_even :: "rat \<Rightarrow> int" where
  "round_half_even q =
     (let f = \<lfloor>q\<rfloor>; r = q - of_int f
      in if r < 1 / 2 then f else if 1 / 2 < r then f + 1 else if even f then f else f + 1)"

text \<open>
  Rounding to the nearest double, ties to even: 53 significant bits, exponents from
  \<open>-1074\<close>, and infinity from \<open>2 ^ 1024\<close> on.  The two zeros are one value.
\<close>

definition to_double :: "rat \<Rightarrow> jsnum" where
  "to_double q =
     (if q = 0 then Fin 0
      else let e = max (- 1074) (ilog2 \<bar>q\<bar> - 52);
               v = of_int (round_half_even (\<bar>q\<bar> / pow2 e)) * pow2 e
           in if 2 ^ 1024 \<le> v then (if 0 < q then PosInf else NegInf)
              else Fin (if 0 < q then v else - v))"

definition is_space :: "char \<Rightarrow> bool" where
  "is_space c \<longleftrightarrow> (of_char c :: nat) \<in> {9, 10, 11, 12, 13, 32}"

text \<open>The sign of a numeral and what follows it.\<close>

definition sign_rest :: "string \<Rightarrow> rat \<times> string" where
  "sign_rest s = (case s of [] \<Rightarrow> (1, [])
     | c # r \<Rightarrow> if c = CHR ''-'' then (- 1, r) else if c = CHR ''+'' then (1, r) else (1, s))"

definition hex_val :: "char \<Rightarrow> nat option" where
  "hex_val c = (let n = of_char c :: nat in
     if 48 \<le> n \<and> n \<le> 57 then Some (n - 48)
     else if 97 \<le> n \<and> n \<le> 102 then Some (n - 87)
     else if 65 \<le> n \<and> n \<le> 70 then Some (n - 55) else None)"

text \<open>
  \<^verbatim>\<open>parseInt(s)\<close> with no radix: white space, a sign, a hexadecimal prefix, and the
  longest run of digits; NaN when that run is empty.
\<close>

definition parseInt :: "string \<Rightarrow> jsnum" where
  "parseInt s =
     (let (sg, r) = sign_rest (dropWhile is_space s)
      in if take 2 r \<in> {''0x'', ''0X''} then
           (let ds = takeWhile (\<lambda>c. hex_val c \<noteq> None) (drop 2 r)
            in if ds = [] then NaN
               else to_double (sg * of_nat (foldl (\<lambda>a c. 16 * a + the (hex_val c)) 0 ds)))
         else
           (let ds = takeWhile is_digit r
            in if ds = [] then NaN else to_double (sg * of_nat (nat_of_string ds))))"

text \<open>The exponent part of a decimal literal; none when no digit follows the letter.\<close>

definition exponent_of :: "string \<Rightarrow> int" where
  "exponent_of s = (case s of [] \<Rightarrow> 0
     | c # r \<Rightarrow> if c = CHR ''e'' \<or> c = CHR ''E'' then
          (let (sg, r') = sign_rest r; ds = takeWhile is_digit r'
           in if ds = [] then 0 else \<lfloor>sg\<rfloor> * int (nat_of_string ds))
        else 0)"

definition pow10 :: "int \<Rightarrow> rat" where
  "pow10 e = (if 0 \<le> e then 10 ^ nat e else 1 / 10 ^ nat (- e))"

text \<open>\<^verbatim>\<open>parseFloat(s)\<close>: the longest prefix that is a decimal literal, or Infinity.\<close>

definition parseFloat :: "string \<Rightarrow> jsnum" where
  "parseFloat s =
     (let (sg, r) = sign_rest (dropWhile is_space s)
      in if take 8 r = ''Infinity'' then (if sg = 1 then PosInf else NegInf)
         else
           (let ip = takeWhile is_digit r; r1 = drop (length ip) r;
                fp = (case r1 of [] \<Rightarrow> [] | c # r2 \<Rightarrow> if c = CHR ''.'' then takeWhile is_digit r2 else []);
                r3 = (case r1 of [] \<Rightarrow> [] | c # r2 \<Rightarrow>
                        if c = CHR ''.'' \<and> (ip \<noteq> [] \<or> fp \<noteq> []) then drop (length fp) r2 else r1)
            in if ip = [] \<and> fp = [] then NaN
               else to_double (sg * of_nat (nat_of_string (ip @ fp))
                                * pow10 (exponent_of r3 - int (length fp)))))"

section \<open>Safe integers are exact\<close>

lemma bits_bounds: "0 < n \<Longrightarrow> 2 ^ (bits n - 1) \<le> n \<and> n < 2 ^ bits n"
proof (induction n rule: bits.induct)
  case (1 n)
  show ?case
  proof (cases "n div 2 = 0")
    case True
    with 1(2) have "n = 1" by presburger
    then show ?thesis by (simp add: bits.simps)
  next
    case False
    with 1 have "2 ^ (bits (n div 2) - 1) \<le> n div 2" "n div 2 < 2 ^ bits (n div 2)" by auto
    moreover have "bits (n div 2) \<noteq> 0" using False by (subst bits.simps) simp
    moreover have "bits n = Suc (bits (n div 2))" using 1(2) by (subst bits.simps) simp
    ultimately show ?thesis by (cases "bits (n div 2)") auto
  qed
qed

lemma bits_le: "0 < n \<Longrightarrow> n < 2 ^ k \<Longrightarrow> bits n \<le> k"
proof (rule ccontr)
  assume "0 < n" "n < 2 ^ k" "\<not> bits n \<le> k"
  then have "2 ^ k \<le> (2::nat) ^ (bits n - 1)" by (intro power_increasing) auto
  with bits_bounds [OF \<open>0 < n\<close>] \<open>n < 2 ^ k\<close> show False by linarith
qed

lemma pow2_nat [simp]: "pow2 (int k) = 2 ^ k"
  by (simp add: pow2_def)

lemma ilog2_nat: "0 < n \<Longrightarrow> ilog2 (of_nat n) = int (bits n) - 1"
proof -
  assume n: "0 < n"
  have q: "quotient_of (of_nat n) = (int n, 1)"
    using quotient_of_int [of "int n"] by (simp add: Rat.of_int_def)
  have b1: "bits 1 = 1" by (simp add: bits.simps)
  have bn: "bits n \<noteq> 0" using n by (subst bits.simps) simp
  then have e: "int (bits n) - 1 = int (bits n - 1)" by simp
  have "(2::rat) ^ (bits n - 1) \<le> of_nat n"
    using bits_bounds [OF n] by (metis of_nat_le_iff of_nat_numeral of_nat_power)
  then have "pow2 (int (bits n) - 1) \<le> (of_nat n :: rat)" by (simp only: e pow2_nat)
  with b1 show ?thesis by (simp add: ilog2_def q Let_def)
qed

lemma round_half_even_int [simp]: "round_half_even (of_int k) = k"
  by (simp add: round_half_even_def)

lemma to_double_nat: "n < 2 ^ 53 \<Longrightarrow> to_double (of_nat n) = Fin (of_nat n)"
proof (cases "n = 0")
  case True
  then show ?thesis by (simp add: to_double_def)
next
  case False
  assume n53: "n < 2 ^ 53"
  with False have b: "bits n \<le> 53" by (intro bits_le) auto
  have bn: "bits n \<noteq> 0" using False by (subst bits.simps) simp
  define k where "k = 53 - bits n"
  have e: "max (- 1074) (ilog2 (of_nat n) - 52) = - int k"
    using False b bn by (simp add: ilog2_nat k_def)
  have p: "pow2 (- int k) = 1 / 2 ^ k"
    by (cases "k = 0") (auto simp: pow2_def)
  have m: "(of_nat n :: rat) / pow2 (- int k) = of_int (int n * 2 ^ k)"
    by (simp add: p)
  have v: "of_int (int n * 2 ^ k) * pow2 (- int k) = (of_nat n :: rat)"
    by (simp add: p)
  have r: "(of_nat n :: rat) < 2 ^ 53"
    using n53 by (metis of_nat_less_iff of_nat_numeral of_nat_power)
  have "(2::rat) ^ 53 \<le> 2 ^ 1024" by (rule power_increasing) auto
  with r have "\<not> 2 ^ 1024 \<le> (of_nat n :: rat)" by linarith
  with False show ?thesis
    unfolding to_double_def Let_def abs_of_nat e m round_half_even_int v by simp
qed

lemma digit_not_sign: "is_digit c \<Longrightarrow> c \<noteq> CHR ''-'' \<and> c \<noteq> CHR ''+'' \<and> c \<noteq> CHR ''x'' \<and>
    c \<noteq> CHR ''X'' \<and> \<not> is_space c"
  by (auto simp: is_digit_def is_space_def)

lemma parseInt_nat:
  assumes "n < 2 ^ 53"
  shows "parseInt (string_of_nat n) = Fin (of_nat n)"
proof -
  let ?s = "string_of_nat n"
  obtain c r where s: "?s = c # r" by (cases ?s) auto
  have d: "list_all is_digit (c # r)" using string_of_nat_digits [of n] by (simp only: s)
  then have c: "\<not> is_space c" "c \<noteq> CHR ''-''" "c \<noteq> CHR ''+''"
    by (auto dest: digit_not_sign)
  have h: "take 2 (c # r) \<notin> {''0x'', ''0X''}"
    using d by (cases r) (auto dest: digit_not_sign)
  have t: "takeWhile is_digit (c # r) = c # r"
    using d by (simp add: takeWhile_eq_all_conv list_all_iff)
  have v: "nat_of_string (c # r) = n" by (simp only: s [symmetric] nat_of_string_of_nat)
  show ?thesis
    unfolding parseInt_def s
    using c h t v assms by (auto simp: sign_rest_def to_double_nat)
qed

lemma parseInt_empty: "parseInt '''' = NaN"
  by (simp add: parseInt_def sign_rest_def)

end
