(* ===== verification/JsView.thy ===== *)
theory JsView
  imports JsCore
begin

text \<open>
  The trees that JSX expressions denote, with event handlers as functions from the target's value
  (\<^verbatim>\<open>e.target.value\<close>) to the effects of the handler, and the relation \<open>fires\<close>: what
  one interaction of a user with a rendered tree can cause.  A component of a library
  (\<^verbatim>\<open>Link\<close>, \<^verbatim>\<open>Highlight\<close>) is an element with the component's name.  A child that
  is an array is a fragment.  Handlers of enclosing elements do not see the events of inner ones:
  no element of the frontend nests two handlers for the same event.
\<close>

section \<open>Trees\<close>

datatype 'a effect = PreventDefault | Do 'a

datatype 'a attr =
    AVal string prim
  | AHandler string "string \<Rightarrow> 'a effect list"

datatype 'a node =
    NVal prim
  | NEl string "'a attr list" "'a node list"
  | NFrag "'a node list"

abbreviation cls :: "string \<Rightarrow> 'a attr" where
  "cls c \<equiv> AVal ''className'' (Str c)"

abbreviation attr :: "string \<Rightarrow> string \<Rightarrow> 'a attr" where
  "attr n v \<equiv> AVal n (Str v)"

abbreviation textn :: "string \<Rightarrow> 'a node" where
  "textn s \<equiv> NVal (Str s)"

abbreviation null_node :: "'a node" where
  "null_node \<equiv> NVal Null"

abbreviation div_node :: "string \<Rightarrow> 'a node list \<Rightarrow> 'a node" where
  "div_node c \<equiv> NEl ''div'' [cls c]"

abbreviation link_to :: "string \<Rightarrow> 'a node list \<Rightarrow> 'a node" where
  "link_to path \<equiv> NEl ''Link'' [attr ''to'' path]"

text \<open>A link that runs a handler instead of navigating: \<^verbatim>\<open>href="#"\<close>.\<close>

definition on_click :: "'a \<Rightarrow> 'a attr" where
  "on_click a = AHandler ''onClick'' (\<lambda>_. [PreventDefault, Do a])"

section \<open>Interaction\<close>

text \<open>
  The string the document stores for an attribute value: whole numbers in decimal.  No tree of the
  frontend puts a fraction or an infinity in an option, and those have no string here.
\<close>

fun attr_text :: "prim \<Rightarrow> string option" where
  "attr_text (Str s) = Some s"
| "attr_text (Num (Fin q)) = (if q = of_int \<lfloor>q\<rfloor> then Some (string_of_int \<lfloor>q\<rfloor>) else None)"
| "attr_text _ = None"

text \<open>The text of a child: undefined, null and booleans render as nothing.\<close>

fun child_text :: "'a node \<Rightarrow> string" where
  "child_text (NVal (Str s)) = s"
| "child_text (NVal v) = (case attr_text v of None \<Rightarrow> '''' | Some s \<Rightarrow> s)"
| "child_text (NEl t as cs) = concat (map child_text cs)"
| "child_text (NFrag cs) = concat (map child_text cs)"

text \<open>An option's value is its attribute, or its text when the attribute is undefined or null.\<close>

definition attr_value :: "string \<Rightarrow> 'a attr list \<Rightarrow> prim" where
  "attr_value n as =
     (case filter (\<lambda>a. case a of AVal m v \<Rightarrow> m = n | AHandler m h \<Rightarrow> False) as of
        AVal m v # _ \<Rightarrow> v | _ \<Rightarrow> Undef)"

definition option_value :: "'a attr list \<Rightarrow> 'a node list \<Rightarrow> string option" where
  "option_value as cs =
     (let v = attr_value ''value'' as
      in if nullish v then Some (concat (map child_text cs)) else attr_text v)"

fun options :: "'a node \<Rightarrow> string option list" where
  "options (NVal v) = []"
| "options (NEl t as cs) = (if t = ''option'' then [option_value as cs] else concat (map options cs))"
| "options (NFrag cs) = concat (map options cs)"

text \<open>
  One interaction: a click, the submission of a form, any text typed in an input, one of the
  offered options chosen in a select.
\<close>

inductive fires :: "'a node \<Rightarrow> 'a effect list \<Rightarrow> bool" where
  click: "AHandler ''onClick'' h \<in> set as \<Longrightarrow> fires (NEl t as cs) (h '''')"
| submit: "AHandler ''onSubmit'' h \<in> set as \<Longrightarrow> fires (NEl ''form'' as cs) (h '''')"
| type_text: "AHandler ''onChange'' h \<in> set as \<Longrightarrow> t = ''input'' \<or> t = ''textarea'' \<Longrightarrow>
    fires (NEl t as cs) (h v)"
| choose: "AHandler ''onChange'' h \<in> set as \<Longrightarrow> Some v \<in> set (concat (map options cs)) \<Longrightarrow>
    fires (NEl ''select'' as cs) (h v)"
| child: "c \<in> set cs \<Longrightarrow> fires c es \<Longrightarrow> fires (NEl t as cs) es"
| frag: "c \<in> set cs \<Longrightarrow> fires c es \<Longrightarrow> fires (NFrag cs) es"

inductive_simps fires_val [simp]: "fires (NVal v) es"
inductive_simps fires_el: "fires (NEl t as cs) es"
inductive_simps fires_frag [simp]: "fires (NFrag cs) es"

inductive_cases fires_elE: "fires (NEl t as cs) es"

text \<open>What a list of effects asks for, apart from keeping the browser's default away.\<close>

fun requested :: "'a effect list \<Rightarrow> 'a list" where
  "requested [] = []"
| "requested (PreventDefault # es) = requested es"
| "requested (Do a # es) = a # requested es"

definition emits :: "'a node \<Rightarrow> 'a \<Rightarrow> bool" where
  "emits n a \<longleftrightarrow> (\<exists>es. fires n es \<and> a \<in> set (requested es))"

text \<open>What an attribute emits, on an element of tag \<open>t\<close> with children \<open>cs\<close>.\<close>

fun attr_emits :: "string \<Rightarrow> 'a node list \<Rightarrow> 'a attr \<Rightarrow> 'a \<Rightarrow> bool" where
  "attr_emits t cs (AVal n v) a = False"
| "attr_emits t cs (AHandler n h) a =
     (if n = ''onClick'' then a \<in> set (requested (h ''''))
      else if n = ''onSubmit'' then t = ''form'' \<and> a \<in> set (requested (h ''''))
      else if n = ''onChange'' then
        (if t = ''input'' \<or> t = ''textarea'' then \<exists>v. a \<in> set (requested (h v))
         else if t = ''select'' then
           \<exists>v. Some v \<in> set (concat (map options cs)) \<and> a \<in> set (requested (h v))
         else False)
      else False)"

definition own_emits :: "string \<Rightarrow> 'a attr list \<Rightarrow> 'a node list \<Rightarrow> 'a \<Rightarrow> bool" where
  "own_emits t as cs a \<longleftrightarrow> list_ex (\<lambda>x. attr_emits t cs x a) as"

lemma emits_val [simp]: "\<not> emits (NVal v) a"
  by (simp add: emits_def)

lemma emits_frag [simp]: "emits (NFrag cs) a \<longleftrightarrow> (\<exists>c \<in> set cs. emits c a)"
  by (auto simp: emits_def)

lemma attr_emits_fires:
  "x \<in> set as \<Longrightarrow> attr_emits t cs x a \<Longrightarrow> \<exists>es. fires (NEl t as cs) es \<and> a \<in> set (requested es)"
proof (cases x)
  case (AVal n v)
  then show "attr_emits t cs x a \<Longrightarrow> ?thesis" by simp
next
  case (AHandler n h)
  assume "x \<in> set as" "attr_emits t cs x a"
  with AHandler show ?thesis
    by (auto simp del: set_concat set_map split: if_splits intro: fires.intros(1-4))
qed

lemma own_emitsI: "x \<in> set as \<Longrightarrow> attr_emits t cs x a \<Longrightarrow> own_emits t as cs a"
  by (auto simp: own_emits_def list_ex_iff)

lemma fires_own_or_child:
  assumes "fires (NEl t as cs) es" and "a \<in> set (requested es)"
  shows "own_emits t as cs a \<or> (\<exists>c \<in> set cs. emits c a)"
  using assms(1)
proof (rule fires_elE)
  fix h assume "es = h ''''" "AHandler ''onClick'' h \<in> set as"
  with assms(2) show ?thesis by (auto intro: own_emitsI)
next
  fix h assume "t = ''form''" "es = h ''''" "AHandler ''onSubmit'' h \<in> set as"
  with assms(2) show ?thesis by (auto intro: own_emitsI)
next
  fix h v assume "es = h v" "AHandler ''onChange'' h \<in> set as" "t = ''input'' \<or> t = ''textarea''"
  with assms(2) show ?thesis by (intro disjI1 own_emitsI [of "AHandler ''onChange'' h"]) auto
next
  fix h v assume "t = ''select''" "es = h v" "AHandler ''onChange'' h \<in> set as"
    and "\<exists>x \<in> set cs. Some v \<in> set (options x)"
  with assms(2) show ?thesis
    by (intro disjI1 own_emitsI [of "AHandler ''onChange'' h"]) auto
next
  fix c assume "c \<in> set cs" "fires c es"
  with assms(2) show ?thesis by (auto simp: emits_def)
qed

lemma emits_node [simp]: "emits (NEl t as cs) a \<longleftrightarrow> own_emits t as cs a \<or> (\<exists>c \<in> set cs. emits c a)"
proof
  assume "own_emits t as cs a \<or> (\<exists>c \<in> set cs. emits c a)"
  then show "emits (NEl t as cs) a"
    using attr_emits_fires [of _ as t cs a]
    by (auto simp: emits_def own_emits_def list_ex_iff intro: fires.child)
next
  assume "emits (NEl t as cs) a"
  then show "own_emits t as cs a \<or> (\<exists>c \<in> set cs. emits c a)"
    unfolding emits_def [of "NEl t as cs"] by (blast dest: fires_own_or_child)
qed

lemma own_emits_Nil [simp]: "\<not> own_emits t [] cs a"
  by (simp add: own_emits_def)

lemma own_emits_Cons [simp]:
  "own_emits t (x # as) cs a \<longleftrightarrow> attr_emits t cs x a \<or> own_emits t as cs a"
  by (simp add: own_emits_def)

lemma attr_emits_on_click [simp]: "attr_emits t cs (on_click b) a \<longleftrightarrow> a = b"
  by (simp add: on_click_def)

section \<open>Reducers\<close>

text \<open>
  React's \<^verbatim>\<open>useReducer\<close>: a state, and a function that computes the next state from an
  action or throws.  A view tells which actions the user can cause in a state.  The contract:
  in a state of the invariant every action the view can emit is accepted and keeps the invariant.
  Then no interaction, in any order, ever throws.
\<close>

locale reducer =
  fixes reduce :: "'s \<Rightarrow> 'a \<Rightarrow> js_error + 's"
    and can :: "'s \<Rightarrow> 'a \<Rightarrow> bool"
    and inv :: "'s \<Rightarrow> bool"
  assumes accepts: "inv s \<Longrightarrow> can s a \<Longrightarrow> \<exists>s'. reduce s a = Inr s' \<and> inv s'"
begin

inductive reach :: "'s \<Rightarrow> 's \<Rightarrow> bool" where
  reach_refl: "reach s s"
| reach_step: "reach s t \<Longrightarrow> can t a \<Longrightarrow> reduce t a = Inr u \<Longrightarrow> reach s u"

lemma reach_inv: "reach s t \<Longrightarrow> inv s \<Longrightarrow> inv t"
proof (induction rule: reach.induct)
  case (reach_refl s)
  then show ?case .
next
  case (reach_step s t a u)
  then show ?case using accepts by fastforce
qed

lemma never_throws: "reach s t \<Longrightarrow> inv s \<Longrightarrow> can t a \<Longrightarrow> reduce t a \<noteq> Inl e"
  using reach_inv accepts by fastforce

fun session :: "'s \<Rightarrow> 'a list \<Rightarrow> bool" where
  "session s [] = True"
| "session s (a # as) = (can s a \<and> (\<forall>s'. reduce s a = Inr s' \<longrightarrow> session s' as))"

lemma session_runs: "inv s \<Longrightarrow> session s as \<Longrightarrow> \<exists>t. foldE reduce s as = Inr t \<and> inv t"
proof (induction as arbitrary: s)
  case Nil
  then show ?case by simp
next
  case (Cons a as)
  then obtain s' where "reduce s a = Inr s'" "inv s'" using accepts [of s a] by auto
  with Cons show ?case by simp
qed

end

section \<open>Effects that watch a state\<close>

text \<open>
  React's \<^verbatim>\<open>useEffect\<close>: after every change of a reducer's state a watcher runs, which
  dispatches further actions and sends requests.  Every dispatched action yields a new object, so
  the watcher runs again until it dispatches nothing.
\<close>

datatype ('a, 'r) watch_cmd = Dispatch 'a | Fetch 'r

fun dispatched :: "('a, 'r) watch_cmd list \<Rightarrow> 'a list" where
  "dispatched [] = []"
| "dispatched (Dispatch a # cs) = a # dispatched cs"
| "dispatched (Fetch r # cs) = dispatched cs"

fun fetched :: "('a, 'r) watch_cmd list \<Rightarrow> 'r list" where
  "fetched [] = []"
| "fetched (Dispatch a # cs) = fetched cs"
| "fetched (Fetch r # cs) = r # fetched cs"

lemma dispatched_map_Fetch [simp]: "dispatched (map Fetch rs) = []"
  by (induction rs) auto

lemma fetched_map_Fetch [simp]: "fetched (map Fetch rs) = rs"
  by (induction rs) auto

text \<open>
  At most \<open>n\<close> runs of a watcher: the state in which it rests and the requests it sent on
  the way, or the exception of a dispatch; nothing when it has not come to rest.
\<close>

fun settle :: "('s \<Rightarrow> 'a \<Rightarrow> js_error + 's) \<Rightarrow> ('s \<Rightarrow> ('a, 'r) watch_cmd list) \<Rightarrow> nat \<Rightarrow> 's
    \<Rightarrow> (js_error + 's \<times> 'r list) option" where
  "settle reduce watch 0 s = None"
| "settle reduce watch (Suc n) s =
     (let cs = watch s in
      if dispatched cs = [] then Some (Inr (s, fetched cs))
      else (case foldE reduce s (dispatched cs) of
          Inl e \<Rightarrow> Some (Inl e)
        | Inr t \<Rightarrow> (case settle reduce watch n t of
              Some (Inr (u, rs)) \<Rightarrow> Some (Inr (u, fetched cs @ rs))
            | r \<Rightarrow> r)))"

locale watcher =
  fixes reduce :: "'s \<Rightarrow> 'a \<Rightarrow> js_error + 's"
    and watch :: "'s \<Rightarrow> ('a, 'r) watch_cmd list"
    and inv :: "'s \<Rightarrow> bool"
    and work :: "'s \<Rightarrow> nat"
  assumes progress: "inv s \<Longrightarrow> dispatched (watch s) \<noteq> [] \<Longrightarrow>
    \<exists>t. foldE reduce s (dispatched (watch s)) = Inr t \<and> inv t \<and> work t < work s"
begin

lemma comes_to_rest:
  "inv s \<Longrightarrow> work s < n \<Longrightarrow>
     \<exists>t rs. settle reduce watch n s = Some (Inr (t, rs)) \<and> inv t \<and> dispatched (watch t) = []"
proof (induction n arbitrary: s)
  case 0
  then show ?case by simp
next
  case (Suc n)
  show ?case
  proof (cases "dispatched (watch s) = []")
    case True
    with Suc.prems show ?thesis by simp
  next
    case False
    with Suc.prems progress obtain t
      where t: "foldE reduce s (dispatched (watch s)) = Inr t" "inv t" "work t < work s" by blast
    with Suc.prems have "work t < n" by linarith
    from Suc.IH [OF t(2) this] obtain u rs
      where "settle reduce watch n t = Some (Inr (u, rs))" "inv u" "dispatched (watch u) = []" by blast
    with False t show ?thesis by simp
  qed
qed

end

section \<open>Views of parts\<close>

text \<open>A part of a page is rendered with its events renamed to those of the page.\<close>

lemma map_attr_value: "attr_value n (map (map_attr f) as) = attr_value n as"
proof (induction as)
  case (Cons x as)
  then show ?case by (cases x) (simp_all add: attr_value_def)
qed (simp add: attr_value_def)

lemma map_node_options [simp]: "options (map_node (f :: 'b \<Rightarrow> 'a) n) = options n"
proof (induction n)
  case (NEl t as cs)
  have "child_text (map_node f c) = child_text c" for c :: "'b node"
    by (induction c rule: child_text.induct) (auto cong: map_cong)
  moreover have "attr_value ''value'' (map (map_attr f) as) = attr_value ''value'' as"
    by (rule map_attr_value)
  ultimately have "option_value (map (map_attr f) as) (map (map_node f) cs) = option_value as cs"
    by (simp add: option_value_def Let_def comp_def)
  with NEl show ?case by (simp add: comp_def cong: map_cong)
qed (auto cong: map_cong)

lemma requested_map [simp]: "requested (map (map_effect f) es) = map f (requested es)"
  by (induction es rule: requested.induct) auto

lemma attr_emits_map [simp]:
  "attr_emits t (map (map_node f) cs) (map_attr f x) b \<longleftrightarrow> (\<exists>a. attr_emits t cs x a \<and> b = f a)"
proof (cases x)
  case (AHandler n h)
  consider "n = ''onClick''" | "n = ''onSubmit''" | "n = ''onChange''"
    | "n \<noteq> ''onClick''" "n \<noteq> ''onSubmit''" "n \<noteq> ''onChange''" by blast
  then show ?thesis
  proof cases
    case 3
    then show ?thesis
      unfolding AHandler by (simp add: comp_def image_iff del: set_concat) blast
  qed (use AHandler in \<open>auto simp: image_iff\<close>)
qed simp

lemma emits_map_node [simp]: "emits (map_node f n) b \<longleftrightarrow> (\<exists>a. emits n a \<and> b = f a)"
proof (induction n)
  case (NEl t as cs)
  have "own_emits t (map (map_attr f) as) (map (map_node f) cs) b \<longleftrightarrow> (\<exists>a. own_emits t as cs a \<and> b = f a)"
    by (induction as) auto
  with NEl show ?case by auto
qed auto

end
