(* ===== verification/JsWidgets.thy ===== *)
theory JsWidgets
  imports JsView "HOL-Library.AList"
begin

text \<open>
  The small components every page is made of: Body.jsx, Links.jsx, Pagination.jsx, Verdict.jsx,
  ChangeAlert.jsx, submission/RenderResource.jsx and submission/SubmissionsFilters.jsx.
\<close>

section \<open>Layout\<close>

record nav =
  nav_path :: string
  nav_text :: string

definition nav_item :: "nat \<Rightarrow> nav \<Rightarrow> 'a node" where
  "nav_item i nav =
     NEl ''div'' [AVal ''key'' (num (int i)), cls ''text-white d-block'']
       [div_node ''d-flex''
         [NEl ''Link'' [cls ''nav-link d-block pe-1'', attr ''to'' (nav_path nav)] [textn (nav_text nav)],
          div_node ''d-flex d-block pe-1'' [textn ''/'']]]"

text \<open>With no navigation entry, reading the text of the last one throws.\<close>

definition Body :: "nav list \<Rightarrow> 'a node \<Rightarrow> js_error + 'a node" where
  "Body navs value =
     (if navs = [] then Inl TypeError
      else Inr (NEl ''div'' []
        [div_node ''container-fluid nav-links''
          [div_node ''container-lg px-5 py-2''
            [div_node ''d-flex''
              [NFrag (mapi nav_item (butlast navs)),
               div_node ''d-inline-block text-white text-opacity-75'' [textn (nav_text (last navs))]]]],
         div_node ''container-lg px-xl-5 px-0 my-5'' [value]]))"

record page_link =
  link_target :: string
  link_caption :: string

definition Links :: "page_link list \<Rightarrow> 'a node" where
  "Links links =
     NEl ''div'' []
       [NFrag (mapi (\<lambda>index link.
          NEl ''div'' [AVal ''key'' (num (int index)),
                       cls ''row border border-primary px-2 py-2 mb-3 rounded-3'']
            [link_to (link_target link) [textn (link_caption link)]]) links)]"

section \<open>Pagination\<close>

text \<open>The page number is what \<^verbatim>\<open>parseInt\<close> made of the query, and may be NaN.\<close>

fun js_succ :: "jsnum \<Rightarrow> jsnum" where
  "js_succ (Fin q) = to_double (q + 1)"
| "js_succ x = x"

fun js_pred :: "jsnum \<Rightarrow> jsnum" where
  "js_pred (Fin q) = to_double (q - 1)"
| "js_pred x = x"

fun js_gt_one :: "jsnum \<Rightarrow> bool" where
  "js_gt_one (Fin q) = (1 < q)"
| "js_gt_one PosInf = True"
| "js_gt_one _ = False"

definition laquo :: string where
  "laquo = [CHR 0xC2, CHR 0xAB]"

definition raquo :: string where
  "raquo = [CHR 0xC2, CHR 0xBB]"

definition no_page :: "jsnum attr" where
  "no_page = AHandler ''onClick'' (\<lambda>_. [PreventDefault])"

definition page_item :: "string \<Rightarrow> jsnum attr list \<Rightarrow> jsnum node \<Rightarrow> jsnum node" where
  "page_item c as child = NEl ''li'' [cls c] [NEl ''a'' ([cls ''page-link'', attr ''href'' ''#''] @ as) [child]]"

definition Pagination :: "jsnum \<Rightarrow> jsnum node" where
  "Pagination page =
     NEl ''nav'' [attr ''aria-label'' ''Pages'']
       [NEl ''ul'' [cls ''pagination'']
         [if js_gt_one page
          then page_item ''page-item'' [attr ''aria-label'' ''Previous'', on_click (js_pred page)]
                 (NEl ''span'' [attr ''aria-hidden'' ''true''] [textn laquo])
          else page_item ''page-item disabled'' [attr ''aria-label'' ''Previous'', no_page]
                 (NEl ''span'' [attr ''aria-hidden'' ''true''] [textn laquo]),
          if js_gt_one page
          then page_item ''page-item'' [on_click (js_pred page)] (NVal (Num (js_pred page)))
          else null_node,
          NEl ''li'' [cls ''page-item active'', attr ''aria-current'' ''page'']
            [NEl ''a'' [cls ''page-link'', attr ''href'' ''#'', no_page] [NVal (Num page)]],
          page_item ''page-item'' [on_click (js_succ page)] (NVal (Num (js_succ page))),
          page_item ''page-item'' [attr ''aria-label'' ''Next'', on_click (js_succ page)]
            (NEl ''span'' [attr ''aria-hidden'' ''true''] [textn raquo])]]"

lemma no_page_silent [simp]: "\<not> attr_emits t cs no_page a"
  by (simp add: no_page_def)

lemma Pagination_emits:
  "emits (Pagination page) p \<longleftrightarrow> p = js_succ page \<or> js_gt_one page \<and> p = js_pred page"
  by (cases "js_gt_one page") (auto simp: Pagination_def page_item_def)

lemma to_double_int: "0 \<le> i \<Longrightarrow> i < 2 ^ 53 \<Longrightarrow> to_double (of_int i) = Fin (of_int i)"
  using to_double_nat [of "nat i"] by (simp add: nat_less_iff)

section \<open>Verdicts\<close>

definition verdict_class :: "string \<Rightarrow> string" where
  "verdict_class v =
     (if v \<in> {''OK'', ''CD''} then ''text-success''
      else if v = ''PT'' then ''text-warning''
      else if v \<in> {''WA'', ''WR'', ''RT'', ''ML'', ''TL'', ''WL'', ''SE'', ''CE''} then ''text-danger''
      else if v = ''RU'' then ''text-primary''
      else if v = ''CF'' then ''bg-danger text-black''
      else ''text-black'')"

definition Verdict :: "string \<Rightarrow> prim \<Rightarrow> 'a node" where
  "Verdict v text = NEl ''span'' [cls (verdict_class v)] [textn v, NVal text]"

text \<open>
  The test a running submission is at: the field of the list view when it is set and not zero,
  else the number of results of the full view, else 0.
\<close>

definition running_test :: "nat option \<Rightarrow> 'r list option \<Rightarrow> nat" where
  "running_test current_test test_results =
     (case current_test of
        Some n \<Rightarrow> if n \<noteq> 0 then n else (case test_results of Some rs \<Rightarrow> length rs | None \<Rightarrow> 0)
      | None \<Rightarrow> (case test_results of Some rs \<Rightarrow> length rs | None \<Rightarrow> 0))"

definition SubmissionVerdict :: "string \<Rightarrow> nat option \<Rightarrow> 'r list option \<Rightarrow> 'a node" where
  "SubmissionVerdict v current_test test_results =
     (if v = ''RU'' then
        (let currentTest = running_test current_test test_results
         in if currentTest = 0 then Verdict v (Str '' (compiling)'')
            else Verdict v (Str ('' ('' @ string_of_nat currentTest @ '')'')))
      else Verdict v Null)"

section \<open>Resources\<close>

definition RenderResource :: "string \<Rightarrow> prim \<Rightarrow> prim \<Rightarrow> 'a node" where
  "RenderResource name data error =
     (if \<not> truthy data \<and> \<not> truthy error then null_node
      else
        (let wrapContent = (\<lambda>content. NEl ''div'' []
               [NEl ''p'' [cls ''m-0''] [textn name],
                NEl ''div'' []
                  [NEl ''pre''
                     [cls ''bg-black bg-opacity-10 overflow-scroll d-inline-block submission_resource'']
                     [content]]])
         in if truthy error then wrapContent (NEl ''span'' [cls ''text-danger''] [NVal error])
            else wrapContent (NVal data)))"

section \<open>Requests and alerts\<close>

text \<open>A request: its method and its path.\<close>

record http_request =
  http_method :: string
  http_url :: string

text \<open>
  How a request of axios ends: fulfilled with the body of the reply (its error, message and
  response properties), or rejected with the error property of the reply's body, or with no reply
  at all, when reading \<^verbatim>\<open>err.response.data\<close> throws.
\<close>

record 'r reply =
  reply_error :: prim
  reply_message :: prim
  reply_response :: 'r

datatype 'r outcome = Fulfilled "'r reply" | Rejected "prim option"

record alert =
  hasAlert :: bool
  alert_ok :: bool
  alert_message :: prim

definition no_alert :: alert where
  "no_alert = \<lparr>hasAlert = False, alert_ok = False, alert_message = Str ''''\<rparr>"

definition ChangeAlert :: "alert \<Rightarrow> 'a node" where
  "ChangeAlert al =
     (if \<not> hasAlert al then null_node
      else if alert_ok al
      then NEl ''div'' [cls ''alert alert-success mt-3'', attr ''role'' ''alert''] [NVal (alert_message al)]
      else NEl ''div'' [cls ''alert alert-danger mt-3'', attr ''role'' ''alert''] [NVal (alert_message al)])"

text \<open>
  What settling a request asks for: a new alert, a timer (in milliseconds) that clears it, an
  effect of the caller's success callback; and an exception that no handler catches.
\<close>

datatype 'e alert_cmd = SetAlert alert | ClearAfter nat | Run 'e

type_synonym 'e settled = "'e alert_cmd list \<times> js_error option"

text \<open>
  The rejection handler also runs when the fulfilment handler throws; such an error has no
  response, and the handler throws itself.
\<close>

definition alert_catch :: "prim option \<Rightarrow> 'e settled" where
  "alert_catch r =
     (case r of
        Some e \<Rightarrow> ([SetAlert \<lparr>hasAlert = True, alert_ok = False, alert_message = e\<rparr>, ClearAfter 3000], None)
      | None \<Rightarrow> ([], Some TypeError))"

definition SendAlertRequest :: "('r \<Rightarrow> js_error + 'e list) option \<Rightarrow> 'r outcome \<Rightarrow> 'e settled" where
  "SendAlertRequest onOK out =
     (case out of
        Fulfilled resp \<Rightarrow>
          (if \<not> truthy (reply_error resp) then
             (case onOK of
                Some f \<Rightarrow> (case f (reply_response resp) of
                    Inr es \<Rightarrow> (map Run es @ [ClearAfter 3000], None)
                  | Inl _ \<Rightarrow> alert_catch None)
              | None \<Rightarrow> ([SetAlert \<lparr>hasAlert = True, alert_ok = True, alert_message = Str ''Saved changes''\<rparr>,
                         ClearAfter 3000], None))
           else ([SetAlert \<lparr>hasAlert = False, alert_ok = False, alert_message = reply_message resp\<rparr>,
                  ClearAfter 3000], None))
      | Rejected r \<Rightarrow> alert_catch r)"

text \<open>The alerts that become visible while a request settles.\<close>

definition shown_alerts :: "'e alert_cmd list \<Rightarrow> alert list" where
  "shown_alerts cs = concat (map (\<lambda>c. case c of SetAlert a \<Rightarrow> if hasAlert a then [a] else [] | _ \<Rightarrow> []) cs)"

lemma shown_alerts_simps [simp]:
  "shown_alerts [] = []"
  "shown_alerts (SetAlert a # cs) = (if hasAlert a then a # shown_alerts cs else shown_alerts cs)"
  "shown_alerts (ClearAfter n # cs) = shown_alerts cs"
  "shown_alerts (Run e # cs) = shown_alerts cs"
  by (simp_all add: shown_alerts_def)

lemma shown_alerts_run [simp]: "shown_alerts (map Run es @ cs) = shown_alerts cs"
  by (induction es) auto

section \<open>Filters of the submission list\<close>

text \<open>An object of query parameters: its keys in the order of insertion, each once.\<close>

type_synonym query = "(string \<times> string) list"

datatype filter_event = SetFilterParams query | SetParams query

definition changeParam :: "query \<Rightarrow> string \<Rightarrow> string \<Rightarrow> query" where
  "changeParam params key v = (if v = '''' then AList.delete key params else AList.update key v params)"

definition filter_field :: "query \<Rightarrow> string \<Rightarrow> string \<Rightarrow> string \<Rightarrow> string \<Rightarrow> filter_event node" where
  "filter_field params type name placeholder caption =
     div_node ''col-12 col-md-3''
       [div_node ''form-floating''
         [NEl ''input''
            [cls ''form-control'', attr ''type'' type, attr ''name'' name, attr ''id'' name,
             attr ''placeholder'' placeholder,
             attr ''value'' (case map_of params name of Some s \<Rightarrow> s | None \<Rightarrow> ''''),
             AHandler ''onChange'' (\<lambda>v. [Do (SetFilterParams (changeParam params name v))])]
            [],
          NEl ''label'' [attr ''htmlFor'' name] [textn caption]]]"

definition FiltersForm :: "query \<Rightarrow> filter_event node" where
  "FiltersForm params =
     div_node ''row''
       [filter_field params ''number'' ''problem_id'' ''Problem ID'' ''ProblemID'',
        filter_field params ''text'' ''language'' ''Language'' ''Language'',
        filter_field params ''text'' ''verdict'' ''Verdict'' ''Verdict'',
        NEl ''button'' [cls ''btn btn-primary col-12 col-md-3'', on_click (SetParams params)] [textn ''Filter'']]"

lemma FiltersForm_emits:
  "emits (FiltersForm params) (SetParams q) \<longleftrightarrow> q = params"
  "emits (FiltersForm params) (SetFilterParams q) \<longleftrightarrow>
     (\<exists>k \<in> {''problem_id'', ''language'', ''verdict''}. \<exists>v. q = changeParam params k v)"
  by (auto simp: FiltersForm_def filter_field_def)

end
