(* ===== verification/JsSubmission.thy ===== *)
theory JsSubmission
  imports JsWidgets
begin

text \<open>
  components/submission/TestData.jsx: the part of the submission page that shows the data of the
  tests on demand.  It is a reducer over one entry per test, a view of a row, and a watcher that
  requests the data of a test when its row is opened.  The objects of the entries are shared between
  the old and the new list; no part of the page reads the old list again, so the model updates by value.
\<close>

section \<open>Submissions as the server sends them\<close>

record test_result =
  test_number :: nat
  tr_verdict :: string
  points :: prim
  time :: prim
  memory :: prim
  wall_time :: prim
  exit_code :: prim
  tr_error :: prim

record group_result =
  group_name :: prim
  group_points :: prim
  passed :: bool

record submission =
  sub_id :: nat
  problem_id :: nat
  language :: string
  score :: prim
  sub_verdict :: string
  current_test :: "nat option"
  created_at :: prim
  updated_at :: prim
  test_results :: "test_result list option"
  compilation_result :: "test_result option"
  group_results :: "group_result list option"

text \<open>A file that the server sends; the response of a reply may be absent.\<close>

record file_data =
  file_name :: prim
  file_text :: prim

section \<open>Test data\<close>

record resource =
  res_data :: prim
  res_error :: prim

definition no_resource :: resource where
  "no_resource = \<lparr>res_data = Undef, res_error = Undef\<rparr>"

record test_data =
  show_test :: bool
  requested_test :: bool
  t_input :: resource
  t_output :: resource
  t_answer :: resource
  t_stderr :: resource
  t_checker :: resource

definition closed_test :: test_data where
  "closed_test = \<lparr>show_test = False, requested_test = False, t_input = no_resource,
     t_output = no_resource, t_answer = no_resource, t_stderr = no_resource, t_checker = no_resource\<rparr>"

text \<open>
  \<open>InitTests\<close> is the action named submission; \<open>TestAct a t d e\<close> any other action \<open>a\<close> for test
  \<open>t\<close> with data \<open>d\<close> and error \<open>e\<close> (undefined when absent).
\<close>

datatype test_action = InitTests submission | TestAct string nat prim prim

definition set_resource :: "string \<Rightarrow> resource \<Rightarrow> test_data \<Rightarrow> js_error + test_data" where
  "set_resource a r t =
     (if a = ''input'' then Inr (t\<lparr>t_input := r\<rparr>)
      else if a = ''output'' then Inr (t\<lparr>t_output := r\<rparr>)
      else if a = ''answer'' then Inr (t\<lparr>t_answer := r\<rparr>)
      else if a = ''stderr'' then Inr (t\<lparr>t_stderr := r\<rparr>)
      else if a = ''checker'' then Inr (t\<lparr>t_checker := r\<rparr>)
      else Inl TypeError)"

fun TestDataReducer :: "test_data list \<Rightarrow> test_action \<Rightarrow> js_error + test_data list" where
  "TestDataReducer tests (InitTests sub) =
     (case test_results sub of None \<Rightarrow> Inl TypeError
      | Some rs \<Rightarrow> Inr (map (\<lambda>_. closed_test) rs))"
| "TestDataReducer tests (TestAct a testID d e) =
     (if testID < 1 \<or> length tests < testID then Inl (ThrownError ''Invalid test ID'')
      else
        (let t = tests ! (testID - 1) in
         if a = ''show'' then Inr (tests[testID - 1 := t\<lparr>show_test := \<not> show_test t\<rparr>])
         else if a = ''request'' then Inr (tests[testID - 1 := t\<lparr>requested_test := True\<rparr>])
         else bindE (set_resource a \<lparr>res_data = d, res_error = e\<rparr> t)
                (\<lambda>t'. Inr (tests[testID - 1 := t']))))"

definition or_empty :: "prim \<Rightarrow> 'a node" where
  "or_empty v = NVal (js_or v (Str ''''))"

definition show_resource :: "string \<Rightarrow> resource \<Rightarrow> 'a node" where
  "show_resource name r = RenderResource name (res_data r) (res_error r)"

definition RenderTest :: "test_data option \<Rightarrow> test_result \<Rightarrow> test_action node" where
  "RenderTest test tr =
     (let shown = (case test of Some t \<Rightarrow> show_test t | None \<Rightarrow> False) in
      NFrag
       [NEl ''tr'' [AVal ''key'' (num (int (test_number tr)))]
          [NEl ''td'' [] [NVal (num (int (test_number tr)))],
           NEl ''td'' [] [Verdict (tr_verdict tr) Null],
           NEl ''td'' [] [or_empty (points tr)],
           NEl ''td'' [] [or_empty (time tr)],
           NEl ''td'' [] [or_empty (memory tr)],
           NEl ''td'' [] [or_empty (wall_time tr)],
           NEl ''td'' [] [if nullish (exit_code tr) then textn '''' else NVal (exit_code tr)],
           NEl ''td'' []
             [NEl ''a'' [attr ''href'' ''#'', on_click (TestAct ''show'' (test_number tr) Undef Undef)]
               [textn (if shown then ''Hide test data'' else ''Show test data'')]]],
        (case test of
           Some t \<Rightarrow> (if show_test t then
             NEl ''tr'' [attr ''key'' (string_of_nat (test_number tr) @ ''-data'')]
               [NEl ''td'' [attr ''colSpan'' ''8'']
                 [RenderResource ''Error'' (tr_error tr) Null,
                  show_resource ''Input'' (t_input t),
                  show_resource ''Output'' (t_output t),
                  show_resource ''Stderr'' (t_stderr t),
                  show_resource ''Answer'' (t_answer t),
                  show_resource ''Checker'' (t_checker t)]]
             else null_node)
         | None \<Rightarrow> null_node)])"

text \<open>A request for one resource of test \<open>k\<close>: the path, and the action that takes the reply.\<close>

record test_request =
  treq_url :: string
  treq_action :: string
  treq_test :: nat

definition test_requests :: "submission \<Rightarrow> nat \<Rightarrow> test_request list" where
  "test_requests sub k =
     (let requestTest = (\<lambda>url action. \<lparr>treq_url = url, treq_action = action, treq_test = k\<rparr>);
          problem = ''/api/get/problem/'' @ string_of_nat (problem_id sub) @ ''/test/'' @ string_of_nat k;
          submission = ''/api/get/submission/'' @ string_of_nat (sub_id sub) @ ''/test/'' @ string_of_nat k
      in [requestTest (problem @ ''/input'') ''input'',
          requestTest (problem @ ''/answer'') ''answer'',
          requestTest (submission @ ''/output'') ''output'',
          requestTest (submission @ ''/check'') ''checker'',
          requestTest (submission @ ''/stderr'') ''stderr''])"

text \<open>The first test that is shown and not yet requested.\<close>

definition first_pending :: "test_data list \<Rightarrow> nat option" where
  "first_pending tests = index_where (\<lambda>t. show_test t \<and> \<not> requested_test t) tests"

definition WatchTestData :: "submission option \<Rightarrow> test_data list \<Rightarrow> (test_action, test_request) watch_cmd list" where
  "WatchTestData sub tests =
     (case sub of None \<Rightarrow> []
      | Some s \<Rightarrow>
         if test_results s = None then []
         else if length tests = 0 then [Dispatch (InitTests s)]
         else (case first_pending tests of None \<Rightarrow> []
           | Some i \<Rightarrow> Dispatch (TestAct ''request'' (i + 1) Undef Undef)
                        # map Fetch (test_requests s (i + 1))))"

text \<open>
  The reply to a request.  Without a response in its body the fulfilment handler throws, the
  rejection handler then throws too, and nothing is dispatched.
\<close>

definition test_reply :: "test_request \<Rightarrow> file_data option outcome \<Rightarrow> js_error + test_action" where
  "test_reply r out =
     (case out of
        Fulfilled resp \<Rightarrow> (case reply_response resp of
            Some f \<Rightarrow> Inr (TestAct (treq_action r) (treq_test r) (file_text f) (reply_error resp))
          | None \<Rightarrow> Inl TypeError)
      | Rejected (Some e) \<Rightarrow> Inr (TestAct (treq_action r) (treq_test r) Undef e)
      | Rejected None \<Rightarrow> Inl TypeError)"

section \<open>Properties of the test data\<close>

lemma RenderResource_silent [simp]: "\<not> emits (RenderResource n d e) a"
  by (simp add: RenderResource_def Let_def)

lemma Verdict_silent [simp]: "\<not> emits (Verdict v t) a"
  by (simp add: Verdict_def)

lemma RenderTest_emits:
  "emits (RenderTest t tr) a \<longleftrightarrow> a = TestAct ''show'' (test_number tr) Undef Undef"
  by (cases t) (auto simp: RenderTest_def or_empty_def show_resource_def Let_def)

text \<open>What the pages shows for a result: \<^verbatim>\<open>tests[testResult.test_number - 1]\<close>.\<close>

definition test_at :: "test_data list \<Rightarrow> nat \<Rightarrow> test_data option" where
  "test_at tests k = (if 1 \<le> k \<and> k \<le> length tests then Some (tests ! (k - 1)) else None)"

text \<open>
  Everything that dispatches to the test data of a submission: its rows, the watcher, and the
  replies to the requests for its tests.
\<close>

definition test_dispatch :: "submission \<Rightarrow> test_data list \<Rightarrow> test_action \<Rightarrow> bool" where
  "test_dispatch sub tests a \<longleftrightarrow>
     (\<exists>tr \<in> set (the (test_results sub)). emits (RenderTest (test_at tests (test_number tr)) tr) a) \<or>
     a \<in> set (dispatched (WatchTestData (Some sub) tests)) \<or>
     (\<exists>k r out. 1 \<le> k \<and> k \<le> length tests \<and> r \<in> set (test_requests sub k) \<and> test_reply r out = Inr a)"

text \<open>One entry for every result, and results with the numbers of the entries.\<close>

definition tests_ok :: "submission \<Rightarrow> test_data list \<Rightarrow> bool" where
  "tests_ok sub tests \<longleftrightarrow>
     (case test_results sub of None \<Rightarrow> False
      | Some rs \<Rightarrow> length tests = length rs \<and>
          (\<forall>tr \<in> set rs. 1 \<le> test_number tr \<and> test_number tr \<le> length rs))"

lemma watch_dispatches:
  "a \<in> set (dispatched (WatchTestData (Some sub) ts)) \<longleftrightarrow>
     test_results sub \<noteq> None \<and>
     (if ts = [] then a = InitTests sub
      else \<exists>i. first_pending ts = Some i \<and> a = TestAct ''request'' (i + 1) Undef Undef)"
  by (auto simp: WatchTestData_def split: option.splits)

lemma watch_fetches:
  "fetched (WatchTestData (Some sub) ts) =
     (case first_pending ts of
        Some i \<Rightarrow> if test_results sub = None then [] else test_requests sub (i + 1)
      | None \<Rightarrow> [])"
  by (cases ts) (auto simp: WatchTestData_def first_pending_def split: option.splits)

lemma first_pending_bound: "first_pending ts = Some i \<Longrightarrow> i < length ts"
  using index_where_Some unfolding first_pending_def by blast

lemma request_fields:
  "r \<in> set (test_requests sub k) \<Longrightarrow> treq_test r = k \<and>
     treq_action r \<in> {''input'', ''answer'', ''output'', ''checker'', ''stderr''}"
  by (auto simp: test_requests_def Let_def)

lemma reply_action:
  "test_reply r out = Inr a \<Longrightarrow> \<exists>d e. a = TestAct (treq_action r) (treq_test r) d e"
  by (auto simp: test_reply_def split: outcome.splits option.splits)

lemma set_resource_total:
  "a \<in> {''input'', ''answer'', ''output'', ''checker'', ''stderr''} \<Longrightarrow> \<exists>t'. set_resource a r t = Inr t'"
  by (auto simp: set_resource_def)

lemma set_resource_keeps:
  "set_resource a r t = Inr t' \<Longrightarrow> show_test t' = show_test t \<and> requested_test t' = requested_test t"
  by (auto simp: set_resource_def split: if_splits)

text \<open>The shapes of the actions that are dispatched.\<close>

definition known_action :: "nat \<Rightarrow> test_action \<Rightarrow> bool" where
  "known_action n a \<longleftrightarrow>
     (case a of InitTests s \<Rightarrow> False
      | TestAct x k d e \<Rightarrow> 1 \<le> k \<and> k \<le> n \<and>
          x \<in> {''show'', ''request'', ''input'', ''answer'', ''output'', ''checker'', ''stderr''})"

lemma known_action_runs:
  assumes "known_action (length ts) a"
  shows "\<exists>ts'. TestDataReducer ts a = Inr ts' \<and> length ts' = length ts"
proof (cases a)
  case (InitTests s)
  with assms show ?thesis by (simp add: known_action_def)
next
  case (TestAct x k d e)
  with assms have k: "1 \<le> k" "k \<le> length ts"
    and x: "x = ''show'' \<or> x = ''request'' \<or> x \<in> {''input'', ''answer'', ''output'', ''checker'', ''stderr''}"
    by (auto simp: known_action_def)
  from x show ?thesis
  proof (elim disjE)
    assume "x \<in> {''input'', ''answer'', ''output'', ''checker'', ''stderr''}"
    from set_resource_total [OF this] obtain t'
      where "set_resource x \<lparr>res_data = d, res_error = e\<rparr> (ts ! (k - 1)) = Inr t'" by blast
    with k TestAct show ?thesis by (simp add: Let_def)
  qed (use k TestAct in \<open>simp_all add: Let_def\<close>)
qed

lemma dispatch_cases:
  assumes ok: "tests_ok sub ts" and d: "test_dispatch sub ts a"
  shows "a = InitTests sub \<or> known_action (length ts) a"
proof -
  from ok obtain rs where rs: "test_results sub = Some rs" "length ts = length rs"
    and nums: "\<forall>tr \<in> set rs. 1 \<le> test_number tr \<and> test_number tr \<le> length rs"
    by (auto simp: tests_ok_def split: option.splits)
  from d consider
      (row) tr where "tr \<in> set rs" "a = TestAct ''show'' (test_number tr) Undef Undef"
    | (watch) "a \<in> set (dispatched (WatchTestData (Some sub) ts))"
    | (reply) k r out where "1 \<le> k" "k \<le> length ts" "r \<in> set (test_requests sub k)" "test_reply r out = Inr a"
    by (auto simp: test_dispatch_def RenderTest_emits rs)
  then show ?thesis
  proof cases
    case row
    with nums rs show ?thesis by (simp add: known_action_def)
  next
    case watch
    then show ?thesis
      by (auto simp: watch_dispatches known_action_def dest!: first_pending_bound split: if_splits)
  next
    case reply
    with reply_action [of r out a] request_fields [of r sub k] show ?thesis
      by (fastforce simp: known_action_def)
  qed
qed

lemma tests_accept:
  assumes ok: "tests_ok sub ts" and d: "test_dispatch sub ts a"
  shows "\<exists>ts'. TestDataReducer ts a = Inr ts' \<and> tests_ok sub ts'"
  using dispatch_cases [OF assms]
proof
  assume "a = InitTests sub"
  with ok show ?thesis by (auto simp: tests_ok_def split: option.splits)
next
  assume "known_action (length ts) a"
  from known_action_runs [OF this] ok show ?thesis by (auto simp: tests_ok_def split: option.splits)
qed

interpretation test_data: reducer TestDataReducer "test_dispatch sub" "tests_ok sub"
  by unfold_locales (rule tests_accept)
section \<open>The test watcher\<close>

text \<open>The tests that are shown and not yet requested: what the watcher has still to do.\<close>

definition pending :: "test_data list \<Rightarrow> test_data list" where
  "pending ts = filter (\<lambda>t. show_test t \<and> \<not> requested_test t) ts"

definition test_work :: "test_data list \<Rightarrow> nat" where
  "test_work ts = length (pending ts)"

lemma request_runs:
  assumes "i < length ts"
  shows "TestDataReducer ts (TestAct ''request'' (i + 1) d e) =
    Inr (ts[i := (ts ! i)\<lparr>requested_test := True\<rparr>])"
  using assms by (simp add: Let_def)

lemma filter_update_less:
  assumes "i < length xs" and "P (xs ! i)" and "\<not> P y"
  shows "length (filter P (xs[i := y])) < length (filter P xs)"
proof -
  have "xs = take i xs @ xs ! i # drop (Suc i) xs" using assms(1) by (simp add: id_take_nth_drop)
  then have "filter P xs = filter P (take i xs) @ xs ! i # filter P (drop (Suc i) xs)"
    using assms(2) by (metis filter.simps(2) filter_append)
  moreover have "filter P (xs[i := y]) = filter P (take i xs) @ filter P (drop (Suc i) xs)"
    using assms(1,3) by (simp add: upd_conv_take_nth_drop)
  ultimately show ?thesis by simp
qed

lemma test_watch_progress:
  assumes ok: "tests_ok sub ts \<and> ts \<noteq> []" and d: "dispatched (WatchTestData (Some sub) ts) \<noteq> []"
  shows "\<exists>t. foldE TestDataReducer ts (dispatched (WatchTestData (Some sub) ts)) = Inr t
    \<and> (tests_ok sub t \<and> t \<noteq> []) \<and> test_work t < test_work ts"
proof -
  from ok obtain rs where rs: "test_results sub = Some rs" by (auto simp: tests_ok_def split: option.splits)
  from d ok rs obtain i where i: "first_pending ts = Some i"
    by (auto simp: WatchTestData_def split: option.splits)
  then have P: "i < length ts" "show_test (ts ! i)" "\<not> requested_test (ts ! i)"
    using index_where_Some unfolding first_pending_def by blast+
  let ?t = "ts[i := (ts ! i)\<lparr>requested_test := True\<rparr>]"
  have run: "dispatched (WatchTestData (Some sub) ts) = [TestAct ''request'' (i + 1) Undef Undef]"
    using ok rs i by (simp add: WatchTestData_def)
  have "test_dispatch sub ts (TestAct ''request'' (i + 1) Undef Undef)"
    by (simp add: test_dispatch_def run)
  with ok tests_accept request_runs [OF P(1)] have "tests_ok sub ?t" by fastforce
  moreover have "test_work ?t < test_work ts"
    unfolding test_work_def pending_def by (rule filter_update_less) (use P in simp_all)
  ultimately show ?thesis using run request_runs [OF P(1)] ok by simp
qed

interpretation test_watch: watcher TestDataReducer "WatchTestData (Some sub)"
  "\<lambda>ts. tests_ok sub ts \<and> ts \<noteq> []" test_work
  by unfold_locales (rule test_watch_progress)

lemma at_rest_requested:
  assumes "dispatched (WatchTestData (Some sub) ts) = []" and "tests_ok sub ts"
  shows "\<forall>t \<in> set ts. show_test t \<longrightarrow> requested_test t"
  using assms
  by (auto simp: WatchTestData_def tests_ok_def first_pending_def index_where_None
      split: option.splits if_splits)

text \<open>With a result list that is empty the watcher initialises an empty list for ever.\<close>

lemma settle_no_results:
  assumes "test_results sub = Some []"
  shows "settle TestDataReducer (WatchTestData (Some sub)) n [] = None"
  using assms by (induction n) (simp_all add: WatchTestData_def Let_def)

section \<open>Runs of the test data\<close>

text \<open>
  A history of the page: the user opens and closes rows, the watcher runs, and replies arrive, in
  any order and any number of times; \<open>rq\<close> are the requests sent so far.
\<close>

inductive test_run :: "submission \<Rightarrow> test_data list \<Rightarrow> test_request list \<Rightarrow> bool" for sub where
  start: "test_run sub [] []"
| user: "test_run sub ts rq \<Longrightarrow> tr \<in> set (the (test_results sub)) \<Longrightarrow>
    emits (RenderTest (test_at ts (test_number tr)) tr) a \<Longrightarrow>
    TestDataReducer ts a = Inr ts' \<Longrightarrow> test_run sub ts' rq"
| watch: "test_run sub ts rq \<Longrightarrow> cs = WatchTestData (Some sub) ts \<Longrightarrow>
    foldE TestDataReducer ts (dispatched cs) = Inr ts' \<Longrightarrow> test_run sub ts' (rq @ fetched cs)"
| reply: "test_run sub ts rq \<Longrightarrow> r \<in> set rq \<Longrightarrow> test_reply r out = Inr a \<Longrightarrow>
    TestDataReducer ts a = Inr ts' \<Longrightarrow> test_run sub ts' rq"

lemma requests_distinct: "distinct (test_requests sub k)"
  by (simp add: test_requests_def Let_def)

definition run_inv :: "test_data list \<Rightarrow> test_request list \<Rightarrow> bool" where
  "run_inv ts rq \<longleftrightarrow> distinct rq \<and>
     (\<forall>r \<in> set rq. 1 \<le> treq_test r \<and> treq_test r \<le> length ts \<and> requested_test (ts ! (treq_test r - 1)) \<and>
        treq_action r \<in> {''input'', ''answer'', ''output'', ''checker'', ''stderr''})"

lemma run_inv_step:
  assumes "run_inv ts rq" and "length ts' = length ts"
    and "\<And>i. i < length ts \<Longrightarrow> requested_test (ts ! i) \<Longrightarrow> requested_test (ts' ! i)"
  shows "run_inv ts' rq"
  using assms unfolding run_inv_def by fastforce

lemma act_keeps_requested:
  assumes "TestDataReducer ts (TestAct x k d e) = Inr ts'"
  shows "length ts' = length ts \<and> (\<forall>i < length ts. requested_test (ts ! i) \<longrightarrow> requested_test (ts' ! i))"
  using assms
  by (auto simp: Let_def bindE_def nth_list_update set_resource_keeps split: if_splits sum.splits)

lemma act_run_inv: "run_inv ts rq \<Longrightarrow> TestDataReducer ts (TestAct x k d e) = Inr ts' \<Longrightarrow> run_inv ts' rq"
  using act_keeps_requested [of ts x k d e ts'] run_inv_step [of ts rq ts'] by blast

lemma run_inv_no_tests: "run_inv [] rq \<Longrightarrow> rq = []"
  unfolding run_inv_def by (metis le_zero_eq list.set_intros(1) list.size(3) neq_Nil_conv not_one_le_zero)

lemma run_inv_no_requests [simp]: "run_inv ts []"
  by (simp add: run_inv_def)

lemma watch_run_inv:
  assumes inv: "run_inv ts rq" and step: "foldE TestDataReducer ts (dispatched (WatchTestData (Some sub) ts)) = Inr ts'"
  shows "run_inv ts' (rq @ fetched (WatchTestData (Some sub) ts))"
proof (cases "test_results sub = None \<or> ts = []")
  case True
  then show ?thesis
  proof
    assume "test_results sub = None"
    with inv step show ?thesis by (simp add: WatchTestData_def)
  next
    assume "ts = []"
    with inv run_inv_no_tests have "rq = []" by blast
    with \<open>ts = []\<close> show ?thesis by (simp add: watch_fetches first_pending_def)
  qed
next
  case False
  then obtain rs where rs: "test_results sub = Some rs" "ts \<noteq> []" by auto
  show ?thesis
  proof (cases "first_pending ts")
    case None
    with inv step rs show ?thesis by (simp add: WatchTestData_def)
  next
    case (Some i)
    then have P: "i < length ts" "\<not> requested_test (ts ! i)"
      using index_where_Some unfolding first_pending_def by blast+
    from step rs Some request_runs [OF P(1)]
    have ts': "ts' = ts[i := (ts ! i)\<lparr>requested_test := True\<rparr>]" by (simp add: WatchTestData_def)
    have "run_inv ts' rq"
      by (rule run_inv_step [OF inv]) (use P in \<open>auto simp: ts' nth_list_update\<close>)
    moreover have "set rq \<inter> set (test_requests sub (i + 1)) = {}"
      using inv P request_fields [of _ sub "i + 1"] by (fastforce simp: run_inv_def)
    ultimately show ?thesis
      using rs Some P requests_distinct [of sub "i + 1"] request_fields [of _ sub "i + 1"]
      by (auto simp: run_inv_def WatchTestData_def ts')
  qed
qed

lemma test_run_inv: "test_run sub ts rq \<Longrightarrow> run_inv ts rq"
proof (induction rule: test_run.induct)
  case start
  show ?case by (simp add: run_inv_def)
next
  case (user ts rq tr a ts')
  then show ?case by (auto simp: RenderTest_emits simp del: TestDataReducer.simps intro: act_run_inv)
next
  case (watch ts rq cs ts')
  then show ?case by (simp add: watch_run_inv)
next
  case (reply ts rq r out a ts')
  then obtain d e where "a = TestAct (treq_action r) (treq_test r) d e" using reply_action by blast
  with reply show ?case by (auto simp del: TestDataReducer.simps intro: act_run_inv)
qed

end
