(* ===== verification/JsCompilation.thy ===== *)
theory JsCompilation
  imports JsSubmission
begin

text \<open>
  components/submission/CompilationData.jsx: the compiler's result and the source of a submission,
  requested when the user opens them.  The highlighter of the source is a component of a library: a
  parameter that gives, for a language and a code, the properties of each line and of each token.
\<close>

section \<open>State\<close>

record file_resource =
  cr_data :: prim
  cr_filename :: prim
  cr_error :: prim

record compilation_data =
  show_compilation :: bool
  requested_compilation :: bool
  c_source :: file_resource
  c_compilation_output :: file_resource

definition no_file :: file_resource where
  "no_file = \<lparr>cr_data = Undef, cr_filename = Undef, cr_error = Undef\<rparr>"

definition InitialCompilationData :: compilation_data where
  "InitialCompilationData =
     \<lparr>show_compilation = False, requested_compilation = False, c_source = no_file, c_compilation_output = no_file\<rparr>"

text \<open>An action with its name, data, file name and error (undefined when absent).\<close>

datatype compilation_action = CompAct string prim prim prim

fun CompilationDataReducer :: "compilation_data \<Rightarrow> compilation_action \<Rightarrow> js_error + compilation_data" where
  "CompilationDataReducer c (CompAct a d f e) =
     (if a = ''show'' then Inr (c\<lparr>show_compilation := \<not> show_compilation c\<rparr>)
      else if a = ''request'' then Inr (c\<lparr>requested_compilation := True\<rparr>)
      else if a = ''source'' then
        Inr (c\<lparr>c_source := \<lparr>cr_data = d, cr_filename = f, cr_error = e\<rparr>\<rparr>)
      else if a = ''compilation_output'' then
        Inr (c\<lparr>c_compilation_output := \<lparr>cr_data = d, cr_filename = f, cr_error = e\<rparr>\<rparr>)
      else Inl TypeError)"

section \<open>View\<close>

text \<open>The extension of a file name when it has at most 5 characters, else the language.\<close>

definition getLanguageExtension :: "prim \<Rightarrow> string \<Rightarrow> js_error + string" where
  "getLanguageExtension filename lang =
     (case filename of
        Str s \<Rightarrow>
          (let ext = last (split_on CHR ''.'' s);
               fileExt = (if 5 < js_length ext then lang else ext)
           in Inr (if fileExt = ''c'' \<or> fileExt = ''gcc'' then ''c''
                   else if fileExt = ''py'' \<or> fileExt = ''python'' \<or> fileExt = ''python3'' \<or>
                           fileExt = ''pypy'' \<or> fileExt = ''pypy3'' then ''py''
                   else if fileExt = ''java'' then ''java''
                   else if fileExt = ''go'' then ''go''
                   else if fileExt = ''js'' \<or> fileExt = ''jsx'' then ''jsx''
                   else ''cpp''))
      | _ \<Rightarrow> Inl TypeError)"

text \<open>
  What the highlighter computes for a code in a language: the class and style of the block, and the
  attributes of every line (\<^verbatim>\<open>getLineProps\<close>) and of its tokens (\<^verbatim>\<open>getTokenProps\<close>).
\<close>

record highlighted =
  hl_class :: prim
  hl_style :: prim
  hl_lines :: "((string \<times> prim) list \<times> (string \<times> prim) list list) list"

definition spread :: "(string \<times> prim) list \<Rightarrow> 'a attr list" where
  "spread ps = map (\<lambda>(n, v). AVal n v) ps"

definition source_line :: "nat \<Rightarrow> (string \<times> prim) list \<times> (string \<times> prim) list list \<Rightarrow> 'a node" where
  "source_line i line =
     NEl ''div'' (AVal ''key'' (num (int i)) # spread (fst line))
       [NEl ''span'' [cls ''line-num''] [NVal (num (int i + 1))],
        NEl ''span'' [cls ''line-content'']
          [NFrag (mapi (\<lambda>key token. NEl ''span'' (AVal ''key'' (num (int key)) # spread token) []) (snd line))]]"

text \<open>The theme, a constant of the highlighter, is not among the attributes.\<close>

definition renderSourceCode ::
    "(string \<Rightarrow> prim \<Rightarrow> highlighted) \<Rightarrow> submission \<Rightarrow> file_resource \<Rightarrow> js_error + 'a node" where
  "renderSourceCode highlight sub sourceCode =
     (if truthy (cr_error sourceCode) \<or> \<not> truthy (cr_data sourceCode)
      then Inr (RenderResource ''Source code'' Null (cr_error sourceCode))
      else bindE (getLanguageExtension (cr_filename sourceCode) (language sub)) (\<lambda>lang.
        let h = highlight lang (cr_data sourceCode) in
        Inr (NEl ''div'' []
          [NEl ''p'' [cls ''m-0''] [textn ''Source code''],
           NEl ''div'' []
             [NEl ''Highlight'' [attr ''language'' lang, AVal ''code'' (cr_data sourceCode)]
               [NEl ''pre'' [AVal ''className'' (hl_class h), AVal ''style'' (hl_style h)]
                 [NFrag (mapi source_line (hl_lines h))]]]])))"

definition scope_row :: "string \<Rightarrow> 'a node" where
  "scope_row s = NEl ''th'' [attr ''scope'' ''row''] [textn s]"

definition RenderCompilationData ::
    "(string \<Rightarrow> prim \<Rightarrow> highlighted) \<Rightarrow> compilation_data \<Rightarrow> submission \<Rightarrow> js_error + compilation_action node" where
  "RenderCompilationData highlight c sub =
     (case compilation_result sub of
        None \<Rightarrow> Inr (NVal Undef)
      | Some r \<Rightarrow>
          bindE (if show_compilation c
                 then bindE (renderSourceCode highlight sub (c_source c)) (\<lambda>src. Inr (NFrag
                   [RenderResource ''Error'' Null (tr_error r),
                    src,
                    RenderResource ''Compilation message'' (cr_data (c_compilation_output c))
                      (cr_error (c_compilation_output c))]))
                 else Inr null_node)
            (\<lambda>details. Inr (NFrag
              [NEl ''h5'' [cls ''mb-3''] [textn ''Compilation result''],
               NEl ''table'' [cls ''table mb-3'']
                 [NEl ''thead'' [] [NEl ''tr'' []
                   [scope_row ''Verdict'', scope_row ''Time'', scope_row ''Memory'', scope_row ''Wall time'',
                    scope_row ''Exit code'', scope_row ''Source code'']],
                  NEl ''tbody'' [] [NEl ''tr'' []
                   [NEl ''td'' [] [Verdict (tr_verdict r) Null],
                    NEl ''td'' [] [or_empty (time r)],
                    NEl ''td'' [] [or_empty (memory r)],
                    NEl ''td'' [] [or_empty (wall_time r)],
                    NEl ''td'' [] [NVal (if nullish (exit_code r) then Str '''' else exit_code r)],
                    NEl ''td'' [] [NEl ''a''
                      [attr ''href'' ''#'', on_click (CompAct ''show'' Undef Undef Undef)] [textn ''Show'']]]]],
               details])))"

section \<open>Watcher\<close>

record compilation_request =
  creq_url :: string
  creq_action :: string

definition WatchCompilationData ::
    "submission option \<Rightarrow> compilation_data \<Rightarrow> (compilation_action, compilation_request) watch_cmd list" where
  "WatchCompilationData sub c =
     (case sub of None \<Rightarrow> []
      | Some s \<Rightarrow>
         if compilation_result s = None then []
         else if \<not> show_compilation c \<or> requested_compilation c then []
         else [Dispatch (CompAct ''request'' Undef Undef Undef),
               Fetch \<lparr>creq_url = ''/api/get/submission/'' @ string_of_nat (sub_id s) @ ''/source'',
                      creq_action = ''source''\<rparr>,
               Fetch \<lparr>creq_url = ''/api/get/submission/'' @ string_of_nat (sub_id s) @ ''/compile_output'',
                      creq_action = ''compilation_output''\<rparr>])"

definition compilation_reply :: "compilation_request \<Rightarrow> file_data option outcome \<Rightarrow> js_error + compilation_action" where
  "compilation_reply r out =
     (case out of
        Fulfilled resp \<Rightarrow> (case reply_response resp of
            Some f \<Rightarrow> Inr (CompAct (creq_action r) (file_text f) (file_name f) (reply_error resp))
          | None \<Rightarrow> Inl TypeError)
      | Rejected (Some e) \<Rightarrow> Inr (CompAct (creq_action r) Undef Undef e)
      | Rejected None \<Rightarrow> Inl TypeError)"

section \<open>Properties\<close>

lemma spread_silent [simp]: "\<not> own_emits t (spread ps) cs a"
  by (induction ps) (auto simp: spread_def)

lemma spread_Cons_silent [simp]: "own_emits t (AVal n v # spread ps) cs a \<longleftrightarrow> False"
  by simp

lemma mapi_silent:
  assumes "\<And>i x. \<not> emits (f i x) a"
  shows "\<forall>n \<in> set (mapi f xs). \<not> emits n a"
  using assms by (auto simp: mapi_def)

lemma source_line_silent [simp]: "\<not> emits (source_line i l) a"
  by (simp add: source_line_def mapi_silent)

lemma renderSourceCode_silent: "renderSourceCode h sub sc = Inr n \<Longrightarrow> \<not> emits n a"
  by (auto simp: renderSourceCode_def Let_def bindE_def mapi_silent split: if_splits sum.splits)

lemma RenderCompilationData_emits:
  assumes "RenderCompilationData h c sub = Inr n" and "emits n a"
  shows "compilation_result sub \<noteq> None \<and> a = CompAct ''show'' Undef Undef Undef"
proof (cases "compilation_result sub")
  case None
  with assms show ?thesis by (auto simp: RenderCompilationData_def)
next
  case (Some r)
  show ?thesis
  proof (cases "show_compilation c")
    case True
    with Some assms(1) obtain src :: "compilation_action node" where src: "renderSourceCode h sub (c_source c) = Inr src"
      by (auto simp: RenderCompilationData_def bindE_def split: sum.splits)
    have "\<not> emits src a" using renderSourceCode_silent [OF src] .
    with assms True Some src show ?thesis
      by (auto simp: RenderCompilationData_def scope_row_def or_empty_def)
  next
    case False
    with assms Some show ?thesis
      by (auto simp: RenderCompilationData_def scope_row_def or_empty_def)
  qed
qed

text \<open>The actions that the view, the watcher and the replies to its requests dispatch.\<close>

definition compilation_dispatch ::
    "(string \<Rightarrow> prim \<Rightarrow> highlighted) \<Rightarrow> submission \<Rightarrow> compilation_data \<Rightarrow> compilation_action \<Rightarrow> bool" where
  "compilation_dispatch h sub c a \<longleftrightarrow>
     (\<exists>n. RenderCompilationData h c sub = Inr n \<and> emits n a) \<or>
     a \<in> set (dispatched (WatchCompilationData (Some sub) c)) \<or>
     (\<exists>r out. creq_action r \<in> {''source'', ''compilation_output''} \<and> compilation_reply r out = Inr a)"

text \<open>
  The source is shown only with a file name: what makes the view's calls of string methods safe.
\<close>

definition named_source :: "compilation_data \<Rightarrow> bool" where
  "named_source c \<longleftrightarrow> truthy (cr_data (c_source c)) \<longrightarrow> truthy (cr_error (c_source c)) \<or>
     (\<exists>s. cr_filename (c_source c) = Str s)"

lemma RenderCompilationData_total:
  "named_source c \<Longrightarrow> \<exists>n. RenderCompilationData h c sub = Inr n"
  by (cases "compilation_result sub")
     (auto simp: RenderCompilationData_def renderSourceCode_def getLanguageExtension_def named_source_def Let_def)

lemma compilation_accept:
  assumes "compilation_dispatch h sub c a"
  shows "\<exists>c'. CompilationDataReducer c a = Inr c'"
proof -
  obtain x d f e where a: "a = CompAct x d f e" by (cases a)
  from assms have "x \<in> {''show'', ''request'', ''source'', ''compilation_output''}"
    unfolding compilation_dispatch_def
  proof (elim disjE exE conjE)
    fix n assume "RenderCompilationData h c sub = Inr n" "emits n a"
    from RenderCompilationData_emits [OF this] a show ?thesis by simp
  next
    assume "a \<in> set (dispatched (WatchCompilationData (Some sub) c))"
    with a show ?thesis by (auto simp: WatchCompilationData_def split: if_splits)
  next
    fix r out assume "creq_action r \<in> {''source'', ''compilation_output''}" "compilation_reply r out = Inr a"
    with a show ?thesis by (auto simp: compilation_reply_def split: outcome.splits option.splits)
  qed
  with a show ?thesis by auto
qed

interpretation compilation_data: reducer CompilationDataReducer "compilation_dispatch h sub" "\<lambda>_. True"
  using compilation_accept by unfold_locales blast

interpretation compilation_watch: watcher CompilationDataReducer "WatchCompilationData sub" "\<lambda>_. True"
  "\<lambda>c. if requested_compilation c then 0 else 1"
  by unfold_locales (auto simp: WatchCompilationData_def split: option.splits if_splits)

end
