(* ===== verification/JsProblemForm.thy ===== *)
theory JsProblemForm
  imports JsView
begin

text \<open>
  components/problem/ProblemForm.jsx: the state of the problem editor, its reducer, and the form
  it renders.  A problem object is its id, its scalar properties (a map, since the code reads and
  writes them by computed names) and the array of its test groups; a group is its scalar
  properties and its optional array of required group names.  The reducer updates the arrays in
  place and returns a shallow copy; the model returns the new contents.
\<close>

section \<open>State and actions\<close>

record jgroup =
  gprops :: props
  required_group_names :: "string list option"

record jproblem =
  pid :: "nat option"
  pprops :: props
  test_groups :: "jgroup list"

text \<open>A problem as the server sends it: the groups may be absent or null.\<close>

record loaded =
  lid :: "nat option"
  lprops :: props
  ltest_groups :: "jgroup list option"

text \<open>
  \<open>LoadProblem\<close> is the action named problem (its payload may be undefined), \<open>ActGroup i ga v\<close>
  the action named group with its group index, group action and value, \<open>Act a v\<close> every other
  action.  Actions dispatched without a value carry the empty string, which their branch ignores.
\<close>

datatype paction =
    LoadProblem "loaded option"
  | Act string string
  | ActGroup nat string string

definition ProblemInitialState :: jproblem where
  "ProblemInitialState = \<lparr>pid = None, pprops = [''problem_type'' \<mapsto> num 1], test_groups = []\<rparr>"

definition gname :: "jgroup \<Rightarrow> prim" where
  "gname g = get_prop (gprops g) ''name''"

definition set_gprop :: "string \<Rightarrow> prim \<Rightarrow> jgroup \<Rightarrow> jgroup" where
  "set_gprop k v g = g\<lparr>gprops := (gprops g)(k \<mapsto> v)\<rparr>"

definition del_gprop :: "string \<Rightarrow> jgroup \<Rightarrow> jgroup" where
  "del_gprop k g = g\<lparr>gprops := (gprops g)(k := None)\<rparr>"

section \<open>The reducer\<close>

text \<open>Removing one name from the required names of one group.\<close>

definition drop_required :: "prim \<Rightarrow> jgroup \<Rightarrow> jgroup" where
  "drop_required oldName g =
     (case required_group_names g of None \<Rightarrow> g
      | Some rs \<Rightarrow> (case oldName of
          Str n \<Rightarrow> (case index_of n rs of None \<Rightarrow> g
                     | Some i \<Rightarrow> g\<lparr>required_group_names := Some (remove_at i rs)\<rparr>)
        | _ \<Rightarrow> g))"

definition removeRequired :: "jgroup list \<Rightarrow> nat \<Rightarrow> js_error + jgroup list" where
  "removeRequired gs idx =
     (if idx < length gs then Inr (map (drop_required (gname (gs ! idx))) gs) else Inl TypeError)"

definition update_group :: "jgroup list \<Rightarrow> nat \<Rightarrow> (jgroup \<Rightarrow> js_error + jgroup) \<Rightarrow> js_error + jgroup list" where
  "update_group gs idx f =
     (if idx < length gs then bindE (f (gs ! idx)) (\<lambda>g. Inr (gs[idx := g])) else Inl TypeError)"

text \<open>\<^verbatim>\<open>p.test_groups.findIndex((g) => g.name === a)\<close>\<close>

definition group_index :: "jgroup list \<Rightarrow> string \<Rightarrow> int" where
  "group_index gs a =
     (case index_where (\<lambda>g. gname g = Str a) gs of None \<Rightarrow> - 1 | Some i \<Rightarrow> int i)"

text \<open>The comparator orders by \<open>group_index\<close>, and the array sort is stable.\<close>

definition add_required :: "jgroup list \<Rightarrow> string \<Rightarrow> jgroup \<Rightarrow> js_error + jgroup" where
  "add_required gs v g =
     (let rs = (case required_group_names g of None \<Rightarrow> [] | Some rs \<Rightarrow> rs)
      in Inr (g\<lparr>required_group_names := Some (sort_key (group_index gs) (rs @ [v]))\<rparr>))"

text \<open>A missing name gives index -1, and \<^verbatim>\<open>splice(-1, 1)\<close> removes the last element.\<close>

definition remove_required :: "string \<Rightarrow> jgroup \<Rightarrow> js_error + jgroup" where
  "remove_required v g =
     (case required_group_names g of None \<Rightarrow> Inl TypeError
      | Some rs \<Rightarrow> Inr (g\<lparr>required_group_names := Some
          (case index_of v rs of None \<Rightarrow> butlast rs | Some i \<Rightarrow> remove_at i rs)\<rparr>))"

definition reduce_group :: "jgroup list \<Rightarrow> nat \<Rightarrow> string \<Rightarrow> string \<Rightarrow> js_error + jgroup list" where
  "reduce_group gs idx ga v =
     (if ga = ''name'' then
        bindE (removeRequired gs idx) (\<lambda>gs'. update_group gs' idx (\<lambda>g. Inr (set_gprop ''name'' (Str v) g)))
      else if ga = ''first_test'' \<or> ga = ''last_test'' \<or> ga = ''feedback_type'' then
        update_group gs idx (\<lambda>g. Inr (set_gprop ga (Num (parseInt v)) g))
      else if ga = ''scoring_type'' then
        (let newScoringType = Num (parseInt v) in
         bindE (if \<not> strict_eq newScoringType (num 1) then removeRequired gs idx else Inr gs)
           (\<lambda>gs'. update_group gs' idx (\<lambda>g. Inr (set_gprop ga newScoringType g))))
      else if ga = ''group_score'' \<or> ga = ''test_score'' then
        update_group gs idx (\<lambda>g.
          let g' = del_gprop ''test_score'' (del_gprop ''group_score'' g)
          in Inr (if v = '''' then del_gprop ga g' else set_gprop ga (Num (parseFloat v)) g'))
      else if ga = ''add_required'' then update_group gs idx (add_required gs v)
      else if ga = ''remove_required'' then update_group gs idx (remove_required v)
      else if ga = ''remove'' then bindE (removeRequired gs idx) (\<lambda>gs'. Inr (remove_at idx gs'))
      else Inl (ThrownError (''Invalid group action: '' @ ga)))"

definition new_group :: jgroup where
  "new_group = \<lparr>gprops = [''scoring_type'' \<mapsto> num 1, ''feedback_type'' \<mapsto> num 3],
                required_group_names = None\<rparr>"

definition set_pprop :: "string \<Rightarrow> prim \<Rightarrow> jproblem \<Rightarrow> jproblem" where
  "set_pprop k v p = p\<lparr>pprops := (pprops p)(k \<mapsto> v)\<rparr>"

definition del_pprop :: "string \<Rightarrow> jproblem \<Rightarrow> jproblem" where
  "del_pprop k p = p\<lparr>pprops := (pprops p)(k := None)\<rparr>"

fun ProblemReducer :: "jproblem \<Rightarrow> paction \<Rightarrow> js_error + jproblem" where
  "ProblemReducer problem (LoadProblem None) = Inl TypeError"
| "ProblemReducer problem (LoadProblem (Some l)) =
     Inr \<lparr>pid = lid l, pprops = lprops l,
          test_groups = (case ltest_groups l of None \<Rightarrow> [] | Some gs \<Rightarrow> gs)\<rparr>"
| "ProblemReducer p (Act a v) =
     (if a = ''name'' \<or> a = ''time_limit'' \<or> a = ''memory_limit'' then Inr (set_pprop a (Str v) p)
      else if a = ''problem_type'' \<or> a = ''tests_number'' then Inr (set_pprop a (Num (parseInt v)) p)
      else if a = ''wall_time_limit'' \<or> a = ''max_output_size'' then
        Inr (if v = '''' then del_pprop a p else set_pprop a (Str v) p)
      else if a = ''max_open_files'' \<or> a = ''max_threads'' then
        Inr (if v = '''' then del_pprop a p else set_pprop a (Num (parseInt v)) p)
      else if a = ''add_group'' then Inr (p\<lparr>test_groups := test_groups p @ [new_group]\<rparr>)
      else if a = ''problem'' then Inl TypeError
      else if a = ''group'' then Inl (ThrownError ''Invalid group action: undefined'')
      else Inl (ThrownError (''Invalid action: '' @ a)))"
| "ProblemReducer p (ActGroup idx ga v) =
     bindE (reduce_group (test_groups p) idx ga v) (\<lambda>gs. Inr (p\<lparr>test_groups := gs\<rparr>))"

fun_cases ProblemReducer_InrE: "ProblemReducer p a = Inr p'"

section \<open>The form\<close>

text \<open>What the form asks its page to do: dispatch an action, or submit.\<close>

datatype form_event = Change paction | SubmitForm

type_synonym choice = "int \<times> string"

definition formRowInput :: "jproblem \<Rightarrow> string \<Rightarrow> string \<Rightarrow> string \<Rightarrow> bool \<Rightarrow> form_event node" where
  "formRowInput problem name displayName type required =
     div_node ''row mb-md-3 mb-0''
       [NEl ''label'' [attr ''htmlFor'' name, cls ''col-xl-3 col-md-4 col-form-label pb-0 pb-md-2 pt-3'']
          [textn displayName],
        div_node ''col-md-8 col-xl-6 col-form-label''
          [NEl ''input''
             [attr ''type'' type, cls ''form-control'', attr ''id'' name, attr ''name'' name,
              AVal ''value'' (js_or (get_prop (pprops problem) name) (Str '''')),
              AVal ''required'' (Bool required),
              AHandler ''onChange'' (\<lambda>v. [Do (Change (Act name v))])]
             []]]"

definition option_nodes :: "choice list \<Rightarrow> 'a node list" where
  "option_nodes values = mapi (\<lambda>index v.
     NEl ''option'' [AVal ''key'' (num (int index)), AVal ''value'' (num (fst v))] [textn (snd v)]) values"

definition formRowSelect :: "jproblem \<Rightarrow> string \<Rightarrow> string \<Rightarrow> bool \<Rightarrow> choice list \<Rightarrow> form_event node" where
  "formRowSelect problem name displayName required values =
     div_node ''row mb-md-3 mb-0''
       [NEl ''label'' [attr ''htmlFor'' name, cls ''col-xl-3 col-md-4 col-form-label''] [textn displayName],
        div_node ''col-md-8 col-xl-6 col-form-label''
          [NEl ''select''
             [cls ''form-control'', attr ''id'' name, attr ''name'' name,
              AVal ''required'' (Bool required),
              AVal ''value'' (js_or (get_prop (pprops problem) name) (if required then num 1 else Str '''')),
              AHandler ''onChange'' (\<lambda>v. [Do (Change (Act name v))])]
             [if required then null_node else NEl ''option'' [attr ''value'' '''', attr ''key'' ''none''] [],
              NFrag (option_nodes values)]]]"

definition group_change :: "nat \<Rightarrow> string \<Rightarrow> string \<Rightarrow> form_event" where
  "group_change index ga v = Change (ActGroup index ga v)"

definition tableInput :: "jgroup \<Rightarrow> nat \<Rightarrow> string \<Rightarrow> string \<Rightarrow> bool \<Rightarrow> prim \<Rightarrow> form_event node" where
  "tableInput grp index name type required note =
     NEl ''td'' []
       [NEl ''input''
          [cls ''form-control'', attr ''id'' name, attr ''name'' name, attr ''type'' type,
           AVal ''required'' (Bool required),
           AVal ''value'' (if nullish (get_prop (gprops grp) name) then Str ''''
                           else get_prop (gprops grp) name),
           AHandler ''onChange'' (\<lambda>v. [Do (group_change index name v)])]
          [],
        if truthy note then NEl ''span'' [] [NVal note] else null_node]"

definition tableSelect :: "jgroup \<Rightarrow> nat \<Rightarrow> string \<Rightarrow> choice list \<Rightarrow> int \<Rightarrow> form_event node" where
  "tableSelect grp index name values defaultValue =
     NEl ''td'' []
       [NEl ''select''
          [cls ''form-control'', attr ''name'' (string_of_nat index @ ''-input-'' @ name),
           AVal ''required'' (Bool True),
           AVal ''value'' (js_or (get_prop (gprops grp) name) (num defaultValue)),
           AHandler ''onChange'' (\<lambda>v. [Do (group_change index name v)])]
          [NFrag (option_nodes values)]]"

text \<open>The names of the earlier groups that score as a whole and are not required yet.\<close>

definition canAdd :: "jgroup list \<Rightarrow> string list \<Rightarrow> nat \<Rightarrow> prim list" where
  "canAdd gs required index =
     concat (map (\<lambda>i.
       let gName = gname (gs ! i) in
       if strict_eq (get_prop (gprops (gs ! i)) ''scoring_type'') (num 1) \<and> gName \<notin> Str ` set required
       then [gName] else []) [0..<index])"

definition required_badge :: "nat \<Rightarrow> nat \<Rightarrow> string \<Rightarrow> form_event node" where
  "required_badge index i name =
     NEl ''span'' [attr ''key'' (string_of_nat index @ ''-group-'' @ string_of_nat i),
                   cls ''badge text-bg-secondary'']
       [textn name, textn '' '',
        NEl ''a'' [attr ''href'' ''#'', cls ''link-light link-underline-opacity-0'',
                   on_click (group_change index ''remove_required'' name)] [textn ''X'']]"

definition add_option :: "nat \<Rightarrow> nat \<Rightarrow> prim \<Rightarrow> form_event node" where
  "add_option index i name =
     NEl ''option'' [attr ''key'' (string_of_nat index @ ''-toadd-'' @ string_of_nat i),
                     AVal ''value'' name] [NVal name]"

definition required_names :: "jgroup \<Rightarrow> string list" where
  "required_names grp = (case required_group_names grp of None \<Rightarrow> [] | Some rs \<Rightarrow> rs)"

definition renderRequiredGroups :: "jgroup \<Rightarrow> nat \<Rightarrow> jproblem \<Rightarrow> form_event node" where
  "renderRequiredGroups grp index problem =
     (let required = required_names grp
      in NEl ''td'' []
        [div_node ''d-flex''
          [NFrag (mapi (required_badge index) required)],
         NEl ''select''
           [cls ''form-control'', attr ''name'' (string_of_nat index @ ''-add-required''),
            AVal ''required'' (Bool False), attr ''value'' '''',
            AHandler ''onChange'' (\<lambda>v. if v = '''' then [] else [Do (group_change index ''add_required'' v)])]
           [NEl ''option'' [attr ''value'' ''''] [],
            NFrag (mapi (add_option index) (canAdd (test_groups problem) required index))]])"

definition renderGroup :: "jproblem \<Rightarrow> nat \<Rightarrow> jgroup \<Rightarrow> form_event node" where
  "renderGroup problem index grp =
     NEl ''tr'' [AVal ''key'' (num (int index))]
       [tableInput grp index ''name'' ''text'' True Null,
        tableInput grp index ''first_test'' ''number'' True Null,
        tableInput grp index ''last_test'' ''number'' True Null,
        if strict_eq (get_prop (gprops grp) ''scoring_type'') (num 2)
        then tableInput grp index ''test_score'' ''number'' True Null
        else tableInput grp index ''group_score'' ''number'' True Null,
        tableSelect grp index ''scoring_type''
          [(1, ''Complete''), (2, ''Each test''), (3, ''Min score'')] 1,
        tableSelect grp index ''feedback_type''
          [(1, ''None''), (2, ''Points''), (3, ''ICPC''), (4, ''Complete''), (5, ''Full'')] 3,
        renderRequiredGroups grp index problem,
        NEl ''td'' []
          [NEl ''a'' [attr ''href'' ''#'', on_click (group_change index ''remove'' '''')] [textn ''Delete'']]]"

definition header_cell :: "string \<Rightarrow> string \<Rightarrow> 'a node" where
  "header_cell width caption = NEl ''th'' [attr ''style.width'' width, attr ''scope'' ''row''] [textn caption]"

definition renderGroups :: "jproblem \<Rightarrow> form_event node" where
  "renderGroups problem =
     (if \<not> strict_eq (get_prop (pprops problem) ''problem_type'') (num 2) then null_node
      else NFrag
        [NEl ''table'' [cls ''table table-striped'']
          [NEl ''thead'' []
            [NEl ''tr'' []
              [header_cell ''10%'' ''Name'', header_cell ''10%'' ''First test'',
               header_cell ''10%'' ''Last test'', header_cell ''10%'' ''Score'',
               header_cell ''10%'' ''Scoring Type'', header_cell ''10%'' ''Feedback Type'',
               header_cell ''30%'' ''Required'', header_cell ''10%'' ''Delete'']],
           NEl ''tbody'' []
            [NFrag (mapi (renderGroup problem) (test_groups problem))]],
         NEl ''a'' [attr ''href'' ''#'', on_click (Change (Act ''add_group'' ''''))] [textn ''Add group'']])"

definition RenderProblemForm :: "jproblem \<Rightarrow> string \<Rightarrow> form_event node" where
  "RenderProblemForm problem buttonText =
     NEl ''form'' [AHandler ''onSubmit'' (\<lambda>_. [PreventDefault, Do SubmitForm])]
       [formRowInput problem ''name'' ''Name'' ''text'' True,
        formRowSelect problem ''problem_type'' ''Problem Type'' True [(1, ''ICPC''), (2, ''IOI'')],
        formRowInput problem ''time_limit'' ''Time limit'' ''text'' True,
        formRowInput problem ''memory_limit'' ''Memory limit'' ''text'' True,
        formRowInput problem ''tests_number'' ''Tests number'' ''number'' True,
        formRowInput problem ''wall_time_limit'' ''Wall time limit'' ''text'' False,
        formRowInput problem ''max_open_files'' ''Max open files'' ''number'' False,
        formRowInput problem ''max_threads'' ''Max threads'' ''number'' False,
        formRowInput problem ''max_output_size'' ''Max output size'' ''text'' False,
        if strict_eq (get_prop (pprops problem) ''problem_type'') (num 2)
        then renderGroups problem else null_node,
        div_node ''row mt-md-4 mt-2''
          [div_node ''col-xl-3 d-xl-block d-none'' [],
           div_node ''text-center col-12 col-xl-6''
             [NEl ''button'' [attr ''type'' ''submit'', cls ''btn btn-primary w-100''] [textn buttonText]]]]"

lemmas form_view_defs = formRowInput_def formRowSelect_def option_nodes_def tableInput_def
  tableSelect_def renderRequiredGroups_def renderGroup_def renderGroups_def RenderProblemForm_def
  header_cell_def group_change_def required_badge_def add_option_def

section \<open>What a user can do with the form\<close>

lemma option_nodes_options [simp]:
  "(\<exists>c \<in> set (option_nodes vs). Some v \<in> set (options c)) \<longleftrightarrow> v \<in> (string_of_int o fst) ` set vs"
  by (auto simp: option_nodes_def option_value_def attr_value_def nullish_def in_set_conv_nth image_iff)
    (metis nth_mem fst_conv)+

lemma option_nodes_silent [simp]: "\<not> (\<exists>c \<in> set (option_nodes vs). emits c a)"
  by (auto simp: option_nodes_def)

lemma formRowInput_emits [simp]:
  "emits (formRowInput p n d t r) (Change (Act a v)) \<longleftrightarrow> a = n"
  "\<not> emits (formRowInput p n d t r) (Change (ActGroup j ga v))"
  "\<not> emits (formRowInput p n d t r) (Change (LoadProblem l))"
  "\<not> emits (formRowInput p n d t r) SubmitForm"
  by (auto simp: formRowInput_def)

lemma formRowSelect_emits [simp]:
  "emits (formRowSelect p n d r vs) (Change (Act a v)) \<longleftrightarrow>
     a = n \<and> (v \<in> (string_of_int o fst) ` set vs \<or> \<not> r \<and> v = '''')"
  "\<not> emits (formRowSelect p n d r vs) (Change (ActGroup j ga v))"
  "\<not> emits (formRowSelect p n d r vs) (Change (LoadProblem l))"
  "\<not> emits (formRowSelect p n d r vs) SubmitForm"
  by - (cases r; auto simp: formRowSelect_def option_value_def attr_value_def nullish_def)+

lemma tableInput_emits [simp]:
  "emits (tableInput g i n t r note) (Change (ActGroup j ga v)) \<longleftrightarrow> j = i \<and> ga = n"
  "\<not> emits (tableInput g i n t r note) (Change (Act a v))"
  "\<not> emits (tableInput g i n t r note) (Change (LoadProblem l))"
  "\<not> emits (tableInput g i n t r note) SubmitForm"
  by (auto simp: tableInput_def group_change_def)

lemma tableSelect_emits [simp]:
  "emits (tableSelect g i n vs d) (Change (ActGroup j ga v)) \<longleftrightarrow>
     j = i \<and> ga = n \<and> v \<in> (string_of_int o fst) ` set vs"
  "\<not> emits (tableSelect g i n vs d) (Change (Act a v))"
  "\<not> emits (tableSelect g i n vs d) (Change (LoadProblem l))"
  "\<not> emits (tableSelect g i n vs d) SubmitForm"
  by - (auto simp: tableSelect_def group_change_def)+

lemma required_badge_emits [simp]:
  "emits (required_badge i k n) e \<longleftrightarrow> e = Change (ActGroup i ''remove_required'' n)"
  by (auto simp: required_badge_def group_change_def)

definition choice_text :: "prim \<Rightarrow> string option" where
  "choice_text n = (if nullish n then Some '''' else attr_text n)"

lemma add_option_options: "options (add_option i k n) = [choice_text n]"
  by (auto simp: add_option_def option_value_def attr_value_def nullish_def choice_text_def)

lemma add_options_choice [simp]:
  "(\<exists>k < length cs. Some v \<in> set (options (add_option i k (cs ! k)))) \<longleftrightarrow> Some v \<in> choice_text ` set cs"
  by (simp add: add_option_options in_set_conv_nth image_iff) (metis nth_mem in_set_conv_nth)

lemma add_option_silent [simp]: "\<not> emits (add_option i k n) e"
  by (simp add: add_option_def)

lemma renderRequiredGroups_emits [simp]:
  "emits (renderRequiredGroups g i p) (Change (ActGroup j ga v)) \<longleftrightarrow> j = i \<and>
     (ga = ''remove_required'' \<and> v \<in> set (required_names g) \<or>
      ga = ''add_required'' \<and> v \<noteq> '''' \<and>
        Some v \<in> choice_text ` set (canAdd (test_groups p) (required_names g) i))"
  "\<not> emits (renderRequiredGroups g i p) (Change (Act a v))"
  "\<not> emits (renderRequiredGroups g i p) (Change (LoadProblem l))"
  "\<not> emits (renderRequiredGroups g i p) SubmitForm"
proof -
  have *: "a \<in> set (requested (if c then [] else [Do b])) \<longleftrightarrow> \<not> c \<and> a = b"
    for a b :: form_event and c by simp
  show "emits (renderRequiredGroups g i p) (Change (ActGroup j ga v)) \<longleftrightarrow> j = i \<and>
     (ga = ''remove_required'' \<and> v \<in> set (required_names g) \<or>
      ga = ''add_required'' \<and> v \<noteq> '''' \<and>
        Some v \<in> choice_text ` set (canAdd (test_groups p) (required_names g) i))"
    by (simp add: renderRequiredGroups_def Let_def option_value_def attr_value_def nullish_def
        group_change_def *) (auto simp: in_set_conv_nth)
  show "\<not> emits (renderRequiredGroups g i p) (Change (Act a v))"
    "\<not> emits (renderRequiredGroups g i p) (Change (LoadProblem l))"
    "\<not> emits (renderRequiredGroups g i p) SubmitForm"
    by (simp_all add: renderRequiredGroups_def Let_def group_change_def *)
qed

abbreviation complete :: "jgroup \<Rightarrow> bool" where
  "complete g \<equiv> get_prop (gprops g) ''scoring_type'' = num 1"

lemma strict_eq_fin [simp]: "strict_eq v (Num (Fin q)) \<longleftrightarrow> v = Num (Fin q)"
  by (auto simp: strict_eq_def)

lemma set_canAdd:
  "n \<in> set (canAdd gs rs i) \<longleftrightarrow> (\<exists>j < i. n = gname (gs ! j) \<and> complete (gs ! j) \<and> n \<notin> Str ` set rs)"
  by (simp add: canAdd_def Let_def) (auto simp: Bex_def)

lemma string_of_int_digit [simp]:
  "string_of_int 1 = ''1''" "string_of_int 2 = ''2''" "string_of_int 3 = ''3''"
  "string_of_int 4 = ''4''" "string_of_int 5 = ''5''"
  by code_simp+

text \<open>The changes that the row of group \<open>i\<close> offers.\<close>

definition row_change :: "jgroup list \<Rightarrow> nat \<Rightarrow> string \<Rightarrow> string \<Rightarrow> bool" where
  "row_change gs i ga v \<longleftrightarrow>
     ga \<in> {''name'', ''first_test'', ''last_test''} \<or>
     ga = (if get_prop (gprops (gs ! i)) ''scoring_type'' = num 2 then ''test_score'' else ''group_score'') \<or>
     ga = ''scoring_type'' \<and> v \<in> {''1'', ''2'', ''3''} \<or>
     ga = ''feedback_type'' \<and> v \<in> {''1'', ''2'', ''3'', ''4'', ''5''} \<or>
     ga = ''remove_required'' \<and> v \<in> set (required_names (gs ! i)) \<or>
     ga = ''add_required'' \<and> v \<noteq> '''' \<and>
       Some v \<in> choice_text ` set (canAdd gs (required_names (gs ! i)) i) \<or>
     ga = ''remove'' \<and> v = ''''"

lemma renderGroup_emits [simp]:
  "emits (renderGroup p i g) (Change (ActGroup j ga v)) \<longleftrightarrow> j = i \<and> 
     (ga \<in> {''name'', ''first_test'', ''last_test''} \<or>
     ga = (if get_prop (gprops g) ''scoring_type'' = num 2 then ''test_score'' else ''group_score'') \<or>
     ga = ''scoring_type'' \<and> v \<in> {''1'', ''2'', ''3''} \<or>
     ga = ''feedback_type'' \<and> v \<in> {''1'', ''2'', ''3'', ''4'', ''5''} \<or>
     ga = ''remove_required'' \<and> v \<in> set (required_names g) \<or>
     ga = ''add_required'' \<and> v \<noteq> '''' \<and>
       Some v \<in> choice_text ` set (canAdd (test_groups p) (required_names g) i) \<or>
     ga = ''remove'' \<and> v = '''')"
  "\<not> emits (renderGroup p i g) (Change (Act a v))"
  "\<not> emits (renderGroup p i g) (Change (LoadProblem l))"
  "\<not> emits (renderGroup p i g) SubmitForm"
  unfolding renderGroup_def by - (cases "j = i"; simp add: group_change_def; fail)+

lemma renderGroups_emits:
  "emits (renderGroups p) (Change (ActGroup i ga v)) \<longleftrightarrow>
     get_prop (pprops p) ''problem_type'' = num 2 \<and> i < length (test_groups p) \<and>
     row_change (test_groups p) i ga v"
  "emits (renderGroups p) (Change (Act a v)) \<longleftrightarrow>
     get_prop (pprops p) ''problem_type'' = num 2 \<and> a = ''add_group'' \<and> v = ''''"
  "\<not> emits (renderGroups p) (Change (LoadProblem l))"
  "\<not> emits (renderGroups p) SubmitForm"
  by - (auto simp: renderGroups_def header_cell_def row_change_def)+

text \<open>The fields with a free text input.\<close>

definition text_fields :: "string set" where
  "text_fields = {''name'', ''time_limit'', ''memory_limit'', ''tests_number'', ''wall_time_limit'',
     ''max_open_files'', ''max_threads'', ''max_output_size''}"

lemma RenderProblemForm_emits:
  "emits (RenderProblemForm p b) (Change (ActGroup i ga v)) \<longleftrightarrow>
     get_prop (pprops p) ''problem_type'' = num 2 \<and> i < length (test_groups p) \<and>
     row_change (test_groups p) i ga v"
  "emits (RenderProblemForm p b) (Change (Act a v)) \<longleftrightarrow>
     a \<in> text_fields \<or> a = ''problem_type'' \<and> v \<in> {''1'', ''2''} \<or>
     get_prop (pprops p) ''problem_type'' = num 2 \<and> a = ''add_group'' \<and> v = ''''"
  "\<not> emits (RenderProblemForm p b) (Change (LoadProblem l))"
  "emits (RenderProblemForm p b) SubmitForm"
  by - (simp add: RenderProblemForm_def renderGroups_emits text_fields_def disj_ac conj_ac)+

section \<open>Well-formed editor states\<close>

text \<open>
  A group may require only groups before it that score as a whole, each at most once, by a
  nonempty name; group names are strings or not yet given.
\<close>

definition supported :: "jgroup list \<Rightarrow> nat \<Rightarrow> string \<Rightarrow> bool" where
  "supported gs i s \<longleftrightarrow> s \<noteq> '''' \<and> (\<exists>j < i. gname (gs ! j) = Str s \<and> complete (gs ! j))"

definition required_ok :: "jgroup list \<Rightarrow> bool" where
  "required_ok gs \<longleftrightarrow> (\<forall>i < length gs. distinct (required_names (gs ! i)) \<and>
     (\<forall>s \<in> set (required_names (gs ! i)). supported gs i s))"

definition names_ok :: "jgroup list \<Rightarrow> bool" where
  "names_ok gs \<longleftrightarrow> (\<forall>i < length gs. gname (gs ! i) = Undef \<or> (\<exists>s. gname (gs ! i) = Str s))"

definition form_ok :: "jproblem \<Rightarrow> bool" where
  "form_ok p \<longleftrightarrow> names_ok (test_groups p) \<and> required_ok (test_groups p)"

text \<open>No group requires the name of group \<open>i\<close>.\<close>

definition unrequired :: "jgroup list \<Rightarrow> nat \<Rightarrow> bool" where
  "unrequired gs i \<longleftrightarrow> (\<forall>k < length gs. \<forall>s \<in> set (required_names (gs ! k)). gname (gs ! i) \<noteq> Str s)"

lemma required_names_set_gprop [simp]: "required_names (set_gprop k v g) = required_names g"
  by (simp add: required_names_def set_gprop_def)

lemma required_names_del_gprop [simp]: "required_names (del_gprop k g) = required_names g"
  by (simp add: required_names_def del_gprop_def)

lemma get_set_gprop [simp]:
  "get_prop (gprops (set_gprop k v g)) k' = (if k' = k then v else get_prop (gprops g) k')"
  by (simp add: set_gprop_def)

lemma get_del_gprop [simp]:
  "get_prop (gprops (del_gprop k g)) k' = (if k' = k then Undef else get_prop (gprops g) k')"
  by (simp add: del_gprop_def)

lemma gname_set_gprop [simp]: "gname (set_gprop k v g) = (if k = ''name'' then v else gname g)"
  by (simp add: gname_def)

lemma gname_del_gprop [simp]: "gname (del_gprop k g) = (if k = ''name'' then Undef else gname g)"
  by (simp add: gname_def)

lemma drop_required_props [simp]: "gprops (drop_required n g) = gprops g"
  by (auto simp: drop_required_def split: option.splits prim.splits)

lemma gname_drop_required [simp]: "gname (drop_required n g) = gname g"
  by (simp add: gname_def)

lemma required_names_drop_required:
  "required_names (drop_required n g) =
     (case n of Str s \<Rightarrow> remove1 s (required_names g) | _ \<Rightarrow> required_names g)"
  by (auto simp: drop_required_def required_names_def remove_at_index_of index_of_None remove1_idem
      split: option.splits prim.splits)

lemma removeRequired_ok:
  assumes "removeRequired gs idx = Inr gs'" and "names_ok gs" and "required_ok gs"
  shows "names_ok gs'" "required_ok gs'" "unrequired gs' idx" "length gs' = length gs" "idx < length gs"
    "\<And>i. i < length gs \<Longrightarrow> gprops (gs' ! i) = gprops (gs ! i)"
proof -
  let ?n = "gname (gs ! idx)"
  have idx: "idx < length gs" and gs': "gs' = map (drop_required ?n) gs"
    using assms(1) by (auto simp: removeRequired_def split: if_splits)
  have sub: "set (required_names (drop_required ?n g)) \<subseteq> set (required_names g)" for g
    by (auto simp: required_names_drop_required split: prim.splits dest: set_remove1_subset [THEN subsetD])
  have dist: "distinct (required_names g) \<Longrightarrow> distinct (required_names (drop_required ?n g))" for g
    by (auto simp: required_names_drop_required split: prim.splits)
  have sup: "i \<le> length gs \<Longrightarrow> supported gs' i s = supported gs i s" for i s
    by (auto simp: supported_def gs' )
  show "names_ok gs'" using assms(2) by (simp add: names_ok_def gs')
  show "required_ok gs'"
    using assms(3) sub dist sup unfolding required_ok_def gs' length_map
    by (metis (no_types, lifting) gs' less_imp_le nth_map subsetD)
  show "unrequired gs' idx"
    using assms(3) idx
    by (auto simp: unrequired_def gs' required_ok_def required_names_drop_required)
  show "length gs' = length gs" "idx < length gs" by (simp_all add: gs' idx)
  show "gprops (gs' ! i) = gprops (gs ! i)" if "i < length gs" for i
    using that by (simp add: gs')
qed

lemma required_ok_update:
  assumes "required_ok gs" and "idx < length gs"
    and "distinct (required_names g)" and "\<forall>s \<in> set (required_names g). supported gs idx s"
    and "unrequired gs idx \<or> gname g = gname (gs ! idx) \<and> (complete (gs ! idx) \<longrightarrow> complete g)"
  shows "required_ok (gs[idx := g])"
proof -
  have keep: "supported (gs[idx := g]) k s"
    if k: "k < length gs" and s: "s \<in> set (required_names (gs[idx := g] ! k))" for k s
  proof (cases "k = idx")
    case True
    then have "supported gs idx s" using s assms(2,4) by simp
    then show ?thesis using True by (auto simp: supported_def)
  next
    case False
    then have req: "s \<in> set (required_names (gs ! k))" using s by simp
    then have sup: "supported gs k s" using k assms(1) by (auto simp: required_ok_def)
    have "unrequired gs idx \<Longrightarrow> gname (gs ! idx) \<noteq> Str s"
      using req k by (auto simp: unrequired_def)
    then show ?thesis
      using sup assms(2,5) k by (fastforce simp: supported_def nth_list_update)
  qed
  then show ?thesis
    using assms(1-3) by (auto simp: required_ok_def nth_list_update)
qed

lemma names_ok_update:
  "names_ok gs \<Longrightarrow> gname g = Undef \<or> (\<exists>s. gname g = Str s) \<Longrightarrow> names_ok (gs[idx := g])"
  by (cases "idx < length gs") (auto simp: names_ok_def nth_list_update list_update_beyond)

lemma required_ok_remove:
  assumes "required_ok gs" and "unrequired gs idx" and "idx < length gs"
  shows "required_ok (remove_at idx gs)"
  unfolding required_ok_def
proof (intro allI impI)
  fix i assume i: "i < length (remove_at idx gs)"
  define k where "k = (if i < idx then i else Suc i)"
  have k: "k < length gs" "remove_at idx gs ! i = gs ! k"
    using i assms(3) by (auto simp: k_def nth_remove_at length_remove_at)
  have "supported (remove_at idx gs) i s" if s: "s \<in> set (required_names (gs ! k))" for s
  proof -
    obtain j where j: "s \<noteq> ''''" "j < k" "gname (gs ! j) = Str s" "complete (gs ! j)"
      using assms(1) k(1) s by (auto simp: required_ok_def supported_def)
    with s k(1) assms(2) have "j \<noteq> idx" by (auto simp: unrequired_def)
    define j' where "j' = (if j < idx then j else j - 1)"
    have "j' < i" "remove_at idx gs ! j' = gs ! j"
      using \<open>j \<noteq> idx\<close> j(2) k(1) i assms(3)
      by (auto simp: j'_def k_def nth_remove_at length_remove_at split: if_splits)
    with j show ?thesis by (auto simp: supported_def)
  qed
  with assms(1) k show "distinct (required_names (remove_at idx gs ! i)) \<and>
      (\<forall>s \<in> set (required_names (remove_at idx gs ! i)). supported (remove_at idx gs) i s)"
    by (auto simp: required_ok_def)
qed

lemma names_ok_remove: "names_ok gs \<Longrightarrow> idx < length gs \<Longrightarrow> names_ok (remove_at idx gs)"
  by (auto simp: names_ok_def nth_remove_at length_remove_at)

lemma supported_append [simp]: "i \<le> length gs \<Longrightarrow> supported (gs @ hs) i s \<longleftrightarrow> supported gs i s"
  unfolding supported_def by (intro conj_cong refl ex_cong1) (auto simp: nth_append)

lemma new_group_simps [simp]: "required_names new_group = []" "gname new_group = Undef"
  by (simp_all add: new_group_def required_names_def gname_def)

lemma add_group_ok: "names_ok gs \<Longrightarrow> required_ok gs \<Longrightarrow>
    names_ok (gs @ [new_group]) \<and> required_ok (gs @ [new_group])"
  by (auto simp: names_ok_def required_ok_def nth_append less_Suc_eq)

text \<open>Changing a property other than the name and the scoring type, or the name or scoring type
  of a group nobody requires.\<close>

lemma update_props_ok:
  assumes "names_ok gs" "required_ok gs" "idx < length gs"
    and "required_names g = required_names (gs ! idx)"
    and "gname g = gname (gs ! idx) \<or> (\<exists>s. gname g = Str s)"
    and "unrequired gs idx \<or> gname g = gname (gs ! idx) \<and> (complete (gs ! idx) \<longrightarrow> complete g)"
  shows "names_ok (gs[idx := g]) \<and> required_ok (gs[idx := g])"
proof
  show "names_ok (gs[idx := g])"
    using assms(1,3,5) by (intro names_ok_update) (auto simp: names_ok_def)
  show "required_ok (gs[idx := g])"
    using assms by (intro required_ok_update) (auto simp: required_ok_def)
qed

lemma add_required_ok:
  assumes "names_ok gs" "required_ok gs" "idx < length gs" "v \<noteq> ''''"
    and "Some v \<in> choice_text ` set (canAdd gs (required_names (gs ! idx)) idx)"
  shows "\<exists>g. add_required gs v (gs ! idx) = Inr g \<and> names_ok (gs[idx := g]) \<and> required_ok (gs[idx := g])"
proof -
  obtain j where j: "j < idx" "complete (gs ! j)" "gname (gs ! j) \<notin> Str ` set (required_names (gs ! idx))"
    and t: "choice_text (gname (gs ! j)) = Some v"
    using assms(5) by (auto simp: set_canAdd)
  have n: "gname (gs ! j) = Str v"
    using t assms(1,3,4) j(1)
    by (auto simp: names_ok_def choice_text_def nullish_def split: if_splits dest!: spec [of _ j])
  define g where "g = (gs ! idx)\<lparr>required_group_names :=
     Some (sort_key (group_index gs) (required_names (gs ! idx) @ [v]))\<rparr>"
  have r: "required_names g = sort_key (group_index gs) (required_names (gs ! idx) @ [v])"
    by (simp add: g_def required_names_def)
  have p: "gprops g = gprops (gs ! idx)" by (simp add: g_def)
  then have pn: "gname g = gname (gs ! idx)" by (simp add: gname_def)
  have "supported gs idx v" using j n assms(4) by (auto simp: supported_def)
  then have "required_ok (gs[idx := g])"
    using assms(2,3) j(3) n p pn by (intro required_ok_update) (auto simp: r required_ok_def)
  moreover have "names_ok (gs[idx := g])"
    using assms(1,3) pn by (intro names_ok_update) (auto simp: names_ok_def)
  moreover have "add_required gs v (gs ! idx) = Inr g"
    by (simp add: add_required_def g_def required_names_def Let_def)
  ultimately show ?thesis by blast
qed

lemma remove_required_ok:
  assumes "names_ok gs" "required_ok gs" "idx < length gs" "v \<in> set (required_names (gs ! idx))"
  shows "\<exists>g. remove_required v (gs ! idx) = Inr g \<and> names_ok (gs[idx := g]) \<and> required_ok (gs[idx := g])"
proof -
  obtain rs where rs: "required_group_names (gs ! idx) = Some rs" "v \<in> set rs"
    using assms(4) by (cases "required_group_names (gs ! idx)") (auto simp: required_names_def)
  define g where "g = (gs ! idx)\<lparr>required_group_names := Some (remove1 v rs)\<rparr>"
  have r: "required_names g = remove1 v rs" "required_names (gs ! idx) = rs"
    by (simp_all add: g_def required_names_def rs)
  have "required_ok (gs[idx := g])"
    using assms(2,3) r
    by (intro required_ok_update)
      (auto simp: required_ok_def g_def gname_def dest: set_remove1_subset [THEN subsetD])
  moreover have "names_ok (gs[idx := g])"
    using assms(1,3) by (intro names_ok_update) (auto simp: g_def gname_def names_ok_def)
  moreover obtain i where "index_of v rs = Some i"
    using rs(2) by (cases "index_of v rs") (auto simp: index_of_None)
  ultimately show ?thesis
    by (intro exI [of _ g]) (simp add: remove_required_def g_def rs remove_at_index_of)
qed

lemma reduce_group_ok:
  assumes "names_ok gs" "required_ok gs" "idx < length gs" "row_change gs idx ga v"
  shows "\<exists>gs'. reduce_group gs idx ga v = Inr gs' \<and> names_ok gs' \<and> required_ok gs'"
proof -
  obtain fs where fs: "removeRequired gs idx = Inr fs"
    using assms(3) by (simp add: removeRequired_def)
  note fs_ok = removeRequired_ok [OF fs assms(1,2)]
  consider "ga = ''name''" | "ga = ''first_test'' \<or> ga = ''last_test'' \<or> ga = ''feedback_type''"
    | "ga = ''scoring_type''" | "ga = ''test_score'' \<or> ga = ''group_score''"
    | "ga = ''remove_required''" "v \<in> set (required_names (gs ! idx))"
    | "ga = ''add_required''" "v \<noteq> ''''"
      "Some v \<in> choice_text ` set (canAdd gs (required_names (gs ! idx)) idx)"
    | "ga = ''remove''"
  proof (cases "get_prop (gprops (gs ! idx)) ''scoring_type'' = num 2")
    case True
    then show thesis
      using assms(4) that unfolding row_change_def insert_iff empty_iff if_P [OF True] by argo
  next
    case False
    then show thesis
      using assms(4) that unfolding row_change_def insert_iff empty_iff if_not_P [OF False] by argo
  qed
  then show ?thesis
  proof cases
    case 1
    with fs fs_ok show ?thesis
      by (simp add: reduce_group_def update_group_def update_props_ok)
  next
    case 2
    with assms show ?thesis
      by (elim disjE) (simp_all add: reduce_group_def update_group_def update_props_ok)
  next
    case 3
    show ?thesis
    proof (cases "parseInt v = Fin 1")
      case True
      with 3 assms show ?thesis
        by (simp add: reduce_group_def update_group_def update_props_ok)
    next
      case False
      with 3 fs fs_ok show ?thesis
        by (simp add: reduce_group_def update_group_def update_props_ok)
    qed
  next
    case 4
    with assms show ?thesis
      by (elim disjE) (simp_all add: reduce_group_def update_group_def Let_def update_props_ok)
  next
    case 5
    with assms remove_required_ok [OF assms(1-3) 5(2)] show ?thesis
      by (auto simp: reduce_group_def update_group_def)
  next
    case 6
    with assms add_required_ok [OF assms(1-3) 6(2,3)] show ?thesis
      by (auto simp: reduce_group_def update_group_def)
  next
    case 7
    with fs fs_ok show ?thesis
      by (simp add: reduce_group_def required_ok_remove names_ok_remove)
  qed
qed

text \<open>The changes a user can cause through the rendered form.\<close>

definition can_change :: "jproblem \<Rightarrow> paction \<Rightarrow> bool" where
  "can_change p a \<longleftrightarrow> (\<exists>b. emits (RenderProblemForm p b) (Change a))"

lemma form_accepts:
  "form_ok p \<Longrightarrow> can_change p a \<Longrightarrow> \<exists>p'. ProblemReducer p a = Inr p' \<and> form_ok p'"
proof (cases a)
  case (LoadProblem l)
  then show "can_change p a \<Longrightarrow> ?thesis" by (simp add: can_change_def RenderProblemForm_emits)
next
  case (Act n v)
  then show "form_ok p \<Longrightarrow> can_change p a \<Longrightarrow> ?thesis"
    by (auto simp: can_change_def RenderProblemForm_emits text_fields_def form_ok_def set_pprop_def
        del_pprop_def add_group_ok)
next
  case (ActGroup i ga v)
  assume ok: "form_ok p" and "can_change p a"
  with ActGroup have "i < length (test_groups p)" "row_change (test_groups p) i ga v"
    by (auto simp: can_change_def RenderProblemForm_emits)
  with ok obtain gs' where "reduce_group (test_groups p) i ga v = Inr gs'" "names_ok gs'" "required_ok gs'"
    using reduce_group_ok [of "test_groups p" i ga v] by (auto simp: form_ok_def)
  with ActGroup show ?thesis
    by (intro exI [of _ "p\<lparr>test_groups := gs'\<rparr>"]) (simp add: form_ok_def)
qed

interpretation problem_form: reducer ProblemReducer can_change form_ok
  by unfold_locales (rule form_accepts)

lemma initial_form_ok: "form_ok ProblemInitialState"
  by (simp add: form_ok_def names_ok_def required_ok_def ProblemInitialState_def)

end
