(* ===== verification/JsListPages.thy ===== *)
theory JsListPages
  imports JsWidgets JsSubmission
begin

text \<open>
  pages/Home.jsx, pages/Problems.jsx and pages/Submissions.jsx: the start page and the two lists.
  A list page keeps the query of its URL, requests a page of the list whenever the query changes,
  and shows what the last reply brought.
\<close>

section \<open>Common parts\<close>

abbreviation nav_to :: "string \<Rightarrow> string \<Rightarrow> nav" where
  "nav_to path caption \<equiv> \<lparr>nav_path = path, nav_text = caption\<rparr>"

abbreviation GET :: "string \<Rightarrow> http_request" where
  "GET url \<equiv> \<lparr>http_method = ''GET'', http_url = url\<rparr>"

definition heading :: "'a node list \<Rightarrow> 'a node" where
  "heading cs = div_node ''mb-3 mt-3'' [NEl ''h3'' [] cs]"

text \<open>The frame that every page puts around its header and its content.\<close>

definition page_card :: "'a node list \<Rightarrow> 'a node \<Rightarrow> 'a node" where
  "page_card header content =
     div_node ''bg-white''
       [div_node ''px-4 px-sm-5 mx-2 pt-4'' header,
        NEl ''hr'' [cls ''mt-4 mb-4''] [],
        div_node ''px-4 px-sm-5 mx-2 pb-5'' [content]]"

definition error_text :: "prim \<Rightarrow> 'a node" where
  "error_text e = NEl ''p'' [cls ''text-danger''] [NVal e]"

text \<open>A list page: an undefined list is one that the reply did not have.\<close>

record 'x list_page =
  loading :: bool
  items :: "'x list option"
  list_error :: prim

definition InitialList :: "'x list_page" where
  "InitialList = \<lparr>loading = True, items = Some [], list_error = Null\<rparr>"

datatype list_cmd = SetQuery query | Request http_request

section \<open>Home\<close>

definition Home :: "js_error + 'a node" where
  "Home = Body [nav_to ''/admin'' ''Admin'']
     (page_card [heading [textn ''Website admin'']]
       (Links
         [\<lparr>link_target = ''/admin/problems'', link_caption = ''Problems''\<rparr>,
          \<lparr>link_target = ''/admin/submissions'', link_caption = ''Submissions''\<rparr>,
          \<lparr>link_target = ''/admin/status'', link_caption = ''Status''\<rparr>]))"

section \<open>Query strings\<close>

text \<open>
  The parameters of a URL: pairs in order, a name possibly several times.  \<open>get_param\<close> is
  \<^verbatim>\<open>URLSearchParams.get\<close> (the first, or null), \<open>from_entries\<close> is
  \<^verbatim>\<open>Object.fromEntries\<close> (the last, at the place of the first), and \<open>query_string\<close> is
  \<^verbatim>\<open>toString\<close>, with the form encoding of its names and values.
\<close>

type_synonym url_params = "(string \<times> string) list"

definition get_param :: "url_params \<Rightarrow> string \<Rightarrow> string option" where
  "get_param ps k = map_of ps k"

definition from_entries :: "url_params \<Rightarrow> query" where
  "from_entries ps = foldl (\<lambda>q (k, v). AList.update k v q) [] ps"

definition hex_digit :: "nat \<Rightarrow> char" where
  "hex_digit n = char_of (if n < 10 then 48 + n else 55 + n)"

definition form_char :: "char \<Rightarrow> string" where
  "form_char c =
     (let n = of_char c :: nat in
      if 48 \<le> n \<and> n \<le> 57 \<or> 65 \<le> n \<and> n \<le> 90 \<or> 97 \<le> n \<and> n \<le> 122 \<or> n \<in> {42, 45, 46, 95} then [c]
      else if n = 32 then ''+''
      else [CHR ''%'', hex_digit (n div 16), hex_digit (n mod 16)])"

definition form_encode :: "string \<Rightarrow> string" where
  "form_encode s = concat (map form_char s)"

fun query_string :: "url_params \<Rightarrow> string" where
  "query_string [] = ''''"
| "query_string [(k, v)] = form_encode k @ ''='' @ form_encode v"
| "query_string ((k, v) # ps) = form_encode k @ ''='' @ form_encode v @ ''&'' @ query_string ps"

text \<open>\<^verbatim>\<open>!page\<close>: the parameter is missing or empty.\<close>

definition no_param :: "string option \<Rightarrow> bool" where
  "no_param p \<longleftrightarrow> p = None \<or> p = Some ''''"

section \<open>Problems\<close>

record problem_row =
  pr_id :: nat
  pr_name :: prim

definition Problems_effect :: "url_params \<Rightarrow> list_cmd list" where
  "Problems_effect params =
     (case get_param params ''page'' of
        None \<Rightarrow> [SetQuery [(''page'', ''1'')]]
      | Some page \<Rightarrow>
          if page = '''' then [SetQuery [(''page'', ''1'')]]
          else [Request (GET (''/api/get/problems?count=20&page='' @ page))])"

definition Problems_reply :: "problem_row list option outcome \<Rightarrow> js_error + problem_row list_page" where
  "Problems_reply out =
     (case out of
        Fulfilled resp \<Rightarrow> Inr \<lparr>loading = False, items = reply_response resp, list_error = reply_error resp\<rparr>
      | Rejected (Some e) \<Rightarrow> Inr \<lparr>loading = False, items = Some [], list_error = e\<rparr>
      | Rejected None \<Rightarrow> Inl TypeError)"

definition Problems_wrap :: "'a node \<Rightarrow> js_error + 'a node" where
  "Problems_wrap v =
     Body [nav_to ''/admin'' ''Admin'', nav_to ''/admin/problems'' ''Problems'']
       (page_card
         [heading [textn ''Problems''],
          div_node ''mb-3'' [link_to ''/admin/new/problem'' [textn ''Create new'']]]
         v)"

abbreviation scope_cell :: "'a node list \<Rightarrow> 'a node" where
  "scope_cell \<equiv> NEl ''th'' [attr ''scope'' ''row'']"

definition Problems :: "problem_row list_page \<Rightarrow> js_error + 'a node" where
  "Problems st =
     (if loading st then Problems_wrap null_node
      else if truthy (list_error st) then Problems_wrap (error_text (list_error st))
      else (case items st of
          None \<Rightarrow> Inl TypeError
        | Some problems \<Rightarrow> Problems_wrap
            (NEl ''table'' [cls ''table m-0'']
              [NEl ''thead'' [] [NEl ''tr'' [] [scope_cell [textn ''ID''], scope_cell [textn ''Name'']]],
               NEl ''tbody'' [] [NFrag (map (\<lambda>problem.
                 NEl ''tr'' [AVal ''key'' (num (int (pr_id problem)))]
                   [scope_cell [link_to (''/admin/problem/'' @ string_of_nat (pr_id problem))
                                  [NVal (num (int (pr_id problem)))]],
                    NEl ''td'' [] [NVal (pr_name problem)]]) problems)]])))"

section \<open>Submissions\<close>

text \<open>
  The text of a page number.  Page numbers are whole (they come from \<^verbatim>\<open>parseInt\<close>);
  the exponents with which numbers from \<open>10 ^ 21\<close> on are written are not modelled.
\<close>

definition page_text :: "jsnum \<Rightarrow> string option" where
  "page_text n =
     (case n of
        NaN \<Rightarrow> Some ''NaN''
      | PosInf \<Rightarrow> Some ''Infinity''
      | NegInf \<Rightarrow> Some ''-Infinity''
      | Fin q \<Rightarrow> if q = of_int \<lfloor>q\<rfloor> \<and> \<bar>q\<bar> < 10 ^ 21 then Some (string_of_int \<lfloor>q\<rfloor>) else None)"

definition setPage :: "url_params \<Rightarrow> jsnum \<Rightarrow> query option" where
  "setPage params page = map_option (\<lambda>s. AList.update ''page'' s (from_entries params)) (page_text page)"

text \<open>The effect of a change of the parameters: the filters to edit, and what is done.\<close>

definition Submissions_effect :: "url_params \<Rightarrow> query \<times> list_cmd list" where
  "Submissions_effect params =
     (from_entries params,
      if no_param (get_param params ''page'')
      then (case setPage params (Fin 1) of Some q \<Rightarrow> [SetQuery q] | None \<Rightarrow> [])
      else [Request (GET (''/api/get/submissions?count=50&'' @ query_string params))])"

definition Submissions_reply :: "submission list option outcome \<Rightarrow> js_error + submission list_page" where
  "Submissions_reply out =
     (case out of
        Fulfilled resp \<Rightarrow> Inr \<lparr>loading = False, items = reply_response resp, list_error = reply_error resp\<rparr>
      | Rejected (Some e) \<Rightarrow> Inr \<lparr>loading = False, items = Some [], list_error = e\<rparr>
      | Rejected None \<Rightarrow> Inl TypeError)"

definition Submissions_wrap :: "'a node \<Rightarrow> js_error + 'a node" where
  "Submissions_wrap v =
     Body [nav_to ''/admin'' ''Admin'', nav_to ''/admin/submissions'' ''Submissions'']
       (page_card
         [heading [textn ''Submissions''],
          div_node ''mb-3'' [link_to ''/admin/new/submission'' [textn ''Send new submission'']]]
         v)"

datatype submissions_event = SetPage jsnum | ToggleFilter | FilterEvent filter_event

definition submission_row :: "submission \<Rightarrow> 'a node" where
  "submission_row s =
     NEl ''tr'' [AVal ''key'' (num (int (sub_id s)))]
       [scope_cell [link_to (''/admin/submission/'' @ string_of_nat (sub_id s)) [NVal (num (int (sub_id s)))]],
        NEl ''td'' [] [link_to (''/admin/problem/'' @ string_of_nat (problem_id s)) [NVal (num (int (problem_id s)))]],
        NEl ''td'' [] [textn (language s)],
        NEl ''td'' [] [NVal (score s)],
        NEl ''td'' [] [SubmissionVerdict (sub_verdict s) (current_test s) (test_results s)]]"

text \<open>\<open>page\<close> is the number of \<^verbatim>\<open>parseInt(page)\<close>, whose argument may be null.\<close>

definition page_number :: "url_params \<Rightarrow> jsnum" where
  "page_number params = (case get_param params ''page'' of Some s \<Rightarrow> parseInt s | None \<Rightarrow> NaN)"

definition Submissions ::
    "url_params \<Rightarrow> submission list_page \<Rightarrow> bool \<Rightarrow> query \<Rightarrow> js_error + submissions_event node" where
  "Submissions params st showFilter filterParams =
     (if loading st then Submissions_wrap null_node
      else if truthy (list_error st) then Submissions_wrap (error_text (list_error st))
      else (case items st of
          None \<Rightarrow> Inl TypeError
        | Some submissions \<Rightarrow> Submissions_wrap
            (NEl ''div'' []
              [div_node ''row m-0''
                 [div_node ''col ps-0'' [map_node SetPage (Pagination (page_number params))],
                  div_node ''col-auto text-end''
                    [NEl ''a'' [attr ''href'' ''#'', on_click ToggleFilter]
                      [textn (if showFilter then ''Hide filters'' else ''Show filters'')]]],
               if showFilter then map_node FilterEvent (FiltersForm filterParams) else null_node,
               NEl ''table'' [cls ''table mb-3'']
                 [NEl ''thead'' [] [NEl ''tr'' []
                    [scope_cell [textn ''ID''], scope_cell [textn ''Problem ID''],
                     scope_cell [textn ''Language''], scope_cell [textn ''Score''],
                     scope_cell [textn ''Verdict'']]],
                  NEl ''tbody'' [] [NFrag (map submission_row submissions)]],
               map_node SetPage (Pagination (page_number params))])))"

section \<open>Properties of the parameters\<close>

lemma from_entries_append [simp]: "from_entries (ps @ [(k, v)]) = AList.update k v (from_entries ps)"
  by (simp add: from_entries_def)

lemma from_entries_Nil [simp]: "from_entries [] = []"
  by (simp add: from_entries_def)

lemma from_entries_lookup: "map_of (from_entries ps) k = map_of (rev ps) k"
proof (induction ps rule: rev_induct)
  case (snoc p ps)
  then show ?case by (cases p) (simp add: update_conv')
qed simp

lemma from_entries_distinct: "distinct (map fst (from_entries ps))"
proof (induction ps rule: rev_induct)
  case (snoc p ps)
  then show ?case by (cases p) (simp add: distinct_update)
qed simp

lemma setPage_lookup:
  assumes "setPage ps n = Some q"
  shows "map_of q ''page'' = page_text n" and "k \<noteq> ''page'' \<Longrightarrow> map_of q k = map_of (rev ps) k"
  using assms by (auto simp: setPage_def update_conv' from_entries_lookup)

section \<open>Properties of the submission list\<close>

lemma SubmissionVerdict_silent [simp]: "\<not> emits (SubmissionVerdict v c r) a"
  by (simp add: SubmissionVerdict_def Let_def)

lemma submission_row_silent [simp]: "\<not> emits (submission_row s) a"
  by (simp add: submission_row_def)

lemma page_card_emits: "emits (page_card h c) a \<longleftrightarrow> (\<exists>n \<in> set h. emits n a) \<or> emits c a"
  by (simp add: page_card_def)

lemma nav_item_silent [simp]: "\<not> emits (nav_item i v) a"
  by (simp add: nav_item_def)

lemma Body_emits: "Body navs c = Inr n \<Longrightarrow> emits n a \<longleftrightarrow> emits c a"
  by (auto simp: Body_def mapi_def split: if_splits)

lemma Submissions_wrap_emits: "Submissions_wrap c = Inr n \<Longrightarrow> emits n a \<longleftrightarrow> emits c a"
  unfolding Submissions_wrap_def by (drule Body_emits [where a = a]) (simp add: page_card_emits heading_def)

lemma Submissions_wrap_total: "\<exists>n. Submissions_wrap c = Inr n"
  by (simp add: Submissions_wrap_def Body_def)

lemma Submissions_emits_page:
  assumes "Submissions params st f q = Inr n" and "emits n (SetPage p)"
  shows "p = js_succ (page_number params) \<or>
         js_gt_one (page_number params) \<and> p = js_pred (page_number params)"
proof -
  note wrap = Submissions_wrap_emits [where n = n and a = "SetPage p", THEN iffD1, OF _ assms(2)]
  show ?thesis
  proof (cases "loading st \<or> truthy (list_error st)")
    case True
    with assms(1) show ?thesis
      by (auto simp: Submissions_def error_text_def dest!: wrap split: if_splits)
  next
    case False
    with assms(1) obtain xs where "items st = Some xs"
      by (auto simp: Submissions_def split: option.splits)
    with False assms(1) show ?thesis
      by (auto simp: Submissions_def Pagination_emits dest!: wrap split: if_splits)
  qed
qed

section \<open>Replies that arrive late\<close>

text \<open>
  What happens to a mounted list: the user moves to another query, or the \<open>i\<close>-th outstanding
  request is answered.  The server's answers are a function of the query.  The effect has no clean-up, so
  every answer is taken, whatever the query is by then.
\<close>

datatype net_event = Navigate url_params | Answer nat

record submissions_session =
  current :: url_params
  outstanding :: "url_params list"
  shown :: "submission list_page"

definition InitialSubmissions :: submissions_session where
  "InitialSubmissions = \<lparr>current = [], outstanding = [], shown = InitialList\<rparr>"

definition sends_request :: "url_params \<Rightarrow> bool" where
  "sends_request params \<longleftrightarrow> (\<exists>r. Request r \<in> set (snd (Submissions_effect params)))"

fun submissions_step ::
    "(url_params \<Rightarrow> submission list option outcome) \<Rightarrow> submissions_session \<Rightarrow> net_event \<Rightarrow> submissions_session" where
  "submissions_step server s (Navigate params) =
     s\<lparr>current := params,
       outstanding := outstanding s @
         (if no_param (get_param params ''page'') then [] else [params])\<rparr>"
| "submissions_step server s (Answer i) =
     (if i < length (outstanding s) then
        s\<lparr>outstanding := remove_at i (outstanding s),
          shown := (case Submissions_reply (server (outstanding s ! i)) of Inr st \<Rightarrow> st | Inl _ \<Rightarrow> shown s)\<rparr>
      else s)"

definition submissions_run ::
    "(url_params \<Rightarrow> submission list option outcome) \<Rightarrow> net_event list \<Rightarrow> submissions_session" where
  "submissions_run server evs = foldl (submissions_step server) InitialSubmissions evs"

lemma page_text_one: "page_text (Fin 1) = Some ''1''"
  by code_simp

lemma sends_request_iff: "sends_request params \<longleftrightarrow> \<not> no_param (get_param params ''page'')"
  by (simp add: sends_request_def Submissions_effect_def setPage_def page_text_one)

text \<open>With answers in the order of the requests the list is the one of the query, once all are in.\<close>

definition in_order :: "(url_params \<Rightarrow> submission list option outcome) \<Rightarrow> submissions_session \<Rightarrow> bool" where
  "in_order server s \<longleftrightarrow>
     (if outstanding s = [] then Submissions_reply (server (current s)) = Inr (shown s) \<or> current s = []
      else last (outstanding s) = current s)"

definition orderly :: "net_event \<Rightarrow> bool" where
  "orderly ev \<longleftrightarrow> (case ev of Navigate params \<Rightarrow> sends_request params | Answer i \<Rightarrow> i = 0)"

lemma in_order_step:
  assumes "in_order server s" and "orderly ev" and "\<And>q. server q \<noteq> Rejected None"
  shows "in_order server (submissions_step server s ev)"
proof (cases ev)
  case (Navigate params)
  with assms show ?thesis by (simp add: in_order_def orderly_def sends_request_iff)
next
  case (Answer i)
  have total: "\<exists>st. Submissions_reply (server q) = Inr st" for q
    using assms(3) [of q] by (auto simp: Submissions_reply_def split: outcome.splits option.splits)
  show ?thesis
  proof (cases "outstanding s")
    case Nil
    with assms Answer show ?thesis by simp
  next
    case (Cons q qs)
    with assms Answer total [of q] show ?thesis
      by (cases "qs = []") (auto simp: in_order_def orderly_def remove_at_def)
  qed
qed

lemma in_order_run:
  assumes "\<forall>ev \<in> set evs. orderly ev" and "\<And>q. server q \<noteq> Rejected None"
  shows "in_order server (submissions_run server evs)"
  using assms(1)
proof (induction evs rule: rev_induct)
  case Nil
  show ?case by (simp add: submissions_run_def InitialSubmissions_def in_order_def)
next
  case (snoc ev evs)
  then show ?case using in_order_step [OF _ _ assms(2)] by (simp add: submissions_run_def)
qed

end
