(* ===== verification/JsProblemPages.thy ===== *)
theory JsProblemPages
  imports JsProblemForm JsListPages
begin

text \<open>
  pages/NewProblem.jsx and pages/Problem.jsx: the two pages around the problem editor.  Each page is
  a state, the requests its handlers send, the state after the replies, and its view.
\<close>

section \<open>Common parts\<close>

text \<open>An id in a template string.\<close>

definition id_text :: "nat option \<Rightarrow> string" where
  "id_text i = (case i of None \<Rightarrow> ''undefined'' | Some n \<Rightarrow> string_of_nat n)"

text \<open>What a page does besides updating its state: a request with its body, or a navigation.\<close>

datatype 'b page_cmd = Send http_request 'b | GoTo string

definition alert_row :: "alert \<Rightarrow> 'a node" where
  "alert_row al = div_node ''row mb-md-3 mb-0'' [ChangeAlert al]"

text \<open>The state of an alert after what a settled request asks for, and the alerts of its timers.\<close>

definition after_alerts :: "alert \<Rightarrow> 'e alert_cmd list \<Rightarrow> alert" where
  "after_alerts al cs = foldl (\<lambda>al c. case c of SetAlert a \<Rightarrow> a | _ \<Rightarrow> al) al cs"

lemma after_alerts_simps [simp]:
  "after_alerts al [] = al"
  "after_alerts al (SetAlert a # cs) = after_alerts a cs"
  "after_alerts al (ClearAfter n # cs) = after_alerts al cs"
  "after_alerts al (Run e # cs) = after_alerts al cs"
  by (simp_all add: after_alerts_def)

section \<open>New problem\<close>

record new_problem_page =
  np_problem :: jproblem
  np_alert :: alert

definition InitialNewProblem :: new_problem_page where
  "InitialNewProblem = \<lparr>np_problem = ProblemInitialState, np_alert = no_alert\<rparr>"

definition newProblem :: "jproblem \<Rightarrow> jproblem page_cmd" where
  "newProblem problem = Send \<lparr>http_method = ''PUT'', http_url = ''/api/new/problem''\<rparr> problem"

text \<open>The problem of the reply is read for its id.\<close>

definition newProblem_ok :: "loaded option \<Rightarrow> js_error + jproblem page_cmd list" where
  "newProblem_ok problem =
     (case problem of None \<Rightarrow> Inl TypeError | Some l \<Rightarrow> Inr [GoTo (''/admin/problem/'' @ id_text (lid l))])"

definition newProblem_reply :: "loaded option outcome \<Rightarrow> jproblem page_cmd settled" where
  "newProblem_reply out = SendAlertRequest (Some newProblem_ok) out"

definition NewProblem_view :: "new_problem_page \<Rightarrow> js_error + form_event node" where
  "NewProblem_view st =
     Body [nav_to ''/admin'' ''Admin'', nav_to ''/admin/problems'' ''Problem'', nav_to ''/admin/new/problem'' ''New'']
       (page_card [heading [textn ''Create new problem'']]
         (NFrag [RenderProblemForm (np_problem st) ''Create'', alert_row (np_alert st)]))"

fun NewProblem_event :: "new_problem_page \<Rightarrow> form_event \<Rightarrow> js_error + new_problem_page \<times> jproblem page_cmd list" where
  "NewProblem_event st (Change a) =
     bindE (ProblemReducer (np_problem st) a) (\<lambda>p. Inr (st\<lparr>np_problem := p\<rparr>, []))"
| "NewProblem_event st SubmitForm = Inr (st, [newProblem (np_problem st)])"

section \<open>Problem\<close>

record problem_page =
  pp_loading :: bool
  pp_error :: prim
  pp_problem :: jproblem
  pp_alert :: alert

definition InitialProblem :: problem_page where
  "InitialProblem = \<lparr>pp_loading = True, pp_error = Null, pp_problem = ProblemInitialState, pp_alert = no_alert\<rparr>"

definition Problem_effect :: "string \<Rightarrow> http_request list" where
  "Problem_effect pageID = [GET (''/api/get/problem/'' @ pageID)]"

text \<open>
  A fulfilled request sets the state and dispatches the problem; the reducer throws when the reply
  has no problem.  A rejected one sets the error only.
\<close>

definition Problem_reply :: "problem_page \<Rightarrow> loaded option outcome \<Rightarrow> js_error + problem_page" where
  "Problem_reply st out =
     (case out of
        Fulfilled resp \<Rightarrow>
          bindE (ProblemReducer (pp_problem st) (LoadProblem (reply_response resp)))
            (\<lambda>p. Inr (st\<lparr>pp_loading := False, pp_error := reply_error resp, pp_problem := p\<rparr>))
      | Rejected (Some e) \<Rightarrow> Inr (st\<lparr>pp_loading := False, pp_error := e\<rparr>)
      | Rejected None \<Rightarrow> Inl TypeError)"

definition modifyProblem :: "string \<Rightarrow> jproblem \<Rightarrow> jproblem page_cmd" where
  "modifyProblem pageID problem =
     Send \<lparr>http_method = ''POST'', http_url = ''/api/modify/problem/'' @ pageID\<rparr> problem"

definition modifyProblem_reply :: "unit outcome \<Rightarrow> jproblem page_cmd settled" where
  "modifyProblem_reply out = SendAlertRequest None out"

definition Problem_wrap :: "string \<Rightarrow> jproblem \<Rightarrow> 'a node \<Rightarrow> js_error + 'a node" where
  "Problem_wrap pageID problem content =
     Body [nav_to ''/admin'' ''Admin'', nav_to ''/admin/problems'' ''Problems'',
           nav_to (''/admin/problem/'' @ pageID) pageID]
       (page_card
         [heading [textn ''Problem '', textn pageID],
          div_node ''mb-3'' [link_to (''/admin/submissions?problem_id='' @ id_text (pid problem))
            [textn ''Submissions'']],
          div_node ''mb-3'' [link_to (''/admin/new/submission?problem_id='' @ id_text (pid problem))
            [textn ''Send submission'']]]
         content)"

definition Problem_view :: "string \<Rightarrow> problem_page \<Rightarrow> js_error + form_event node" where
  "Problem_view pageID st =
     (if pp_loading st then Problem_wrap pageID (pp_problem st) null_node
      else if truthy (pp_error st) then Problem_wrap pageID (pp_problem st) (error_text (pp_error st))
      else Problem_wrap pageID (pp_problem st)
        (NEl ''div'' [] [RenderProblemForm (pp_problem st) ''Save'', alert_row (pp_alert st)]))"

fun Problem_event :: "string \<Rightarrow> problem_page \<Rightarrow> form_event \<Rightarrow> js_error + problem_page \<times> jproblem page_cmd list" where
  "Problem_event pageID st (Change a) =
     bindE (ProblemReducer (pp_problem st) a) (\<lambda>p. Inr (st\<lparr>pp_problem := p\<rparr>, []))"
| "Problem_event pageID st SubmitForm = Inr (st, [modifyProblem pageID (pp_problem st)])"

section \<open>Properties\<close>

lemma alert_row_silent [simp]: "\<not> emits (alert_row al) a"
  by (simp add: alert_row_def ChangeAlert_def)

lemma NewProblem_view_emits:
  "NewProblem_view st = Inr n \<Longrightarrow> emits n a \<longleftrightarrow> emits (RenderProblemForm (np_problem st) ''Create'') a"
  unfolding NewProblem_view_def
  by (drule Body_emits [where a = a]) (simp add: page_card_emits heading_def)

lemma Problem_wrap_emits: "Problem_wrap i p c = Inr n \<Longrightarrow> emits n a \<longleftrightarrow> emits c a"
  unfolding Problem_wrap_def
  by (drule Body_emits [where a = a]) (simp add: page_card_emits heading_def)

lemma Problem_view_emits:
  assumes "Problem_view i st = Inr n"
  shows "emits n a \<longleftrightarrow> \<not> pp_loading st \<and> \<not> truthy (pp_error st) \<and>
    emits (RenderProblemForm (pp_problem st) ''Save'') a"
  using assms
  by (auto simp: Problem_view_def error_text_def dest!: Problem_wrap_emits [where a = a] split: if_splits)

text \<open>Whatever is emitted keeps the editor of the page well formed.\<close>

lemma NewProblem_event_ok:
  assumes "form_ok (np_problem st)" and "NewProblem_view st = Inr n" and "emits n ev"
  shows "\<exists>st' cs. NewProblem_event st ev = Inr (st', cs) \<and> form_ok (np_problem st')"
proof (cases ev)
  case (Change a)
  with assms(2,3) have "can_change (np_problem st) a"
    by (auto simp: NewProblem_view_emits can_change_def)
  with assms(1) Change form_accepts [of "np_problem st" a] show ?thesis by auto
qed (use assms(1) in simp)

lemma Problem_event_ok:
  assumes "form_ok (pp_problem st)" and "Problem_view i st = Inr n" and "emits n ev"
  shows "\<exists>st' cs. Problem_event i st ev = Inr (st', cs) \<and> form_ok (pp_problem st')"
proof (cases ev)
  case (Change a)
  with assms(2,3) have "can_change (pp_problem st) a"
    by (auto simp: Problem_view_emits can_change_def)
  with assms(1) Change form_accepts [of "pp_problem st" a] show ?thesis by auto
qed (use assms(1) in simp)

lemma views_total: "\<exists>n. NewProblem_view st = Inr n" "\<exists>n. Problem_view i st' = Inr n"
  by (simp_all add: NewProblem_view_def Problem_view_def Problem_wrap_def Body_def)

interpretation new_problem: reducer
  "\<lambda>st ev. bindE (NewProblem_event st ev) (\<lambda>r. Inr (fst r))"
  "\<lambda>st ev. \<exists>n. NewProblem_view st = Inr n \<and> emits n ev"
  "\<lambda>st. form_ok (np_problem st)"
  by unfold_locales (use NewProblem_event_ok in fastforce)

interpretation edit_problem: reducer
  "\<lambda>st ev. bindE (Problem_event i st ev) (\<lambda>r. Inr (fst r))"
  "\<lambda>st ev. \<exists>n. Problem_view i st = Inr n \<and> emits n ev"
  "\<lambda>st. form_ok (pp_problem st)"
  by unfold_locales (use Problem_event_ok in fastforce)

text \<open>A loaded problem whose groups are well formed gives a well-formed page.\<close>

definition loaded_ok :: "loaded \<Rightarrow> bool" where
  "loaded_ok l \<longleftrightarrow> (case ltest_groups l of None \<Rightarrow> True | Some gs \<Rightarrow> names_ok gs \<and> required_ok gs)"

lemma Problem_reply_ok:
  assumes "loaded_ok l"
  shows "\<exists>st'. Problem_reply st (Fulfilled \<lparr>reply_error = e, reply_message = m, reply_response = Some l\<rparr>) = Inr st' \<and>
    form_ok (pp_problem st') \<and> \<not> pp_loading st'"
  using assms
  by (auto simp: Problem_reply_def loaded_ok_def form_ok_def names_ok_def required_ok_def split: option.splits)

end
