(* ===== verification/JsSubmissionPages.thy ===== *)
theory JsSubmissionPages
  imports JsCompilation JsProblemPages
begin

text \<open>
  pages/NewSubmission.jsx and pages/Submission.jsx: the form that sends a submission, and the page of
  one submission, which holds the reducers and watchers of its compilation and test data.
\<close>

section \<open>New submission\<close>

text \<open>The contents of the form's fields; \<open>'f\<close> is the browser's file object.\<close>

record 'f submission_form =
  f_problem_id :: string
  f_language :: string
  f_solution :: 'f
  f_solution_text :: string

datatype 'f form_value = TextValue string | FileValue 'f

definition newSubmission :: "'f submission_form \<Rightarrow> (string \<times> 'f form_value) list page_cmd" where
  "newSubmission data =
     Send \<lparr>http_method = ''PUT'', http_url = ''/api/new/submission''\<rparr>
       [(''problem_id'', TextValue (f_problem_id data)),
        (''language'', TextValue (f_language data)),
        (''solution'', FileValue (f_solution data)),
        (''solution_text'', TextValue (f_solution_text data))]"

text \<open>The success callback sets an alert with the id.\<close>

definition newSubmission_ok :: "nat option \<Rightarrow> js_error + alert list" where
  "newSubmission_ok submissionID =
     Inr [\<lparr>hasAlert = True, alert_ok = True,
           alert_message = Str (''Submission '' @ id_text submissionID @ '' is created'')\<rparr>]"

definition newSubmission_reply :: "nat option outcome \<Rightarrow> alert settled" where
  "newSubmission_reply out = SendAlertRequest (Some newSubmission_ok) out"

definition form_row :: "string \<Rightarrow> string \<Rightarrow> 'a node \<Rightarrow> 'a node" where
  "form_row name caption field =
     div_node ''row mb-md-3 mb-0''
       [NEl ''label''
          [attr ''htmlFor'' name, cls ''col-xl-3 col-md-4 col-form-label pb-0 pb-md-2 pt-3'']
          [textn caption],
        div_node ''col-md-8 col-xl-6 col-form-label'' [field]]"

text \<open>The view; \<open>data\<close> is what the fields contain when the form is submitted.\<close>

definition NewSubmission ::
    "url_params \<Rightarrow> alert \<Rightarrow> 'f submission_form \<Rightarrow> js_error + 'f submission_form node" where
  "NewSubmission params al data =
     Body [nav_to ''/admin'' ''Admin'', nav_to ''/admin/submissions'' ''Submission'',
           nav_to ''/admin/new/submission'' ''New'']
       (page_card [heading [textn ''Send new submission'']]
         (NFrag
           [NEl ''form''
              [AHandler ''onSubmit'' (\<lambda>_. [PreventDefault, Do data]), attr ''encType'' ''multipart/form-data'']
              [form_row ''problem_id'' ''Problem ID''
                 (NEl ''input'' [attr ''type'' ''number'', cls ''form-control'', attr ''name'' ''problem_id'',
                    attr ''id'' ''problem_id'', AVal ''required'' (Bool True),
                    attr ''defaultValue'' (case get_param params ''problem_id'' of Some s \<Rightarrow> s | None \<Rightarrow> '''')] []),
               form_row ''language'' ''Language''
                 (NEl ''input'' [attr ''type'' ''text'', cls ''form-control'', attr ''id'' ''language'',
                    attr ''name'' ''language'', AVal ''required'' (Bool True)] []),
               form_row ''solution'' ''Solution file''
                 (NEl ''input'' [attr ''type'' ''file'', cls ''form-control'', attr ''id'' ''solution'',
                    attr ''name'' ''solution''] []),
               form_row ''solution_text'' ''Solution text''
                 (NEl ''textarea'' [cls ''form-control'', attr ''id'' ''solution_text'',
                    attr ''name'' ''solution_text''] []),
               div_node ''row mt-md-4 mt-2''
                 [div_node ''col-xl-3 d-xl-block d-none'' [],
                  div_node ''text-center col-12 col-xl-6''
                    [NEl ''button'' [attr ''type'' ''submit'', cls ''btn btn-primary w-100''] [textn ''Send'']]]],
            alert_row al]))"

section \<open>Submission\<close>

record submission_page =
  sp_loading :: bool
  sp_error :: prim
  sp_submission :: "submission option"
  sp_compilation :: compilation_data
  sp_tests :: "test_data list"

definition InitialSubmission :: submission_page where
  "InitialSubmission = \<lparr>sp_loading = True, sp_error = Null, sp_submission = None,
     sp_compilation = InitialCompilationData, sp_tests = []\<rparr>"

definition Submission_effect :: "string \<Rightarrow> http_request list" where
  "Submission_effect pageID = [GET (''/api/get/submission/'' @ pageID)]"

definition Submission_reply :: "submission_page \<Rightarrow> submission option outcome \<Rightarrow> js_error + submission_page" where
  "Submission_reply st out =
     (case out of
        Fulfilled resp \<Rightarrow>
          Inr (st\<lparr>sp_loading := False, sp_error := reply_error resp, sp_submission := reply_response resp\<rparr>)
      | Rejected (Some e) \<Rightarrow> Inr (st\<lparr>sp_loading := False, sp_error := e\<rparr>)
      | Rejected None \<Rightarrow> Inl TypeError)"

datatype submission_event = CompilationEvent compilation_action | TestEvent test_action

fun Submission_event :: "submission_page \<Rightarrow> submission_event \<Rightarrow> js_error + submission_page" where
  "Submission_event st (CompilationEvent a) =
     bindE (CompilationDataReducer (sp_compilation st) a) (\<lambda>c. Inr (st\<lparr>sp_compilation := c\<rparr>))"
| "Submission_event st (TestEvent a) =
     bindE (TestDataReducer (sp_tests st) a) (\<lambda>ts. Inr (st\<lparr>sp_tests := ts\<rparr>))"

definition Submission_wrap :: "string \<Rightarrow> 'a node \<Rightarrow> js_error + 'a node" where
  "Submission_wrap pageID content =
     Body [nav_to ''/admin'' ''Admin'', nav_to ''/admin/submissions'' ''Submissions'',
           nav_to (''/admin/submission/'' @ pageID) pageID]
       (page_card [heading [textn ''Submission '', textn pageID]] content)"

text \<open>The two Russian captions (start and end of testing), in UTF-8.\<close>

definition started_caption :: string where
  "started_caption = map char_of
     [208, 146, 209, 128, 208, 181, 208, 188, 209, 143, 32, 208, 189, 208, 176, 209, 135, 208,
      176, 208, 187, 208, 176, 32, 209, 130, 208, 181, 209, 129, 209, 130, 208, 184, 209, 128,
      208, 190, 208, 178, 208, 176, 208, 189, 208, 184, 209, 143, 58, 32::nat]"

definition finished_caption :: string where
  "finished_caption = map char_of
     [208, 146, 209, 128, 208, 181, 208, 188, 209, 143, 32, 208, 190, 208, 186, 208, 190, 208,
      189, 209, 135, 208, 176, 208, 189, 208, 184, 209, 143, 32, 209, 130, 208, 181, 209, 129,
      209, 130, 208, 184, 209, 128, 208, 190, 208, 178, 208, 176, 208, 189, 208, 184, 209, 143,
      58, 32::nat]"

definition head_row :: "string list \<Rightarrow> 'a node" where
  "head_row captions = NEl ''thead'' [] [NEl ''tr'' [] (map scope_row captions)]"

definition render_group_results :: "group_result list option \<Rightarrow> 'a node" where
  "render_group_results grs =
     (case grs of None \<Rightarrow> null_node
      | Some gs \<Rightarrow> NFrag
          [NEl ''h5'' [cls ''mb-3''] [textn ''Group results''],
           div_node ''row''
             [div_node ''col-12 col-md-10 col-lg-8''
               [NEl ''table'' [cls ''table mb-3'']
                 [head_row [''Name'', ''Score'', ''Passed''],
                  NEl ''tbody'' [] [NFrag (mapi (\<lambda>index grp.
                    NEl ''tr'' [AVal ''key'' (num (int index))]
                      [NEl ''td'' [] [NVal (group_name grp)],
                       NEl ''td'' [] [NVal (group_points grp)],
                       NEl ''td'' [] [if passed grp
                         then NEl ''span'' [cls ''text-success''] [textn ''Yes'']
                         else NEl ''span'' [cls ''text-danger''] [textn ''No'']]]) gs)]]]]])"

definition render_test_results :: "test_data list \<Rightarrow> test_result list option \<Rightarrow> test_action node" where
  "render_test_results tests trs =
     (case trs of None \<Rightarrow> null_node
      | Some rs \<Rightarrow> NFrag
          [NEl ''h5'' [cls ''mb-3''] [textn ''Test results''],
           NEl ''table'' [cls ''table mb-3'']
             [head_row [''#'', ''Verdict'', ''Points'', ''Time'', ''Memory'', ''Wall time'', ''Exit code'',
                ''More info''],
              NEl ''tbody'' [] [NFrag (map (\<lambda>tr. RenderTest (test_at tests (test_number tr)) tr) rs)]]])"

definition Submission_view ::
    "(string \<Rightarrow> prim \<Rightarrow> highlighted) \<Rightarrow> string \<Rightarrow> submission_page \<Rightarrow> js_error + submission_event node" where
  "Submission_view highlight pageID st =
     (if sp_loading st then Submission_wrap pageID null_node
      else if truthy (sp_error st) then Submission_wrap pageID (error_text (sp_error st))
      else (case sp_submission st of
          None \<Rightarrow> Inl TypeError
        | Some s \<Rightarrow>
            bindE (RenderCompilationData highlight (sp_compilation st) s) (\<lambda>comp.
              Submission_wrap pageID (NEl ''div'' []
                [NEl ''table'' [cls ''table mb-3'']
                   [head_row [''ID'', ''Problem ID'', ''Language'', ''Score'', ''Verdict''],
                    NEl ''tbody'' []
                      [NEl ''tr'' [AVal ''key'' (num (int (sub_id s)))]
                        [scope_cell [NVal (num (int (sub_id s)))],
                         NEl ''td'' [] [link_to (''/admin/problem/'' @ string_of_nat (problem_id s))
                           [NVal (num (int (problem_id s)))]],
                         NEl ''td'' [] [textn (language s)],
                         NEl ''td'' [] [NVal (score s)],
                         NEl ''td'' [] [SubmissionVerdict (sub_verdict s) (current_test s) (test_results s)]]]],
                 NEl ''p'' [] [textn started_caption, NVal (created_at s)],
                 NEl ''p'' [] [textn finished_caption, NVal (updated_at s)],
                 map_node CompilationEvent comp,
                 render_group_results (group_results s),
                 map_node TestEvent (render_test_results (sp_tests st) (test_results s))]))))"

section \<open>Properties\<close>

lemma Submission_wrap_emits: "Submission_wrap i c = Inr n \<Longrightarrow> emits n a \<longleftrightarrow> emits c a"
  unfolding Submission_wrap_def
  by (drule Body_emits [where a = a]) (simp add: page_card_emits heading_def)

lemma Submission_wrap_total: "\<exists>n. Submission_wrap i c = Inr n"
  by (simp add: Submission_wrap_def Body_def)

lemma head_row_silent [simp]: "\<not> emits (head_row cs) a"
  by (auto simp: head_row_def scope_row_def)

lemma group_results_silent [simp]: "\<not> emits (render_group_results grs) a"
  by (auto simp: render_group_results_def mapi_def split: option.splits if_splits)

lemma test_results_emits:
  "emits (render_test_results ts trs) a \<longleftrightarrow>
     (\<exists>tr \<in> set (case trs of None \<Rightarrow> [] | Some rs \<Rightarrow> rs). emits (RenderTest (test_at ts (test_number tr)) tr) a)"
  by (cases trs) (auto simp: render_test_results_def)

lemma Submission_view_emits:
  assumes "Submission_view h i st = Inr n" and "emits n ev"
  shows "\<exists>s. sp_submission st = Some s \<and> \<not> sp_loading st \<and> \<not> truthy (sp_error st) \<and>
    (ev = CompilationEvent (CompAct ''show'' Undef Undef Undef) \<and> compilation_result s \<noteq> None \<or>
     (\<exists>a. ev = TestEvent a \<and> emits (render_test_results (sp_tests st) (test_results s)) a))"
proof -
  note wrap = Submission_wrap_emits [where n = n and a = ev, THEN iffD1, OF _ assms(2)]
  show ?thesis
  proof (cases "sp_loading st \<or> truthy (sp_error st)")
    case True
    with assms(1) show ?thesis
      by (auto simp: Submission_view_def error_text_def dest!: wrap split: if_splits)
  next
    case False
    with assms(1) obtain s comp where s: "sp_submission st = Some s"
      and comp: "RenderCompilationData h (sp_compilation st) s = Inr comp"
      by (auto simp: Submission_view_def bindE_def split: option.splits sum.splits)
    with False assms(1) have "(\<exists>a. ev = CompilationEvent a \<and> emits comp a) \<or>
        (\<exists>a. ev = TestEvent a \<and> emits (render_test_results (sp_tests st) (test_results s)) a)"
      by (auto simp: Submission_view_def dest!: wrap)
    with RenderCompilationData_emits [OF comp] s False show ?thesis by auto
  qed
qed

text \<open>The page shows, and its data belong to the submission it shows.\<close>

definition submission_page_ok :: "submission_page \<Rightarrow> bool" where
  "submission_page_ok st \<longleftrightarrow>
     (case sp_submission st of None \<Rightarrow> sp_loading st \<or> truthy (sp_error st)
      | Some s \<Rightarrow> named_source (sp_compilation st) \<and> (test_results s = None \<or> tests_ok s (sp_tests st)))"

lemma Submission_view_total: "submission_page_ok st \<Longrightarrow> \<exists>n. Submission_view h i st = Inr n"
proof (cases "sp_loading st \<or> truthy (sp_error st)")
  case False
  assume "submission_page_ok st"
  with False obtain s where s: "sp_submission st = Some s" "named_source (sp_compilation st)"
    by (auto simp: submission_page_ok_def split: option.splits)
  with RenderCompilationData_total [of "sp_compilation st" h s] False Submission_wrap_total
  show ?thesis by (auto simp: Submission_view_def)
qed (use Submission_wrap_total in \<open>auto simp: Submission_view_def\<close>)

lemma Submission_event_ok:
  assumes ok: "submission_page_ok st" and view: "Submission_view h i st = Inr n" and ev: "emits n ev"
  shows "\<exists>st'. Submission_event st ev = Inr st' \<and> submission_page_ok st'"
proof -
  from Submission_view_emits [OF view ev] obtain s where s: "sp_submission st = Some s"
    and cases: "ev = CompilationEvent (CompAct ''show'' Undef Undef Undef) \<or>
      (\<exists>a. ev = TestEvent a \<and> emits (render_test_results (sp_tests st) (test_results s)) a)" by blast
  from cases show ?thesis
  proof (elim disjE exE conjE)
    assume "ev = CompilationEvent (CompAct ''show'' Undef Undef Undef)"
    with ok s show ?thesis by (auto simp: submission_page_ok_def named_source_def)
  next
    fix a assume a: "ev = TestEvent a" "emits (render_test_results (sp_tests st) (test_results s)) a"
    then obtain rs where rs: "test_results s = Some rs"
      by (cases "test_results s") (auto simp: test_results_emits)
    with a(2) have "test_dispatch s (sp_tests st) a" by (auto simp: test_results_emits test_dispatch_def)
    moreover have "tests_ok s (sp_tests st)" using ok s rs by (simp add: submission_page_ok_def)
    ultimately obtain ts where "TestDataReducer (sp_tests st) a = Inr ts" "tests_ok s ts"
      using tests_accept by blast
    with a ok s show ?thesis by (auto simp: submission_page_ok_def)
  qed
qed

interpretation submission_page: reducer Submission_event
  "\<lambda>st ev. \<exists>n. Submission_view h i st = Inr n \<and> emits n ev" submission_page_ok
  by unfold_locales (use Submission_event_ok in blast)

end
