(* ===== verification/JsStatusPage.thy ===== *)
theory JsStatusPage
  imports JsProblemPages
begin

text \<open>
  pages/Status.jsx: the state of the master and its invokers, and the reset of the invokers' caches.
  The arrays of the reply may be null (the server writes an absent slice as null), and reading the
  length of null throws.
\<close>

section \<open>State\<close>

record job_row =
  jr_type :: prim
  jr_submit_id :: prim
  jr_test :: prim
  jr_id :: prim

record invoker_row =
  ir_address :: prim
  ir_time_added :: prim
  ir_max_new_jobs :: prim
  ir_testing_jobs :: "job_row list option"

record master_status =
  testing_submissions :: "nat list option"
  ms_invokers :: "invoker_row list option"

record status_page =
  stp_loading :: bool
  stp_error :: prim
  stp_status :: "master_status option"
  stp_alert :: alert

definition InitialStatus :: status_page where
  "InitialStatus = \<lparr>stp_loading = True, stp_error = Undef, stp_status = None, stp_alert = no_alert\<rparr>"

definition Status_effect :: "status_page \<Rightarrow> http_request list" where
  "Status_effect st = (if \<not> stp_loading st then [] else [GET ''/api/get/master_status''])"

definition Status_reply :: "status_page \<Rightarrow> master_status option outcome \<Rightarrow> js_error + status_page" where
  "Status_reply st out =
     (case out of
        Fulfilled resp \<Rightarrow>
          Inr (st\<lparr>stp_loading := False, stp_status := reply_response resp, stp_error := reply_error resp\<rparr>)
      | Rejected (Some e) \<Rightarrow> Inr (st\<lparr>stp_loading := False, stp_status := None, stp_error := e\<rparr>)
      | Rejected None \<Rightarrow> Inl TypeError)"

text \<open>The one event of the page is the reset.\<close>

datatype status_event = ResetInvokerCache

definition resetInvokerCache :: "unit page_cmd" where
  "resetInvokerCache = Send \<lparr>http_method = ''POST'', http_url = ''/api/reset/invoker_cache''\<rparr> ()"

definition resetInvokerCache_reply :: "unit outcome \<Rightarrow> alert settled" where
  "resetInvokerCache_reply out =
     SendAlertRequest
       (Some (\<lambda>_. Inr [\<lparr>hasAlert = True, alert_ok = True, alert_message = Str ''Reseted invoker cache''\<rparr>]))
       out"

text \<open>
  The alert of a page whose success callback sets an alert: here, and on the page that sends
  submissions.
\<close>

definition callback_alert :: "alert \<Rightarrow> alert alert_cmd list \<Rightarrow> alert" where
  "callback_alert al cs =
     foldl (\<lambda>al c. case c of SetAlert a \<Rightarrow> a | Run a \<Rightarrow> a | ClearAfter _ \<Rightarrow> al) al cs"

section \<open>View\<close>

definition getJobType :: "prim \<Rightarrow> string" where
  "getJobType jobType =
     (if strict_eq jobType (num 1) then ''Compilation''
      else if strict_eq jobType (num 2) then ''Test''
      else ''Unknown'')"

definition Status_wrap :: "'a node \<Rightarrow> js_error + 'a node" where
  "Status_wrap v =
     Body [nav_to ''/admin'' ''Admin'', nav_to ''/admin/status'' ''Status'']
       (page_card [heading [textn ''Master status'']] v)"

definition fact_row :: "string \<Rightarrow> prim \<Rightarrow> 'a node" where
  "fact_row caption v =
     div_node ''row mb-2''
       [div_node ''col-xl-2 col-sm-3 col-12'' [NEl ''b'' [] [textn caption]],
        div_node ''col-sm-9 col-12'' [NVal v]]"

definition job_node :: "nat \<Rightarrow> nat \<Rightarrow> job_row \<Rightarrow> 'a node" where
  "job_node index jobIndex job =
     NEl ''tr'' [attr ''key'' (string_of_nat index @ ''-'' @ string_of_nat jobIndex)]
       [NEl ''td'' [] [textn (getJobType (jr_type job))],
        NEl ''td'' [] [NVal (jr_submit_id job)],
        NEl ''td'' [] [NVal (if truthy (jr_test job) then jr_test job else Str '''')],
        NEl ''td'' [] [NVal (jr_id job)]]"

definition invoker_node :: "nat \<Rightarrow> invoker_row \<Rightarrow> js_error + 'a node" where
  "invoker_node index invoker =
     (case ir_testing_jobs invoker of None \<Rightarrow> Inl TypeError
      | Some jobs \<Rightarrow> Inr (NEl ''div'' [AVal ''key'' (num (int index))]
          [fact_row ''Address:'' (ir_address invoker),
           fact_row ''Time added:'' (ir_time_added invoker),
           fact_row ''Max new jobs:'' (ir_max_new_jobs invoker),
           NEl ''table'' [cls ''table mb-3'']
             [NEl ''thead'' [] [NEl ''tr'' []
                [scope_cell [textn ''Job Type''], scope_cell [textn ''Submission''],
                 scope_cell [textn ''Test''], scope_cell [textn ''ID'']]],
              NEl ''tbody'' [] [NFrag (mapi (job_node index) jobs)]]]))"

definition Status_view :: "status_page \<Rightarrow> js_error + status_event node" where
  "Status_view st =
     (if stp_loading st then Status_wrap null_node
      else if truthy (stp_error st) then Status_wrap (error_text (stp_error st))
      else (case stp_status st of None \<Rightarrow> Inl TypeError
        | Some status \<Rightarrow>
            (case (testing_submissions status, ms_invokers status) of
               (Some submissions, Some invokers) \<Rightarrow>
                  bindE (mapE id (mapi invoker_node invokers)) (\<lambda>nodes.
                    Status_wrap (NEl ''div'' []
                      [NEl ''h5'' [cls ''mb-4'']
                         [link_to ''/admin/submissions?verdict=RU'' [textn ''Submissions testing''],
                          textn '': '', NVal (num (int (length submissions)))],
                       NEl ''h5'' [cls ''mb-4''] [textn ''Invokers:''],
                       div_node ''mb-3''
                         [NEl ''a'' [attr ''href'' ''#'', cls ''mb-3'', on_click ResetInvokerCache]
                            [textn ''Reset cache'']],
                       div_node ''row'' [ChangeAlert (stp_alert st)],
                       div_node ''mx-3 mx-md-4'' [NFrag nodes]]))
             | _ \<Rightarrow> Inl TypeError)))"

section \<open>Properties\<close>

text \<open>What the reply must have for the page to show.\<close>

definition status_complete :: "master_status \<Rightarrow> bool" where
  "status_complete s \<longleftrightarrow> testing_submissions s \<noteq> None \<and>
     (case ms_invokers s of None \<Rightarrow> False
      | Some invokers \<Rightarrow> \<forall>i \<in> set invokers. ir_testing_jobs i \<noteq> None)"

lemma Status_wrap_total: "\<exists>n. Status_wrap v = Inr n"
  by (simp add: Status_wrap_def Body_def)

lemma invoker_node_total: "(\<exists>n. invoker_node i iv = Inr n) \<longleftrightarrow> ir_testing_jobs iv \<noteq> None"
  by (auto simp: invoker_node_def split: option.splits)

lemma mapE_id_total: "(\<exists>ns. mapE id ys = Inr ns) \<longleftrightarrow> (\<forall>y \<in> set ys. \<exists>n. y = Inr n)"
  by (induction ys) (auto simp: bindE_def split: sum.splits)

lemma mapi_total:
  "(\<exists>ns. mapE id (mapi f xs) = Inr ns) \<longleftrightarrow> (\<forall>i < length xs. \<exists>n. f i (xs ! i) = Inr n)"
  unfolding mapE_id_total by (force simp: set_conv_nth)

lemma Status_view_total:
  assumes "\<not> stp_loading st" and "\<not> truthy (stp_error st)"
  shows "(\<exists>n. Status_view st = Inr n) \<longleftrightarrow> (\<exists>s. stp_status st = Some s \<and> status_complete s)"
proof (cases "stp_status st")
  case None
  with assms show ?thesis by (simp add: Status_view_def)
next
  case (Some s)
  show ?thesis
  proof (cases "testing_submissions s = None \<or> ms_invokers s = None")
    case True
    with assms Some show ?thesis
      by (auto simp: Status_view_def status_complete_def split: option.splits)
  next
    case False
    then obtain subs invs where s: "testing_submissions s = Some subs" "ms_invokers s = Some invs" by auto
    have "(\<exists>ns. mapE id (mapi (invoker_node :: _ \<Rightarrow> _ \<Rightarrow> _ + status_event node) invs) = Inr ns) \<longleftrightarrow>
        (\<forall>i \<in> set invs. ir_testing_jobs i \<noteq> None)"
      unfolding mapi_total invoker_node_total by (metis in_set_conv_nth)
    with assms Some s Status_wrap_total show ?thesis
      by (auto simp: Status_view_def status_complete_def bindE_def split: sum.splits)
  qed
qed

end
