(* ===== verification/GoRoutes.thy ===== *)
theory GoRoutes
  imports Prelude
begin

text \<open>
  The routes of the API that the clients use (clients/tsapi/handler.go), and what a router promises:
  a path whose segments are those of a pattern, with anything but nothing for a parameter, is found.
  The routers themselves (gin on the server, react-router in the browser) are libraries.
\<close>

datatype handler =
    getProblems | getProblem | getTestInput | getTestAnswer | addProblem | modifyProblemHandler
  | getSubmissions | getSubmission | getSource | getCompileOutput
  | getTestOutput | getTestStderr | getTestCheck | addSubmission | getMasterStatus | resetInvokerCacheHandler

text \<open>Method, pattern and handler, in the order of registration, with the prefix of the group.\<close>

definition setupRoutes :: "(string \<times> string \<times> handler) list" where
  "setupRoutes =
     [(''GET'', ''/api/get/problems'', getProblems),
      (''GET'', ''/api/get/problem/:id'', getProblem),
      (''GET'', ''/api/get/problem/:id/test/:test/input'', getTestInput),
      (''GET'', ''/api/get/problem/:id/test/:test/answer'', getTestAnswer),
      (''PUT'', ''/api/new/problem'', addProblem),
      (''POST'', ''/api/modify/problem/:id'', modifyProblemHandler),
      (''GET'', ''/api/get/submissions'', getSubmissions),
      (''GET'', ''/api/get/submission/:id'', getSubmission),
      (''GET'', ''/api/get/submission/:id/source'', getSource),
      (''GET'', ''/api/get/submission/:id/compile_output'', getCompileOutput),
      (''GET'', ''/api/get/submission/:id/test/:test/output'', getTestOutput),
      (''GET'', ''/api/get/submission/:id/test/:test/stderr'', getTestStderr),
      (''GET'', ''/api/get/submission/:id/test/:test/check'', getTestCheck),
      (''PUT'', ''/api/new/submission'', addSubmission),
      (''GET'', ''/api/get/master_status'', getMasterStatus),
      (''POST'', ''/api/reset/invoker_cache'', resetInvokerCacheHandler)]"

text \<open>A segment of a pattern and of a path; a path without its query.\<close>

definition segment_matches :: "string \<Rightarrow> string \<Rightarrow> bool" where
  "segment_matches p s = (if take 1 p = '':'' then s \<noteq> '''' else p = s)"

definition path_matches :: "string \<Rightarrow> string \<Rightarrow> bool" where
  "path_matches p u = list_all2 segment_matches (split_on CHR ''/'' p) (split_on CHR ''/'' u)"

definition pathname :: "string \<Rightarrow> string" where
  "pathname u = takeWhile (\<lambda>c. c \<noteq> CHR ''?'') u"

text \<open>The routes that match, in their order.\<close>

definition matching :: "('m \<times> string \<times> 'h) list \<Rightarrow> 'm \<Rightarrow> string \<Rightarrow> 'h list" where
  "matching routes m u = map (\<lambda>(_, _, h). h) (filter (\<lambda>(m', p, _). m' = m \<and> path_matches p (pathname u)) routes)"

text \<open>What is used of a router: when exactly one route matches, it is the one.\<close>

definition router_law :: "(('m \<times> string \<times> 'h) list \<Rightarrow> 'm \<Rightarrow> string \<Rightarrow> 'h option) \<Rightarrow> bool" where
  "router_law route \<longleftrightarrow> (\<forall>rs m u h. matching rs m u = [h] \<longrightarrow> route rs m u = Some h)"

text \<open>A string that is one segment of a path.\<close>

definition clean :: "string \<Rightarrow> bool" where
  "clean s \<longleftrightarrow> s \<noteq> '''' \<and> CHR ''/'' \<notin> set s \<and> CHR ''?'' \<notin> set s"

lemma clean_segment [simp]:
  "clean s \<Longrightarrow> split_on CHR ''/'' s = [s]"
  "clean s \<Longrightarrow> s \<noteq> ''''"
  by (simp_all add: clean_def split_on_free)

lemma clean_path [simp]:
  assumes "clean s"
  shows "takeWhile (\<lambda>c. c \<noteq> CHR ''?'') (s @ t) = s @ takeWhile (\<lambda>c. c \<noteq> CHR ''?'') t"
    and "takeWhile (\<lambda>c. c \<noteq> CHR ''?'') s = s"
proof -
  have "c \<noteq> CHR ''?''" if "c \<in> set s" for c using assms that by (metis clean_def)
  then show "takeWhile (\<lambda>c. c \<noteq> CHR ''?'') (s @ t) = s @ takeWhile (\<lambda>c. c \<noteq> CHR ''?'') t"
    and "takeWhile (\<lambda>c. c \<noteq> CHR ''?'') s = s"
    by - (rule takeWhile_append2, simp, rule takeWhile_eq_all_conv [THEN iffD2], simp)
qed

lemma clean_nat [simp]: "clean (string_of_nat n)"
proof -
  have "is_digit c \<Longrightarrow> c \<noteq> CHR ''/'' \<and> c \<noteq> CHR ''?''" for c
    by (auto simp: is_digit_def)
  with string_of_nat_digits [of n] show ?thesis by (auto simp: clean_def list_all_iff)
qed

text \<open>The shapes of path that the frontend asks for, and their one route each.\<close>

lemmas route_defs = matching_def setupRoutes_def path_matches_def pathname_def segment_matches_def

lemma item_routes:
  assumes "clean i"
  shows "matching setupRoutes ''GET'' (''/api/get/problem/'' @ i) = [getProblem]"
    and "matching setupRoutes ''POST'' (''/api/modify/problem/'' @ i) = [modifyProblemHandler]"
    and "matching setupRoutes ''GET'' (''/api/get/submission/'' @ i) = [getSubmission]"
    and "matching setupRoutes ''GET'' (''/api/get/submission/'' @ i @ ''/source'') = [getSource]"
    and "matching setupRoutes ''GET'' (''/api/get/submission/'' @ i @ ''/compile_output'') = [getCompileOutput]"
  using assms by (simp_all add: route_defs)

lemma test_routes:
  assumes "clean i" "clean t"
  shows "matching setupRoutes ''GET'' (''/api/get/problem/'' @ i @ ''/test/'' @ t @ ''/input'') = [getTestInput]"
    and "matching setupRoutes ''GET'' (''/api/get/problem/'' @ i @ ''/test/'' @ t @ ''/answer'') = [getTestAnswer]"
    and "matching setupRoutes ''GET'' (''/api/get/submission/'' @ i @ ''/test/'' @ t @ ''/output'') = [getTestOutput]"
    and "matching setupRoutes ''GET'' (''/api/get/submission/'' @ i @ ''/test/'' @ t @ ''/stderr'') = [getTestStderr]"
    and "matching setupRoutes ''GET'' (''/api/get/submission/'' @ i @ ''/test/'' @ t @ ''/check'') = [getTestCheck]"
  using assms by (simp_all add: route_defs)

lemma fixed_routes:
  "matching setupRoutes ''PUT'' ''/api/new/problem'' = [addProblem]"
  "matching setupRoutes ''PUT'' ''/api/new/submission'' = [addSubmission]"
  "matching setupRoutes ''GET'' ''/api/get/master_status'' = [getMasterStatus]"
  "matching setupRoutes ''POST'' ''/api/reset/invoker_cache'' = [resetInvokerCacheHandler]"
  "matching setupRoutes ''GET'' (''/api/get/problems?count=20&page='' @ q) = [getProblems]"
  "matching setupRoutes ''GET'' (''/api/get/submissions?count=50&'' @ q) = [getSubmissions]"
  by (simp_all add: route_defs)

text \<open>The same with the literals written out, as the simplifier leaves them.\<close>

lemmas route_simps = item_routes [simplified] test_routes [simplified] fixed_routes [simplified]

end
