(* ===== verification/JsApp.thy ===== *)
theory JsApp
  imports JsSubmissionPages JsStatusPage GoRoutes
begin

text \<open>
  Admin.jsx: the pages and their paths; and every request that the pages send.
\<close>

datatype page =
    HomePage | ProblemsPage | ProblemPage | NewProblemPage
  | SubmissionsPage | SubmissionPage | NewSubmissionPage | StatusPage

text \<open>The routes of the application; the method of a route is of no meaning here.\<close>

definition admin_routes :: "(unit \<times> string \<times> page) list" where
  "admin_routes =
     [((), ''/admin'', HomePage),
      ((), ''/admin/problems'', ProblemsPage),
      ((), ''/admin/problem/:id'', ProblemPage),
      ((), ''/admin/new/problem'', NewProblemPage),
      ((), ''/admin/submissions'', SubmissionsPage),
      ((), ''/admin/submission/:id'', SubmissionPage),
      ((), ''/admin/new/submission'', NewSubmissionPage),
      ((), ''/admin/status'', StatusPage)]"

section \<open>Requests\<close>

text \<open>
  The requests of the application, each with the handler it is meant for.  The id of a page is a
  segment of its path.
\<close>

inductive sends :: "http_request \<Rightarrow> handler \<Rightarrow> bool" where
  problems: "Request r \<in> set (Problems_effect params) \<Longrightarrow> sends r getProblems"
| submissions: "Request r \<in> set (snd (Submissions_effect params)) \<Longrightarrow> sends r getSubmissions"
| problem: "clean i \<Longrightarrow> r \<in> set (Problem_effect i) \<Longrightarrow> sends r getProblem"
| new_problem: "newProblem p = Send r b \<Longrightarrow> sends r addProblem"
| modify_problem: "clean i \<Longrightarrow> modifyProblem i p = Send r b \<Longrightarrow> sends r modifyProblemHandler"
| submission: "clean i \<Longrightarrow> r \<in> set (Submission_effect i) \<Longrightarrow> sends r getSubmission"
| new_submission: "newSubmission (data :: string submission_form) = Send r b \<Longrightarrow> sends r addSubmission"
| status: "r \<in> set (Status_effect st) \<Longrightarrow> sends r getMasterStatus"
| reset: "resetInvokerCache = Send r b \<Longrightarrow> sends r resetInvokerCacheHandler"
| test_input: "q \<in> set (test_requests s k) \<Longrightarrow> treq_action q = ''input'' \<Longrightarrow> sends (GET (treq_url q)) getTestInput"
| test_answer: "q \<in> set (test_requests s k) \<Longrightarrow> treq_action q = ''answer'' \<Longrightarrow> sends (GET (treq_url q)) getTestAnswer"
| test_output: "q \<in> set (test_requests s k) \<Longrightarrow> treq_action q = ''output'' \<Longrightarrow> sends (GET (treq_url q)) getTestOutput"
| test_stderr: "q \<in> set (test_requests s k) \<Longrightarrow> treq_action q = ''stderr'' \<Longrightarrow> sends (GET (treq_url q)) getTestStderr"
| test_check: "q \<in> set (test_requests s k) \<Longrightarrow> treq_action q = ''checker'' \<Longrightarrow> sends (GET (treq_url q)) getTestCheck"
| source: "q \<in> set (fetched (WatchCompilationData sub c)) \<Longrightarrow> creq_action q = ''source'' \<Longrightarrow>
    sends (GET (creq_url q)) getSource"
| compile_output: "q \<in> set (fetched (WatchCompilationData sub c)) \<Longrightarrow> creq_action q = ''compilation_output'' \<Longrightarrow>
    sends (GET (creq_url q)) getCompileOutput"

lemma test_request_routes:
  "q \<in> set (test_requests s k) \<Longrightarrow>
     matching setupRoutes ''GET'' (treq_url q) =
       [if treq_action q = ''input'' then getTestInput
        else if treq_action q = ''answer'' then getTestAnswer
        else if treq_action q = ''output'' then getTestOutput
        else if treq_action q = ''checker'' then getTestCheck else getTestStderr]"
  by (auto simp: test_requests_def Let_def route_simps)

lemma compilation_request_routes:
  "q \<in> set (fetched (WatchCompilationData sub c)) \<Longrightarrow>
     matching setupRoutes ''GET'' (creq_url q) =
       [if creq_action q = ''source'' then getSource else getCompileOutput]"
  by (auto simp: WatchCompilationData_def route_simps split: option.splits if_splits)

lemma sends_matching: "sends r h \<Longrightarrow> matching setupRoutes (http_method r) (http_url r) = [h]"
proof (induction rule: sends.induct)
  case (submissions r params)
  then show ?case by (auto simp: Submissions_effect_def route_simps split: if_splits option.splits)
next
  case (problems r params)
  then show ?case by (auto simp: Problems_effect_def route_simps split: if_splits option.splits)
qed (auto simp: Problem_effect_def newProblem_def modifyProblem_def Submission_effect_def
    newSubmission_def Status_effect_def resetInvokerCache_def test_request_routes
    compilation_request_routes route_simps split: if_splits)

section \<open>Links\<close>

text \<open>The targets of the links of a tree.\<close>

fun link_targets :: "'a node \<Rightarrow> string list" where
  "link_targets (NVal v) = []"
| "link_targets (NEl t as cs) =
     (if t = ''Link'' then (case attr_value ''to'' as of Str s \<Rightarrow> [s] | _ \<Rightarrow> []) else [])
       @ concat (map link_targets cs)"
| "link_targets (NFrag cs) = concat (map link_targets cs)"

text \<open>A link that leads to exactly one page.\<close>

definition leads :: "string \<Rightarrow> bool" where
  "leads u \<longleftrightarrow> (\<exists>p. matching admin_routes () u = [p])"

lemma link_targets_map [simp]: "link_targets (map_node f n) = link_targets n"
proof (induction n)
  case (NEl t as cs)
  then show ?case by (simp add: map_attr_value comp_def cong: map_cong)
qed (simp_all add: comp_def cong: map_cong)

lemma leads_simps [simp]:
  "leads ''/admin''" "leads ''/admin/problems''" "leads ''/admin/submissions''" "leads ''/admin/status''"
  "leads ''/admin/new/problem''" "leads ''/admin/new/submission''"
  "leads (''/admin/submissions?'' @ q)" "leads (''/admin/new/submission?'' @ q)"
  "clean i \<Longrightarrow> leads (''/admin/problem/'' @ i)"
  "clean i \<Longrightarrow> leads (''/admin/submission/'' @ i)"
  by (simp_all add: leads_def matching_def admin_routes_def path_matches_def pathname_def segment_matches_def)

lemmas leads_rules [simp] = leads_simps [simplified]

text \<open>All the links of a tree lead somewhere.\<close>

definition links_ok :: "'a node \<Rightarrow> bool" where
  "links_ok n \<longleftrightarrow> list_all leads (link_targets n)"

lemma links_ok_val [simp]: "links_ok (NVal v)"
  by (simp add: links_ok_def)

lemma links_ok_frag [simp]: "links_ok (NFrag cs) \<longleftrightarrow> list_all links_ok cs"
  by (induction cs) (simp_all add: links_ok_def)

lemma links_ok_el [simp]:
  "links_ok (NEl t as cs) \<longleftrightarrow>
     (t = ''Link'' \<longrightarrow> (case attr_value ''to'' as of Str s \<Rightarrow> leads s | _ \<Rightarrow> True)) \<and> list_all links_ok cs"
proof -
  have "list_all leads (concat (map link_targets cs)) \<longleftrightarrow> list_all links_ok cs"
    by (induction cs) (simp_all add: links_ok_def)
  then show ?thesis by (simp add: links_ok_def split: prim.split)
qed

lemma links_ok_map [simp]: "links_ok (map_node f n) = links_ok n"
  by (simp add: links_ok_def)

lemma links_ok_mapi: "(\<And>i x. x \<in> set xs \<Longrightarrow> links_ok (f i x)) \<Longrightarrow> list_all links_ok (mapi f xs)"
  by (auto simp: mapi_def list_all_iff in_set_enumerate_eq)

lemma links_ok_Body:
  assumes "Body navs c = Inr n" and "\<forall>nav \<in> set (butlast navs). leads (nav_path nav)" and "links_ok c"
  shows "links_ok n"
proof -
  have "list_all links_ok (mapi nav_item (butlast navs))"
    by (rule links_ok_mapi) (use assms(2) in \<open>simp add: nav_item_def attr_value_def\<close>)
  with assms show ?thesis by (auto simp: Body_def split: if_splits)
qed

lemma links_ok_page_card [simp]: "links_ok (page_card h c) \<longleftrightarrow> list_all links_ok h \<and> links_ok c"
  by (simp add: page_card_def)

lemma links_ok_parts [simp]:
  "links_ok (error_text e)" "links_ok (heading cs) = list_all links_ok cs"
  "links_ok (SubmissionVerdict v c r)" "links_ok (Pagination pg)" "links_ok (FiltersForm q)"
  "links_ok (submission_row s)"
  by (simp_all add: error_text_def heading_def SubmissionVerdict_def Verdict_def Let_def Pagination_def
      page_item_def FiltersForm_def filter_field_def submission_row_def attr_value_def)

lemma links_ok_rows: "list_all links_ok (map submission_row xs)"
  by (simp add: list_all_iff)

lemma Home_links: "Home = Inr n \<Longrightarrow> links_ok n"
  unfolding Home_def by (erule links_ok_Body) (simp_all add: Links_def mapi_def attr_value_def)

lemma Problems_wrap_links: "Problems_wrap c = Inr n \<Longrightarrow> links_ok c \<Longrightarrow> links_ok n"
  unfolding Problems_wrap_def by (erule links_ok_Body) (simp_all add: attr_value_def)

lemma Submissions_wrap_links: "Submissions_wrap c = Inr n \<Longrightarrow> links_ok c \<Longrightarrow> links_ok n"
  unfolding Submissions_wrap_def by (erule links_ok_Body) (simp_all add: attr_value_def)

lemma Problem_wrap_links: "Problem_wrap i p c = Inr n \<Longrightarrow> links_ok c \<Longrightarrow> links_ok n"
  unfolding Problem_wrap_def by (erule links_ok_Body) (simp_all add: attr_value_def)

lemma Problems_links: "Problems st = Inr n \<Longrightarrow> links_ok n"
  by (cases "loading st \<or> truthy (list_error st)"; cases "items st")
    (auto simp: Problems_def list_all_iff attr_value_def dest: Problems_wrap_links split: if_splits)

lemma Submissions_links:
  assumes "Submissions params st f q = Inr n"
  shows "links_ok n"
proof (cases "loading st \<or> truthy (list_error st)")
  case True
  with assms show ?thesis by (auto simp: Submissions_def dest: Submissions_wrap_links split: if_splits)
next
  case False
  with assms obtain xs where "items st = Some xs" by (auto simp: Submissions_def split: option.splits)
  with False assms show ?thesis
    by (cases f) (simp_all add: Submissions_def; erule Submissions_wrap_links; simp add: links_ok_rows attr_value_def)+
qed

lemma links_ok_options: "list_all links_ok (option_nodes vs)"
  by (simp add: option_nodes_def list_all_iff ball_mapi)

lemma links_ok_group: "links_ok (renderGroup p i g)"
  by (simp add: renderGroup_def tableInput_def ball_mapi tableSelect_def renderRequiredGroups_def required_badge_def
      add_option_def list_all_iff option_nodes_def Let_def)

lemma links_ok_groups: "links_ok (renderGroups p)"
  by (auto simp: renderGroups_def header_cell_def links_ok_group intro!: links_ok_mapi)

lemma links_ok_form: "links_ok (RenderProblemForm p b)"
  by (simp add: RenderProblemForm_def formRowInput_def formRowSelect_def links_ok_options links_ok_groups)

lemma links_ok_alert [simp]: "links_ok (alert_row al)" "links_ok (ChangeAlert al)"
  by (simp_all add: alert_row_def ChangeAlert_def)

lemma Problem_view_links: "Problem_view i st = Inr n \<Longrightarrow> links_ok n"
  by (auto simp: Problem_view_def links_ok_form dest: Problem_wrap_links split: if_splits)

lemma NewProblem_view_links: "NewProblem_view st = Inr n \<Longrightarrow> links_ok n"
  unfolding NewProblem_view_def by (erule links_ok_Body) (simp_all add: links_ok_form)

lemma Status_view_links:
  assumes "Status_view st = Inr n"
  shows "links_ok n"
proof -
  have wrap: "links_ok m" if "Status_wrap c = Inr m" "links_ok c" for c m :: "status_event node"
    using that unfolding Status_wrap_def by (elim links_ok_Body) simp_all
  have node: "links_ok m" if "invoker_node k iv = Inr m" for k iv and m :: "status_event node"
    using that by (auto simp: invoker_node_def fact_row_def job_node_def intro!: links_ok_mapi split: option.splits)
  show ?thesis
  proof (cases "stp_loading st \<or> truthy (stp_error st)")
    case True
    with assms show ?thesis by (auto simp: Status_view_def error_text_def dest: wrap split: if_splits)
  next
    case False
    with assms obtain nodes xs where nodes: "mapE id (mapi invoker_node xs) = Inr nodes"
      and n: "Status_wrap (NEl ''div'' []
                      [NEl ''h5'' [cls ''mb-4'']
                         [link_to ''/admin/submissions?verdict=RU'' [textn ''Submissions testing''],
                          textn '': '', NVal (num (int (length (the (testing_submissions (the (stp_status st)))))))],
                       NEl ''h5'' [cls ''mb-4''] [textn ''Invokers:''],
                       div_node ''mb-3''
                         [NEl ''a'' [attr ''href'' ''#'', cls ''mb-3'', on_click ResetInvokerCache]
                            [textn ''Reset cache'']],
                       div_node ''row'' [ChangeAlert (stp_alert st)],
                       div_node ''mx-3 mx-md-4'' [NFrag nodes]]) = Inr n"
      by (auto simp: Status_view_def bindE_eq_Inr split: option.splits)
    have "list_all links_ok nodes"
      using nodes node by (auto simp: mapE_Inr_iff list_all_length)
    with n show ?thesis by (elim wrap) (simp add: attr_value_def)
  qed
qed


lemma links_ok_resource [simp]: "links_ok (RenderResource n d e)" "links_ok (Verdict v t)"
  by (simp_all add: RenderResource_def Verdict_def Let_def)

lemma links_ok_test: "links_ok (RenderTest t tr)"
  by (cases t) (simp_all add: RenderTest_def or_empty_def show_resource_def Let_def)

lemma links_ok_test_results [simp]: "links_ok (render_test_results ts trs)"
  by (cases trs) (simp_all add: render_test_results_def head_row_def scope_row_def links_ok_test list_all_iff)

lemma links_ok_group_results [simp]: "links_ok (render_group_results grs)"
  by (cases grs) (simp_all add: render_group_results_def head_row_def scope_row_def list_all_iff ball_mapi)

lemma links_ok_source: "renderSourceCode h sub sc = Inr n \<Longrightarrow> links_ok n"
  by (auto simp: renderSourceCode_def source_line_def list_all_iff ball_mapi bindE_eq_Inr Let_def split: if_splits)

lemma links_ok_compilation: "RenderCompilationData h c sub = Inr n \<Longrightarrow> links_ok n"
  by (auto simp: RenderCompilationData_def scope_row_def or_empty_def bindE_eq_Inr
      split: option.splits if_splits dest: links_ok_source)

lemma Submission_view_links:
  assumes "Submission_view h i st = Inr n"
  shows "links_ok n"
proof -
  have wrap: "links_ok m" if "Submission_wrap i c = Inr m" "links_ok c" for c m :: "submission_event node"
    using that unfolding Submission_wrap_def by (elim links_ok_Body) simp_all
  show ?thesis
  proof (cases "sp_loading st \<or> truthy (sp_error st)")
    case True
    with assms show ?thesis by (auto simp: Submission_view_def error_text_def dest: wrap split: if_splits)
  next
    case False
    with assms obtain s comp where s: "sp_submission st = Some s"
      and comp: "RenderCompilationData h (sp_compilation st) s = Inr comp"
      by (auto simp: Submission_view_def bindE_def split: option.splits sum.splits)
    with False assms links_ok_compilation [OF comp] show ?thesis
      by (simp add: Submission_view_def) (erule wrap, simp add: head_row_def scope_row_def attr_value_def)
  qed
qed

end
