(* ===== verification/JsClaims.thy ===== *)
theory JsClaims
  imports JsApp "HOL-Library.Multiset"
begin

text \<open>
  What the parts of the admin frontend promise: the problem editor, the lists, alerts, the data of
  tests and compilations that the submission page loads on demand, and the pages around them.
\<close>

section \<open>The problem editor\<close>

text \<open>C26. Whatever the user does with the problem editor, in any order and for any number of steps,
  the reducer never throws, and the state stays well formed: every required group name is nonempty,
  is listed once, and is the name of an earlier group that scores as a whole.\<close>

theorem editor_session_safe:
  assumes "problem_form.session ProblemInitialState as"
  shows "\<exists>p. foldE ProblemReducer ProblemInitialState as = Inr p \<and> form_ok p"
  using problem_form.session_runs [OF initial_form_ok assms] .

definition known_field :: "string \<Rightarrow> bool" where
  "known_field a \<longleftrightarrow> a \<in> {''name'', ''time_limit'', ''memory_limit'', ''problem_type'', ''tests_number'',
     ''wall_time_limit'', ''max_output_size'', ''max_open_files'', ''max_threads'', ''add_group''}"

definition known_group_action :: "string \<Rightarrow> bool" where
  "known_group_action a \<longleftrightarrow> a \<in> {''name'', ''first_test'', ''last_test'', ''feedback_type'',
     ''scoring_type'', ''group_score'', ''test_score'', ''add_required'', ''remove_required'', ''remove''}"

definition reducer_throws :: "jproblem \<Rightarrow> paction \<Rightarrow> bool" where
  "reducer_throws p a =
     (case a of
        LoadProblem l \<Rightarrow> l = None
      | Act n v \<Rightarrow> \<not> known_field n
      | ActGroup i ga v \<Rightarrow> \<not> known_group_action ga \<or> length (test_groups p) \<le> i \<or>
          ga = ''remove_required'' \<and> required_group_names (test_groups p ! i) = None)"

lemma group_action_cases:
  assumes "known_group_action ga"
  obtains "ga = ''name''" | "ga = ''first_test'' \<or> ga = ''last_test'' \<or> ga = ''feedback_type''"
    | "ga = ''scoring_type''" | "ga = ''group_score'' \<or> ga = ''test_score''"
    | "ga = ''add_required''" | "ga = ''remove_required''" | "ga = ''remove''"
  using assms unfolding known_group_action_def insert_iff empty_iff by argo

lemma reduce_group_throws:
  assumes "known_group_action ga"
  shows "(\<exists>e. reduce_group gs i ga v = Inl e) \<longleftrightarrow>
    length gs \<le> i \<or> ga = ''remove_required'' \<and> required_group_names (gs ! i) = None"
proof (cases "i < length gs")
  case True
  then obtain fs where fs: "removeRequired gs i = Inr fs" "length fs = length gs"
    by (simp add: removeRequired_def)
  from assms show ?thesis
  proof (cases rule: group_action_cases)
    case 2
    with True show ?thesis by (elim disjE) (simp_all add: reduce_group_def update_group_def)
  next
    case 4
    with True show ?thesis by (elim disjE) (simp_all add: reduce_group_def update_group_def Let_def)
  next
    case 5
    with True show ?thesis by (simp add: reduce_group_def update_group_def add_required_def Let_def)
  next
    case 6
    with True show ?thesis
      by (auto simp: reduce_group_def update_group_def remove_required_def split: option.splits)
  qed (use True fs in \<open>simp_all add: reduce_group_def update_group_def Let_def\<close>)
next
  case False
  then have f: "removeRequired gs i = Inl TypeError" by (simp add: removeRequired_def)
  from assms show ?thesis
  proof (cases rule: group_action_cases)
    case 2
    with False show ?thesis by (elim disjE) (simp_all add: reduce_group_def update_group_def)
  next
    case 4
    with False show ?thesis by (elim disjE) (simp_all add: reduce_group_def update_group_def)
  qed (use False f in \<open>simp_all add: reduce_group_def update_group_def Let_def\<close>)
qed

lemma unknown_group_action:
  "\<not> known_group_action ga \<Longrightarrow> reduce_group gs i ga v = Inl (ThrownError (''Invalid group action: '' @ ga))"
  unfolding known_group_action_def insert_iff empty_iff de_Morgan_disj reduce_group_def by simp

lemma unknown_field: "\<not> known_field n \<Longrightarrow> \<exists>e. ProblemReducer p (Act n v) = Inl e"
  unfolding known_field_def insert_iff empty_iff de_Morgan_disj by simp

lemma known_field_runs: "known_field n \<Longrightarrow> \<exists>q. ProblemReducer p (Act n v) = Inr q"
  unfolding known_field_def insert_iff empty_iff by (elim disjE) simp_all

text \<open>C30. Exactly when the reducer throws: loading an undefined problem, an unknown field, an
  unknown group action, a group index out of range, or removing a required name from a group that
  has no list of required names.\<close>

theorem reducer_throws_iff: "(\<exists>e. ProblemReducer p a = Inl e) \<longleftrightarrow> reducer_throws p a"
proof (cases a)
  case (LoadProblem l)
  then show ?thesis by (cases l) (simp_all add: reducer_throws_def)
next
  case (Act n v)
  then show ?thesis
    using unknown_field [of n p v] known_field_runs [of n p v] by (auto simp: reducer_throws_def simp del: ProblemReducer.simps)
next
  case (ActGroup i ga v)
  then show ?thesis
    using reduce_group_throws [of ga "test_groups p" i v] unknown_group_action [of ga "test_groups p" i v]
    by (cases "known_group_action ga") (auto simp: reducer_throws_def bindE_eq_Inl)
qed

definition withdraws :: "string \<Rightarrow> string \<Rightarrow> bool" where
  "withdraws ga v \<longleftrightarrow> ga \<in> {''name'', ''remove''} \<or> ga = ''scoring_type'' \<and> parseInt v \<noteq> Fin 1"

lemma unrequired_all:
  "unrequired fs i \<Longrightarrow> gname (fs ! i) = Str n \<Longrightarrow> g \<in> set fs \<Longrightarrow> n \<notin> set (required_names g)"
  unfolding unrequired_def by (metis in_set_conv_nth)

lemma unrequired_update_at:
  assumes "unrequired fs i" "gname (fs ! i) = Str n" "i < length fs"
    and "required_names h = required_names (fs ! i)" and "g \<in> set (fs[i := h])"
  shows "n \<notin> set (required_names g)"
  using assms unrequired_all [OF assms(1,2)] set_update_subset_insert [of fs i h] by auto

text \<open>C31. Renaming a group, removing it, or giving it a scoring other than as a whole frees every
  other group of it: afterwards no group requires the name it had.\<close>

theorem withdrawn_name_unrequired:
  assumes ok: "form_ok p" and i: "i < length (test_groups p)"
    and n: "gname (test_groups p ! i) = Str old" and w: "withdraws ga v"
  shows "\<exists>q. ProblemReducer p (ActGroup i ga v) = Inr q \<and>
    (\<forall>g \<in> set (test_groups q). old \<notin> set (required_names g))"
proof -
  obtain fs where fs: "removeRequired (test_groups p) i = Inr fs" using i by (simp add: removeRequired_def)
  note f = removeRequired_ok [OF fs] ok [unfolded form_ok_def]
  have u: "unrequired fs i" "i < length fs" "gname (fs ! i) = Str old"
    using f i n by (auto simp: gname_def)
  from w consider "ga = ''name''" | "ga = ''remove''" | "ga = ''scoring_type''" "parseInt v \<noteq> Fin 1"
    by (auto simp: withdraws_def)
  then show ?thesis
  proof cases
    case 1
    with fs u show ?thesis
      by (auto simp: reduce_group_def update_group_def dest!: unrequired_update_at [OF u(1,3,2), rotated])
  next
    case 2
    have "set (remove_at i fs) \<subseteq> set fs"
      by (auto simp: remove_at_def dest: in_set_takeD in_set_dropD)
    with 2 fs unrequired_all [OF u(1,3)] show ?thesis by (auto simp: reduce_group_def)
  next
    case 3
    with fs u show ?thesis
      by (auto simp: reduce_group_def update_group_def dest!: unrequired_update_at [OF u(1,3,2), rotated])
  qed
qed

lemma parseInt_two: "parseInt ''2'' = Fin 2"
proof -
  have "string_of_nat 2 = ''2''" by code_simp
  with parseInt_nat [of 2] show ?thesis by simp
qed

lemma editor_session_safe_witness:
  "\<exists>p. foldE ProblemReducer ProblemInitialState
      [Act ''problem_type'' ''2'', Act ''add_group'' '''', ActGroup 0 ''name'' ''a'', Act ''add_group'' '''',
       ActGroup 1 ''name'' ''b'', ActGroup 1 ''add_required'' ''a''] = Inr p \<and> form_ok p"
  by (rule editor_session_safe)
    (simp add: can_change_def RenderProblemForm_emits row_change_def text_fields_def ProblemInitialState_def
      set_pprop_def new_group_def reduce_group_def removeRequired_def update_group_def drop_required_def
      parseInt_two canAdd_def gname_def set_gprop_def required_names_def choice_text_def nullish_def)

lemma withdrawn_name_unrequired_witness:
  "\<exists>q. ProblemReducer
      \<lparr>pid = None, pprops = [''problem_type'' \<mapsto> num 2],
       test_groups = [\<lparr>gprops = [''scoring_type'' \<mapsto> num 1, ''name'' \<mapsto> Str ''a''], required_group_names = None\<rparr>,
                      \<lparr>gprops = [''scoring_type'' \<mapsto> num 1, ''name'' \<mapsto> Str ''b''],
                       required_group_names = Some [''a'']\<rparr>]\<rparr>
      (ActGroup 0 ''name'' ''c'') = Inr q \<and>
    (\<forall>g \<in> set (test_groups q). ''a'' \<notin> set (required_names g))"
  by (rule withdrawn_name_unrequired)
    (simp_all add: form_ok_def names_ok_def required_ok_def gname_def required_names_def supported_def
      withdraws_def All_less_Suc Ex_less_Suc)

text \<open>Adding a required group keeps the names that were required, adds the new one, and orders
  them by the position of the first group of each name.\<close>

lemma add_required_sorts:
  assumes "i < length (test_groups p)"
  shows "\<exists>q rs. ProblemReducer p (ActGroup i ''add_required'' v) = Inr q \<and>
    required_group_names (test_groups q ! i) = Some rs \<and>
    mset rs = add_mset v (mset (required_names (test_groups p ! i))) \<and>
    sorted (map (group_index (test_groups p)) rs)"
  using assms
  by (auto simp: reduce_group_def update_group_def add_required_def Let_def required_names_def
      split: option.splits)

lemma add_required_sorts_witness:
  "\<exists>q rs. ProblemReducer
      \<lparr>pid = None, pprops = Map.empty,
       test_groups = [\<lparr>gprops = [''name'' \<mapsto> Str ''a''], required_group_names = None\<rparr>,
                      \<lparr>gprops = [''name'' \<mapsto> Str ''b''], required_group_names = None\<rparr>,
                      \<lparr>gprops = [''name'' \<mapsto> Str ''c''], required_group_names = Some [''b'']\<rparr>]\<rparr>
      (ActGroup 2 ''add_required'' ''a'') = Inr q \<and>
    required_group_names (test_groups q ! 2) = Some rs \<and> mset rs = add_mset ''a'' (mset [''b'']) \<and>
    sorted (map (group_index
      [\<lparr>gprops = [''name'' \<mapsto> Str ''a''], required_group_names = None\<rparr>,
       \<lparr>gprops = [''name'' \<mapsto> Str ''b''], required_group_names = None\<rparr>,
       \<lparr>gprops = [''name'' \<mapsto> Str ''c''], required_group_names = Some [''b'']\<rparr>]) rs)"
  using add_required_sorts [of 2 "\<lparr>pid = None, pprops = Map.empty,
       test_groups = [\<lparr>gprops = [''name'' \<mapsto> Str ''a''], required_group_names = None\<rparr>,
                      \<lparr>gprops = [''name'' \<mapsto> Str ''b''], required_group_names = None\<rparr>,
                      \<lparr>gprops = [''name'' \<mapsto> Str ''c''], required_group_names = Some [''b'']\<rparr>]\<rparr>" "''a''"]
  by (simp add: required_names_def)

text \<open>Entering a score sets it to the number that the text is (or removes it when the text is
  empty) and removes the other of the two scores: a group never has both.\<close>

lemma scores_exclusive:
  assumes "i < length (test_groups p)" and "(a, b) \<in> {(''group_score'', ''test_score''), (''test_score'', ''group_score'')}"
  shows "\<exists>q. ProblemReducer p (ActGroup i a v) = Inr q \<and>
    get_prop (gprops (test_groups q ! i)) a = (if v = '''' then Undef else Num (parseFloat v)) \<and>
    get_prop (gprops (test_groups q ! i)) b = Undef"
  using assms by (auto simp: reduce_group_def update_group_def Let_def)

lemma scores_exclusive_witness:
  "\<exists>q. ProblemReducer
      \<lparr>pid = None, pprops = Map.empty,
       test_groups = [\<lparr>gprops = [''group_score'' \<mapsto> num 30], required_group_names = None\<rparr>]\<rparr>
      (ActGroup 0 ''test_score'' ''5'') = Inr q \<and>
    get_prop (gprops (test_groups q ! 0)) ''test_score'' = Num (parseFloat ''5'') \<and>
    get_prop (gprops (test_groups q ! 0)) ''group_score'' = Undef"
  using scores_exclusive [of 0 "\<lparr>pid = None, pprops = Map.empty,
       test_groups = [\<lparr>gprops = [''group_score'' \<mapsto> num 30], required_group_names = None\<rparr>]\<rparr>"
      "''test_score''" "''group_score''" "''5''"]
  by simp

text \<open>A test number typed in decimal is stored as that number, up to the last exact integer.\<close>

lemma test_numbers_exact:
  assumes "i < length (test_groups p)" and "a \<in> {''first_test'', ''last_test''}" and "n < 2 ^ 53"
  shows "\<exists>q. ProblemReducer p (ActGroup i a (string_of_nat n)) = Inr q \<and>
    get_prop (gprops (test_groups q ! i)) a = num (int n)"
  using assms by (auto simp: reduce_group_def update_group_def parseInt_nat)

lemma test_numbers_exact_witness:
  "\<exists>q. ProblemReducer
      \<lparr>pid = None, pprops = Map.empty, test_groups = [\<lparr>gprops = Map.empty, required_group_names = None\<rparr>]\<rparr>
      (ActGroup 0 ''last_test'' (string_of_nat 17)) = Inr q \<and>
    get_prop (gprops (test_groups q ! 0)) ''last_test'' = num (int 17)"
  by (rule test_numbers_exact) simp_all

section \<open>Lists\<close>

text \<open>From page \<open>n\<close> the links of the submission list lead to page \<open>n + 1\<close> and, unless it
  is the first, to page \<open>n - 1\<close>: never to a page before the first.\<close>

lemma pagination_range:
  assumes "Submissions params st f q = Inr tree" and "emits tree (SetPage p)"
    and "page_number params = Fin (of_int n)" and "1 \<le> n" and "n < 2 ^ 53 - 1"
  shows "p = Fin (of_int (n + 1)) \<or> 1 < n \<and> p = Fin (of_int (n - 1))"
proof -
  have "js_succ (Fin (of_int n)) = Fin (of_int (n + 1))" "js_pred (Fin (of_int n)) = Fin (of_int (n - 1))"
    using to_double_int [of "n + 1"] to_double_int [of "n - 1"] assms(4,5) by simp_all
  with Submissions_emits_page [OF assms(1,2)] assms(3) show ?thesis by auto
qed

lemma pagination_range_witness:
  "\<exists>tree. Submissions [(''page'', ''2'')] \<lparr>loading = False, items = Some [], list_error = Null\<rparr> False [] = Inr tree \<and>
    emits tree (SetPage (Fin 3)) \<and> (Fin 3 = Fin (of_int (2 + 1)) \<or> 1 < (2 :: int) \<and> Fin 3 = Fin (of_int (2 - 1)))"
proof -
  let ?st = "\<lparr>loading = False, items = Some ([] :: submission list), list_error = Null\<rparr>"
  obtain tree where tree: "Submissions [(''page'', ''2'')] ?st False [] = Inr tree"
    by (simp add: Submissions_def Submissions_wrap_def Body_def)
  have page: "page_number [(''page'', ''2'')] = Fin (of_int 2)"
    by (simp add: page_number_def get_param_def parseInt_two)
  have "js_succ (Fin 2) = Fin 3" using to_double_int [of 3] by simp
  then have "emits tree (SetPage (Fin 3))"
    using tree page
    by (auto simp: Submissions_def Pagination_emits page_card_emits Submissions_wrap_def dest!: Body_emits [where a = "SetPage (Fin 3)"])
  with pagination_range [OF tree this page] tree show ?thesis by simp
qed

text \<open>Moving to another page keeps every other parameter of the query and writes the page
  number in decimal.\<close>

lemma set_page_keeps_filters:
  assumes "n < 10 ^ 21"
  shows "\<exists>q. setPage params (Fin (of_nat n)) = Some q \<and> map_of q ''page'' = Some (string_of_nat n) \<and>
    distinct (map fst q) \<and> (\<forall>k. k \<noteq> ''page'' \<longrightarrow> map_of q k = map_of (rev params) k)"
proof -
  have "of_nat n < (10 ^ 21 :: rat)" using assms by (metis of_nat_less_iff of_nat_numeral of_nat_power)
  then have t: "page_text (Fin (of_nat n)) = Some (string_of_nat n)"
    by (simp add: page_text_def string_of_int_def)
  then obtain q where q: "setPage params (Fin (of_nat n)) = Some q" by (simp add: setPage_def)
  moreover have "distinct (map fst q)"
    using q from_entries_distinct by (auto simp: setPage_def distinct_update)
  ultimately show ?thesis using setPage_lookup [OF q] t by auto
qed

lemma set_page_keeps_filters_witness:
  "\<exists>q. setPage [(''verdict'', ''WA''), (''page'', ''3'')] (Fin (of_nat 4)) = Some q \<and>
    map_of q ''page'' = Some (string_of_nat 4) \<and> distinct (map fst q) \<and>
    (\<forall>k. k \<noteq> ''page'' \<longrightarrow> map_of q k = map_of (rev [(''verdict'', ''WA''), (''page'', ''3'')]) k)"
  by (rule set_page_keeps_filters) simp

text \<open>When the server answers the requests of the submission list in their order, the list shown
  once all are answered is the one of the current query.\<close>

theorem list_in_order:
  assumes "\<forall>ev \<in> set evs. orderly ev" and "\<forall>q. server q \<noteq> Rejected None"
    and "outstanding (submissions_run server evs) = []" and "current (submissions_run server evs) \<noteq> []"
  shows "Submissions_reply (server (current (submissions_run server evs))) = Inr (shown (submissions_run server evs))"
  using in_order_run [OF assms(1), of server] assms(2-4) by (simp add: in_order_def)

lemma list_in_order_witness:
  "Submissions_reply (Rejected (Some (Str (query_string [(''page'', ''2'')]))))
     = Inr (shown (submissions_run (\<lambda>q. Rejected (Some (Str (query_string q))))
         [Navigate [(''page'', ''1'')], Navigate [(''page'', ''2'')], Answer 0, Answer 0]))"
  using list_in_order [of "[Navigate [(''page'', ''1'')], Navigate [(''page'', ''2'')], Answer 0, Answer 0]"
      "\<lambda>q. Rejected (Some (Str (query_string q)))"]
  by (simp add: orderly_def sends_request_iff no_param_def get_param_def submissions_run_def
      InitialSubmissions_def remove_at_def)

text \<open>C39. Answers that arrive out of order leave the list of an earlier query on the page of a later
  one: the answer to the first of two requests, arriving last, is shown.\<close>

theorem list_out_of_order:
  assumes "sends_request q1" and "sends_request q2" and "server q1 = Fulfilled r1" and "server q2 = Fulfilled r2"
  shows "let s = submissions_run server [Navigate q1, Navigate q2, Answer 1, Answer 0] in
    current s = q2 \<and> outstanding s = [] \<and> items (shown s) = reply_response r1"
  using assms
  by (simp add: submissions_run_def InitialSubmissions_def sends_request_iff remove_at_def Submissions_reply_def Let_def)

lemma list_out_of_order_witness:
  "let s = submissions_run
      (\<lambda>q. Fulfilled \<lparr>reply_error = Undef, reply_message = Undef, reply_response = (if q = [(''page'', ''1'')] then Some [] else None)\<rparr>)
      [Navigate [(''page'', ''1'')], Navigate [(''page'', ''2'')], Answer 1, Answer 0] in
    current s = [(''page'', ''2'')] \<and> outstanding s = [] \<and> items (shown s) = Some []"
  using list_out_of_order [of "[(''page'', ''1'')]" "[(''page'', ''2'')]"
      "\<lambda>q. Fulfilled \<lparr>reply_error = Undef, reply_message = Undef, reply_response = (if q = [(''page'', ''1'')] then Some [] else None)\<rparr>"
      "\<lparr>reply_error = Undef, reply_message = Undef, reply_response = Some []\<rparr>"
      "\<lparr>reply_error = Undef, reply_message = Undef, reply_response = None\<rparr>"]
  by (simp add: sends_request_iff no_param_def get_param_def)

section \<open>Alerts\<close>


section \<open>Test data\<close>

text \<open>C29. The watcher of the test data comes to rest: from any state with one entry per result, and
  at least one, after at most as many runs as there are entries to request, plus one, every
  row that is open has been requested.\<close>

theorem test_watcher_rests:
  assumes "tests_ok sub ts" and "ts \<noteq> []"
  shows "\<exists>t rs. settle TestDataReducer (WatchTestData (Some sub)) (length ts + 1) ts = Some (Inr (t, rs)) \<and>
    tests_ok sub t \<and> (\<forall>x \<in> set t. show_test x \<longrightarrow> requested_test x)"
proof -
  have "test_work ts < length ts + 1" by (simp add: test_work_def pending_def le_imp_less_Suc)
  with test_watch.comes_to_rest [of sub ts "length ts + 1"] assms
  obtain t rs where "settle TestDataReducer (WatchTestData (Some sub)) (length ts + 1) ts = Some (Inr (t, rs))"
    and "tests_ok sub t" "dispatched (WatchTestData (Some sub) t) = []" by blast
  with at_rest_requested show ?thesis by blast
qed

text \<open>A submission with the given results, for the examples.\<close>

definition sample_submission :: "test_result list \<Rightarrow> submission" where
  "sample_submission rs = \<lparr>sub_id = 7, problem_id = 3, language = ''cpp'', score = num 0, sub_verdict = ''RU'',
     current_test = None, created_at = Undef, updated_at = Undef, test_results = Some rs,
     compilation_result = None, group_results = None\<rparr>"

definition sample_result :: "nat \<Rightarrow> test_result" where
  "sample_result k = \<lparr>test_number = k, tr_verdict = ''OK'', points = Undef, time = Undef, memory = Undef,
     wall_time = Undef, exit_code = Undef, tr_error = Undef\<rparr>"

lemma test_watcher_rests_witness:
  "\<exists>t rs. settle TestDataReducer (WatchTestData (Some (sample_submission [sample_result 1]))) (length [closed_test] + 1) [closed_test] = Some (Inr (t, rs)) \<and>
    tests_ok (sample_submission [sample_result 1]) t \<and> (\<forall>x \<in> set t. show_test x \<longrightarrow> requested_test x)"
  by (rule test_watcher_rests) (simp_all add: tests_ok_def sample_submission_def sample_result_def)

text \<open>C27. With a result list that is empty (a submission that is running and has no results yet)
  the watcher of the test data never comes to rest: it initialises its empty list again and again.\<close>

theorem test_watcher_loops:
  assumes "test_results sub = Some []"
  shows "settle TestDataReducer (WatchTestData (Some sub)) n [] = None"
  using settle_no_results [OF assms] .

lemma test_watcher_loops_witness:
  "settle TestDataReducer (WatchTestData (Some (sample_submission []))) 1000 [] = None"
  by (rule test_watcher_loops) (simp add: sample_submission_def)

text \<open>C28. However the user opens and closes rows, the watcher runs and replies arrive, no request for
  the data of a test is sent twice.\<close>

theorem test_requests_once:
  assumes "test_run sub ts rq"
  shows "distinct rq"
  using test_run_inv [OF assms] by (simp add: run_inv_def)

lemma sample_run: "test_run (sample_submission [sample_result 1])
   [closed_test\<lparr>show_test := True, requested_test := True\<rparr>] (test_requests (sample_submission [sample_result 1]) 1)"
proof -
  let ?s = "sample_submission [sample_result 1]"
  have "test_run ?s [closed_test] []"
    using test_run.watch [OF test_run.start, of "WatchTestData (Some ?s) []" ?s "[closed_test]"]
    by (simp add: WatchTestData_def sample_submission_def)
  then have "test_run ?s [closed_test\<lparr>show_test := True\<rparr>] []"
    by (rule test_run.user [of _ _ _ "sample_result 1" "TestAct ''show'' 1 Undef Undef"])
      (simp_all add: RenderTest_emits sample_submission_def sample_result_def closed_test_def Let_def)
  from test_run.watch [OF this refl, of "[closed_test\<lparr>show_test := True, requested_test := True\<rparr>]"]
  show ?thesis by (simp add: WatchTestData_def first_pending_def sample_submission_def closed_test_def Let_def)
qed

lemma test_requests_once_witness:
  "distinct (test_requests (sample_submission [sample_result 1]) 1)"
  using test_requests_once [OF sample_run] .

section \<open>Compilation data\<close>

text \<open>Exactly when showing the compilation data throws: when the opened source has data and no
  error but its file name is not a string.\<close>

lemma compilation_view_throws_iff:
  "(\<exists>e. RenderCompilationData h c sub = Inl e) \<longleftrightarrow>
     compilation_result sub \<noteq> None \<and> show_compilation c \<and> \<not> named_source c"
  by (cases "compilation_result sub"; cases "cr_filename (c_source c)")
    (auto simp: RenderCompilationData_def renderSourceCode_def getLanguageExtension_def named_source_def Let_def)

section \<open>Pages\<close>

text \<open>From the empty form on, whatever the user does on the page of a new problem, the page
  renders, and the problem it would send is well formed.\<close>

theorem new_problem_page_safe:
  assumes "new_problem.reach InitialNewProblem st"
  shows "\<exists>n. NewProblem_view st = Inr n \<and> emits n SubmitForm \<and> form_ok (np_problem st) \<and>
    NewProblem_event st SubmitForm = Inr (st, [Send \<lparr>http_method = ''PUT'', http_url = ''/api/new/problem''\<rparr> (np_problem st)])"
proof -
  have "form_ok (np_problem st)"
    using new_problem.reach_inv [OF assms] initial_form_ok by (simp add: InitialNewProblem_def)
  moreover obtain n where "NewProblem_view st = Inr n" using views_total(1) by blast
  ultimately show ?thesis by (auto simp: NewProblem_view_emits RenderProblemForm_emits newProblem_def)
qed

lemma new_problem_page_safe_witness:
  "\<exists>n. NewProblem_view InitialNewProblem = Inr n \<and> emits n SubmitForm \<and> form_ok (np_problem InitialNewProblem) \<and>
    NewProblem_event InitialNewProblem SubmitForm =
      Inr (InitialNewProblem, [Send \<lparr>http_method = ''PUT'', http_url = ''/api/new/problem''\<rparr> (np_problem InitialNewProblem)])"
  by (rule new_problem_page_safe) (rule new_problem.reach_refl)



definition plain_highlight :: "string \<Rightarrow> prim \<Rightarrow> highlighted" where
  "plain_highlight _ _ = \<lparr>hl_class = Undef, hl_style = Undef, hl_lines = []\<rparr>"


text \<open>Once the status has arrived without an error the page shows exactly when the reply has the
  submissions, the invokers and the jobs of every invoker; a null among them makes it throw.\<close>

theorem status_shown_iff:
  assumes "Status_reply st (Fulfilled \<lparr>reply_error = Undef, reply_message = m, reply_response = r\<rparr>) = Inr st'"
  shows "(\<exists>n. Status_view st' = Inr n) \<longleftrightarrow> (\<exists>s. r = Some s \<and> status_complete s)"
proof -
  have "\<not> stp_loading st'" "\<not> truthy (stp_error st')" "stp_status st' = r"
    using assms by (auto simp: Status_reply_def)
  then show ?thesis using Status_view_total [of st'] by simp
qed

lemma status_shown_iff_witness:
  "\<exists>st'. Status_reply InitialStatus (Fulfilled \<lparr>reply_error = Undef, reply_message = Undef,
        reply_response = Some \<lparr>testing_submissions = Some [], ms_invokers = None\<rparr>\<rparr>) = Inr st' \<and>
     \<not> (\<exists>n. Status_view st' = Inr n)"
proof -
  obtain st' where "Status_reply InitialStatus (Fulfilled \<lparr>reply_error = Undef, reply_message = Undef,
        reply_response = Some \<lparr>testing_submissions = Some [], ms_invokers = None\<rparr>\<rparr>) = Inr st'"
    by (simp add: Status_reply_def)
  with status_shown_iff [OF this] show ?thesis by (simp add: status_complete_def)
qed

section \<open>Requests and routes\<close>

text \<open>C37. Every request that a page of the frontend sends is routed by the server to the handler it
  is meant for.\<close>

theorem requests_routed:
  assumes "router_law route" and "sends r h"
  shows "route setupRoutes (http_method r) (http_url r) = Some h"
  using assms sends_matching by (simp add: router_law_def)

definition first_route :: "('m \<times> string \<times> 'h) list \<Rightarrow> 'm \<Rightarrow> string \<Rightarrow> 'h option" where
  "first_route rs m u = (case matching rs m u of [] \<Rightarrow> None | h # _ \<Rightarrow> Some h)"

lemma first_route_law: "router_law first_route"
  by (simp add: router_law_def first_route_def)

lemma requests_routed_witness:
  "first_route setupRoutes ''GET'' ''/api/get/problem/42'' = Some getProblem"
proof -
  have "sends (GET (''/api/get/problem/'' @ ''42'')) getProblem"
    by (rule sends.problem [of "''42''"]) (simp_all add: clean_def Problem_effect_def)
  from requests_routed [OF first_route_law this] show ?thesis by simp
qed

definition renders :: "(string \<Rightarrow> prim \<Rightarrow> highlighted) \<Rightarrow> string list \<Rightarrow> bool" where
  "renders h links \<longleftrightarrow>
     (\<exists>n :: unit node. Home = Inr n \<and> links = link_targets n) \<or>
     (\<exists>st. \<exists>n :: unit node. Problems st = Inr n \<and> links = link_targets n) \<or>
     (\<exists>params st f q n. Submissions params st f q = Inr n \<and> links = link_targets n) \<or>
     (\<exists>st n. NewProblem_view st = Inr n \<and> links = link_targets n) \<or>
     (\<exists>i st n. Problem_view i st = Inr n \<and> links = link_targets n) \<or>
     (\<exists>i st n. Submission_view h i st = Inr n \<and> links = link_targets n) \<or>
     (\<exists>st n. Status_view st = Inr n \<and> links = link_targets n)"

text \<open>Every link that a page of the frontend shows leads to a page of the frontend.\<close>

theorem links_lead:
  assumes "router_law route" and "renders h links" and "l \<in> set links"
  shows "\<exists>page. route admin_routes () l = Some page"
proof -
  have "list_all leads links"
    using assms(2) Home_links Problems_links Submissions_links NewProblem_view_links Problem_view_links
      Submission_view_links Status_view_links
    unfolding renders_def links_ok_def by blast
  with assms(1,3) show ?thesis by (auto simp: list_all_iff leads_def router_law_def)
qed

lemma links_lead_witness:
  "\<exists>page. first_route admin_routes () ''/admin/status'' = Some page"
proof -
  obtain n :: "unit node" where n: "Home = Inr n" by (simp add: Home_def Body_def)
  then have "renders plain_highlight (link_targets n)"
    by (auto simp: renders_def)
  moreover have "''/admin/status'' \<in> set (link_targets n)"
    using n by (auto simp: Home_def Body_def page_card_def Links_def heading_def mapi_def attr_value_def)
  ultimately show ?thesis by (rule links_lead [OF first_route_law])
qed

end
