(* ===== verification/GoFields.thy ===== *)
theory GoFields
  imports Prelude "HOL-Library.Word"
begin

text \<open>
  lib/customfields: numbers with a unit, as limits of time and memory are written.  A value is an
  unsigned 64-bit integer (nanoseconds, bytes), and the products of \<^verbatim>\<open>FromStr\<close> wrap around.
\<close>

section \<open>Parsing the number\<close>

text \<open>The errors of \<^verbatim>\<open>strconv.ParseUint\<close>, and the unknown suffix.\<close>

datatype field_error = InvalidSyntax string | OutOfRange string | UnknownSuffix string

text \<open>
  \<^verbatim>\<open>strings.ToLower\<close> on UTF-8 bytes, as far as a suffix can tell: the ASCII capitals, and
  the Kelvin sign, whose lower case is the letter k.  Other runes keep bytes above 127.
\<close>

definition lower_char :: "char \<Rightarrow> char" where
  "lower_char c = (let n = of_char c :: nat in if 65 \<le> n \<and> n \<le> 90 then char_of (n + 32) else c)"

definition kelvin :: string where
  "kelvin = [char_of (0xE2 :: nat), char_of (0x84 :: nat), char_of (0xAA :: nat)]"

fun ToLower :: "string \<Rightarrow> string" where
  "ToLower [] = []"
| "ToLower (c # cs) =
     (if take 3 (c # cs) = kelvin then CHR ''k'' # ToLower (drop 2 cs) else lower_char c # ToLower cs)"

declare ToLower.simps [simp del]

text \<open>\<^verbatim>\<open>strconv.ParseUint(s, 10, 64)\<close> on a string of digits.\<close>

definition ParseUint :: "string \<Rightarrow> field_error + 64 word" where
  "ParseUint s =
     (if s = [] \<or> \<not> list_all is_digit s then Inl (InvalidSyntax s)
      else if 2 ^ 64 \<le> nat_of_string s then Inl (OutOfRange s)
      else Inr (of_nat (nat_of_string s)))"

definition separateStr :: "string \<Rightarrow> field_error + 64 word \<times> string" where
  "separateStr str =
     (let str = ToLower str in
      bindE (ParseUint (takeWhile is_digit str)) (\<lambda>a. Inr (a, dropWhile is_digit str)))"

section \<open>Time\<close>

definition Time_FromStr :: "string \<Rightarrow> field_error + 64 word" where
  "Time_FromStr s =
     bindE (separateStr s) (\<lambda>(num, suf).
       if suf = '''' \<or> suf = ''ns'' then Inr num
       else if suf = ''s'' then Inr (num * 1000 * 1000 * 1000)
       else if suf = ''ms'' then Inr (num * 1000 * 1000)
       else if suf = ''us'' then Inr (num * 1000)
       else Inl (UnknownSuffix suf))"

definition Time_String :: "64 word \<Rightarrow> string" where
  "Time_String v =
     (let (v, suf) =
        (if v mod 1000 = 0 then
           let v = v div 1000 in
           if v mod 1000 = 0 then
             let v = v div 1000 in
             if v mod 1000 = 0 then (v div 1000, ''s'') else (v, ''ms'')
           else (v, ''us'')
         else (v, ''ns''))
      in string_of_nat (unat v) @ suf)"

section \<open>Memory\<close>

definition Memory_FromStr :: "string \<Rightarrow> field_error + 64 word" where
  "Memory_FromStr s =
     bindE (separateStr s) (\<lambda>(num, suf).
       if suf = '''' \<or> suf = ''b'' then Inr num
       else if suf = ''g'' then Inr (num * 1024 * 1024 * 1024)
       else if suf = ''m'' then Inr (num * 1024 * 1024)
       else if suf = ''k'' then Inr (num * 1024)
       else Inl (UnknownSuffix suf))"

definition Memory_String :: "64 word \<Rightarrow> string" where
  "Memory_String v =
     (let (v, suf) =
        (if v mod 1024 = 0 then
           let v = v div 1024 in
           if v mod 1024 = 0 then
             let v = v div 1024 in
             if v mod 1024 = 0 then (v div 1024, ''g'') else (v, ''m'')
           else (v, ''k'')
         else (v, ''b''))
      in string_of_nat (unat v) @ suf)"

text \<open>What the database keeps: the value as a signed integer, and back.\<close>

definition field_Value :: "64 word \<Rightarrow> int" where
  "field_Value v = sint v"

definition field_Scan :: "int \<Rightarrow> 64 word" where
  "field_Scan i = word_of_int i"

lemma field_Scan_Value: "field_Scan (field_Value v) = v"
  by (simp add: field_Scan_def field_Value_def)

section \<open>Numbers with units\<close>

lemma ToLower_digits: "list_all is_digit ds \<Longrightarrow> ToLower (ds @ s) = ds @ ToLower s"
proof (induction ds)
  case (Cons d ds)
  then have d: "is_digit d" by simp
  then have "lower_char d = d" by (auto simp: lower_char_def is_digit_def Let_def)
  moreover have "take 3 (d # ds @ s) \<noteq> kelvin"
    using d by (auto simp: kelvin_def is_digit_def)
  ultimately show ?case using Cons by (simp add: ToLower.simps)
qed simp

lemma separateStr_digits:
  assumes "n < 2 ^ 64" and "ToLower suf = suf" and "case suf of [] \<Rightarrow> True | c # _ \<Rightarrow> \<not> is_digit c"
  shows "separateStr (string_of_nat n @ suf) = Inr (of_nat n, suf)"
proof -
  have d: "list_all is_digit (string_of_nat n)" by (rule string_of_nat_digits)
  with assms show ?thesis
    by (simp add: separateStr_def ToLower_digits takeWhile_all_append dropWhile_all_append ParseUint_def Let_def)
qed

lemma unat_of_nat64: "unat (of_nat x :: 64 word) = x mod 2 ^ 64"
  by (simp add: unsigned_of_nat take_bit_eq_mod)

lemma unat_less64: "unat (v :: 64 word) < 2 ^ 64"
  using unsigned_less [of v] by simp

text \<open>
  The contract of a number with units: a base, and for each of its powers up to the third a suffix;
  parsing multiplies, printing divides by the largest power that divides.  Then printing and
  parsing agree on every value.
\<close>

locale unit_field =
  fixes fromStr :: "string \<Rightarrow> field_error + 64 word"
    and toStr :: "64 word \<Rightarrow> string"
    and base :: nat
    and suffix :: "nat \<Rightarrow> string"
  assumes base_pos: "0 < base"
    and parse: "k \<le> 3 \<Longrightarrow> n < 2 ^ 64 \<Longrightarrow>
      fromStr (string_of_nat n @ suffix k) = Inr (of_nat (n * base ^ k))"
    and print: "\<exists>k \<le> 3. base ^ k dvd unat v \<and> (\<forall>j \<le> 3. base ^ j dvd unat v \<longrightarrow> j \<le> k) \<and>
      toStr v = string_of_nat (unat v div base ^ k) @ suffix k"
begin

lemma roundtrip: "fromStr (toStr v) = Inr v"
proof -
  obtain k where k: "k \<le> 3" "base ^ k dvd unat v" "toStr v = string_of_nat (unat v div base ^ k) @ suffix k"
    using print by blast
  have "unat v div base ^ k \<le> unat v" by simp
  also have "unat v < 2 ^ 64" by (rule unat_less64)
  finally have "fromStr (toStr v) = Inr (of_nat (unat v div base ^ k * base ^ k))"
    using k by (simp add: parse)
  with k(2) show ?thesis by simp
qed

lemma toStr_inject: "toStr v = toStr w \<longleftrightarrow> v = w"
  using roundtrip by (metis sum.inject(2))

lemma parse_wraps:
  assumes "k \<le> 3" and "n < 2 ^ 64"
  shows "\<exists>v. fromStr (string_of_nat n @ suffix k) = Inr v \<and> unat v = n * base ^ k mod 2 ^ 64"
  unfolding parse [OF assms] sum.inject by (intro exI [of _ "of_nat (n * base ^ k)"] conjI refl unat_of_nat64)

lemma parse_exact:
  assumes "k \<le> 3" and "n * base ^ k < 2 ^ 64"
  shows "\<exists>v. fromStr (string_of_nat n @ suffix k) = Inr v \<and> unat v = n * base ^ k"
proof -
  have "1 \<le> base ^ k" using base_pos by simp
  then have "n \<le> n * base ^ k" by simp
  from this assms(2) have "n < 2 ^ 64" by (rule le_less_trans)
  from parse_wraps [OF assms(1) this] mod_less [OF assms(2)] show ?thesis by simp
qed

end

definition time_suffix :: "nat \<Rightarrow> string" where
  "time_suffix k = (if k = 0 then ''ns'' else if k = 1 then ''us'' else if k = 2 then ''ms'' else ''s'')"

definition memory_suffix :: "nat \<Rightarrow> string" where
  "memory_suffix k = (if k = 0 then ''b'' else if k = 1 then ''k'' else if k = 2 then ''m'' else ''g'')"

lemma suffix_cases: "k \<le> (3::nat) \<longleftrightarrow> k = 0 \<or> k = 1 \<or> k = 2 \<or> k = 3"
  by auto

lemma ToLower_suffix [simp]:
  "ToLower '''' = ''''" "ToLower ''ns'' = ''ns''" "ToLower ''us'' = ''us''" "ToLower ''ms'' = ''ms''"
  "ToLower ''s'' = ''s''" "ToLower ''b'' = ''b''" "ToLower ''k'' = ''k''" "ToLower ''m'' = ''m''"
  "ToLower ''g'' = ''g''"
  by code_simp+

lemma not_digit [simp]: "\<not> is_digit CHR ''n''" "\<not> is_digit CHR ''u''" "\<not> is_digit CHR ''m''" "\<not> is_digit CHR ''s''"
  "\<not> is_digit CHR ''b''" "\<not> is_digit CHR ''k''" "\<not> is_digit CHR ''g''"
  by code_simp+

text \<open>How the nested tests of \<^verbatim>\<open>String\<close> choose the power.\<close>

lemma unit_choice:
  fixes b :: nat and u :: nat
  assumes "1 < b"
  defines "k \<equiv> (if u mod b \<noteq> 0 then 0 else if u div b mod b \<noteq> 0 then 1
     else if u div b div b mod b \<noteq> 0 then 2 else 3 :: nat)"
  shows "k \<le> 3 \<and> b ^ k dvd u \<and> (\<forall>j \<le> 3. b ^ j dvd u \<longrightarrow> j \<le> k)"
proof -
  have d: "b ^ Suc j dvd u \<longleftrightarrow> b dvd u \<and> b ^ j dvd u div b" for j and u :: nat
  proof (cases "b dvd u")
    case True
    then obtain q where "u = b * q" by (rule dvdE)
    with assms(1) show ?thesis by simp
  next
    case False
    then show ?thesis using dvd_mult_left by auto
  qed
  have one: "b ^ 1 dvd u \<longleftrightarrow> b dvd u" for u by simp
  have two: "b ^ 2 dvd u \<longleftrightarrow> b dvd u \<and> b dvd u div b" for u
    using d [of 1 u] by (simp add: numeral_2_eq_2)
  have three: "b ^ 3 dvd u \<longleftrightarrow> b dvd u \<and> b dvd u div b \<and> b dvd u div b div b" for u
    using d [of 2 u] two [of "u div b"] by (simp add: numeral_3_eq_3)
  have m: "(x mod b \<noteq> 0) = (\<not> b dvd x)" for x by (simp add: mod_eq_0_iff_dvd)
  show ?thesis
  proof (cases "b dvd u")
    case False
    then have "k = 0" unfolding k_def m by simp
    with False show ?thesis by (auto simp: suffix_cases one two three)
  next
    case b1: True
    show ?thesis
    proof (cases "b dvd u div b")
      case False
      then have "k = 1" using b1 unfolding k_def m by simp
      with False b1 show ?thesis by (auto simp: suffix_cases two three)
    next
      case b2: True
      show ?thesis
      proof (cases "b dvd u div b div b")
        case False
        then have "k = 2" using b1 b2 unfolding k_def m by simp
        with False b1 b2 show ?thesis by (auto simp: suffix_cases two three)
      next
        case True
        then have "k = 3" using b1 b2 unfolding k_def m by simp
        with True b1 b2 show ?thesis by (simp add: three)
      qed
    qed
  qed
qed

lemma word_mod_zero: "(v :: 64 word) mod of_nat b = 0 \<longleftrightarrow> unat v mod b = 0" if "b < 2 ^ 64"
  using that by (simp add: unat_eq_zero [symmetric] unat_mod_distrib unat_of_nat64)

lemma unat_div64: "unat ((v :: 64 word) div of_nat b) = unat v div b" if "b < 2 ^ 64"
  using that by (simp add: unat_div_distrib unat_of_nat64)

lemmas time_words = word_mod_zero [of 1000, simplified] unat_div64 [of 1000, simplified]
lemmas memory_words = word_mod_zero [of 1024, simplified] unat_div64 [of 1024, simplified]

lemma Time_String_choice:
  defines "p v \<equiv> (if unat v mod 1000 \<noteq> 0 then 0 else if unat v div 1000 mod 1000 \<noteq> 0 then 1
     else if unat v div 1000 div 1000 mod 1000 \<noteq> 0 then 2 else 3 :: nat)"
  shows "Time_String v = string_of_nat (unat v div 1000 ^ p v) @ time_suffix (p v)"
  by (simp add: Time_String_def p_def time_words time_suffix_def Let_def div_mult2_eq [symmetric])

lemma Memory_String_choice:
  defines "p v \<equiv> (if unat v mod 1024 \<noteq> 0 then 0 else if unat v div 1024 mod 1024 \<noteq> 0 then 1
     else if unat v div 1024 div 1024 mod 1024 \<noteq> 0 then 2 else 3 :: nat)"
  shows "Memory_String v = string_of_nat (unat v div 1024 ^ p v) @ memory_suffix (p v)"
  by (simp add: Memory_String_def p_def memory_words memory_suffix_def Let_def div_mult2_eq [symmetric])

lemma Time_FromStr_suffix:
  assumes "k \<le> 3" and "n < 2 ^ 64"
  shows "Time_FromStr (string_of_nat n @ time_suffix k) = Inr (of_nat (n * 1000 ^ k))"
  using assms(1) unfolding suffix_cases
  by (elim disjE) (simp_all add: Time_FromStr_def time_suffix_def separateStr_digits [OF assms(2)] power_numeral_reduce)

lemma Memory_FromStr_suffix:
  assumes "k \<le> 3" and "n < 2 ^ 64"
  shows "Memory_FromStr (string_of_nat n @ memory_suffix k) = Inr (of_nat (n * 1024 ^ k))"
  using assms(1) unfolding suffix_cases
  by (elim disjE) (simp_all add: Memory_FromStr_def memory_suffix_def separateStr_digits [OF assms(2)] power_numeral_reduce)

interpretation time_field: unit_field Time_FromStr Time_String 1000 time_suffix
proof
  show "\<exists>k\<le>3. 1000 ^ k dvd unat v \<and> (\<forall>j\<le>3. 1000 ^ j dvd unat v \<longrightarrow> j \<le> k) \<and>
      Time_String v = string_of_nat (unat v div 1000 ^ k) @ time_suffix k" for v
    using unit_choice [of 1000 "unat v"] Time_String_choice [of v] by (intro exI) auto
qed (simp_all add: Time_FromStr_suffix)

interpretation memory_field: unit_field Memory_FromStr Memory_String 1024 memory_suffix
proof
  show "\<exists>k\<le>3. 1024 ^ k dvd unat v \<and> (\<forall>j\<le>3. 1024 ^ j dvd unat v \<longrightarrow> j \<le> k) \<and>
      Memory_String v = string_of_nat (unat v div 1024 ^ k) @ memory_suffix k" for v
    using unit_choice [of 1024 "unat v"] Memory_String_choice [of v] by (intro exI) auto
qed (simp_all add: Memory_FromStr_suffix)

end
