(* ===== verification/GoModels.thy ===== *)
theory GoModels
  imports JsCore GoFields
begin

text \<open>
  The data that master, invokers and clients share: common/constants/verdict, common/db/models,
  common/connectors/invokerconn and masterconn, and the part the two job generators share
  (master/queue/jobgenerators/common.go).  Scores are IEEE doubles, the numbers of \<open>JsCore\<close>.  Test
  numbers are naturals; the 64-bit counters of the code go up to the number of tests plus one.
\<close>

section \<open>Verdicts\<close>

text \<open>A verdict is a string in the code; \<open>OtherVerdict\<close> is any that is not a constant.\<close>

datatype verdict =
    V_OK | V_PT | V_WA | V_WR | V_RT | V_ML | V_TL | V_WL | V_SE | V_CE | V_CD | V_CF | V_SK | V_RU
  | OtherVerdict string

fun verdict_text :: "verdict \<Rightarrow> string" where
  "verdict_text V_OK = ''OK''"
| "verdict_text V_PT = ''PT''"
| "verdict_text V_WA = ''WA''"
| "verdict_text V_WR = ''WR''"
| "verdict_text V_RT = ''RT''"
| "verdict_text V_ML = ''ML''"
| "verdict_text V_TL = ''TL''"
| "verdict_text V_WL = ''WL''"
| "verdict_text V_SE = ''SE''"
| "verdict_text V_CE = ''CE''"
| "verdict_text V_CD = ''CD''"
| "verdict_text V_CF = ''CF''"
| "verdict_text V_SK = ''SK''"
| "verdict_text V_RU = ''RU''"
| "verdict_text (OtherVerdict s) = s"

section \<open>Doubles\<close>

fun fadd :: "jsnum \<Rightarrow> jsnum \<Rightarrow> jsnum" where
  "fadd (Fin a) (Fin b) = to_double (a + b)"
| "fadd NaN y = NaN"
| "fadd x NaN = NaN"
| "fadd PosInf NegInf = NaN"
| "fadd NegInf PosInf = NaN"
| "fadd PosInf y = PosInf"
| "fadd NegInf y = NegInf"
| "fadd x PosInf = PosInf"
| "fadd x NegInf = NegInf"

text \<open>Go's built-in \<^verbatim>\<open>min\<close>: not a number when one argument is not.\<close>

fun fmin :: "jsnum \<Rightarrow> jsnum \<Rightarrow> jsnum" where
  "fmin NaN y = NaN"
| "fmin x NaN = NaN"
| "fmin NegInf y = NegInf"
| "fmin x NegInf = NegInf"
| "fmin PosInf y = y"
| "fmin x PosInf = x"
| "fmin (Fin a) (Fin b) = Fin (min a b)"

section \<open>Problems\<close>

datatype scoring_type = ScoringComplete | ScoringEachTest | ScoringMin | OtherScoring int
datatype problem_type = ProblemICPC | ProblemIOI | OtherProblem int

record test_group =
  tg_name :: string
  tg_first :: nat
  tg_last :: nat
  tg_test_score :: "jsnum option"
  tg_group_score :: "jsnum option"
  tg_scoring :: scoring_type
  tg_feedback :: int
  tg_required :: "string list"

record problem =
  p_id :: nat
  p_type :: problem_type
  p_groups :: "test_group list"
  p_tests :: nat

section \<open>Submissions\<close>

record gtest_result =
  gtr_test :: nat
  gtr_verdict :: verdict
  gtr_points :: "jsnum option"
  gtr_time :: "64 word option"
  gtr_memory :: "64 word option"
  gtr_wall_time :: "64 word option"
  gtr_error :: string
  gtr_exit_code :: "int option"

record ggroup_result =
  ggr_name :: string
  ggr_points :: jsnum
  ggr_passed :: bool

record gsubmission =
  gs_id :: nat
  gs_score :: jsnum
  gs_verdict :: verdict
  gs_results :: "gtest_result list"
  gs_compilation :: "gtest_result option"
  gs_groups :: "ggroup_result list"

text \<open>A result that says only the test and the verdict.\<close>

definition bare_result :: "nat \<Rightarrow> verdict \<Rightarrow> gtest_result" where
  "bare_result t v = \<lparr>gtr_test = t, gtr_verdict = v, gtr_points = None, gtr_time = None, gtr_memory = None,
     gtr_wall_time = None, gtr_error = '''', gtr_exit_code = None\<rparr>"

section \<open>Jobs\<close>

datatype job_type = CompileJob | TestJob

text \<open>The required jobs are a set: their order in the code is that of an iteration over a map.\<close>

record job =
  job_id :: string
  job_submission :: nat
  job_type :: job_type
  job_test :: nat
  job_required :: "string set"

record statistics =
  st_time :: "64 word"
  st_memory :: "64 word"
  st_wall_time :: "64 word"
  st_exit_code :: int

record job_result =
  jres_job :: string
  jres_verdict :: verdict
  jres_points :: "jsnum option"
  jres_error :: string
  jres_statistics :: "statistics option"

section \<open>What the generators share\<close>

datatype generator_state = CompilationNotStarted | CompilationStarted | CompilationFinished

text \<open>
  Two rounds of rounding up to a multiple, first of the factor, then of its square; a value below the
  factor of the round is kept.  The sum that rounds up wraps around.
\<close>

definition round_up :: "64 word \<Rightarrow> 64 word \<Rightarrow> 64 word" where
  "round_up v f = (v + f - 1) div f * f"

definition roundValue :: "64 word \<Rightarrow> 64 word \<Rightarrow> 64 word" where
  "roundValue v f =
     (if v < f then v
      else let v = round_up v f; f = f * f in
        if v < f then v else round_up v f)"

definition roundTime :: "64 word \<Rightarrow> 64 word" where
  "roundTime t = roundValue t 1000"

definition roundMemory :: "64 word \<Rightarrow> 64 word" where
  "roundMemory t = roundValue t 1024"

definition buildTestResult :: "job \<Rightarrow> job_result \<Rightarrow> gtest_result" where
  "buildTestResult j r =
     \<lparr>gtr_test = job_test j, gtr_verdict = jres_verdict r, gtr_points = jres_points r,
      gtr_time = map_option (\<lambda>s. roundTime (st_time s)) (jres_statistics r),
      gtr_memory = map_option (\<lambda>s. roundMemory (st_memory s)) (jres_statistics r),
      gtr_wall_time = map_option (\<lambda>s. roundTime (st_wall_time s)) (jres_statistics r),
      gtr_error = jres_error r,
      gtr_exit_code = map_option st_exit_code (jres_statistics r)\<rparr>"

lemma buildTestResult_simps [simp]:
  "gtr_test (buildTestResult j r) = job_test j"
  "gtr_verdict (buildTestResult j r) = jres_verdict r"
  "gtr_points (buildTestResult j r) = jres_points r"
  by (simp_all add: buildTestResult_def)

lemma bare_result_simps [simp]:
  "gtr_test (bare_result t v) = t" "gtr_verdict (bare_result t v) = v" "gtr_points (bare_result t v) = None"
  by (simp_all add: bare_result_def)

text \<open>
  The verdict a compilation ends with, and its error: unknown verdicts become check failures.
  The error message is formatted after the verdict was replaced.
\<close>

definition normal_compile :: "job_result \<Rightarrow> job_result" where
  "normal_compile r =
     (if jres_verdict r \<in> {V_CD, V_CE, V_CF} then r
      else r\<lparr>jres_verdict := V_CF, jres_error := ''unknown verdict for compile job: CF''\<rparr>)"

text \<open>A call that can panic.\<close>

datatype panic = Panic string

section \<open>Rounding\<close>

lemma unat_round_up:
  assumes "0 < unat f" and "unat v + unat f \<le> 2 ^ 64"
  shows "unat (round_up v f) = (unat v + unat f - 1) div unat f * unat f"
proof -
  have f1: "unat (f - 1) = unat f - 1" using assms(1) by (simp add: unat_sub_if_size)
  have "unat v + (unat f - 1) < 2 ^ 64" using assms by linarith
  then have "unat (v + (f - 1)) = unat v + (unat f - 1)"
    by (simp add: unat_word_ariths f1)
  then have s: "unat (v + f - 1) = unat v + unat f - 1" using assms(1) by (simp add: add_diff_eq)
  have "(unat v + unat f - 1) div unat f * unat f \<le> unat v + unat f - 1" by simp
  also have "... < 2 ^ 64" using assms by linarith
  finally show ?thesis
    by (simp add: round_up_def unat_word_ariths(2) unat_div_distrib s)
qed

text \<open>Rounding never loses: the result is at least the value, and below it by less than the square
  of the factor, when the value has room for it.\<close>

lemma round_up_bounds:
  assumes "0 < unat f" and "unat v + unat f \<le> 2 ^ 64"
  shows "unat v \<le> unat (round_up v f)" and "unat (round_up v f) < unat v + unat f"
    and "unat f dvd unat (round_up v f)"
proof -
  have e: "(unat v + unat f - 1) div unat f * unat f = unat v + unat f - 1 - (unat v + unat f - 1) mod unat f"
    by (simp add: minus_mod_eq_div_mult)
  have m: "(unat v + unat f - 1) mod unat f < unat f" using assms(1) by simp
  show "unat v \<le> unat (round_up v f)" unfolding unat_round_up [OF assms] e using m assms(1) by linarith
  show "unat (round_up v f) < unat v + unat f" unfolding unat_round_up [OF assms] e using assms(1) by linarith
  show "unat f dvd unat (round_up v f)" unfolding unat_round_up [OF assms] by simp
qed

lemma roundValue_bounds:
  assumes f: "1 < unat f" "unat f < 2 ^ 31" and room: "unat v + unat f + unat f * unat f \<le> 2 ^ 64"
  shows "unat v \<le> unat (roundValue v f)" and "unat (roundValue v f) < unat v + unat f + unat f * unat f"
    and "unat f \<le> unat v \<Longrightarrow> unat f dvd unat (roundValue v f)"
    and "unat f * unat f \<le> unat v \<Longrightarrow> unat f * unat f dvd unat (roundValue v f)"
proof -
  have "unat f * unat f < 2 ^ 31 * 2 ^ 31" using f(2) by (intro mult_strict_mono) simp_all
  then have sq: "unat (f * f) = unat f * unat f" by (simp add: unat_word_ariths)
  have f0: "0 < unat f" "0 < unat (f * f)" using f(1) by (simp_all add: sq)
  have r1: "unat v + unat f \<le> 2 ^ 64" using room by linarith
  note b1 = round_up_bounds [OF f0(1) r1]
  have r2: "unat (round_up v f) + unat (f * f) \<le> 2 ^ 64" using b1(2) room by (simp add: sq)
  note b2 = round_up_bounds [OF f0(2) r2, unfolded sq]
  have lt: "v < f \<longleftrightarrow> unat v < unat f" "round_up v f < f * f \<longleftrightarrow> unat (round_up v f) < unat f * unat f"
    by (simp_all add: word_less_nat_alt sq)
  show "unat v \<le> unat (roundValue v f)" "unat (roundValue v f) < unat v + unat f + unat f * unat f"
    using b1(1,2) b2(1,2) f(1) by (auto simp: roundValue_def Let_def)
  show "unat f dvd unat (roundValue v f)" if "unat f \<le> unat v"
    using that b1(3) b2(3) by (auto simp: roundValue_def Let_def lt intro: dvd_trans [of _ "unat f * unat f"])
  show "unat f * unat f dvd unat (roundValue v f)" if "unat f * unat f \<le> unat v"
  proof -
    have "unat f \<le> unat f * unat f" by simp
    from this that have "unat f \<le> unat v" by (rule le_trans)
    with that b1(1) b2(3) show ?thesis by (simp add: roundValue_def Let_def lt not_less)
  qed
qed

end
