(* ===== verification/GoIcpc.thy ===== *)
theory GoIcpc
  imports GoModels
begin

text \<open>
  master/queue/jobgenerators/icpc_generator.go: the generator of the jobs of one submission of an ICPC
  problem.  It hands out the compilation, then the tests in order, several at a time; results arrive in
  any order.  Each call holds the generator's mutex, so a run is a sequence of calls.  The id of a job
  (\<^verbatim>\<open>uuid.NewV7\<close>) is an argument; that the source of ids fails is not modelled.
\<close>

section \<open>State\<close>

record icpc =
  ic_submission :: gsubmission
  ic_tests :: nat
  ic_state :: generator_state
  ic_next :: nat
  ic_prefix :: nat
  ic_given :: "string \<rightharpoonup> job"
  ic_results :: "nat \<rightharpoonup> gtest_result"

definition newICPCGenerator :: "problem \<Rightarrow> gsubmission \<Rightarrow> string + icpc" where
  "newICPCGenerator p s =
     (if p_type p \<noteq> ProblemICPC then Inl (''problem '' @ string_of_nat (p_id p) @ '' is not ICPC'')
      else Inr \<lparr>ic_submission = s\<lparr>gs_verdict := V_RU\<rparr>, ic_tests = p_tests p,
        ic_state = CompilationNotStarted, ic_next = 1, ic_prefix = 0,
        ic_given = Map.empty, ic_results = Map.empty\<rparr>)"

section \<open>Next job\<close>

definition icpc_NextJob :: "string \<Rightarrow> icpc \<Rightarrow> icpc \<times> job option" where
  "icpc_NextJob newid g =
     (case ic_state g of
        CompilationStarted \<Rightarrow> (g, None)
      | CompilationNotStarted \<Rightarrow>
          (let j = \<lparr>job_id = newid, job_submission = gs_id (ic_submission g), job_type = CompileJob,
                    job_test = 0, job_required = {}\<rparr>
           in (g\<lparr>ic_state := CompilationStarted, ic_given := (ic_given g)(newid \<mapsto> j)\<rparr>, Some j))
      | CompilationFinished \<Rightarrow>
          if ic_tests g < ic_next g then (g, None)
          else
            (let j = \<lparr>job_id = newid, job_submission = gs_id (ic_submission g), job_type = TestJob,
                      job_test = ic_next g, job_required = dom (ic_given g)\<rparr>
             in (g\<lparr>ic_next := ic_next g + 1, ic_given := (ic_given g)(newid \<mapsto> j)\<rparr>, Some j)))"

section \<open>Results\<close>

text \<open>Every test that was not given yet is skipped.\<close>

function skip_rest :: "nat \<Rightarrow> nat \<Rightarrow> (nat \<rightharpoonup> gtest_result) \<Rightarrow> nat \<times> (nat \<rightharpoonup> gtest_result)" where
  "skip_rest n k rs =
     (if k \<le> n then skip_rest n (k + 1) (rs(k \<mapsto> bare_result k V_SK)) else (k, rs))"
  by auto
termination by (relation "measure (\<lambda>(n, k, rs). Suc n - k)") auto

declare skip_rest.simps [simp del]

definition setFail :: "icpc \<Rightarrow> icpc" where
  "setFail g = (let (k, rs) = skip_rest (ic_tests g) (ic_next g) (ic_results g)
     in g\<lparr>ic_next := k, ic_results := rs\<rparr>)"

text \<open>The result that test \<open>t\<close> enters the submission with, and the submission after it.\<close>

definition icpc_append :: "nat \<Rightarrow> gtest_result \<Rightarrow> gsubmission \<Rightarrow> panic + gsubmission" where
  "icpc_append t r s =
     (let r = (if gs_verdict s \<noteq> V_RU then bare_result t V_SK else r) in
      if gtr_verdict r = V_OK then Inr (s\<lparr>gs_results := gs_results s @ [r]\<rparr>)
      else if gtr_verdict r = V_SK then
        (if gs_verdict s = V_RU then
           Inr (s\<lparr>gs_verdict := V_CF, gs_results := gs_results s @
             [r\<lparr>gtr_verdict := V_CF, gtr_error := ''Invoker returned verdict SK, but no previous tests failed''\<rparr>]\<rparr>)
         else Inr (s\<lparr>gs_results := gs_results s @ [r]\<rparr>))
      else if gs_verdict s \<noteq> V_RU then Inl (Panic ''Trying to change bad verdict in ICPC problem'')
      else Inr (s\<lparr>gs_verdict := gtr_verdict r, gs_results := gs_results s @ [r]\<rparr>))"

text \<open>
  The loop over the tested prefix.  The result says whether anything changed (then the status of the
  queue is updated) and whether the submission is final.
\<close>

function icpc_update :: "icpc \<Rightarrow> bool \<Rightarrow> panic + icpc \<times> bool \<times> bool" where
  "icpc_update g updated =
     (if ic_prefix g < ic_tests g then
        (case ic_results g (ic_prefix g + 1) of
           None \<Rightarrow> Inr (g, updated, False)
         | Some r \<Rightarrow>
             (case icpc_append (ic_prefix g + 1) r (ic_submission g) of
                Inl e \<Rightarrow> Inl e
              | Inr s \<Rightarrow> icpc_update (g\<lparr>ic_prefix := ic_prefix g + 1, ic_submission := s\<rparr>) True))
      else if gs_verdict (ic_submission g) = V_RU then
        Inr (g\<lparr>ic_submission := (ic_submission g)\<lparr>gs_verdict := V_OK, gs_score := Fin 1\<rparr>\<rparr>, updated, True)
      else Inr (g, updated, True))"
  by auto
termination by (relation "measure (\<lambda>(g, u). ic_tests g - ic_prefix g)") auto

declare icpc_update.simps [simp del]

definition icpc_compileJobCompleted :: "job \<Rightarrow> job_result \<Rightarrow> icpc \<Rightarrow> icpc" where
  "icpc_compileJobCompleted j r g =
     (let g = g\<lparr>ic_state := CompilationFinished\<rparr>; r = normal_compile r;
          g = (if jres_verdict r = V_CD then g
               else setFail (g\<lparr>ic_submission := (ic_submission g)\<lparr>gs_verdict := jres_verdict r\<rparr>\<rparr>))
      in g\<lparr>ic_submission := (ic_submission g)\<lparr>gs_compilation := Some (buildTestResult j r)\<rparr>\<rparr>)"

definition normal_test :: "job_result \<Rightarrow> job_result" where
  "normal_test r =
     (if jres_verdict r \<in> {V_OK, V_PT, V_WA, V_RT, V_ML, V_TL, V_WL, V_SE, V_CF, V_SK} then r
      else r\<lparr>jres_verdict := V_CF, jres_error := ''unknown verdict for test job: CF''\<rparr>)"

definition icpc_testJobCompleted :: "job \<Rightarrow> job_result \<Rightarrow> icpc \<Rightarrow> icpc" where
  "icpc_testJobCompleted j r g =
     (let r = normal_test r;
          g = (if jres_verdict r = V_OK then g else setFail g)
      in g\<lparr>ic_results := (ic_results g)(job_test j \<mapsto> buildTestResult j r)\<rparr>)"

definition icpc_JobCompleted :: "job_result \<Rightarrow> icpc \<Rightarrow> panic + icpc \<times> bool \<times> gsubmission option" where
  "icpc_JobCompleted r g =
     (case ic_given g (jres_job r) of
        None \<Rightarrow> Inl (Panic ''invalid memory address or nil pointer dereference'')
      | Some j \<Rightarrow>
          (let g = g\<lparr>ic_given := (ic_given g)(jres_job r := None)\<rparr>;
               g = (case job_type j of
                      CompileJob \<Rightarrow> icpc_compileJobCompleted j r g
                    | TestJob \<Rightarrow> icpc_testJobCompleted j r g)
           in bindE (icpc_update g False) (\<lambda>(g, updated, final).
                Inr (g, updated, if final then Some (ic_submission g) else None))))"

end
