(* ===== verification/GoIoi.thy ===== *)
theory GoIoi
  imports GoModels
begin

text \<open>
  master/queue/jobgenerators/ioi_generator.go: the generator of the jobs of one submission of an IOI
  problem, whose tests are divided into groups that may require earlier groups.  Tests are handed out
  in order; a failed group stops its own tests and those of the groups that depend on it.  Each call
  holds the generator's mutex, so a run is a sequence of calls.  The maps that are keyed by names of
  groups are partial maps; a lookup that finds nothing and is dereferenced panics.  The map from tests
  to names and the list of results are indexed by the number of the test less one, as in the code.
\<close>

section \<open>State\<close>

datatype test_state = TestNotGiven | TestRunning | TestFinished

record internal_group =
  ig_give :: bool
  ig_skip :: bool

record internal_result =
  ir_result :: gtest_result
  ir_state :: test_state

record ioi =
  io_submission :: gsubmission
  io_problem :: problem
  io_state :: generator_state
  io_given :: "string \<rightharpoonup> job"
  io_groups :: "string \<rightharpoonup> test_group"
  io_internal :: "string \<rightharpoonup> internal_group"
  io_names :: "nat \<rightharpoonup> string"
  io_results :: "internal_result list"
  io_next_test :: nat
  io_next_group :: nat
  io_next_given :: nat

text \<open>A dereference, and an access to a slice.\<close>

definition deref :: "'a option \<Rightarrow> panic + 'a" where
  "deref x = (case x of None \<Rightarrow> Inl (Panic ''invalid memory address or nil pointer dereference'') | Some y \<Rightarrow> Inr y)"

definition at_index :: "'a list \<Rightarrow> nat \<Rightarrow> panic + 'a" where
  "at_index xs k = (if k < length xs then Inr (xs ! k) else Inl (Panic ''index out of range''))"

text \<open>The name of the group of a test; the zero value of a string when there is none.\<close>

definition name_of :: "ioi \<Rightarrow> nat \<Rightarrow> string" where
  "name_of g t = (case io_names g (t - 1) of None \<Rightarrow> '''' | Some n \<Rightarrow> n)"

section \<open>Creation\<close>

datatype ioi_error =
    NotIoi nat
  | NoGroupScore string nat
  | NoTestScore string nat
  | UnknownScoring scoring_type
  | FirstAboveLast string
  | GroupsNotSorted
  | NotInOneGroup
  | GroupFirstAboveLast
  | DuplicateGroup string
  | MissingRequired string string
  | RequiredNotComplete string string scoring_type
  | PreparePanic panic

text \<open>The required groups of one group; \<open>seen\<close> holds the names of the groups before it.\<close>

fun check_required :: "(string \<rightharpoonup> test_group) \<Rightarrow> string set \<Rightarrow> string \<Rightarrow> string list \<Rightarrow> ioi_error + unit" where
  "check_required info seen name [] = Inr ()"
| "check_required info seen name (r # rs) =
     (if r \<notin> seen then Inl (MissingRequired r name)
      else case info r of
        None \<Rightarrow> Inl (PreparePanic (Panic ''invalid memory address or nil pointer dereference''))
      | Some gi \<Rightarrow>
          if tg_scoring gi \<noteq> ScoringComplete then Inl (RequiredNotComplete name (tg_name gi) (tg_scoring gi))
          else check_required info seen name rs)"

fun check_groups :: "(string \<rightharpoonup> test_group) \<Rightarrow> string set \<Rightarrow> nat \<Rightarrow> test_group list \<Rightarrow> ioi_error + nat" where
  "check_groups info seen last_test [] = Inr last_test"
| "check_groups info seen last_test (gr # grs) =
     (if tg_first gr \<noteq> last_test + 1 then Inl NotInOneGroup
      else if tg_last gr < tg_first gr then Inl GroupFirstAboveLast
      else if tg_name gr \<in> seen then Inl (DuplicateGroup (tg_name gr))
      else bindE (check_required info seen (tg_name gr) (tg_required gr)) (\<lambda>_.
        check_groups info (insert (tg_name gr) seen) (tg_last gr) grs))"

definition checkIfGroupsDependenciesOK :: "(string \<rightharpoonup> test_group) \<Rightarrow> problem \<Rightarrow> ioi_error + unit" where
  "checkIfGroupsDependenciesOK info p =
     (if \<not> sorted (map tg_first (p_groups p)) then Inl GroupsNotSorted
      else bindE (check_groups info {} 0 (p_groups p)) (\<lambda>last_test.
        if last_test \<noteq> p_tests p then Inl NotInOneGroup else Inr ()))"

text \<open>One test of a group, and the entries of one group.\<close>

definition new_result :: "nat \<Rightarrow> internal_result" where
  "new_result t = \<lparr>ir_result = bare_result t V_RU, ir_state = TestNotGiven\<rparr>"

definition add_group :: "test_group \<Rightarrow> ioi \<Rightarrow> ioi" where
  "add_group gr g =
     g\<lparr>io_names := foldl (\<lambda>m t. m(t - 1 \<mapsto> tg_name gr)) (io_names g) [tg_first gr..<Suc (tg_last gr)],
       io_results := io_results g @ map new_result [tg_first gr..<Suc (tg_last gr)],
       io_groups := (io_groups g)(tg_name gr \<mapsto> gr),
       io_internal := (io_internal g)(tg_name gr \<mapsto> \<lparr>ig_give = True, ig_skip = False\<rparr>)\<rparr>"

fun prepare_groups :: "nat \<Rightarrow> test_group list \<Rightarrow> ioi \<Rightarrow> ioi_error + ioi" where
  "prepare_groups pid [] g = Inr g"
| "prepare_groups pid (gr # grs) g =
     bindE (case tg_scoring gr of
              ScoringComplete \<Rightarrow> if tg_group_score gr = None then Inl (NoGroupScore (tg_name gr) pid) else Inr ()
            | ScoringMin \<Rightarrow> if tg_group_score gr = None then Inl (NoGroupScore (tg_name gr) pid) else Inr ()
            | ScoringEachTest \<Rightarrow> if tg_test_score gr = None then Inl (NoTestScore (tg_name gr) pid) else Inr ()
            | OtherScoring n \<Rightarrow> Inl (UnknownScoring (OtherScoring n))) (\<lambda>_.
       if tg_last gr < tg_first gr then Inl (FirstAboveLast (tg_name gr))
       else prepare_groups pid grs (add_group gr g))"

definition prepareGenerator :: "ioi \<Rightarrow> ioi_error + ioi" where
  "prepareGenerator g =
     (let p = io_problem g in
      if p_type p \<noteq> ProblemIOI then Inl (NotIoi (p_id p))
      else bindE (prepare_groups (p_id p) (p_groups p) g) (\<lambda>g.
        bindE (checkIfGroupsDependenciesOK (io_groups g) p) (\<lambda>_. Inr g)))"

definition NewIOIGenerator :: "problem \<Rightarrow> gsubmission \<Rightarrow> ioi_error + ioi" where
  "NewIOIGenerator p s = prepareGenerator
     \<lparr>io_submission = s\<lparr>gs_verdict := V_RU\<rparr>, io_problem = p, io_state = CompilationNotStarted,
      io_given = Map.empty, io_groups = Map.empty, io_internal = Map.empty, io_names = Map.empty,
      io_results = [], io_next_test = 1, io_next_group = 1, io_next_given = 1\<rparr>"

section \<open>Next job\<close>

definition doesGroupDependOnJob :: "ioi \<Rightarrow> string \<Rightarrow> job \<Rightarrow> panic + bool" where
  "doesGroupDependOnJob g name j =
     bindE (deref (io_groups g name)) (\<lambda>gi.
       Inr (name_of g (job_test j) = name \<and> tg_scoring gi \<noteq> ScoringEachTest \<or>
            name_of g (job_test j) \<in> set (tg_required gi)))"

text \<open>The ids of the given jobs the group depends on, for which the group itself must be known.\<close>

definition depends_on :: "ioi \<Rightarrow> string \<Rightarrow> panic + string set" where
  "depends_on g name =
     (if io_given g = Map.empty then Inr {}
      else bindE (deref (io_groups g name)) (\<lambda>_.
        Inr {i. \<exists>j. io_given g i = Some j \<and> doesGroupDependOnJob g name j = Inr True}))"

text \<open>The loop that looks for a test to give; tests of stopped groups count as finished.\<close>

function ioi_give :: "nat \<Rightarrow> string \<Rightarrow> ioi \<Rightarrow> panic + ioi \<times> job option" where
  "ioi_give n newid g =
     (let t = io_next_given g; name = name_of g t in
      if n < t then Inr (g, None)
      else bindE (deref (io_internal g name)) (\<lambda>ii.
        bindE (at_index (io_results g) (t - 1)) (\<lambda>ir.
          if \<not> ig_give ii then
            ioi_give n newid (g\<lparr>io_results := (io_results g)[t - 1 := ir\<lparr>ir_state := TestFinished\<rparr>],
              io_next_given := t + 1\<rparr>)
          else bindE (depends_on g name) (\<lambda>required.
            (let j = \<lparr>job_id = newid, job_submission = gs_id (io_submission g), job_type = TestJob,
                      job_test = t, job_required = required\<rparr>
             in Inr (g\<lparr>io_results := (io_results g)[t - 1 := ir\<lparr>ir_state := TestRunning\<rparr>],
                       io_given := (io_given g)(newid \<mapsto> j), io_next_given := t + 1\<rparr>, Some j))))))"
  by auto
termination by (relation "measure (\<lambda>(n, i, g). Suc n - io_next_given g)") (auto simp: bindE_def)

declare ioi_give.simps [simp del]

definition ioi_NextJob :: "string \<Rightarrow> ioi \<Rightarrow> panic + ioi \<times> job option" where
  "ioi_NextJob newid g =
     (case io_state g of
        CompilationStarted \<Rightarrow> Inr (g, None)
      | CompilationNotStarted \<Rightarrow>
          (let j = \<lparr>job_id = newid, job_submission = gs_id (io_submission g), job_type = CompileJob,
                    job_test = 0, job_required = {}\<rparr>
           in Inr (g\<lparr>io_state := CompilationStarted, io_given := (io_given g)(newid \<mapsto> j)\<rparr>, Some j))
      | CompilationFinished \<Rightarrow> ioi_give (p_tests (io_problem g)) newid g)"

section \<open>Results of tests and groups\<close>

definition doesTestPreventTestingGroup :: "test_group \<Rightarrow> verdict \<Rightarrow> panic + bool" where
  "doesTestPreventTestingGroup gi v =
     (case tg_scoring gi of
        ScoringComplete \<Rightarrow> Inr (v \<noteq> V_OK)
      | ScoringEachTest \<Rightarrow> Inr False
      | ScoringMin \<Rightarrow> Inr (v \<noteq> V_OK \<and> v \<noteq> V_PT)
      | OtherScoring n \<Rightarrow> Inl (Panic ''unknown testGroupInfo.ScoringType''))"

text \<open>The results of the tests of a group, a slice of the results of the submission.\<close>

definition group_slice :: "test_group \<Rightarrow> gtest_result list \<Rightarrow> panic + gtest_result list" where
  "group_slice gi rs =
     (if tg_last gi \<le> length rs \<and> 1 \<le> tg_first gi \<and> tg_first gi - 1 \<le> tg_last gi
      then Inr (drop (tg_first gi - 1) (take (tg_last gi) rs))
      else Inl (Panic ''slice bounds out of range''))"

definition calcGroupVerdict :: "test_group \<Rightarrow> gtest_result list \<Rightarrow> panic + verdict" where
  "calcGroupVerdict gi rs =
     bindE (group_slice gi rs) (\<lambda>xs.
       Inr (if \<exists>r \<in> set xs. gtr_verdict r \<noteq> V_OK then V_PT else V_OK))"

text \<open>The two loops over the tests of a group that add up and that take the minimum.\<close>

fun sum_points :: "test_group \<Rightarrow> gtest_result list \<Rightarrow> nat list \<Rightarrow> jsnum \<Rightarrow> panic + jsnum" where
  "sum_points gi rs [] score = Inr score"
| "sum_points gi rs (t # ts) score =
     bindE (at_index rs (t - 1)) (\<lambda>r.
       case gtr_points r of
         None \<Rightarrow> Inl (Panic ''test has <nil> points in group'')
       | Some x \<Rightarrow> sum_points gi rs ts (fadd score x))"

fun min_points :: "test_group \<Rightarrow> gtest_result list \<Rightarrow> nat list \<Rightarrow> jsnum \<Rightarrow> panic + jsnum" where
  "min_points gi rs [] score = Inr score"
| "min_points gi rs (t # ts) score =
     bindE (at_index rs (t - 1)) (\<lambda>r.
       case gtr_points r of
         None \<Rightarrow> if gtr_verdict r \<noteq> V_SK then Inl (Panic ''test has <nil> points in group'')
                 else min_points gi rs ts (Fin 0)
       | Some x \<Rightarrow> min_points gi rs ts (fmin score x))"

definition group_points :: "test_group \<Rightarrow> gtest_result list \<Rightarrow> verdict \<Rightarrow> panic + jsnum" where
  "group_points gi rs v =
     (case tg_scoring gi of
        ScoringComplete \<Rightarrow> if v = V_OK then deref (tg_group_score gi) else Inr (Fin 0)
      | ScoringEachTest \<Rightarrow> sum_points gi rs [tg_first gi..<Suc (tg_last gi)] (Fin 0)
      | ScoringMin \<Rightarrow> bindE (deref (tg_group_score gi)) (min_points gi rs [tg_first gi..<Suc (tg_last gi)])
      | OtherScoring n \<Rightarrow> Inr (Fin 0))"

definition group_result :: "test_group \<Rightarrow> gtest_result list \<Rightarrow> panic + ggroup_result" where
  "group_result gi rs =
     bindE (calcGroupVerdict gi rs) (\<lambda>v. bindE (group_points gi rs v) (\<lambda>score.
       Inr \<lparr>ggr_name = tg_name gi, ggr_points = score, ggr_passed = (v = V_OK)\<rparr>))"

definition completeGroupTesting :: "test_group \<Rightarrow> ioi \<Rightarrow> panic + ioi" where
  "completeGroupTesting gi g =
     (if io_next_test g \<noteq> tg_last gi then Inl (Panic ''completeGroupTesting called, but wasn't finished right now'')
      else bindE (group_result gi (gs_results (io_submission g))) (\<lambda>r.
        Inr (g\<lparr>io_submission := (io_submission g)\<lparr>gs_groups := gs_groups (io_submission g) @ [r]\<rparr>,
               io_next_group := io_next_group g + 1\<rparr>)))"

section \<open>The loop over the tested prefix\<close>

text \<open>
  A group whose tests are to be skipped passes this on to the groups that require it: the loops over all
  groups and over the names each requires.
\<close>

fun skip_required :: "string \<Rightarrow> string list \<Rightarrow> (string \<rightharpoonup> internal_group) \<Rightarrow> panic + (string \<rightharpoonup> internal_group)" where
  "skip_required name [] m = Inr m"
| "skip_required name (r # rs) m =
     bindE (deref (m r)) (\<lambda>i.
       if ig_skip i then bindE (deref (m name)) (\<lambda>j. skip_required name rs (m(name \<mapsto> j\<lparr>ig_skip := True\<rparr>)))
       else skip_required name rs m)"

fun skip_dependent :: "test_group list \<Rightarrow> (string \<rightharpoonup> internal_group) \<Rightarrow> panic + (string \<rightharpoonup> internal_group)" where
  "skip_dependent [] m = Inr m"
| "skip_dependent (gr # grs) m =
     bindE (skip_required (tg_name gr) (tg_required gr) m) (skip_dependent grs)"

definition no_skip_ioi :: "gtest_result \<Rightarrow> gtest_result" where
  "no_skip_ioi r =
     (if gtr_verdict r = V_SK
      then r\<lparr>gtr_verdict := V_CF, gtr_error := ''invoker returned verdict SK, but no required test failed''\<rparr>
      else r)"

text \<open>
  One round of the loop for the first test without a final result: \<open>None\<close> when the loop ends here.
  The result that enters the submission is the one the generator keeps, which is changed with it.
\<close>

definition append_result :: "gtest_result \<Rightarrow> ioi \<Rightarrow> ioi" where
  "append_result r g = g\<lparr>io_submission := (io_submission g)\<lparr>gs_results := gs_results (io_submission g) @ [r]\<rparr>\<rparr>"

definition record_result :: "test_group \<Rightarrow> internal_group \<Rightarrow> internal_result \<Rightarrow> ioi \<Rightarrow> panic + ioi" where
  "record_result gi ii ir g =
     (if ig_skip ii then Inr (append_result (bare_result (gtr_test (ir_result ir)) V_SK) g)
      else
       (let t = io_next_test g; r = no_skip_ioi (ir_result ir);
            g' = append_result r (g\<lparr>io_results := (io_results g)[t - 1 := ir\<lparr>ir_result := r\<rparr>]\<rparr>) in
        bindE (doesTestPreventTestingGroup gi (gtr_verdict r)) (\<lambda>prevents.
          if prevents then
            bindE (skip_dependent (p_groups (io_problem g)) ((io_internal g)(name_of g t \<mapsto> ii\<lparr>ig_skip := True\<rparr>)))
              (\<lambda>m. Inr (g'\<lparr>io_internal := m\<rparr>))
          else Inr g')))"

definition close_test :: "test_group \<Rightarrow> ioi \<Rightarrow> panic + ioi" where
  "close_test gi g =
     bindE (if io_next_test g = tg_last gi then completeGroupTesting gi g else Inr g) (\<lambda>g'.
       Inr (g'\<lparr>io_next_test := io_next_test g + 1\<rparr>))"

definition ioi_update_test :: "ioi \<Rightarrow> panic + ioi option" where
  "ioi_update_test g =
     (let t = io_next_test g in
      bindE (at_index (io_results g) (t - 1)) (\<lambda>ir.
      if ir_state ir = TestRunning then Inr None
      else bindE (deref (io_internal g (name_of g t))) (\<lambda>ii.
        if ir_state ir = TestNotGiven \<and> \<not> ig_skip ii then Inr None
        else bindE (deref (io_groups g (name_of g t))) (\<lambda>gi.
          bindE (record_result gi ii ir g) (\<lambda>g. bindE (close_test gi g) (\<lambda>g. Inr (Some g)))))))"

lemma record_result_next: "record_result gi ii ir g = Inr g' \<Longrightarrow> io_next_test g' = io_next_test g"
  by (auto simp: record_result_def append_result_def bindE_eq_Inr Let_def split: if_splits)

lemma close_test_next: "close_test gi g = Inr g' \<Longrightarrow> io_next_test g' = io_next_test g + 1"
  by (auto simp: close_test_def bindE_eq_Inr)

lemma ioi_update_test_next: "ioi_update_test g = Inr (Some g') \<Longrightarrow> io_next_test g' = io_next_test g + 1"
  by (auto simp: ioi_update_test_def bindE_eq_Inr Let_def split: if_splits dest!: record_result_next close_test_next)

function ioi_update_loop :: "nat \<Rightarrow> ioi \<Rightarrow> bool \<Rightarrow> panic + ioi \<times> bool" where
  "ioi_update_loop n g updated =
     (if n < io_next_test g then Inr (g, updated)
      else case ioi_update_test g of
        Inl e \<Rightarrow> Inl e
      | Inr None \<Rightarrow> Inr (g, updated)
      | Inr (Some g') \<Rightarrow> ioi_update_loop n g' True)"
  by auto
termination
  by (relation "measure (\<lambda>(n, g, u). Suc n - io_next_test g)")
    (auto dest: ioi_update_test_next)

declare ioi_update_loop.simps [simp del]

section \<open>The final score and verdict\<close>

fun final_scan :: "gtest_result list \<Rightarrow> verdict \<Rightarrow> bool \<Rightarrow> bool \<Rightarrow> verdict \<times> bool \<times> bool" where
  "final_scan [] v skipped has = (v, skipped, has)"
| "final_scan (r # rs) v skipped has =
     (if gtr_verdict r = V_CF then final_scan rs V_CF skipped True
      else if gtr_verdict r = V_SK then final_scan rs v True has
      else if gtr_verdict r \<noteq> V_OK then final_scan rs V_PT skipped True
      else final_scan rs v skipped has)"

definition setFinalScoreAndVerdict :: "ioi \<Rightarrow> panic + ioi" where
  "setFinalScoreAndVerdict g =
     (let s = io_submission g; p = io_problem g in
      if io_given g \<noteq> Map.empty then Inl (Panic ''setFinalScoreAndVerdict called, but there are some jobs still'')
      else if io_next_test g \<noteq> p_tests p + 1 then
        Inl (Panic ''setFinalScoreAndVerdict called, but not all the tests were completed'')
      else if length (gs_groups s) \<noteq> length (p_groups p) then
        Inl (Panic ''len(i.submission.GroupResults) != len(i.problem.TestGroups)'')
      else if length (gs_results s) \<noteq> p_tests p then
        Inl (Panic ''len(i.submission.TestResults) != int(i.problem.TestsNumber)'')
      else
       (let s = s\<lparr>gs_score := foldl fadd (gs_score s) (map ggr_points (gs_groups s))\<rparr> in
        if gs_verdict s \<noteq> V_RU then Inr (g\<lparr>io_submission := s\<rparr>)
        else
         (let (v, skipped, has) = final_scan (gs_results s) (gs_verdict s) False False in
          if has then Inr (g\<lparr>io_submission := s\<lparr>gs_verdict := v\<rparr>\<rparr>)
          else if skipped then Inl (Panic ''submission does not have verdict, but has skipped tests'')
          else Inr (g\<lparr>io_submission := s\<lparr>gs_verdict := V_OK\<rparr>\<rparr>))))"

definition ioi_update :: "ioi \<Rightarrow> panic + ioi \<times> bool \<times> gsubmission option" where
  "ioi_update g =
     (let n = p_tests (io_problem g) in
      bindE (ioi_update_loop n g False) (\<lambda>(g, updated).
        if n < io_next_test g \<and> io_given g = Map.empty then
          bindE (setFinalScoreAndVerdict g) (\<lambda>g.
            if io_next_group g \<le> length (p_groups (io_problem g)) then
              Inl (Panic ''not all the groups were filled, but the problem is considered tested'')
            else Inr (g, True, Some (io_submission g)))
        else Inr (g, updated, None)))"

section \<open>Results\<close>

text \<open>\<^verbatim>\<open>for _, group := range TestGroups { internal[group.Name].shouldMarkFinalTestsSkipped = true }\<close>\<close>

fun skip_all :: "test_group list \<Rightarrow> (string \<rightharpoonup> internal_group) \<Rightarrow> panic + (string \<rightharpoonup> internal_group)" where
  "skip_all [] m = Inr m"
| "skip_all (gr # grs) m =
     bindE (deref (m (tg_name gr))) (\<lambda>i. skip_all grs (m(tg_name gr \<mapsto> i\<lparr>ig_skip := True\<rparr>)))"

definition ioi_compileJobCompleted :: "job \<Rightarrow> job_result \<Rightarrow> ioi \<Rightarrow> panic + ioi" where
  "ioi_compileJobCompleted j r g =
     (let r = normal_compile r in
      bindE (if jres_verdict r = V_CD then Inr (g\<lparr>io_state := CompilationFinished\<rparr>)
             else bindE (skip_all (p_groups (io_problem g)) (io_internal g)) (\<lambda>m.
               Inr (g\<lparr>io_submission := (io_submission g)\<lparr>gs_verdict := jres_verdict r\<rparr>, io_internal := m\<rparr>))) (\<lambda>g.
        Inr (g\<lparr>io_submission := (io_submission g)\<lparr>gs_compilation := Some (buildTestResult j r)\<rparr>\<rparr>)))"

text \<open>The points of a test, and the error of a checker that gave none for a partial solution.\<close>

definition fill_points :: "jsnum option \<Rightarrow> job_result \<Rightarrow> job_result \<times> string option" where
  "fill_points full r =
     (if jres_points r \<noteq> None then (r, None)
      else if jres_verdict r = V_OK then (r\<lparr>jres_points := full\<rparr>, None)
      else if jres_verdict r = V_PT then (r, Some ''checker returned nil points, but verdict=PT'')
      else (r\<lparr>jres_points := Some (Fin 0)\<rparr>, None))"

definition populateTestJobResult :: "test_group \<Rightarrow> job_result \<Rightarrow> panic + job_result \<times> string option" where
  "populateTestJobResult gi r =
     (case tg_scoring gi of
        ScoringComplete \<Rightarrow> Inr (r, None)
      | ScoringEachTest \<Rightarrow> Inr (fill_points (tg_test_score gi) r)
      | ScoringMin \<Rightarrow> Inr (fill_points (tg_group_score gi) r)
      | OtherScoring n \<Rightarrow> Inl (Panic ''unknown group scoring type''))"

text \<open>A verdict is replaced on such an error; points are only reset when there are some.\<close>

definition settle_result :: "job_result \<times> string option \<Rightarrow> job_result" where
  "settle_result x =
     (case x of
        (r, None) \<Rightarrow> r
      | (r, Some e) \<Rightarrow> r\<lparr>jres_verdict := V_CF,
          jres_points := (if jres_points r \<noteq> None then Some (Fin 0) else None),
          jres_error := (if jres_error r \<noteq> '''' then jres_error r @ ''; '' else '''') @ e\<rparr>)"

fun stop_required :: "string \<Rightarrow> string list \<Rightarrow> (string \<rightharpoonup> internal_group) \<Rightarrow> panic + (string \<rightharpoonup> internal_group)" where
  "stop_required name [] m = Inr m"
| "stop_required name (r # rs) m =
     bindE (deref (m r)) (\<lambda>i.
       if \<not> ig_give i then bindE (deref (m name)) (\<lambda>j. Inr (m(name \<mapsto> j\<lparr>ig_give := False\<rparr>)))
       else stop_required name rs m)"

fun stop_dependent :: "test_group list \<Rightarrow> (string \<rightharpoonup> internal_group) \<Rightarrow> panic + (string \<rightharpoonup> internal_group)" where
  "stop_dependent [] m = Inr m"
| "stop_dependent (gr # grs) m =
     bindE (stop_required (tg_name gr) (tg_required gr) m) (stop_dependent grs)"

definition stopGivingNewTestsIfNeeded :: "string \<Rightarrow> test_group \<Rightarrow> verdict \<Rightarrow> ioi \<Rightarrow> panic + ioi" where
  "stopGivingNewTestsIfNeeded name gi v g =
     bindE (doesTestPreventTestingGroup gi v) (\<lambda>prevents.
       if \<not> prevents then Inr g
       else bindE (deref (io_internal g name)) (\<lambda>ii.
         bindE (stop_dependent (p_groups (io_problem g)) ((io_internal g)(name \<mapsto> ii\<lparr>ig_give := False\<rparr>))) (\<lambda>m.
           Inr (g\<lparr>io_internal := m\<rparr>))))"

definition ioi_testJobCompleted :: "job \<Rightarrow> job_result \<Rightarrow> ioi \<Rightarrow> panic + ioi" where
  "ioi_testJobCompleted j r g =
     (let name = name_of g (job_test j) in
      bindE (deref (io_groups g name)) (\<lambda>gi.
      bindE (populateTestJobResult gi r) (\<lambda>x.
      bindE (at_index (io_results g) (job_test j - 1)) (\<lambda>_.
        (let r = settle_result x in
         stopGivingNewTestsIfNeeded name gi (jres_verdict r)
           (g\<lparr>io_results := (io_results g)[job_test j - 1 :=
              \<lparr>ir_result = buildTestResult j r, ir_state = TestFinished\<rparr>]\<rparr>))))))"

text \<open>An answer, or the refusal of a job that was not given.\<close>

datatype ioi_answer =
    Answered bool "gsubmission option"
  | UnknownJob string

definition ioi_JobCompleted :: "job_result \<Rightarrow> ioi \<Rightarrow> panic + ioi \<times> ioi_answer" where
  "ioi_JobCompleted r g =
     (case io_given g (jres_job r) of
        None \<Rightarrow> Inr (g, UnknownJob (jres_job r))
      | Some j \<Rightarrow>
          (let g = g\<lparr>io_given := (io_given g)(jres_job r := None)\<rparr> in
           bindE (case job_type j of
                    CompileJob \<Rightarrow> ioi_compileJobCompleted j r g
                  | TestJob \<Rightarrow> ioi_testJobCompleted j r g) (\<lambda>g.
             bindE (ioi_update g) (\<lambda>(g, updated, out). Inr (g, Answered updated out)))))"

end
