(* ===== verification/GoQueueStatus.thy ===== *)
theory GoQueueStatus
  imports GoModels "HOL-Library.Char_ord" "HOL-Library.List_Lexorder"
begin

text \<open>
  master/queue/queuestatus/status.go: which submissions the master is testing and when each was last
  updated; and clients/tsapi/masterstatus/master_status.go: the copy of it that the API keeps by asking for
  what changed since the epoch of its last answer.  Epochs are strings that compare bytewise; that a new one
  (a UUID of version 7) is never below an older one is a hypothesis of the runs.
\<close>

section \<open>Status of the queue\<close>

text \<open>
  A holder keeps a pointer: to the object that the generator goes on changing until the first update, and
  to a copy from then on.  The map and the list share the holders, so the list is one of their ids.
\<close>

datatype shown = Live | Copied gsubmission

record holder =
  h_submission :: shown
  h_epoch :: string

record queue_status =
  qs_active :: "nat \<rightharpoonup> holder"
  qs_order :: "nat list"
  qs_testing :: bool

definition NewQueueStatus :: "bool \<Rightarrow> queue_status" where
  "NewQueueStatus t = \<lparr>qs_active = Map.empty, qs_order = [], qs_testing = t\<rparr>"

definition AddSubmission :: "string \<Rightarrow> nat \<Rightarrow> queue_status \<Rightarrow> panic + queue_status" where
  "AddSubmission e k s =
     (if k \<in> dom (qs_active s) then Inl (Panic ''submission is added to status twice'')
      else Inr (s\<lparr>qs_active := (qs_active s)(k \<mapsto> \<lparr>h_submission = Live, h_epoch = e\<rparr>), qs_order := k # qs_order s\<rparr>))"

definition FinishSubmissionTesting :: "nat \<Rightarrow> queue_status \<Rightarrow> panic + queue_status" where
  "FinishSubmissionTesting k s =
     (if k \<notin> dom (qs_active s) then Inl (Panic ''Removing submission from queue status that is not present in list'')
      else Inr (s\<lparr>qs_active := (qs_active s)(k := None), qs_order := remove1 k (qs_order s)\<rparr>))"

definition UpdateSubmission :: "string \<Rightarrow> gsubmission \<Rightarrow> queue_status \<Rightarrow> panic + queue_status" where
  "UpdateSubmission e x s =
     (if qs_testing s then Inr s
      else if gs_id x \<notin> dom (qs_active s) then Inl (Panic ''Updating submission that is not added to queue status'')
      else Inr (s\<lparr>qs_active := (qs_active s)(gs_id x \<mapsto> \<lparr>h_submission = Copied x, h_epoch = e\<rparr>),
                 qs_order := gs_id x # remove1 (gs_id x) (qs_order s)\<rparr>))"

text \<open>
  The answer; the ids come from an iteration over a map.  The walk over the list stops at the first holder that
  is too old; \<open>live\<close> are the objects of the generators.
\<close>

record master_state =
  mst_epoch :: string
  mst_testing :: "nat set"
  mst_updated :: "gsubmission list"

definition shown_value :: "(nat \<Rightarrow> gsubmission) \<Rightarrow> nat \<Rightarrow> holder \<Rightarrow> gsubmission" where
  "shown_value live k h = (case h_submission h of Live \<Rightarrow> live k | Copied x \<Rightarrow> x)"

fun updated_since :: "(nat \<Rightarrow> gsubmission) \<Rightarrow> string \<Rightarrow> (nat \<rightharpoonup> holder) \<Rightarrow> nat list \<Rightarrow> gsubmission list" where
  "updated_since live prev m [] = []"
| "updated_since live prev m (k # ks) =
     (case m k of
        None \<Rightarrow> updated_since live prev m ks
      | Some h \<Rightarrow> if h_epoch h < prev then [] else shown_value live k h # updated_since live prev m ks)"

definition GetStatus :: "(nat \<Rightarrow> gsubmission) \<Rightarrow> string \<Rightarrow> string \<Rightarrow> queue_status \<Rightarrow> master_state" where
  "GetStatus live e prev s =
     \<lparr>mst_epoch = e, mst_testing = dom (qs_active s), mst_updated = updated_since live prev (qs_active s) (qs_order s)\<rparr>"

section \<open>The copy of the API\<close>

record master_status =
  ms_submissions :: "nat \<rightharpoonup> gsubmission"
  ms_status :: "master_state option"
  ms_updated :: int

definition NewMasterStatus :: master_status where
  "NewMasterStatus = \<lparr>ms_submissions = Map.empty, ms_status = None, ms_updated = 0\<rparr>"

definition asked_epoch :: "master_status \<Rightarrow> string" where
  "asked_epoch m = (case ms_status m of None \<Rightarrow> '''' | Some st \<Rightarrow> mst_epoch st)"

text \<open>An answer of the master, or \<open>None\<close> when the request failed; \<open>now\<close> is the time.\<close>

definition updateStatus :: "int \<Rightarrow> master_state option \<Rightarrow> master_status \<Rightarrow> master_status" where
  "updateStatus now answer m =
     (case answer of
        None \<Rightarrow> m
      | Some st \<Rightarrow> m\<lparr>ms_submissions := foldl (\<lambda>f x. f(gs_id x \<mapsto> x)) (ms_submissions m) (mst_updated st),
          ms_status := Some (st\<lparr>mst_updated := []\<rparr>), ms_updated := now\<rparr>)"

text \<open>What the database has of a submission, and what the API shows of it.\<close>

definition GetSubmission :: "gsubmission option \<Rightarrow> master_status \<Rightarrow> gsubmission option" where
  "GetSubmission db m =
     (case db of
        None \<Rightarrow> None
      | Some x \<Rightarrow>
          if gs_verdict x = V_RU then
            (case ms_submissions m (gs_id x) of Some y \<Rightarrow> Some y | None \<Rightarrow> Some (x\<lparr>gs_results := []\<rparr>))
          else Some x)"

text \<open>The current test of a row of the list; 0 is left out of the answer.\<close>

definition current_test :: "master_status \<Rightarrow> gsubmission \<Rightarrow> nat" where
  "current_test m x =
     (if gs_verdict x = V_RU then
        (case ms_submissions m (gs_id x) of Some y \<Rightarrow> length (gs_results y) | None \<Rightarrow> 0)
      else 0)"

text \<open>Times in nanoseconds; the interval is that of the configuration.\<close>

definition Status :: "int \<Rightarrow> int \<Rightarrow> master_status \<Rightarrow> string + master_state" where
  "Status interval now m =
     (case ms_status m of
        None \<Rightarrow> Inl ''master status is unavaliable''
      | Some st \<Rightarrow>
          if now - ms_updated m > 1000000000 + interval * 2 then Inl ''master status is outdated'' else Inr st)"

section \<open>Runs\<close>

text \<open>The order of the list: the holder that was updated last is first.\<close>

definition status_wf :: "queue_status \<Rightarrow> bool" where
  "status_wf s \<longleftrightarrow> distinct (qs_order s) \<and> set (qs_order s) = dom (qs_active s) \<and>
     sorted_wrt (\<lambda>a b. h_epoch (the (qs_active s b)) \<le> h_epoch (the (qs_active s a))) (qs_order s) \<and>
     (\<forall>k h x. qs_active s k = Some h \<and> h_submission h = Copied x \<longrightarrow> gs_id x = k)"

definition epochs_until :: "string \<Rightarrow> queue_status \<Rightarrow> bool" where
  "epochs_until e s \<longleftrightarrow> (\<forall>k h. qs_active s k = Some h \<longrightarrow> h_epoch h \<le> e)"

text \<open>
  One thread of the API asks; its request may fail before or after the master served it.  The state is
  the master's, the answer on its way, the API's, and the newest epoch.
\<close>

record view =
  v_queue :: queue_status
  v_answer :: "master_state option"
  v_api :: master_status
  v_epoch :: string

inductive view_step :: "view \<Rightarrow> view \<Rightarrow> bool" where
  submitted: "AddSubmission e k (v_queue v) = Inr q \<Longrightarrow> v_epoch v \<le> e \<Longrightarrow>
    view_step v (v\<lparr>v_queue := q, v_epoch := e\<rparr>)"
| progressed: "UpdateSubmission e x (v_queue v) = Inr q \<Longrightarrow> v_epoch v \<le> e \<Longrightarrow>
    view_step v (v\<lparr>v_queue := q, v_epoch := e\<rparr>)"
| finished: "FinishSubmissionTesting k (v_queue v) = Inr q \<Longrightarrow> view_step v (v\<lparr>v_queue := q\<rparr>)"
| served: "v_answer v = None \<Longrightarrow> v_epoch v \<le> e \<Longrightarrow> \<forall>k. gs_id (live k) = k \<Longrightarrow>
    view_step v (v\<lparr>v_answer := Some (GetStatus live e (asked_epoch (v_api v)) (v_queue v)), v_epoch := e\<rparr>)"
| received: "v_answer v = Some st \<Longrightarrow> view_step v (v\<lparr>v_answer := None, v_api := updateStatus now (Some st) (v_api v)\<rparr>)"
| failed: "view_step v (v\<lparr>v_answer := None, v_api := updateStatus now None (v_api v)\<rparr>)"

definition view_start :: "view \<Rightarrow> bool" where
  "view_start v \<longleftrightarrow> v_queue v = NewQueueStatus False \<and> v_answer v = None \<and> v_api v = NewMasterStatus"

abbreviation view_runs :: "view \<Rightarrow> view \<Rightarrow> bool" where
  "view_runs \<equiv> rtranclp view_step"

section \<open>The walk over the list\<close>

lemma updated_since_eq:
  assumes "set ks \<subseteq> dom m" and "sorted_wrt (\<lambda>a b. h_epoch (the (m b)) \<le> h_epoch (the (m a))) ks"
  shows "updated_since live prev m ks =
    map (\<lambda>k. shown_value live k (the (m k))) (filter (\<lambda>k. prev \<le> h_epoch (the (m k))) ks)"
  using assms
proof (induction ks)
  case (Cons k ks)
  then obtain h where h: "m k = Some h" by auto
  show ?case
  proof (cases "h_epoch h < prev")
    case True
    then have "\<not> prev \<le> h_epoch (the (m x))" if "x \<in> set (k # ks)" for x
      using Cons.prems(2) h that by (auto simp: not_le)
    then have "filter (\<lambda>k. prev \<le> h_epoch (the (m k))) (k # ks) = []" unfolding filter_empty_conv by blast
    then show ?thesis using h True by simp
  next
    case False
    then show ?thesis using Cons h by (simp add: not_less)
  qed
qed simp

lemma fold_updates:
  assumes "distinct ks" and "\<And>k. k \<in> set ks \<Longrightarrow> gs_id (g k) = k"
  shows "foldl (\<lambda>f x. f(gs_id x \<mapsto> x)) f (map g ks) k = (if k \<in> set ks then Some (g k) else f k)"
  using assms by (induction ks arbitrary: f) auto

section \<open>The invariant\<close>

text \<open>What the API has of a holder: the copy, or anything while the object is live.\<close>

definition seen :: "(nat \<rightharpoonup> gsubmission) \<Rightarrow> nat \<Rightarrow> holder \<Rightarrow> bool" where
  "seen f k h \<longleftrightarrow> (case h_submission h of Live \<Rightarrow> k \<in> dom f | Copied x \<Rightarrow> f k = Some x)"

definition view_ok :: "view \<Rightarrow> bool" where
  "view_ok v \<longleftrightarrow> status_wf (v_queue v) \<and> \<not> qs_testing (v_queue v) \<and> epochs_until (v_epoch v) (v_queue v) \<and>
     asked_epoch (v_api v) \<le> v_epoch v \<and>
     (\<forall>k h. qs_active (v_queue v) k = Some h \<and> h_epoch h < asked_epoch (v_api v) \<longrightarrow> seen (ms_submissions (v_api v)) k h) \<and>
     (\<forall>st. v_answer v = Some st \<longrightarrow> mst_epoch st \<le> v_epoch v \<and>
        (\<forall>k h now. qs_active (v_queue v) k = Some h \<and> h_epoch h < mst_epoch st \<longrightarrow>
           seen (ms_submissions (updateStatus now (Some st) (v_api v))) k h))"

lemma AddSubmission_ok:
  assumes "AddSubmission e k s = Inr s'" and "status_wf s" and "epochs_until e0 s" and "e0 \<le> e"
  shows "status_wf s'" and "epochs_until e s'" and "qs_testing s' = qs_testing s"
    and "qs_active s' = (qs_active s)(k \<mapsto> \<lparr>h_submission = Live, h_epoch = e\<rparr>)"
proof -
  have k: "k \<notin> dom (qs_active s)" and s': "s' = s\<lparr>qs_active := (qs_active s)(k \<mapsto> \<lparr>h_submission = Live, h_epoch = e\<rparr>), qs_order := k # qs_order s\<rparr>"
    using assms(1) by (auto simp: AddSubmission_def split: if_splits)
  have old: "k \<notin> set (qs_order s)" "x \<in> set (qs_order s) \<Longrightarrow> h_epoch (the (qs_active s x)) \<le> e" for x
    using k assms(2-4) by (fastforce simp: status_wf_def epochs_until_def)+
  show "epochs_until e s'" using assms(3,4) unfolding epochs_until_def s' by (auto intro: order_trans)
  have "sorted_wrt (\<lambda>a b. h_epoch (the (qs_active s' b)) \<le> h_epoch (the (qs_active s' a))) (qs_order s)"
    using assms(2) old(1) unfolding status_wf_def s' by (elim conjE, elim sorted_wrt_mono_rel [rotated]) auto
  then show "status_wf s'" using assms(2) k old unfolding status_wf_def s' by (auto split: if_splits)
qed (use assms(1) in \<open>auto simp: AddSubmission_def split: if_splits\<close>)

lemma FinishSubmissionTesting_ok:
  assumes "FinishSubmissionTesting k s = Inr s'" and "status_wf s" and "epochs_until e s"
  shows "status_wf s'" and "epochs_until e s'" and "qs_testing s' = qs_testing s"
    and "qs_active s' = (qs_active s)(k := None)"
proof -
  have s': "s' = s\<lparr>qs_active := (qs_active s)(k := None), qs_order := remove1 k (qs_order s)\<rparr>"
    using assms(1) by (auto simp: FinishSubmissionTesting_def split: if_splits)
  have d: "distinct (qs_order s)" using assms(2) by (simp add: status_wf_def)
  show "epochs_until e s'" using assms(3) unfolding epochs_until_def s' by auto
  have "sorted_wrt (\<lambda>a b. h_epoch (the (qs_active s b)) \<le> h_epoch (the (qs_active s a))) (remove1 k (qs_order s))"
    using assms(2) sorted_wrt_filter [of _ "qs_order s" "(\<noteq>) k"] d
    by (simp add: status_wf_def distinct_remove1_removeAll removeAll_filter_not_eq conj_commute)
  then have "sorted_wrt (\<lambda>a b. h_epoch (the (qs_active s' b)) \<le> h_epoch (the (qs_active s' a))) (remove1 k (qs_order s))"
    using d unfolding s' by (elim sorted_wrt_mono_rel [rotated]) auto
  then show "status_wf s'" using assms(2) d unfolding status_wf_def s' by (auto split: if_splits)
qed (use assms(1) in \<open>auto simp: FinishSubmissionTesting_def split: if_splits\<close>)

text \<open>An update leaves the list as if the submission were finished and added again.\<close>

lemma UpdateSubmission_ok:
  assumes "UpdateSubmission e x s = Inr s'" and "status_wf s" and "epochs_until e0 s" and "e0 \<le> e" and "\<not> qs_testing s"
  shows "status_wf s'" and "epochs_until e s'" and "qs_testing s' = qs_testing s"
    and "qs_active s' = (qs_active s)(gs_id x \<mapsto> \<lparr>h_submission = Copied x, h_epoch = e\<rparr>)"
proof -
  let ?k = "gs_id x" and ?m = "(qs_active s)(gs_id x \<mapsto> \<lparr>h_submission = Copied x, h_epoch = e\<rparr>)"
  have k: "?k \<in> dom (qs_active s)" and s': "s' = s\<lparr>qs_active := ?m, qs_order := ?k # remove1 ?k (qs_order s)\<rparr>"
    using assms(1,5) by (auto simp: UpdateSubmission_def split: if_splits)
  have fin: "FinishSubmissionTesting ?k s = Inr (s\<lparr>qs_active := (qs_active s)(?k := None), qs_order := remove1 ?k (qs_order s)\<rparr>)"
    (is "_ = Inr ?t") using k by (simp add: FinishSubmissionTesting_def)
  note t = FinishSubmissionTesting_ok [OF fin assms(2,3)]
  have "AddSubmission e ?k ?t = Inr (?t\<lparr>qs_active := (qs_active ?t)(?k \<mapsto> \<lparr>h_submission = Live, h_epoch = e\<rparr>), qs_order := ?k # qs_order ?t\<rparr>)"
    (is "_ = Inr ?u") by (simp add: AddSubmission_def)
  note u = AddSubmission_ok [OF this t(1,2) assms(4)]
  have same: "h_epoch (the (qs_active s' y)) = h_epoch (the (qs_active ?u y))" for y by (simp add: s')
  have order: "qs_order s' = qs_order ?u" "dom (qs_active s') = dom (qs_active ?u)" by (simp_all add: s')
  have "gs_id y = z" if "qs_active s' z = Some h" "h_submission h = Copied y" for z h y
    using that assms(2) by (auto simp: s' status_wf_def split: if_splits)
  then show "status_wf s'" using u(1) unfolding status_wf_def same order by blast
  show "epochs_until e s'" using u(2) by (auto simp: epochs_until_def s' split: if_splits)
qed (use assms(1,5) in \<open>auto simp: UpdateSubmission_def split: if_splits\<close>)

lemma served_seen:
  assumes "status_wf s" and live: "\<forall>k. gs_id (live k) = k" and act: "qs_active s k = Some h"
    and old: "h_epoch h < prev \<longrightarrow> seen f k h"
  shows "seen (foldl (\<lambda>f x. f(gs_id x \<mapsto> x)) f (mst_updated (GetStatus live e prev s))) k h"
proof -
  let ?m = "qs_active s" and ?ks = "filter (\<lambda>k. prev \<le> h_epoch (the (qs_active s k))) (qs_order s)"
  let ?g = "\<lambda>k. shown_value live k (the (qs_active s k))"
  have wf: "distinct (qs_order s)" "set (qs_order s) = dom ?m"
    "sorted_wrt (\<lambda>a b. h_epoch (the (?m b)) \<le> h_epoch (the (?m a))) (qs_order s)"
    "\<And>k h x. ?m k = Some h \<Longrightarrow> h_submission h = Copied x \<Longrightarrow> gs_id x = k"
    using assms(1) unfolding status_wf_def by blast+
  have "gs_id (?g x) = x" if "x \<in> set ?ks" for x
    using that wf(2,4) live by (fastforce simp: shown_value_def split: shown.split)
  moreover have "mst_updated (GetStatus live e prev s) = map ?g ?ks"
    using updated_since_eq [of "qs_order s" ?m live prev] wf(2,3) by (simp add: GetStatus_def)
  ultimately have eq: "foldl (\<lambda>f x. f(gs_id x \<mapsto> x)) f (mst_updated (GetStatus live e prev s)) k =
      (if k \<in> set ?ks then Some (?g k) else f k)"
    using fold_updates [of ?ks ?g f k] wf(1) by simp
  show ?thesis
  proof (cases "k \<in> set ?ks")
    case True
    then show ?thesis using eq act by (auto simp: seen_def shown_value_def split: shown.split)
  next
    case False
    then have "h_epoch h < prev" using act wf(2) by auto
    then have "seen f k h" using old by simp
    moreover have "foldl (\<lambda>f x. f(gs_id x \<mapsto> x)) f (mst_updated (GetStatus live e prev s)) k = f k"
      using eq False by (simp only: if_False)
    ultimately show ?thesis by (simp add: seen_def dom_def split: shown.splits)
  qed
qed

lemma view_okD:
  assumes "view_ok v"
  shows "status_wf (v_queue v)" "\<not> qs_testing (v_queue v)" "epochs_until (v_epoch v) (v_queue v)"
    "asked_epoch (v_api v) \<le> v_epoch v"
    "qs_active (v_queue v) k = Some h \<Longrightarrow> h_epoch h < asked_epoch (v_api v) \<Longrightarrow> seen (ms_submissions (v_api v)) k h"
    "v_answer v = Some st \<Longrightarrow> mst_epoch st \<le> v_epoch v"
    "v_answer v = Some st \<Longrightarrow> qs_active (v_queue v) k = Some h \<Longrightarrow> h_epoch h < mst_epoch st \<Longrightarrow>
       seen (ms_submissions (updateStatus now (Some st) (v_api v))) k h"
  using assms unfolding view_ok_def by blast+

text \<open>A change of the queue at a new epoch is news to the API and to an answer on its way.\<close>

lemma view_ok_change:
  assumes ok: "view_ok v" and q: "status_wf q" "epochs_until e q" "\<not> qs_testing q" and e: "v_epoch v \<le> e"
    and only: "\<And>k h. qs_active q k = Some h \<Longrightarrow> qs_active (v_queue v) k = Some h \<or> v_epoch v \<le> h_epoch h"
  shows "view_ok (v\<lparr>v_queue := q, v_epoch := e\<rparr>)"
proof -
  note d = view_okD [OF ok]
  have "seen (ms_submissions (v_api v)) k h" if "qs_active q k = Some h" "h_epoch h < asked_epoch (v_api v)" for k h
    using only [OF that(1)] that(2) d(4,5) by fastforce
  moreover have "seen (ms_submissions (updateStatus now (Some st) (v_api v))) k h"
    if "v_answer v = Some st" "qs_active q k = Some h" "h_epoch h < mst_epoch st" for st k h now
    using only [OF that(2)] that(1,3) d(6) [OF that(1)] d(7) [OF that(1)] by fastforce
  ultimately show ?thesis
    using q e d(4,6) unfolding view_ok_def by (auto intro: order_trans)
qed

lemma view_ok_step: "view_step v w \<Longrightarrow> view_ok v \<Longrightarrow> view_ok w"
proof (induction rule: view_step.induct)
  case (submitted e k v q)
  note d = view_okD [OF submitted(3)]
  note q = AddSubmission_ok [OF submitted(1) d(1,3) submitted(2)]
  show ?case
    by (rule view_ok_change [OF submitted(3) q(1,2) _ submitted(2)]) (use q d(2) submitted(2) in \<open>auto split: if_splits\<close>)
next
  case (progressed e x v q)
  note d = view_okD [OF progressed(3)]
  note q = UpdateSubmission_ok [OF progressed(1) d(1,3) progressed(2) d(2)]
  show ?case
    by (rule view_ok_change [OF progressed(3) q(1,2) _ progressed(2)]) (use q d(2) progressed(2) in \<open>auto split: if_splits\<close>)
next
  case (finished k v q)
  note d = view_okD [OF finished(2)]
  note q = FinishSubmissionTesting_ok [OF finished(1) d(1,3)]
  have "view_ok (v\<lparr>v_queue := q, v_epoch := v_epoch v\<rparr>)"
    by (rule view_ok_change [OF finished(2) q(1,2)]) (use q d(2) in \<open>auto split: if_splits\<close>)
  then show ?case by simp
next
  case (served v e live)
  note d = view_okD [OF served(4)]
  let ?st = "GetStatus live e (asked_epoch (v_api v)) (v_queue v)"
  have "seen (ms_submissions (updateStatus now (Some ?st) (v_api v))) k h" if "qs_active (v_queue v) k = Some h" for k h now
    using served_seen [OF d(1) served(3) that, of "asked_epoch (v_api v)"] d(5) [OF that] by (simp add: updateStatus_def)
  moreover have "epochs_until e (v_queue v)" using d(3) served(2) unfolding epochs_until_def by (blast intro: order_trans)
  ultimately show ?case
    using d(1,2,4,5) served(2) unfolding view_ok_def by (auto simp: GetStatus_def)
next
  case (received v st now)
  note d = view_okD [OF received(2)]
  show ?case
    using d(1-3) d(6,7) [OF received(1)] unfolding view_ok_def by (simp add: asked_epoch_def updateStatus_def)
next
  case (failed v now)
  then show ?case unfolding view_ok_def by (simp add: updateStatus_def)
qed

lemma view_ok_start: "view_start v \<Longrightarrow> view_ok v"
  by (simp add: view_start_def view_ok_def NewQueueStatus_def NewMasterStatus_def status_wf_def epochs_until_def
    asked_epoch_def)

lemma view_ok_run: "view_runs v w \<Longrightarrow> view_ok v \<Longrightarrow> view_ok w"
  by (induction rule: rtranclp_induct) (auto intro: view_ok_step)

text \<open>What the API knows right after an answer that was asked for now.\<close>

lemma view_current:
  assumes "view_ok v" and "\<forall>k. gs_id (live k) = k" and "qs_active (v_queue v) k = Some h"
  shows "seen (ms_submissions (updateStatus now (Some (GetStatus live e (asked_epoch (v_api v)) (v_queue v))) (v_api v))) k h"
  using served_seen [OF view_okD(1) [OF assms(1)] assms(2,3), of "asked_epoch (v_api v)"] view_okD(5) [OF assms(1,3)]
  by (simp add: updateStatus_def)

end
