(* ===== verification/GoQueue.thy ===== *)
theory GoQueue
  imports GoIcpc GoIoi GoQueueStatus
begin

text \<open>
  master/queue/queue.go: the queue takes submissions, hands out the jobs of their generators in turn, gives
  results to the generator they belong to, and hands out a job again, under a new id, when its invoker is lost.
  Each operation holds the mutex of the queue.  Generators and jobs are objects that several tables point to;
  a generator has the name it was created with and a job that of its first id, which is its key in the tables
  of the code.  New ids and epochs are arguments.
\<close>

section \<open>Generators\<close>

datatype generator = ICPC icpc | IOI ioi

datatype generator_error = IcpcError string | IoiError ioi_error | UnknownProblemType int

definition NewGenerator :: "problem \<Rightarrow> gsubmission \<Rightarrow> generator_error + generator" where
  "NewGenerator p s =
     (case p_type p of
        ProblemICPC \<Rightarrow> (case newICPCGenerator p s of Inl e \<Rightarrow> Inl (IcpcError e) | Inr g \<Rightarrow> Inr (ICPC g))
      | ProblemIOI \<Rightarrow> (case NewIOIGenerator p s of Inl e \<Rightarrow> Inl (IoiError e) | Inr g \<Rightarrow> Inr (IOI g))
      | OtherProblem n \<Rightarrow> Inl (UnknownProblemType n))"

text \<open>The two methods of the interface, on the object they are called on.\<close>

definition gen_NextJob :: "string \<Rightarrow> generator \<Rightarrow> panic + generator \<times> job option" where
  "gen_NextJob i g =
     (case g of
        ICPC g \<Rightarrow> (let (g', j) = icpc_NextJob i g in Inr (ICPC g', j))
      | IOI g \<Rightarrow> bindE (ioi_NextJob i g) (\<lambda>(g', j). Inr (IOI g', j)))"

definition gen_JobCompleted :: "job_result \<Rightarrow> generator \<Rightarrow> panic + generator \<times> ioi_answer" where
  "gen_JobCompleted r g =
     (case g of
        ICPC g \<Rightarrow> bindE (icpc_JobCompleted r g) (\<lambda>(g', updated, out). Inr (ICPC g', Answered updated out))
      | IOI g \<Rightarrow> bindE (ioi_JobCompleted r g) (\<lambda>(g', a). Inr (IOI g', a)))"

definition gen_submission :: "generator \<Rightarrow> gsubmission" where
  "gen_submission g = (case g of ICPC g \<Rightarrow> ic_submission g | IOI g \<Rightarrow> io_submission g)"

section \<open>The queue\<close>

record queue =
  q_generators :: "string \<rightharpoonup> generator"
  q_active :: "string list"
  q_active_ids :: "string set"
  q_original :: "string \<rightharpoonup> string"
  q_failed :: "string list"
  q_job :: "string \<rightharpoonup> job"
  q_known :: "string set"
  q_generator :: "string \<rightharpoonup> string"
  q_status :: queue_status

definition NewQueue :: queue where
  "NewQueue = \<lparr>q_generators = Map.empty, q_active = [], q_active_ids = {}, q_original = Map.empty, q_failed = [],
     q_job = Map.empty, q_known = {}, q_generator = Map.empty, q_status = NewQueueStatus False\<rparr>"

definition Submit :: "string \<Rightarrow> string \<Rightarrow> problem \<Rightarrow> gsubmission \<Rightarrow> queue \<Rightarrow> panic + queue \<times> generator_error option" where
  "Submit gid e p s q =
     (case NewGenerator p s of
        Inl err \<Rightarrow> Inr (q, Some err)
      | Inr g \<Rightarrow> bindE (AddSubmission e (gs_id s) (q_status q)) (\<lambda>st.
          Inr (q\<lparr>q_status := st, q_generators := (q_generators q)(gid \<mapsto> g),
                 q_active := q_active q @ [gid], q_active_ids := insert gid (q_active_ids q)\<rparr>, None)))"

text \<open>The first id of a job, and the table without the id that was resolved.\<close>

definition first_id :: "queue \<Rightarrow> string \<Rightarrow> string" where
  "first_id q i = (case q_original q i of Some k \<Rightarrow> k | None \<Rightarrow> i)"

definition activate :: "string \<Rightarrow> queue \<Rightarrow> queue" where
  "activate gid q =
     (if gid \<notin> q_active_ids q then q\<lparr>q_active := q_active q @ [gid], q_active_ids := insert gid (q_active_ids q)\<rparr> else q)"

datatype queue_answer = QueueAnswer "gsubmission option" | QueueError string

definition JobCompleted :: "string \<Rightarrow> job_result \<Rightarrow> queue \<Rightarrow> panic + queue \<times> queue_answer" where
  "JobCompleted e r q =
     (let was = jres_job r; i = first_id q was; q = q\<lparr>q_original := (q_original q)(was := None)\<rparr> in
      case q_generator q i of
        None \<Rightarrow>
          if was \<noteq> i then Inl (Panic ''Job was not found in originalJobIDToGenerator'')
          else Inr (q, QueueError (''no job with id='' @ i))
      | Some gid \<Rightarrow>
         (let q = activate gid (q\<lparr>q_known := q_known q - {i}, q_generator := (q_generator q)(i := None)\<rparr>) in
          bindE (deref (q_generators q gid)) (\<lambda>g.
          bindE (gen_JobCompleted (r\<lparr>jres_job := i\<rparr>) g) (\<lambda>(g', a).
            (let q = q\<lparr>q_generators := (q_generators q)(gid \<mapsto> g')\<rparr> in
             case a of
               UnknownJob x \<Rightarrow> Inr (q, QueueError (''job '' @ x @ '' does not exist''))
             | Answered updated out \<Rightarrow>
                 bindE (if updated then UpdateSubmission e (gen_submission g') (q_status q) else Inr (q_status q)) (\<lambda>st.
                   Inr (q\<lparr>q_status := st\<rparr>, QueueAnswer out)))))))"

text \<open>The answer is the error, if any.\<close>

definition RescheduleJob :: "string \<Rightarrow> string \<Rightarrow> queue \<Rightarrow> panic + queue \<times> string option" where
  "RescheduleJob newid was q =
     (let i = first_id q was; q = q\<lparr>q_original := (q_original q)(was := None)\<rparr> in
      if i \<notin> q_known q then
        (if was \<noteq> i then Inl (Panic ''Job was not found in originalJobIDToGenerator'')
         else Inr (q, Some (''no job with id='' @ was)))
      else bindE (deref (q_job q i)) (\<lambda>j.
        Inr (q\<lparr>q_job := (q_job q)(i \<mapsto> j\<lparr>job_id := newid\<rparr>), q_original := (q_original q)(newid \<mapsto> i),
               q_failed := q_failed q @ [i]\<rparr>, None)))"

text \<open>The loop over the active generators: as many attempts as there were of them.\<close>

fun next_attempts :: "nat \<Rightarrow> string \<Rightarrow> queue \<Rightarrow> panic + queue \<times> job option" where
  "next_attempts 0 newid q = Inr (q, None)"
| "next_attempts (Suc n) newid q =
     (case q_active q of
        [] \<Rightarrow> Inl (Panic ''invalid memory address or nil pointer dereference'')
      | gid # rest \<Rightarrow>
          bindE (deref (q_generators q gid)) (\<lambda>g. bindE (gen_NextJob newid g) (\<lambda>(g', jo).
            (let q = q\<lparr>q_generators := (q_generators q)(gid \<mapsto> g')\<rparr> in
             case jo of
               None \<Rightarrow> next_attempts n newid (q\<lparr>q_active := rest, q_active_ids := q_active_ids q - {gid}\<rparr>)
             | Some j \<Rightarrow> Inr (q\<lparr>q_active := rest @ [gid], q_generator := (q_generator q)(job_id j \<mapsto> gid),
                 q_job := (q_job q)(job_id j \<mapsto> j), q_known := insert (job_id j) (q_known q)\<rparr>, Some j)))))"

definition NextJob :: "string \<Rightarrow> queue \<Rightarrow> panic + queue \<times> job option" where
  "NextJob newid q =
     (case q_failed q of
        k # ks \<Rightarrow> bindE (deref (q_job q k)) (\<lambda>j. Inr (q\<lparr>q_failed := ks\<rparr>, Some j))
      | [] \<Rightarrow> next_attempts (length (q_active q)) newid q)"

end
