(* ===== verification/GoRegistry.thy ===== *)
theory GoRegistry
  imports GoQueue
begin

text \<open>
  master/registry/invoker.go and registry.go: what the master knows of its invokers and who has which job.
  Invokers are objects that goroutines go on pointing to, so they have names.  A call that takes a mutex is one
  function; what it starts in the background is a part of its result: sending a job, the handling of
  a failure (\<open>True\<close>), a timer for a job that may be lost, and requests to stop a job.  Go's maps are walked in any
  order, which is an argument.
\<close>

section \<open>Invokers\<close>

datatype hold_type = SendingJob | TestingJob | NoReplyJob | NotKnown

record invoker_status =
  is_address :: string
  is_epoch :: string
  is_max_new :: int
  is_active :: "string list"

record invoker =
  iv_jobs :: "string \<rightharpoonup> job \<times> hold_type"
  iv_counts :: "hold_type \<Rightarrow> int"
  iv_status :: invoker_status
  iv_failed :: bool
  iv_added :: int

definition newInvoker :: "int \<Rightarrow> invoker_status \<Rightarrow> invoker" where
  "newInvoker now st = \<lparr>iv_jobs = Map.empty, iv_counts = (\<lambda>t. 0), iv_status = st, iv_failed = False, iv_added = now\<rparr>"

definition getJobType_of :: "string \<Rightarrow> invoker \<Rightarrow> hold_type" where
  "getJobType_of i iv = (case iv_jobs iv i of None \<Rightarrow> NotKnown | Some (j, t) \<Rightarrow> t)"

definition addJob :: "job \<Rightarrow> hold_type \<Rightarrow> invoker \<Rightarrow> invoker" where
  "addJob j t iv = iv\<lparr>iv_jobs := (iv_jobs iv)(job_id j \<mapsto> (j, t)), iv_counts := (iv_counts iv)(t := iv_counts iv t + 1)\<rparr>"

definition setJobType :: "string \<Rightarrow> hold_type \<Rightarrow> invoker \<Rightarrow> panic + invoker" where
  "setJobType i t iv =
     (case iv_jobs iv i of
        None \<Rightarrow> Inl (Panic ''Changing job type in invoker for a job which was not sent to invoker'')
      | Some (j, t') \<Rightarrow>
          (let n = (iv_counts iv)(t' := iv_counts iv t' - 1) in
           Inr (iv\<lparr>iv_jobs := (iv_jobs iv)(i \<mapsto> (j, t)), iv_counts := n(t := n t + 1)\<rparr>)))"

definition removeJob :: "string \<Rightarrow> invoker \<Rightarrow> panic + invoker" where
  "removeJob i iv =
     (case iv_jobs iv i of
        None \<Rightarrow> Inl (Panic ''Removing a job in invoker which was not sent to invoker'')
      | Some (j, t) \<Rightarrow>
          Inr (iv\<lparr>iv_jobs := (iv_jobs iv)(i := None), iv_counts := (iv_counts iv)(t := iv_counts iv t - 1)\<rparr>))"

definition markFailed :: "invoker \<Rightarrow> invoker \<times> bool" where
  "markFailed iv = (if iv_failed iv then (iv, False) else (iv\<lparr>iv_failed := True\<rparr>, True))"

text \<open>The walk over the jobs, for the timers it starts.\<close>

fun status_loop :: "string list \<Rightarrow> invoker_status \<Rightarrow> invoker \<Rightarrow> panic + invoker \<times> string list \<times> bool" where
  "status_loop [] st iv = Inr (iv, [], False)"
| "status_loop (i # is) st iv =
     (case iv_jobs iv i of
        None \<Rightarrow> status_loop is st iv
      | Some (j, t) \<Rightarrow>
          (case t of
             SendingJob \<Rightarrow> status_loop is st iv
           | TestingJob \<Rightarrow>
               if i \<notin> set (is_active st) then
                 bindE (setJobType i NoReplyJob iv) (\<lambda>iv. bindE (status_loop is st iv) (\<lambda>(iv, timers, failure).
                   Inr (iv, i # timers, failure)))
               else status_loop is st iv
           | NoReplyJob \<Rightarrow>
               if i \<in> set (is_active st) then (let (iv, failure) = markFailed iv in Inr (iv, [], failure))
               else status_loop is st iv
           | NotKnown \<Rightarrow> Inl (Panic ''invoker should not store job of type UnknownJob'')))"

definition updateInvoker :: "string list \<Rightarrow> invoker_status \<Rightarrow> invoker \<Rightarrow> panic + invoker \<times> string list \<times> bool" where
  "updateInvoker order st iv =
     (if iv_failed iv \<or> is_epoch st \<le> is_epoch (iv_status iv) then Inr (iv, [], False)
      else status_loop order st (iv\<lparr>iv_status := st\<rparr>))"

text \<open>A request is answered with a status or fails.\<close>

definition ping :: "string list \<Rightarrow> invoker_status option \<Rightarrow> invoker \<Rightarrow> panic + invoker \<times> string list \<times> bool" where
  "ping order answer iv =
     (case answer of
        None \<Rightarrow> (let (iv, failure) = markFailed iv in Inr (iv, [], failure))
      | Some st \<Rightarrow> updateInvoker order st iv)"

definition TrySendJob :: "job \<Rightarrow> invoker \<Rightarrow> invoker \<times> bool" where
  "TrySendJob j iv =
     (if iv_failed iv \<or> iv_counts iv SendingJob + 1 > is_max_new (iv_status iv) then (iv, False)
      else (addJob j SendingJob iv, True))"

definition completeSendJob :: "string list \<Rightarrow> invoker_status option \<Rightarrow> job \<Rightarrow> invoker \<Rightarrow> panic + invoker \<times> string list \<times> bool" where
  "completeSendJob order answer j iv =
     (case answer of
        None \<Rightarrow> (let (iv, failure) = markFailed iv in Inr (iv, [], failure))
      | Some st \<Rightarrow>
          bindE (case getJobType_of (job_id j) iv of
                   SendingJob \<Rightarrow> setJobType (job_id j) TestingJob iv
                 | NotKnown \<Rightarrow> Inr iv
                 | _ \<Rightarrow> Inl (Panic ''SendingJob unexpectedly changed its status''))
            (updateInvoker order st))"

definition ensureJobIsNotLost :: "string \<Rightarrow> invoker \<Rightarrow> invoker \<times> bool" where
  "ensureJobIsNotLost i iv = (if getJobType_of i iv = NoReplyJob then markFailed iv else (iv, False))"

definition ExtractJobs :: "string list \<Rightarrow> invoker \<Rightarrow> invoker \<times> string list" where
  "ExtractJobs order iv = (iv\<lparr>iv_jobs := Map.empty, iv_counts := (\<lambda>t. 0)\<rparr>, order)"

definition JobTested :: "string \<Rightarrow> invoker \<Rightarrow> panic + invoker \<times> bool" where
  "JobTested i iv =
     (if getJobType_of i iv = NotKnown then Inr (iv, False) else bindE (removeJob i iv) (\<lambda>iv. Inr (iv, True)))"

definition VerifyAndUpdateStatus :: "string list \<Rightarrow> invoker_status \<Rightarrow> invoker \<Rightarrow> panic + invoker \<times> string list \<times> bool \<times> bool" where
  "VerifyAndUpdateStatus order st iv =
     (if is_address (iv_status iv) \<noteq> is_address st then Inr (iv, [], False, False)
      else bindE (updateInvoker order st iv) (\<lambda>(iv, timers, failure). Inr (iv, timers, failure, \<not> iv_failed iv)))"

text \<open>The requests to empty the cache and to stop a job change the invoker only when they fail.\<close>

definition request_failed :: "bool \<Rightarrow> invoker \<Rightarrow> invoker \<times> bool" where
  "request_failed failed iv = (if failed then markFailed iv else (iv, False))"

record invoker_report =
  ir_address :: string
  ir_max_new :: int
  ir_added :: int
  ir_jobs :: "job list"

definition StatusForMaster :: "string list \<Rightarrow> invoker \<Rightarrow> invoker_report" where
  "StatusForMaster order iv =
     \<lparr>ir_address = is_address (iv_status iv), ir_max_new = is_max_new (iv_status iv) - iv_counts iv SendingJob,
      ir_added = iv_added iv, ir_jobs = map (\<lambda>i. fst (the (iv_jobs iv i))) order\<rparr>"

section \<open>The registry\<close>

record registry =
  r_invokers :: "nat list"
  r_by_job :: "string \<rightharpoonup> nat"
  r_testing :: "string \<rightharpoonup> job"
  r_next :: "job option"

definition NewInvokerRegistry :: registry where
  "NewInvokerRegistry = \<lparr>r_invokers = [], r_by_job = Map.empty, r_testing = Map.empty, r_next = None\<rparr>"

text \<open>The jobs that require the one that failed are to be stopped, wherever they are.\<close>

fun stop_loop :: "string list \<Rightarrow> string \<Rightarrow> registry \<Rightarrow> panic + (nat \<times> string) list" where
  "stop_loop [] i r = Inr []"
| "stop_loop (k # ks) i r =
     bindE (deref (r_testing r k)) (\<lambda>j.
       if i \<in> job_required j then
         (case r_by_job r k of
            None \<Rightarrow> Inl (Panic ''Job is marked as testing, but no invoker found for it'')
          | Some p \<Rightarrow> bindE (stop_loop ks i r) (\<lambda>stops. Inr ((p, k) # stops)))
       else stop_loop ks i r)"

text \<open>The part of the handler under the mutex; the status that came with the result is handed on after it.\<close>

definition HandleInvokerJobResult :: "string list \<Rightarrow> verdict \<Rightarrow> string \<Rightarrow> registry \<Rightarrow> (nat \<rightharpoonup> invoker) \<Rightarrow>
    panic + registry \<times> (nat \<rightharpoonup> invoker) \<times> (nat \<times> string) list \<times> bool" where
  "HandleInvokerJobResult order v i r ivs =
     (case r_by_job r i of
        None \<Rightarrow> Inr (r, ivs, [], False)
      | Some p \<Rightarrow>
          bindE (if v \<noteq> V_OK \<and> v \<noteq> V_PT then stop_loop order i r else Inr []) (\<lambda>stops.
          bindE (deref (ivs p)) (\<lambda>iv. bindE (JobTested i iv) (\<lambda>(iv, known).
            Inr (r\<lparr>r_by_job := (r_by_job r)(i := None), r_testing := (r_testing r)(i := None)\<rparr>,
                 ivs(p \<mapsto> iv), stops, known)))))"

text \<open>The walk over the invokers up to the first one that takes the status; what it starts, by invoker.\<close>

fun upsert_loop :: "(nat \<Rightarrow> string list) \<Rightarrow> invoker_status \<Rightarrow> nat list \<Rightarrow> (nat \<rightharpoonup> invoker) \<Rightarrow>
    panic + (nat \<rightharpoonup> invoker) \<times> (nat \<times> string list \<times> bool) list \<times> bool" where
  "upsert_loop order st [] ivs = Inr (ivs, [], False)"
| "upsert_loop order st (p # ps) ivs =
     bindE (deref (ivs p)) (\<lambda>iv. bindE (VerifyAndUpdateStatus (order p) st iv) (\<lambda>(iv, timers, failure, taken).
       if taken then Inr (ivs(p \<mapsto> iv), [(p, timers, failure)], True)
       else bindE (upsert_loop order st ps (ivs(p \<mapsto> iv))) (\<lambda>(ivs, started, taken).
         Inr (ivs, (p, timers, failure) # started, taken))))"

definition UpsertInvoker :: "(nat \<Rightarrow> string list) \<Rightarrow> nat \<Rightarrow> int \<Rightarrow> invoker_status \<Rightarrow> registry \<Rightarrow> (nat \<rightharpoonup> invoker) \<Rightarrow>
    panic + registry \<times> (nat \<rightharpoonup> invoker) \<times> (nat \<times> string list \<times> bool) list" where
  "UpsertInvoker order new now st r ivs =
     bindE (upsert_loop order st (r_invokers r) ivs) (\<lambda>(ivs, started, taken).
       if taken then Inr (r, ivs, started)
       else Inr (r\<lparr>r_invokers := r_invokers r @ [new]\<rparr>, ivs(new \<mapsto> newInvoker now st), started))"

text \<open>
  One job of an invoker that failed is put back into the queue, unless its result came in between; the new id is
  an argument, and the queue's answer is not looked at.
\<close>

definition reschedule_one :: "string \<Rightarrow> string \<Rightarrow> registry \<Rightarrow> queue \<Rightarrow> panic + registry \<times> queue" where
  "reschedule_one n i r q =
     (if i \<in> dom (r_by_job r) then
        bindE (RescheduleJob n i q) (\<lambda>(q, answer).
          Inr (r\<lparr>r_by_job := (r_by_job r)(i := None), r_testing := (r_testing r)(i := None)\<rparr>, q))
      else Inr (r, q))"

fun reschedule_loop :: "(string \<times> string) list \<Rightarrow> registry \<Rightarrow> queue \<Rightarrow> panic + registry \<times> queue" where
  "reschedule_loop [] r q = Inr (r, q)"
| "reschedule_loop ((n, i) # is) r q = bindE (reschedule_one n i r q) (\<lambda>(r, q). reschedule_loop is r q)"

definition OnInvokerFailure :: "nat \<Rightarrow> (string \<times> string) list \<Rightarrow> registry \<Rightarrow> queue \<Rightarrow> panic + registry \<times> queue" where
  "OnInvokerFailure p is r q =
     bindE (reschedule_loop is r q) (\<lambda>(r, q). Inr (r\<lparr>r_invokers := removeAll p (r_invokers r)\<rparr>, q))"

text \<open>
  One iteration of the loop that sends jobs to an invoker takes a job from the queue unless one was left over, and
  tries to send it, in the background.
\<close>

datatype send_end = NoJobs | NotSent | Sent job

definition send_one :: "string \<Rightarrow> nat \<Rightarrow> registry \<Rightarrow> queue \<Rightarrow> invoker \<Rightarrow> panic + registry \<times> queue \<times> invoker \<times> send_end" where
  "send_one newid p r q iv =
     bindE (case r_next r of None \<Rightarrow> NextJob newid q | Some j \<Rightarrow> Inr (q, Some j)) (\<lambda>(q, jo).
       case jo of
         None \<Rightarrow> Inr (r\<lparr>r_next := None\<rparr>, q, iv, NoJobs)
       | Some j \<Rightarrow>
           (let (iv, sent) = TrySendJob j iv in
            if \<not> sent then Inr (r\<lparr>r_next := Some j\<rparr>, q, iv, NotSent)
            else Inr (r\<lparr>r_by_job := (r_by_job r)(job_id j \<mapsto> p), r_testing := (r_testing r)(job_id j \<mapsto> j), r_next := None\<rparr>,
                      q, iv, Sent j)))"

text \<open>The free places of an invoker, of which each job that is sent takes one.\<close>

definition free_places :: "invoker \<Rightarrow> nat" where
  "free_places iv = nat (is_max_new (iv_status iv) - iv_counts iv SendingJob)"

lemma send_one_places:
  assumes "send_one i p r q iv = Inr (r', q', iv', Sent j)"
  shows "free_places iv' < free_places iv"
  using assms by (auto simp: send_one_def TrySendJob_def addJob_def free_places_def bindE_eq_Inr split: option.splits if_splits)

lemma bindE_cong [fundef_cong]:
  "r = r' \<Longrightarrow> (\<And>x. r' = Inr x \<Longrightarrow> f x = f' x) \<Longrightarrow> bindE r f = bindE r' f'"
  by (cases r') (simp_all add: bindE_def)

text \<open>The loop, with the number of ids that were used, whether to go on with the next invoker, and what was sent.\<close>

function send_invoker :: "(nat \<Rightarrow> string) \<Rightarrow> nat \<Rightarrow> nat \<Rightarrow> registry \<Rightarrow> queue \<Rightarrow> invoker \<Rightarrow>
    panic + nat \<times> registry \<times> queue \<times> invoker \<times> bool \<times> job list" where
  "send_invoker ids n p r q iv =
     bindE (send_one (ids n) p r q iv) (\<lambda>(r, q, iv, e).
       case e of
         NoJobs \<Rightarrow> Inr (Suc n, r, q, iv, False, [])
       | NotSent \<Rightarrow> Inr (Suc n, r, q, iv, True, [])
       | Sent j \<Rightarrow> bindE (send_invoker ids (Suc n) p r q iv) (\<lambda>(n, r, q, iv, more, js).
           Inr (n, r, q, iv, more, j # js)))"
  by pat_completeness auto

termination
  by (relation "measure (\<lambda>(ids, n, p, r, q, iv). free_places iv)") (auto intro: send_one_places)

declare send_invoker.simps [simp del]

fun send_loop :: "(nat \<Rightarrow> string) \<Rightarrow> nat \<Rightarrow> nat list \<Rightarrow> registry \<Rightarrow> queue \<Rightarrow> (nat \<rightharpoonup> invoker) \<Rightarrow>
    panic + registry \<times> queue \<times> (nat \<rightharpoonup> invoker) \<times> (nat \<times> job) list" where
  "send_loop ids n [] r q ivs = Inr (r, q, ivs, [])"
| "send_loop ids n (p # ps) r q ivs =
     bindE (deref (ivs p)) (\<lambda>iv. bindE (send_invoker ids n p r q iv) (\<lambda>(n, r, q, iv, more, js).
       let ivs = ivs(p \<mapsto> iv); sent = map (Pair p) js in
       if more then bindE (send_loop ids n ps r q ivs) (\<lambda>(r, q, ivs, rest). Inr (r, q, ivs, sent @ rest))
       else Inr (r, q, ivs, sent)))"

definition SendJobs :: "(nat \<Rightarrow> string) \<Rightarrow> registry \<Rightarrow> queue \<Rightarrow> (nat \<rightharpoonup> invoker) \<Rightarrow>
    panic + registry \<times> queue \<times> (nat \<rightharpoonup> invoker) \<times> (nat \<times> job) list" where
  "SendJobs ids r q ivs = send_loop ids 0 (r_invokers r) r q ivs"

end
