(* ===== verification/GoInvokers.thy ===== *)
theory GoInvokers
  imports GoRegistry
begin

text \<open>
  One invoker of the registry: its counters agree with its jobs, and what each operation does to its jobs.
\<close>

section \<open>One invoker\<close>

text \<open>The counters count the jobs of each type.\<close>

definition invoker_ok :: "invoker \<Rightarrow> bool" where
  "invoker_ok iv \<longleftrightarrow> finite (dom (iv_jobs iv)) \<and> (\<forall>i j t. iv_jobs iv i = Some (j, t) \<longrightarrow> t \<noteq> NotKnown) \<and>
     (\<forall>t. iv_counts iv t = int (card {i. \<exists>j. iv_jobs iv i = Some (j, t)}))"

lemma invoker_okD:
  assumes "invoker_ok iv"
  shows "finite (dom (iv_jobs iv))" "iv_jobs iv i = Some (j, t) \<Longrightarrow> t \<noteq> NotKnown"
    "iv_counts iv t = int (card {i. \<exists>j. iv_jobs iv i = Some (j, t)})"
  using assms unfolding invoker_ok_def by blast+

lemma newInvoker_ok: "invoker_ok (newInvoker now st)"
  by (simp add: invoker_ok_def newInvoker_def)

lemma typed_finite: "invoker_ok iv \<Longrightarrow> finite {i. \<exists>j. iv_jobs iv i = Some (j, t)}"
  by (rule finite_subset [OF _ invoker_okD(1)]) auto

lemma addJob_ok:
  assumes "invoker_ok iv" and "iv_jobs iv (job_id j) = None" and "t \<noteq> NotKnown"
  shows "invoker_ok (addJob j t iv)"
proof -
  let ?S = "\<lambda>t. {i. \<exists>j. iv_jobs iv i = Some (j, t)}"
  have "{i. \<exists>j'. iv_jobs (addJob j t iv) i = Some (j', u)} = (if u = t then insert (job_id j) (?S t) else ?S u)" for u
    using assms(2) by (auto simp: addJob_def)
  moreover have "job_id j \<notin> ?S u" for u using assms(2) by simp
  ultimately have "iv_counts (addJob j t iv) u = int (card {i. \<exists>j'. iv_jobs (addJob j t iv) i = Some (j', u)})" for u
    using invoker_okD(3) [OF assms(1)] typed_finite [OF assms(1)] by (simp add: addJob_def)
  moreover have "finite (dom (iv_jobs (addJob j t iv)))" using invoker_okD(1) [OF assms(1)] by (simp add: addJob_def)
  moreover have "u \<noteq> NotKnown" if "iv_jobs (addJob j t iv) i = Some (x, u)" for i x u
    using that invoker_okD(2) [OF assms(1)] assms(3) by (auto simp: addJob_def split: if_splits)
  ultimately show ?thesis unfolding invoker_ok_def by blast
qed

lemma card_remove:
  assumes "finite A" and "i \<in> A"
  shows "int (card (A - {i})) = int (card A) - 1"
proof -
  have "card A = Suc (card (A - {i}))" using card_Suc_Diff1 [OF assms] by simp
  then show ?thesis by linarith
qed

lemma removeJob_ok:
  assumes "invoker_ok iv" and "iv_jobs iv i = Some (j, t)"
  shows "\<exists>iv'. removeJob i iv = Inr iv' \<and> invoker_ok iv' \<and> iv_jobs iv' = (iv_jobs iv)(i := None) \<and>
    iv_failed iv' = iv_failed iv \<and> iv_status iv' = iv_status iv"
proof -
  let ?iv = "iv\<lparr>iv_jobs := (iv_jobs iv)(i := None), iv_counts := (iv_counts iv)(t := iv_counts iv t - 1)\<rparr>"
  let ?S = "\<lambda>t. {i. \<exists>j. iv_jobs iv i = Some (j, t)}"
  have "{y. \<exists>x. iv_jobs ?iv y = Some (x, u)} = (if u = t then ?S t - {i} else ?S u)" for u using assms(2) by auto
  moreover have "i \<in> ?S t" using assms(2) by blast
  moreover from this have "int (card (?S t - {i})) = int (card (?S t)) - 1"
    by (rule card_remove [OF typed_finite [OF assms(1)]])
  ultimately have "iv_counts ?iv u = int (card {y. \<exists>x. iv_jobs ?iv y = Some (x, u)})" for u
    using invoker_okD(3) [OF assms(1)] by (cases "u = t") simp_all
  then have "invoker_ok ?iv" using invoker_okD [OF assms(1)] unfolding invoker_ok_def by (auto split: if_splits)
  then show ?thesis using assms(2) by (auto simp: removeJob_def)
qed

text \<open>Another type for a job: it is taken away and added again.\<close>

lemma setJobType_ok:
  assumes "invoker_ok iv" and "iv_jobs iv i = Some (j, t')" and "t \<noteq> NotKnown"
  shows "\<exists>iv'. setJobType i t iv = Inr iv' \<and> invoker_ok iv' \<and> iv_jobs iv' = (iv_jobs iv)(i \<mapsto> (j, t)) \<and>
    iv_failed iv' = iv_failed iv \<and> iv_status iv' = iv_status iv"
proof -
  obtain iv0 where r: "removeJob i iv = Inr iv0" and iv0: "invoker_ok iv0" "iv_jobs iv0 i = None"
    using removeJob_ok [OF assms(1,2)] by auto
  have iv0_eq: "iv0 = iv\<lparr>iv_jobs := (iv_jobs iv)(i := None), iv_counts := (iv_counts iv)(t' := iv_counts iv t' - 1)\<rparr>"
    using r assms(2) by (simp add: removeJob_def)
  have "invoker_ok (addJob (j\<lparr>job_id := i\<rparr>) t iv0)" by (rule addJob_ok) (use iv0 assms(3) in simp_all)
  moreover have "invoker_ok (iv\<lparr>iv_jobs := (iv_jobs iv)(i \<mapsto> (j, t)), iv_counts := c\<rparr>) =
      invoker_ok (iv\<lparr>iv_jobs := (iv_jobs iv)(i \<mapsto> (j\<lparr>job_id := i\<rparr>, t)), iv_counts := c\<rparr>)" for c
  proof -
    have "(\<exists>x. ((iv_jobs iv)(i \<mapsto> (j, t))) y = Some (x, u)) \<longleftrightarrow> (\<exists>x. ((iv_jobs iv)(i \<mapsto> (j\<lparr>job_id := i\<rparr>, t))) y = Some (x, u))" for y u
      by auto
    then show ?thesis unfolding invoker_ok_def by (auto split: if_splits)
  qed
  ultimately show ?thesis using assms(2) by (simp add: setJobType_def addJob_def iv0_eq Let_def)
qed

text \<open>
  What an invoker goes through without getting or losing a job: the types of the jobs beyond \<open>X\<close> that are being sent
  stay, and a failure is reported when it happens.
\<close>

definition same_jobs :: "string set \<Rightarrow> invoker \<Rightarrow> invoker \<Rightarrow> bool \<Rightarrow> bool" where
  "same_jobs X iv iv' failure \<longleftrightarrow> invoker_ok iv' \<and>
     (\<forall>i. map_option fst (iv_jobs iv' i) = map_option fst (iv_jobs iv i)) \<and>
     (\<forall>i. i \<notin> X \<and> getJobType_of i iv = SendingJob \<longrightarrow> getJobType_of i iv' = SendingJob) \<and>
     (failure \<longleftrightarrow> iv_failed iv' \<and> \<not> iv_failed iv) \<and> (iv_failed iv \<longrightarrow> iv_failed iv')"

lemma same_jobsD:
  assumes "same_jobs X iv iv' failure"
  shows "invoker_ok iv'" "map_option fst (iv_jobs iv' i) = map_option fst (iv_jobs iv i)"
    "i \<notin> X \<Longrightarrow> getJobType_of i iv = SendingJob \<Longrightarrow> getJobType_of i iv' = SendingJob"
    "failure \<longleftrightarrow> iv_failed iv' \<and> \<not> iv_failed iv" "iv_failed iv \<Longrightarrow> iv_failed iv'"
  using assms unfolding same_jobs_def by blast+

lemma same_jobs_refl: "invoker_ok iv \<Longrightarrow> same_jobs X iv iv False"
  by (simp add: same_jobs_def)

lemma same_jobs_trans:
  assumes "same_jobs X iv iv1 False" and "same_jobs Y iv1 iv2 f"
  shows "same_jobs (X \<union> Y) iv iv2 f"
  unfolding same_jobs_def
proof (intro conjI allI impI)
  show "invoker_ok iv2" by (rule same_jobsD(1) [OF assms(2)])
  show "map_option fst (iv_jobs iv2 i) = map_option fst (iv_jobs iv i)" for i
    using same_jobsD(2) [OF assms(1)] same_jobsD(2) [OF assms(2)] by simp
  show "getJobType_of i iv2 = SendingJob" if "i \<notin> X \<union> Y \<and> getJobType_of i iv = SendingJob" for i
    using that same_jobsD(3) [OF assms(1), of i] same_jobsD(3) [OF assms(2), of i] by simp
  show "f \<longleftrightarrow> iv_failed iv2 \<and> \<not> iv_failed iv" "iv_failed iv \<Longrightarrow> iv_failed iv2"
    using same_jobsD(4) [OF assms(1)] same_jobsD(4,5) [OF assms(2)] same_jobsD(5) [OF assms(1)] by auto
qed

lemma same_jobs_types:
  assumes "same_jobs X iv iv' f" and "i \<notin> X" and "getJobType_of i iv \<in> {SendingJob, NotKnown}" and "invoker_ok iv"
  shows "getJobType_of i iv' \<in> {SendingJob, NotKnown}"
proof (cases "iv_jobs iv i")
  case None
  then have "iv_jobs iv' i = None" using same_jobsD(2) [OF assms(1), of i] by simp
  then show ?thesis by (simp add: getJobType_of_def)
next
  case (Some x)
  then have "getJobType_of i iv \<noteq> NotKnown" using invoker_okD(2) [OF assms(4)] by (cases x) (auto simp: getJobType_of_def)
  then show ?thesis using assms(2,3) same_jobsD(3) [OF assms(1)] by simp
qed

lemma markFailed_same:
  assumes "invoker_ok iv" and "markFailed iv = (iv', f)"
  shows "same_jobs X iv iv' f"
proof -
  have "iv' = iv \<or> iv' = iv\<lparr>iv_failed := True\<rparr>" "f \<longleftrightarrow> iv_failed iv' \<and> \<not> iv_failed iv" "iv_failed iv'"
    using assms(2) by (auto simp: markFailed_def split: if_splits)
  moreover have "invoker_ok (iv\<lparr>iv_failed := True\<rparr>) = invoker_ok iv" by (simp add: invoker_ok_def)
  ultimately show ?thesis using assms(1) by (auto simp: same_jobs_def getJobType_of_def)
qed

lemma setJobType_same:
  assumes "invoker_ok iv" and "iv_jobs iv i = Some (j, t')" and "t \<noteq> NotKnown"
  shows "\<exists>iv'. setJobType i t iv = Inr iv' \<and> same_jobs {i} iv iv' False \<and> getJobType_of i iv' = t \<and> iv_status iv' = iv_status iv \<and>
    iv_failed iv' = iv_failed iv"
  using setJobType_ok [OF assms] assms(2) by (auto simp: same_jobs_def getJobType_of_def)

text \<open>The jobs that a walk changes are not being sent.\<close>

lemma status_loop_same:
  "invoker_ok iv \<Longrightarrow> \<exists>iv' timers f. status_loop is st iv = Inr (iv', timers, f) \<and> same_jobs {} iv iv' f"
proof (induction "is" arbitrary: iv)
  case Nil
  then show ?case by (intro exI [of _ iv] exI [of _ "[]"] exI [of _ False]) (simp add: same_jobs_refl)
next
  case (Cons i "is")
  show ?case
  proof (cases "iv_jobs iv i")
    case None
    then show ?thesis using Cons by simp
  next
    case (Some x)
    obtain j t where x: "x = (j, t)" by (cases x)
    show ?thesis
    proof (cases t)
      case SendingJob
      then show ?thesis using Cons Some x by simp
    next
      case NotKnown
      then show ?thesis using invoker_okD(2) [OF Cons.prems, of i j t] Some x by simp
    next
      case NoReplyJob
      obtain iv' f where m: "markFailed iv = (iv', f)" by (cases "markFailed iv")
      then show ?thesis using Cons Some x NoReplyJob markFailed_same [OF Cons.prems m, of "{}"] by simp
    next
      case TestingJob
      show ?thesis
      proof (cases "i \<in> set (is_active st)")
        case True
        then show ?thesis using Cons Some x TestingJob by simp
      next
        case False
        obtain iv1 where s: "setJobType i NoReplyJob iv = Inr iv1" "same_jobs {i} iv iv1 False"
          using setJobType_same [OF Cons.prems, of i j t NoReplyJob] Some x by auto
        obtain iv' timers f where r: "status_loop is st iv1 = Inr (iv', timers, f)" "same_jobs {} iv1 iv' f"
          using Cons.IH [OF same_jobsD(1) [OF s(2)]] by blast
        have "same_jobs {i} iv iv' f" using same_jobs_trans [OF s(2) r(2)] by simp
        moreover have "getJobType_of i iv \<noteq> SendingJob" using Some x TestingJob by (simp add: getJobType_of_def)
        ultimately have "same_jobs {} iv iv' f" unfolding same_jobs_def by auto
        then show ?thesis using Some x TestingJob False s(1) r(1) by simp
      qed
    qed
  qed
qed

lemma updateInvoker_same:
  assumes "invoker_ok iv"
  shows "\<exists>iv' timers f. updateInvoker order st iv = Inr (iv', timers, f) \<and> same_jobs {} iv iv' f"
proof (cases "iv_failed iv \<or> is_epoch st \<le> is_epoch (iv_status iv)")
  case True
  then show ?thesis
    by (intro exI [of _ iv] exI [of _ "[]"] exI [of _ False]) (simp add: updateInvoker_def same_jobs_refl [OF assms])
next
  case False
  have ok: "invoker_ok (iv\<lparr>iv_status := st\<rparr>)" using assms by (simp add: invoker_ok_def)
  have "same_jobs {} iv iv' f" if "same_jobs {} (iv\<lparr>iv_status := st\<rparr>) iv' f" for iv' f
    using that by (simp add: same_jobs_def getJobType_of_def)
  then show ?thesis using status_loop_same [OF ok, of order st] False by (auto simp: updateInvoker_def)
qed

lemma ping_same:
  assumes "invoker_ok iv"
  shows "\<exists>iv' timers f. ping order answer iv = Inr (iv', timers, f) \<and> same_jobs {} iv iv' f"
proof (cases answer)
  case None
  obtain iv' f where "markFailed iv = (iv', f)" by (cases "markFailed iv")
  then show ?thesis using None markFailed_same [OF assms] by (simp add: ping_def)
next
  case (Some st)
  then show ?thesis using updateInvoker_same [OF assms] by (simp add: ping_def)
qed

lemma completeSendJob_same:
  assumes "invoker_ok iv" and "getJobType_of (job_id j) iv \<in> {SendingJob, NotKnown}"
  shows "\<exists>iv' timers f. completeSendJob order answer j iv = Inr (iv', timers, f) \<and> same_jobs {job_id j} iv iv' f"
proof (cases answer)
  case None
  obtain iv' f where "markFailed iv = (iv', f)" by (cases "markFailed iv")
  then show ?thesis using None markFailed_same [OF assms(1)] by (simp add: completeSendJob_def)
next
  case (Some st)
  have "\<exists>iv1. (case getJobType_of (job_id j) iv of SendingJob \<Rightarrow> setJobType (job_id j) TestingJob iv | NotKnown \<Rightarrow> Inr iv
      | _ \<Rightarrow> Inl (Panic ''SendingJob unexpectedly changed its status'')) = Inr iv1 \<and> same_jobs {job_id j} iv iv1 False"
  proof (cases "getJobType_of (job_id j) iv = NotKnown")
    case True
    then show ?thesis using same_jobs_refl [OF assms(1)] by simp
  next
    case False
    then have "getJobType_of (job_id j) iv = SendingJob" using assms(2) by simp
    moreover from this obtain x t where "iv_jobs iv (job_id j) = Some (x, t)" by (auto simp: getJobType_of_def split: option.splits)
    ultimately show ?thesis using setJobType_same [OF assms(1), of "job_id j" x t TestingJob] by auto
  qed
  then obtain iv1 where iv1: "same_jobs {job_id j} iv iv1 False"
    and c: "completeSendJob order answer j iv = updateInvoker order st iv1"
    using Some by (auto simp: completeSendJob_def)
  obtain iv' timers f where u: "updateInvoker order st iv1 = Inr (iv', timers, f)" "same_jobs {} iv1 iv' f"
    using updateInvoker_same [OF same_jobsD(1) [OF iv1]] by blast
  show ?thesis using same_jobs_trans [OF iv1 u(2)] c u(1) by auto
qed

lemma ensureJobIsNotLost_same:
  assumes "invoker_ok iv" and "ensureJobIsNotLost i iv = (iv', f)"
  shows "same_jobs {} iv iv' f"
  using assms markFailed_same same_jobs_refl by (auto simp: ensureJobIsNotLost_def split: if_splits)

lemma request_failed_same:
  assumes "invoker_ok iv" and "request_failed b iv = (iv', f)"
  shows "same_jobs {} iv iv' f"
  using assms markFailed_same same_jobs_refl by (auto simp: request_failed_def split: if_splits)

lemma JobTested_ok:
  assumes "invoker_ok iv"
  shows "\<exists>iv'. JobTested i iv = Inr (iv', i \<in> dom (iv_jobs iv)) \<and> invoker_ok iv' \<and> iv_jobs iv' = (iv_jobs iv)(i := None) \<and>
    iv_failed iv' = iv_failed iv"
proof (cases "iv_jobs iv i")
  case None
  then show ?thesis using assms by (auto simp: JobTested_def getJobType_of_def fun_upd_idem_iff)
next
  case (Some x)
  obtain j t where x: "x = (j, t)" by (cases x)
  have "getJobType_of i iv \<noteq> NotKnown" using invoker_okD(2) [OF assms, of i j t] Some x by (simp add: getJobType_of_def)
  moreover obtain iv' where "removeJob i iv = Inr iv'" "invoker_ok iv'" "iv_jobs iv' = (iv_jobs iv)(i := None)" "iv_failed iv' = iv_failed iv"
    using removeJob_ok [OF assms, of i j t] Some x by blast
  ultimately show ?thesis using Some by (auto simp: JobTested_def)
qed

lemma ExtractJobs_ok: "ExtractJobs order iv = (iv', is) \<Longrightarrow> invoker_ok iv' \<and> iv_jobs iv' = Map.empty \<and> iv_failed iv' = iv_failed iv \<and> is = order"
  by (auto simp: ExtractJobs_def invoker_ok_def)

lemma TrySendJob_ok:
  assumes "invoker_ok iv" and "TrySendJob j iv = (iv', True)" and "iv_jobs iv (job_id j) = None"
  shows "invoker_ok iv'" "iv_jobs iv' = (iv_jobs iv)(job_id j \<mapsto> (j, SendingJob))" "\<not> iv_failed iv" "iv_failed iv' = iv_failed iv"
    "iv_counts iv' SendingJob \<le> is_max_new (iv_status iv')"
  using assms addJob_ok [OF assms(1), of j SendingJob] by (auto simp: TrySendJob_def addJob_def split: if_splits)


section \<open>Jobs that disappear\<close>

text \<open>What an invoker's status does to a job: one that is tested and not named any more is waited for.\<close>

definition after_status :: "invoker_status \<Rightarrow> string \<Rightarrow> hold_type \<Rightarrow> hold_type" where
  "after_status st i t = (if t = TestingJob \<and> i \<notin> set (is_active st) then NoReplyJob else t)"

definition gone :: "invoker_status \<Rightarrow> invoker \<Rightarrow> string set" where
  "gone st iv = {i. \<exists>j. iv_jobs iv i = Some (j, TestingJob) \<and> i \<notin> set (is_active st)}"

lemma status_loop_marks:
  assumes "status_loop is st iv = Inr (iv', timers, failure)" and "\<not> iv_failed iv'" and "distinct is"
  shows "set timers = gone st iv \<inter> set is \<and> iv_status iv' = iv_status iv \<and>
    iv_jobs iv' = (\<lambda>i. if i \<in> set is then map_option (\<lambda>(j, t). (j, after_status st i t)) (iv_jobs iv i) else iv_jobs iv i)"
  using assms
proof (induction "is" arbitrary: iv timers)
  case (Cons i "is")
  have fin: ?case if loop: "status_loop is st iv2 = Inr (iv', ts, failure)" and st: "iv_status iv2 = iv_status iv"
    and jobs: "iv_jobs iv2 = (iv_jobs iv)(i := map_option (\<lambda>(j, t). (j, after_status st i t)) (iv_jobs iv i))"
    and t: "set timers = set ts \<union> (gone st iv \<inter> {i})" for iv2 ts
  proof -
    have "distinct is" "i \<notin> set is" using Cons.prems(3) by simp_all
    note IH = Cons.IH [OF loop Cons.prems(2) this(1)]
    have "gone st iv2 \<inter> set is = gone st iv \<inter> set is" using \<open>i \<notin> set is\<close> by (auto simp: gone_def jobs)
    then show ?thesis using IH st t \<open>i \<notin> set is\<close> by (auto simp: jobs fun_eq_iff)
  qed
  show ?case
  proof (cases "iv_jobs iv i")
    case None
    then show ?thesis using Cons.prems(1) by (intro fin [of iv timers]) (auto simp: gone_def fun_upd_idem)
  next
    case (Some jt)
    obtain j t where jt: "jt = (j, t)" by (cases jt)
    note some = Some [unfolded jt]
    show ?thesis
    proof (cases "t = TestingJob \<and> i \<notin> set (is_active st)")
      case True
      then obtain iv2 ts where "setJobType i NoReplyJob iv = Inr iv2" "status_loop is st iv2 = Inr (iv', ts, failure)" "timers = i # ts"
        using Cons.prems(1) some by (auto simp: bindE_eq_Inr)
      then show ?thesis using some True
        by (intro fin [of iv2 ts]) (auto simp: setJobType_def Let_def after_status_def gone_def)
    next
      case False
      then have "status_loop is st iv = Inr (iv', timers, failure)"
        using Cons.prems(1,2) some by (auto simp: markFailed_def split: hold_type.splits if_splits)
      then show ?thesis using some False by (intro fin [of iv timers]) (auto simp: after_status_def gone_def fun_upd_idem)
    qed
  qed
qed simp

lemma updateInvoker_marks:
  assumes "updateInvoker order st iv = Inr (iv', timers, failure)" and "\<not> iv_failed iv'"
    and "is_epoch (iv_status iv) < is_epoch st" and "distinct order" and "set order = dom (iv_jobs iv)"
  shows "iv_status iv' = st \<and> set timers = gone st iv \<and>
    iv_jobs iv' = (\<lambda>i. map_option (\<lambda>(j, t). (j, after_status st i t)) (iv_jobs iv i))"
proof (cases "iv_failed iv")
  case True
  then show ?thesis using assms(1,2) by (simp add: updateInvoker_def)
next
  case False
  then have "status_loop order st (iv\<lparr>iv_status := st\<rparr>) = Inr (iv', timers, failure)"
    using assms(1) assms(3) [folded not_le] by (simp add: updateInvoker_def)
  note m = status_loop_marks [OF this assms(2,4)]
  have "gone st (iv\<lparr>iv_status := st\<rparr>) \<inter> set order = gone st iv" unfolding assms(5) by (auto simp: gone_def)
  then have "set timers = gone st iv" "iv_status iv' = st" using m by simp_all
  moreover have "iv_jobs iv' i = map_option (\<lambda>(j, t). (j, after_status st i t)) (iv_jobs iv i)" for i
  proof (cases "iv_jobs iv i")
    case None
    then have "i \<notin> set order" using assms(5) by auto
    then show ?thesis using m None by simp
  next
    case (Some x)
    then have "i \<in> set order" using assms(5) by auto
    then show ?thesis using m by simp
  qed
  ultimately show ?thesis by blast
qed

end
