(* ===== verification/GoGenerator.thy ===== *)
theory GoGenerator
  imports GoModels
begin

text \<open>
  The interface \<^verbatim>\<open>Generator\<close> of master/queue/jobgenerators/generator.go, for which the ICPC and the IOI
  generator are the providers and the queue is the client: runs in which jobs are asked for and results
  come in any order (\<open>gen_run\<close>), and the contract \<open>job_generator\<close> under which every run is
  free of panics, is finite and ends with the submission a reference prescribes.
\<close>

section \<open>Invokers\<close>

text \<open>
  What an invoker reports for a job: \<open>C\<close> for the compilation, \<open>T t\<close> for test \<open>t\<close>, whenever
  it is asked; and the verdict a submission has after the compilation, running when it succeeded.
\<close>

definition job_report :: "job_result \<Rightarrow> (nat \<Rightarrow> job_result) \<Rightarrow> string \<Rightarrow> job \<Rightarrow> job_result" where
  "job_report C T i j = (case job_type j of CompileJob \<Rightarrow> C | TestJob \<Rightarrow> T (job_test j))\<lparr>jres_job := i\<rparr>"

definition start_verdict :: "job_result \<Rightarrow> verdict" where
  "start_verdict C = (let v = jres_verdict (normal_compile C) in if v = V_CD then V_RU else v)"

lemma job_report_simps [simp]: "jres_job (job_report C T i j) = i"
  by (simp add: job_report_def)

lemma normal_compile_not_running: "jres_verdict (normal_compile r) \<noteq> V_RU"
  by (auto simp: normal_compile_def)

section \<open>Runs\<close>

text \<open>
  Calls of the two methods in any order, under fresh ids, and a result for any job that was given and
  has none yet.  The number counts the calls that give a job or take a result; the last argument is what
  the last call returned.
\<close>

inductive gen_run ::
  "(string \<Rightarrow> 's \<Rightarrow> panic + 's \<times> job option) \<Rightarrow> (job_result \<Rightarrow> 's \<Rightarrow> panic + 's \<times> gsubmission option) \<Rightarrow>
   ('s \<Rightarrow> string \<Rightarrow> job option) \<Rightarrow> (string \<Rightarrow> job \<Rightarrow> job_result) \<Rightarrow> 's \<Rightarrow> nat \<Rightarrow> 's \<Rightarrow> gsubmission option \<Rightarrow> bool"
  for next_job complete given report g0 where
  created: "gen_run next_job complete given report g0 0 g0 None"
| asked: "gen_run next_job complete given report g0 k g None \<Longrightarrow> i \<notin> dom (given g) \<Longrightarrow>
    next_job i g = Inr (g', j) \<Longrightarrow> gen_run next_job complete given report g0 (if j = None then k else Suc k) g' None"
| reported: "gen_run next_job complete given report g0 k g None \<Longrightarrow> given g i = Some j \<Longrightarrow>
    complete (report i j) g = Inr (g', out) \<Longrightarrow> gen_run next_job complete given report g0 (Suc k) g' out"

text \<open>
  The contract.  \<open>ok\<close> holds of every state before the last answer, \<open>work\<close> bounds the calls to
  come, \<open>final\<close> is what the answer promises.
\<close>

locale job_generator =
  fixes next_job :: "string \<Rightarrow> 's \<Rightarrow> panic + 's \<times> job option"
    and complete :: "job_result \<Rightarrow> 's \<Rightarrow> panic + 's \<times> gsubmission option"
    and given :: "'s \<Rightarrow> string \<Rightarrow> job option"
    and report :: "string \<Rightarrow> job \<Rightarrow> job_result"
    and ok :: "'s \<Rightarrow> bool"
    and work :: "'s \<Rightarrow> nat"
    and final :: "gsubmission \<Rightarrow> bool"
  assumes next_ok: "ok g \<Longrightarrow> i \<notin> dom (given g) \<Longrightarrow> \<exists>g' j. next_job i g = Inr (g', j) \<and> ok g' \<and>
      (j = None \<longrightarrow> given g \<noteq> Map.empty \<and> work g' \<le> work g) \<and> (j \<noteq> None \<longrightarrow> work g' < work g)"
    and complete_ok: "ok g \<Longrightarrow> given g i = Some j \<Longrightarrow> \<exists>g' out. complete (report i j) g = Inr (g', out) \<and>
      work g' < work g \<and> (out = None \<and> ok g' \<or> (\<exists>s. out = Some s \<and> final s))"
    and given_finite: "ok g \<Longrightarrow> finite (dom (given g))"
begin

lemma run_ok:
  assumes "ok g0" and "gen_run next_job complete given report g0 k g out"
  shows "k + work g \<le> work g0 \<and> (out = None \<and> ok g \<or> (\<exists>s. out = Some s \<and> final s))"
  using assms(2)
proof induction
  case (asked k g i g' j)
  then show ?case using next_ok [of g i] by (cases j) auto
next
  case (reported k g i j g' out)
  then show ?case using complete_ok [of g i j] by auto
qed (use assms(1) in simp)

lemma run_next:
  "ok g0 \<Longrightarrow> gen_run next_job complete given report g0 k g None \<Longrightarrow> i \<notin> dom (given g) \<Longrightarrow> \<exists>g' j. next_job i g = Inr (g', j)"
  using run_ok [of g0 k g None] next_ok [of g i] by auto

lemma run_complete:
  "ok g0 \<Longrightarrow> gen_run next_job complete given report g0 k g None \<Longrightarrow> given g i = Some j \<Longrightarrow>
     \<exists>g' out. complete (report i j) g = Inr (g', out)"
  using run_ok [of g0 k g None] complete_ok [of g i j] by auto

lemma run_final: "ok g0 \<Longrightarrow> gen_run next_job complete given report g0 k g (Some s) \<Longrightarrow> final s"
  using run_ok [of g0 k g "Some s"] by auto

lemma run_bounded: "ok g0 \<Longrightarrow> gen_run next_job complete given report g0 k g out \<Longrightarrow> k \<le> work g0"
  using run_ok [of g0 k g out] by auto

text \<open>Whatever was done so far, testing can be brought to an end.\<close>

lemma run_ends:
  assumes "ok g0" and "gen_run next_job complete given report g0 k g None"
  shows "\<exists>k' g' s. gen_run next_job complete given report g0 k' g' (Some s)"
  using assms(2)
proof (induction "work g" arbitrary: k g rule: less_induct)
  case less
  have ok: "ok g" using run_ok [OF assms(1) less(2)] by auto
  show ?case
  proof (cases "given g = Map.empty")
    case True
    then obtain g' j where "next_job '''' g = Inr (g', j)" "work g' < work g"
      using next_ok [OF ok, of "''''"] by auto
    then show ?thesis using less(1) asked [OF less(2), of "''''" g' j] True by auto
  next
    case False
    then obtain i j where ij: "given g i = Some j" by (metis not_Some_eq)
    then obtain g' out where g': "complete (report i j) g = Inr (g', out)" "work g' < work g"
      using complete_ok [OF ok] by blast
    have "gen_run next_job complete given report g0 (Suc k) g' out" by (rule reported [OF less(2) ij g'(1)])
    then show ?thesis using less(1) g'(2) by (cases out) auto
  qed
qed

end


text \<open>
  What the queue needs beyond that: how the given jobs change, that every job carries its id and the
  submission of its generator, and that a generator that gave its answer (\<open>spent\<close>) has nothing
  more to give.
\<close>

locale ending_generator = job_generator next_job complete given report ok work final
  for next_job :: "string \<Rightarrow> 's \<Rightarrow> panic + 's \<times> job option"
    and complete :: "job_result \<Rightarrow> 's \<Rightarrow> panic + 's \<times> gsubmission option"
    and given :: "'s \<Rightarrow> string \<Rightarrow> job option"
    and report :: "string \<Rightarrow> job \<Rightarrow> job_result"
    and ok :: "'s \<Rightarrow> bool"
    and work :: "'s \<Rightarrow> nat"
    and final :: "gsubmission \<Rightarrow> bool" +
  fixes spent :: "'s \<Rightarrow> bool"
    and subm :: "'s \<Rightarrow> nat"
  assumes next_gives: "next_job i g = Inr (g', jo) \<Longrightarrow> subm g' = subm g \<and>
      given g' = (case jo of None \<Rightarrow> given g | Some x \<Rightarrow> (given g)(i \<mapsto> x)) \<and>
      (\<forall>x. jo = Some x \<longrightarrow> job_id x = i \<and> job_submission x = subm g)"
    and complete_takes: "complete r g = Inr (g', out) \<Longrightarrow> subm g' = subm g \<and> given g' = (given g)(jres_job r := None)"
    and complete_spent: "ok g \<Longrightarrow> given g i = Some j \<Longrightarrow> complete (report i j) g = Inr (g', Some s) \<Longrightarrow> spent g'"
    and spent_given: "spent g \<Longrightarrow> given g = Map.empty"
    and spent_next: "spent g \<Longrightarrow> \<exists>g'. next_job i g = Inr (g', None) \<and> spent g'"

end
