(* ===== verification/GoIcpcRun.thy ===== *)
theory GoIcpcRun
  imports GoIcpc GoGenerator
begin

text \<open>
  Runs of the ICPC generator: the submission that testing should end with, computed from the
  compilation and the tests alone (\<open>icpc_final\<close>); the invariant of the test phase
  (\<open>icpc_pre\<close>, \<open>icpc_testing\<close>) and its preservation by both methods; the calls that are left
  (\<open>icpc_work\<close>); and the interpretation of the contract \<open>job_generator\<close>.
\<close>

section \<open>What a submission should end with\<close>

text \<open>
  The reference: \<open>T t\<close> is the result an invoker reports for test \<open>t\<close>, whenever it does,
  and \<open>c\<close> the verdict testing starts with (running, or the verdict of a failed compilation).
\<close>

definition test_outcome :: "(nat \<Rightarrow> job_result) \<Rightarrow> nat \<Rightarrow> gtest_result" where
  "test_outcome T t = buildTestResult
     \<lparr>job_id = '''', job_submission = 0, job_type = TestJob, job_test = t, job_required = {}\<rparr> (normal_test (T t))"

definition bad_test :: "(nat \<Rightarrow> job_result) \<Rightarrow> nat \<Rightarrow> bool" where
  "bad_test T t \<longleftrightarrow> jres_verdict (normal_test (T t)) \<noteq> V_OK"

definition first_bad :: "(nat \<Rightarrow> job_result) \<Rightarrow> nat \<Rightarrow> nat option" where
  "first_bad T n = find (bad_test T) [1..<Suc n]"

definition no_skip :: "gtest_result \<Rightarrow> gtest_result" where
  "no_skip r =
     (if gtr_verdict r = V_SK
      then r\<lparr>gtr_verdict := V_CF, gtr_error := ''Invoker returned verdict SK, but no previous tests failed''\<rparr>
      else r)"

definition icpc_expected_verdict :: "verdict \<Rightarrow> (nat \<Rightarrow> job_result) \<Rightarrow> nat \<Rightarrow> verdict" where
  "icpc_expected_verdict c T n =
     (if c \<noteq> V_RU then c
      else case first_bad T n of None \<Rightarrow> V_RU | Some k \<Rightarrow> gtr_verdict (no_skip (test_outcome T k)))"

definition icpc_expected_result :: "verdict \<Rightarrow> (nat \<Rightarrow> job_result) \<Rightarrow> nat \<Rightarrow> gtest_result" where
  "icpc_expected_result c T t =
     (if c = V_RU \<and> first_bad T (t - 1) = None then no_skip (test_outcome T t) else bare_result t V_SK)"

definition icpc_expected :: "verdict \<Rightarrow> (nat \<Rightarrow> job_result) \<Rightarrow> nat \<Rightarrow> gtest_result list" where
  "icpc_expected c T n = map (icpc_expected_result c T) [1..<Suc n]"

lemma test_outcome_simps [simp]:
  "gtr_verdict (test_outcome T t) = jres_verdict (normal_test (T t))" "gtr_test (test_outcome T t) = t"
  by (simp_all add: test_outcome_def)

lemma normal_test_verdict: "jres_verdict (normal_test r) \<noteq> V_RU"
  by (auto simp: normal_test_def)

lemma first_bad_Suc: "first_bad T (Suc n) = (case first_bad T n of Some k \<Rightarrow> Some k
    | None \<Rightarrow> if bad_test T (Suc n) then Some (Suc n) else None)"
  by (simp add: first_bad_def find_append split: option.split)

lemma first_bad_None: "first_bad T n = None \<longleftrightarrow> (\<forall>k. 1 \<le> k \<and> k \<le> n \<longrightarrow> \<not> bad_test T k)"
  by (auto simp: first_bad_def find_None_iff less_Suc_eq_le)

lemma first_bad_Some: "first_bad T n = Some k \<Longrightarrow> bad_test T k \<and> 1 \<le> k \<and> k \<le> n"
  by (auto simp: first_bad_def find_Some_iff nth_upt less_Suc_eq_le simp del: upt_Suc)

lemma no_skip_verdict: "gtr_verdict (no_skip r) = (if gtr_verdict r = V_SK then V_CF else gtr_verdict r)"
  by (simp add: no_skip_def)

lemma expected_running:
  "icpc_expected_verdict c T n = V_RU \<longleftrightarrow> c = V_RU \<and> first_bad T n = None"
  by (auto simp: icpc_expected_verdict_def no_skip_verdict normal_test_verdict split: option.splits)

lemma expected_Suc: "icpc_expected c T (Suc n) = icpc_expected c T n @ [icpc_expected_result c T (Suc n)]"
  by (simp add: icpc_expected_def)

text \<open>What may be recorded for test \<open>t\<close>: its result, or that it is skipped after an earlier failure;
  after a failed compilation nothing recorded counts.\<close>

definition recordable :: "verdict \<Rightarrow> (nat \<Rightarrow> job_result) \<Rightarrow> nat \<Rightarrow> gtest_result \<Rightarrow> bool" where
  "recordable c T t r \<longleftrightarrow> c \<noteq> V_RU \<or> r = test_outcome T t \<or>
     r = bare_result t V_SK \<and> (\<exists>k. 1 \<le> k \<and> k < t \<and> bad_test T k)"

definition icpc_matches :: "verdict \<Rightarrow> (nat \<Rightarrow> job_result) \<Rightarrow> nat \<Rightarrow> gsubmission \<Rightarrow> bool" where
  "icpc_matches c T n s \<longleftrightarrow> gs_results s = icpc_expected c T n \<and> gs_verdict s = icpc_expected_verdict c T n"

lemma icpc_append_matches:
  assumes "icpc_matches c T n s" and "recordable c T (Suc n) r"
  shows "\<exists>s'. icpc_append (Suc n) r s = Inr s' \<and> icpc_matches c T (Suc n) s' \<and>
    gs_id s' = gs_id s \<and> gs_score s' = gs_score s"
proof (cases "c = V_RU \<and> first_bad T n = None")
  case True
  then have r: "r = test_outcome T (Suc n)"
    using assms(2) unfolding recordable_def first_bad_None by (metis less_Suc_eq_le)
  have run: "gs_verdict s = V_RU" using assms(1) True by (simp add: icpc_matches_def expected_running)
  have v: "jres_verdict (normal_test (T (Suc n))) \<noteq> V_RU" by (rule normal_test_verdict)
  show ?thesis
    using assms(1) True r run v
    by (auto simp: icpc_append_def icpc_matches_def expected_Suc icpc_expected_result_def no_skip_def
        icpc_expected_verdict_def first_bad_Suc bad_test_def Let_def)
next
  case False
  then have "gs_verdict s \<noteq> V_RU" using assms(1) expected_running by (simp add: icpc_matches_def)
  moreover have "icpc_expected_verdict c T (Suc n) = icpc_expected_verdict c T n"
    using False by (auto simp: icpc_expected_verdict_def first_bad_Suc split: option.splits)
  ultimately show ?thesis
    using assms(1) False
    by (auto simp: icpc_append_def icpc_matches_def expected_Suc icpc_expected_result_def Let_def)
qed

section \<open>The loop over the tested prefix\<close>

definition icpc_finish :: "gsubmission \<Rightarrow> gsubmission" where
  "icpc_finish s = (if gs_verdict s = V_RU then s\<lparr>gs_verdict := V_OK, gs_score := Fin 1\<rparr> else s)"

lemma icpc_update_spec:
  assumes "ic_prefix g \<le> ic_tests g"
    and "\<And>t r. ic_results g t = Some r \<Longrightarrow> recordable c T t r"
    and "icpc_matches c T (ic_prefix g) (ic_submission g)"
  shows "\<exists>k s u'. ic_prefix g \<le> k \<and> k \<le> ic_tests g \<and> {Suc (ic_prefix g)..k} \<subseteq> dom (ic_results g) \<and>
    icpc_matches c T k s \<and> gs_score s = gs_score (ic_submission g) \<and> gs_id s = gs_id (ic_submission g) \<and>
    (k = ic_tests g \<longrightarrow>
       icpc_update g u = Inr (g\<lparr>ic_prefix := k, ic_submission := icpc_finish s\<rparr>, u', True)) \<and>
    (k \<noteq> ic_tests g \<longrightarrow> ic_results g (Suc k) = None \<and>
       icpc_update g u = Inr (g\<lparr>ic_prefix := k, ic_submission := s\<rparr>, u', False))"
  using assms
proof (induction g u rule: icpc_update.induct)
  case (1 g u)
  let ?p = "ic_prefix g"
  show ?case
  proof (cases "?p < ic_tests g")
    case False
    then show ?thesis
      using 1(2,4) by (intro exI [of _ ?p] exI [of _ "ic_submission g"] exI [of _ u])
        (auto simp: icpc_update.simps [of g] icpc_finish_def)
  next
    case p: True
    show ?thesis
    proof (cases "ic_results g (Suc ?p)")
      case None
      then show ?thesis
        using p 1(4) by (intro exI [of _ ?p] exI [of _ "ic_submission g"] exI [of _ u])
          (auto simp: icpc_update.simps [of g])
    next
      case (Some r)
      obtain s where s: "icpc_append (Suc ?p) r (ic_submission g) = Inr s" "icpc_matches c T (Suc ?p) s"
        "gs_id s = gs_id (ic_submission g)" "gs_score s = gs_score (ic_submission g)"
        using icpc_append_matches [OF 1(4) 1(3) [OF Some]] by auto
      let ?g = "g\<lparr>ic_prefix := Suc ?p, ic_submission := s\<rparr>"
      have u: "icpc_update g u = icpc_update ?g True"
        using p Some s(1) by (simp add: icpc_update.simps [of g])
      have "ic_prefix ?g \<le> ic_tests ?g" "\<And>t r. ic_results ?g t = Some r \<Longrightarrow> recordable c T t r"
        "icpc_matches c T (ic_prefix ?g) (ic_submission ?g)"
        using p 1(3) s(2) by auto
      note ih = 1(1) [OF p, of r s, simplified, OF Some s(1) this[simplified]]
      then obtain k s' u' where k: "Suc ?p \<le> k" "k \<le> ic_tests g" "{Suc (Suc ?p)..k} \<subseteq> dom (ic_results g)"
        "icpc_matches c T k s'" "gs_score s' = gs_score s" "gs_id s' = gs_id s"
        "k = ic_tests g \<Longrightarrow>
           icpc_update ?g True = Inr (g\<lparr>ic_prefix := k, ic_submission := icpc_finish s'\<rparr>, u', True)"
        "k \<noteq> ic_tests g \<Longrightarrow> ic_results g (Suc k) = None \<and>
           icpc_update ?g True = Inr (g\<lparr>ic_prefix := k, ic_submission := s'\<rparr>, u', False)"
        by auto
      have "{Suc ?p..k} = insert (Suc ?p) {Suc (Suc ?p)..k}" using k(1) by auto
      then have "{Suc ?p..k} \<subseteq> dom (ic_results g)" using k(3) Some by auto
      then show ?thesis
        using k s(3,4) unfolding u by (intro exI [of _ k] exI [of _ s'] exI [of _ u']) simp
    qed
  qed
qed

section \<open>The invariant of the test phase\<close>

text \<open>
  \<open>n\<close> tests, the score \<open>sc\<close> the submission came with.  Every test below \<open>ic_next\<close> is
  either running, under exactly one job, or has a result; \<open>icpc_testing\<close> adds that the tested
  prefix is as long as it can be and that testing is not over.
\<close>

definition icpc_pre :: "nat \<Rightarrow> jsnum \<Rightarrow> verdict \<Rightarrow> (nat \<Rightarrow> job_result) \<Rightarrow> icpc \<Rightarrow> bool" where
  "icpc_pre n sc c T g \<longleftrightarrow>
     ic_state g = CompilationFinished \<and> ic_tests g = n \<and> 1 \<le> ic_next g \<and> ic_next g \<le> Suc n \<and>
     ic_prefix g \<le> n \<and> finite (dom (ic_given g)) \<and>
     (\<forall>id j. ic_given g id = Some j \<longrightarrow> job_type j = TestJob \<and> 1 \<le> job_test j \<and> job_test j < ic_next g) \<and>
     (\<forall>id id' j j'. ic_given g id = Some j \<and> ic_given g id' = Some j' \<and> job_test j = job_test j' \<longrightarrow> id = id') \<and>
     dom (ic_results g) = {1..<ic_next g} - job_test ` ran (ic_given g) \<and>
     (\<forall>t r. ic_results g t = Some r \<longrightarrow> recordable c T t r) \<and>
     {1..ic_prefix g} \<subseteq> dom (ic_results g) \<and>
     icpc_matches c T (ic_prefix g) (ic_submission g) \<and> gs_score (ic_submission g) = sc \<and>
     (c \<noteq> V_RU \<longrightarrow> ic_next g = Suc n)"

lemma icpc_preD:
  assumes "icpc_pre n sc c T g"
  shows "ic_tests g = n" "ic_prefix g \<le> n" "ic_next g \<le> Suc n" "1 \<le> ic_next g"
    "ic_state g = CompilationFinished" "{1..ic_prefix g} \<subseteq> dom (ic_results g)"
    "dom (ic_results g) = {1..<ic_next g} - job_test ` ran (ic_given g)"
    "gs_score (ic_submission g) = sc" "finite (dom (ic_given g))"
    "\<forall>t r. ic_results g t = Some r \<longrightarrow> recordable c T t r" "icpc_matches c T (ic_prefix g) (ic_submission g)"
  using assms unfolding icpc_pre_def by - (elim conjE; assumption)+

definition icpc_testing :: "nat \<Rightarrow> jsnum \<Rightarrow> verdict \<Rightarrow> (nat \<Rightarrow> job_result) \<Rightarrow> icpc \<Rightarrow> bool" where
  "icpc_testing n sc c T g \<longleftrightarrow> icpc_pre n sc c T g \<and> ic_prefix g < n \<and> ic_results g (Suc (ic_prefix g)) = None"

definition icpc_over :: "icpc \<Rightarrow> bool" where
  "icpc_over g \<longleftrightarrow> ic_state g = CompilationFinished \<and> ic_given g = Map.empty \<and> ic_tests g < ic_next g"

text \<open>The submission the reference ends with.\<close>

definition icpc_final :: "nat \<Rightarrow> jsnum \<Rightarrow> verdict \<Rightarrow> (nat \<Rightarrow> job_result) \<Rightarrow> gsubmission \<Rightarrow> bool" where
  "icpc_final n sc c T s \<longleftrightarrow> gs_results s = icpc_expected c T n \<and>
     (if icpc_expected_verdict c T n = V_RU then gs_verdict s = V_OK \<and> gs_score s = Fin 1
      else gs_verdict s = icpc_expected_verdict c T n \<and> gs_score s = sc)"

lemma icpc_finish_final:
  "icpc_matches c T n s \<Longrightarrow> gs_score s = sc \<Longrightarrow> icpc_final n sc c T (icpc_finish s)"
  by (simp add: icpc_matches_def icpc_final_def icpc_finish_def)

lemma icpc_update_pre:
  assumes pre: "icpc_pre n sc c T g"
  shows "\<exists>g' u'. ic_given g' = ic_given g \<and> ic_next g' = ic_next g \<and> ic_tests g' = ic_tests g \<and>
    (icpc_update g u = Inr (g', u', False) \<and> icpc_testing n sc c T g' \<and> \<not> icpc_over g' \<or>
     icpc_update g u = Inr (g', u', True) \<and> icpc_over g' \<and> icpc_final n sc c T (ic_submission g'))"
proof -
  note n = icpc_preD [OF pre]
  have le: "ic_prefix g \<le> ic_tests g" using n(1,2) by simp
  have given: "1 \<le> job_test j \<and> job_test j < ic_next g" if "j \<in> ran (ic_given g)" for j
    using pre that unfolding icpc_pre_def ran_def by blast
  obtain k s u' where k: "ic_prefix g \<le> k" "k \<le> ic_tests g" "{Suc (ic_prefix g)..k} \<subseteq> dom (ic_results g)"
    "icpc_matches c T k s" "gs_score s = gs_score (ic_submission g)"
    and full: "k = ic_tests g \<Longrightarrow> icpc_update g u = Inr (g\<lparr>ic_prefix := k, ic_submission := icpc_finish s\<rparr>, u', True)"
    and part: "k \<noteq> ic_tests g \<Longrightarrow> ic_results g (Suc k) = None \<and>
      icpc_update g u = Inr (g\<lparr>ic_prefix := k, ic_submission := s\<rparr>, u', False)"
    using icpc_update_spec [OF le, of c T u] n(10,11) by metis
  have "{1..k} = {1..ic_prefix g} \<union> {Suc (ic_prefix g)..k}" using k(1) by auto
  then have dom: "{1..k} \<subseteq> dom (ic_results g)" using n(6) k(3) by simp
  show ?thesis
  proof (cases "k = ic_tests g")
    case True
    have "n = 0 \<or> n \<in> {1..k}" using True n(1) by auto
    then have "n = 0 \<or> n \<in> dom (ic_results g)" using dom by blast
    then have nx: "ic_next g = Suc n" using n(3,4,7) by auto
    have "False" if "j \<in> ran (ic_given g)" for j
    proof -
      have "job_test j \<in> {1..k}" using given [OF that] nx True n(1) by auto
      then have "job_test j \<notin> job_test ` ran (ic_given g)" using dom n(7) by blast
      then show False using that by blast
    qed
    then have "ran (ic_given g) = {}" by blast
    then have "ic_given g = Map.empty" by (simp add: ran_empty_conv)
    then show ?thesis
      using full [OF True] nx n(1,5) icpc_finish_final [OF k(4), of sc] k(5) n(8) True
      by (intro exI [of _ "g\<lparr>ic_prefix := k, ic_submission := icpc_finish s\<rparr>"] exI [of _ u'])
        (simp add: icpc_over_def)
  next
    case False
    let ?g = "g\<lparr>ic_prefix := k, ic_submission := s\<rparr>"
    have none: "ic_results g (Suc k) = None" using part [OF False] by simp
    have "Suc k \<in> {1..n}" using False k(2) n(1) by auto
    moreover have "Suc k \<notin> dom (ic_results g)" using none by auto
    ultimately have "\<not> icpc_over ?g" using n(1,7) by (auto simp: icpc_over_def)
    moreover have "icpc_testing n sc c T ?g"
      using pre k none dom False n(1) by (simp add: icpc_testing_def icpc_pre_def)
    ultimately show ?thesis
      using part [OF False] by (intro exI [of _ ?g] exI [of _ u']) simp
  qed
qed

section \<open>The steps of the test phase\<close>

lemma skip_rest_eq:
  "skip_rest n k rs = (max k (Suc n), \<lambda>t. if k \<le> t \<and> t \<le> n then Some (bare_result t V_SK) else rs t)"
proof (induction n k rs rule: skip_rest.induct)
  case (1 n k rs)
  show ?case
  proof (cases "k \<le> n")
    case True
    have "skip_rest n k rs = skip_rest n (k + 1) (rs(k \<mapsto> bare_result k V_SK))"
      using True by (simp add: skip_rest.simps [of n k])
    also have "... = (max k (Suc n), \<lambda>t. if k \<le> t \<and> t \<le> n then Some (bare_result t V_SK) else rs t)"
      using True unfolding 1 [OF True] by (auto simp: fun_eq_iff)
    finally show ?thesis .
  next
    case False
    then show ?thesis by (auto simp: skip_rest.simps [of n k] fun_eq_iff)
  qed
qed

lemma setFail_eq:
  "setFail g = g\<lparr>ic_next := max (ic_next g) (Suc (ic_tests g)),
     ic_results := \<lambda>t. if ic_next g \<le> t \<and> t \<le> ic_tests g then Some (bare_result t V_SK) else ic_results g t\<rparr>"
  by (simp add: setFail_def skip_rest_eq)

lemma icpc_preI:
  assumes "ic_state g = CompilationFinished" "ic_tests g = n" "1 \<le> ic_next g" "ic_next g \<le> Suc n"
    "ic_prefix g \<le> n" "finite (dom (ic_given g))"
    "\<And>i j. ic_given g i = Some j \<Longrightarrow> job_type j = TestJob \<and> 1 \<le> job_test j \<and> job_test j < ic_next g"
    "\<And>i i' j j'. ic_given g i = Some j \<Longrightarrow> ic_given g i' = Some j' \<Longrightarrow> job_test j = job_test j' \<Longrightarrow> i = i'"
    "dom (ic_results g) = {1..<ic_next g} - job_test ` ran (ic_given g)"
    "\<And>t r. ic_results g t = Some r \<Longrightarrow> recordable c T t r"
    "{1..ic_prefix g} \<subseteq> dom (ic_results g)"
    "icpc_matches c T (ic_prefix g) (ic_submission g)" "gs_score (ic_submission g) = sc"
    "c \<noteq> V_RU \<Longrightarrow> ic_next g = Suc n"
  shows "icpc_pre n sc c T g"
  using assms unfolding icpc_pre_def by blast

text \<open>Removing a test job from the given ones makes its test the only one that waits for a result.\<close>

lemma icpc_test_done_pre:
  assumes pre: "icpc_pre n sc c T g" and job: "ic_given g i = Some j" and r: "r = (T (job_test j))\<lparr>jres_job := i\<rparr>"
  shows "icpc_pre n sc c T (icpc_testJobCompleted j r (g\<lparr>ic_given := (ic_given g)(i := None)\<rparr>))"
proof -
  let ?m = "(ic_given g)(i := None)"
  note n = icpc_preD [OF pre]
  have j: "1 \<le> job_test j" "job_test j < ic_next g"
    and jobs: "\<And>i j. ic_given g i = Some j \<Longrightarrow> job_type j = TestJob \<and> 1 \<le> job_test j \<and> job_test j < ic_next g"
    and inj: "\<And>i i' j j'. ic_given g i = Some j \<Longrightarrow> ic_given g i' = Some j' \<Longrightarrow> job_test j = job_test j' \<Longrightarrow> i = i'"
    and c: "c \<noteq> V_RU \<Longrightarrow> ic_next g = Suc n"
    using pre job unfolding icpc_pre_def by (blast, blast, blast, blast, blast)
  have ran: "ran (ic_given g) = insert j (ran ?m)" using job by (rule ran_remove)
  have notj: "job_test j \<notin> job_test ` ran ?m" using inj [OF job] by (fastforce simp: ran_def split: if_splits)
  have res: "buildTestResult j (normal_test r) = test_outcome T (job_test j)"
    by (simp add: r test_outcome_def buildTestResult_def normal_test_def)
  have bad: "jres_verdict (normal_test r) \<noteq> V_OK \<Longrightarrow> bad_test T (job_test j)"
    by (simp add: r bad_test_def normal_test_def split: if_splits)
  have set: "insert (job_test j) ({1..<k} - insert (job_test j) A) = {1..<k} - A"
    if "job_test j \<notin> A" "job_test j < k" for k A
    using that j(1) by auto
  show ?thesis
  proof (cases "jres_verdict (normal_test r) = V_OK")
    case True
    then have eq: "icpc_testJobCompleted j r (g\<lparr>ic_given := ?m\<rparr>) =
        g\<lparr>ic_given := ?m, ic_results := (ic_results g)(job_test j \<mapsto> test_outcome T (job_test j))\<rparr>"
      by (simp add: icpc_testJobCompleted_def res)
    have "dom ((ic_results g)(job_test j \<mapsto> test_outcome T (job_test j))) = {1..<ic_next g} - job_test ` ran ?m"
      using set [OF notj j(2)] n(7) ran by simp
    note dom = this
    show ?thesis
      unfolding eq
    proof (rule icpc_preI)
      fix t r' assume "ic_results (g\<lparr>ic_given := ?m, ic_results := (ic_results g)(job_test j \<mapsto> test_outcome T (job_test j))\<rparr>) t = Some r'"
      then show "recordable c T t r'" using n(10) by (auto simp: recordable_def split: if_splits)
    next
      show "{1..ic_prefix (g\<lparr>ic_given := ?m, ic_results := (ic_results g)(job_test j \<mapsto> test_outcome T (job_test j))\<rparr>)} \<subseteq>
        dom (ic_results (g\<lparr>ic_given := ?m, ic_results := (ic_results g)(job_test j \<mapsto> test_outcome T (job_test j))\<rparr>))"
        using n(6) by auto
    qed (use n jobs inj c dom in \<open>auto split: if_splits\<close>)
  next
    case False
    let ?rs = "(\<lambda>t. if ic_next g \<le> t \<and> t \<le> n then Some (bare_result t V_SK) else ic_results g t)
       (job_test j \<mapsto> test_outcome T (job_test j))"
    have eq: "icpc_testJobCompleted j r (g\<lparr>ic_given := ?m\<rparr>) = g\<lparr>ic_given := ?m, ic_next := Suc n, ic_results := ?rs\<rparr>"
      using False n(1,3) by (simp add: icpc_testJobCompleted_def setFail_eq res max_absorb2 cong: if_cong)
    have "dom ?rs = insert (job_test j) ({ic_next g..n} \<union> dom (ic_results g))" by (auto split: if_splits)
    also have "... = {1..<Suc n} - job_test ` ran ?m"
    proof -
      have "job_test ` ran ?m \<subseteq> {1..<ic_next g}" using jobs by (fastforce simp: ran_def split: if_splits)
      then show ?thesis using set [OF notj j(2)] j n(3,4,7) ran by auto
    qed
    finally have dom: "dom ?rs = {1..<Suc n} - job_test ` ran ?m" .
    have "recordable c T t r'" if "?rs t = Some r'" for t r'
      using that n(10) bad [OF False] j by (auto simp: recordable_def split: if_splits)
    note rec = this
    have sub: "{1..ic_prefix g} \<subseteq> dom ?rs" using n(6) by (auto split: if_splits)
    have jobs': "job_type a = TestJob \<and> 1 \<le> job_test a \<and> job_test a < Suc n" if "ic_given g b = Some a" for a b
      using jobs [OF that] n(3) by auto
    show ?thesis
      unfolding eq
      by (rule icpc_preI) (use n jobs' inj rec dom sub in \<open>auto simp: less_Suc_eq_le intro: le_trans split: if_splits\<close>)
  qed
qed

lemma icpc_next_pre:
  assumes pre: "icpc_pre n sc c T g" and new: "i \<notin> dom (ic_given g)"
    and step: "icpc_NextJob i g = (g', Some j)"
  shows "icpc_pre n sc c T g'" and "ic_next g' = Suc (ic_next g)" and "ic_next g \<le> n"
    and "ic_prefix g' = ic_prefix g" and "ic_results g' = ic_results g" and "ic_tests g' = ic_tests g"
    and "ic_given g' = (ic_given g)(i \<mapsto> j)"
proof -
  note n = icpc_preD [OF pre]
  have jobs: "\<And>i j. ic_given g i = Some j \<Longrightarrow> job_type j = TestJob \<and> 1 \<le> job_test j \<and> job_test j < ic_next g"
    and inj: "\<And>i i' j j'. ic_given g i = Some j \<Longrightarrow> ic_given g i' = Some j' \<Longrightarrow> job_test j = job_test j' \<Longrightarrow> i = i'"
    and c: "c \<noteq> V_RU \<Longrightarrow> ic_next g = Suc n"
    using pre unfolding icpc_pre_def by (blast, blast, blast)
  have le: "ic_next g \<le> n" and g': "g' = g\<lparr>ic_next := Suc (ic_next g), ic_given := (ic_given g)(i \<mapsto> j)\<rparr>"
    and j: "job_type j = TestJob" "job_test j = ic_next g"
    using step n(1,5) by (auto simp: icpc_NextJob_def Let_def split: if_splits)
  show "ic_next g \<le> n" by (rule le)
  show "ic_next g' = Suc (ic_next g)" "ic_prefix g' = ic_prefix g" "ic_results g' = ic_results g"
    "ic_tests g' = ic_tests g" "ic_given g' = (ic_given g)(i \<mapsto> j)"
    by (simp_all add: g')
  have "ran ((ic_given g)(i \<mapsto> j)) = insert j (ran (ic_given g))" using new by (simp add: domIff)
  then have dom: "dom (ic_results g) = {1..<Suc (ic_next g)} - job_test ` ran ((ic_given g)(i \<mapsto> j))"
    using n(4,7) j(2) by auto
  show "icpc_pre n sc c T g'"
    unfolding g'
  proof (rule icpc_preI)
    fix a a' b b'
    assume "ic_given (g\<lparr>ic_next := Suc (ic_next g), ic_given := (ic_given g)(i \<mapsto> j)\<rparr>) a = Some b"
      "ic_given (g\<lparr>ic_next := Suc (ic_next g), ic_given := (ic_given g)(i \<mapsto> j)\<rparr>) a' = Some b'"
      "job_test b = job_test b'"
    then show "a = a'" using jobs inj j(2) by (fastforce split: if_splits)
  next
    fix a b
    assume "ic_given (g\<lparr>ic_next := Suc (ic_next g), ic_given := (ic_given g)(i \<mapsto> j)\<rparr>) a = Some b"
    then show "job_type b = TestJob \<and> 1 \<le> job_test b \<and>
      job_test b < ic_next (g\<lparr>ic_next := Suc (ic_next g), ic_given := (ic_given g)(i \<mapsto> j)\<rparr>)"
      using jobs j n(4) by (fastforce split: if_splits)
  next
    show "ic_next (g\<lparr>ic_next := Suc (ic_next g), ic_given := (ic_given g)(i \<mapsto> j)\<rparr>) = Suc n" if "c \<noteq> V_RU"
      using c [OF that] le by simp
  next
    show "dom (ic_results (g\<lparr>ic_next := Suc (ic_next g), ic_given := (ic_given g)(i \<mapsto> j)\<rparr>)) =
      {1..<ic_next (g\<lparr>ic_next := Suc (ic_next g), ic_given := (ic_given g)(i \<mapsto> j)\<rparr>)} -
      job_test ` ran (ic_given (g\<lparr>ic_next := Suc (ic_next g), ic_given := (ic_given g)(i \<mapsto> j)\<rparr>))"
      using dom by simp
  qed (use n le in simp_all)
qed

section \<open>Runs\<close>

text \<open>The phases of a generator that was created for submission \<open>s\<close> and is not finished.\<close>

definition icpc_fresh :: "gsubmission \<Rightarrow> nat \<Rightarrow> icpc \<Rightarrow> bool" where
  "icpc_fresh s n g \<longleftrightarrow> ic_submission g = s\<lparr>gs_verdict := V_RU\<rparr> \<and> ic_tests g = n \<and> ic_next g = 1 \<and>
     ic_prefix g = 0 \<and> ic_results g = Map.empty"

definition icpc_ok :: "gsubmission \<Rightarrow> nat \<Rightarrow> job_result \<Rightarrow> (nat \<Rightarrow> job_result) \<Rightarrow> icpc \<Rightarrow> bool" where
  "icpc_ok s n C T g = (case ic_state g of
     CompilationNotStarted \<Rightarrow> icpc_fresh s n g \<and> ic_given g = Map.empty
   | CompilationStarted \<Rightarrow> icpc_fresh s n g \<and> (\<exists>i j. ic_given g = [i \<mapsto> j] \<and> job_type j = CompileJob)
   | CompilationFinished \<Rightarrow> icpc_testing n (gs_score s) (start_verdict C) T g)"

lemma testing_ok: "icpc_testing n (gs_score s) (start_verdict C) T g \<Longrightarrow> icpc_ok s n C T g"
  using icpc_preD(5) [of n "gs_score s" "start_verdict C" T g] by (simp add: icpc_ok_def icpc_testing_def)

lemma newICPC_ok: "newICPCGenerator p s = Inr g \<Longrightarrow> icpc_ok s (p_tests p) C T g"
  by (auto simp: newICPCGenerator_def icpc_ok_def icpc_fresh_def split: if_splits)

lemma icpc_NextJob_ok:
  assumes ok: "icpc_ok s n C T g" and new: "i \<notin> dom (ic_given g)" and step: "icpc_NextJob i g = (g', j)"
  shows "icpc_ok s n C T g'"
proof (cases "ic_state g")
  case CompilationFinished
  then have t: "icpc_testing n (gs_score s) (start_verdict C) T g" using ok by (simp add: icpc_ok_def)
  show ?thesis
  proof (cases j)
    case None
    then have "g' = g" using step CompilationFinished by (simp add: icpc_NextJob_def Let_def split: if_splits)
    then show ?thesis using ok by simp
  next
    case (Some jb)
    note nx = icpc_next_pre [OF conjunct1 [OF t [unfolded icpc_testing_def]] new step [unfolded Some]]
    have "ic_state g' = CompilationFinished" using icpc_preD(5) [OF nx(1)] .
    then show ?thesis using nx t by (simp add: icpc_ok_def icpc_testing_def)
  qed
next
  case CompilationNotStarted
  then show ?thesis
    using ok step by (auto simp: icpc_ok_def icpc_NextJob_def icpc_fresh_def Let_def)
      (metis job.select_convs(3))
qed (use ok step in \<open>auto simp: icpc_ok_def icpc_NextJob_def\<close>)

lemma icpc_compile_done_pre:
  assumes fresh: "icpc_fresh s n g" "gs_results s = []" and given: "ic_given g = Map.empty"
    and r: "r = C\<lparr>jres_job := i\<rparr>"
  shows "icpc_pre n (gs_score s) (start_verdict C) T (icpc_compileJobCompleted j r g)"
    and "ic_given (icpc_compileJobCompleted j r g) = Map.empty"
    and "ic_tests (icpc_compileJobCompleted j r g) = n"
proof -
  have f: "ic_submission g = s\<lparr>gs_verdict := V_RU\<rparr>" "ic_tests g = n" "ic_next g = 1" "ic_prefix g = 0"
    "ic_results g = Map.empty"
    using fresh(1) by (simp_all add: icpc_fresh_def)
  have v: "jres_verdict (normal_compile r) = jres_verdict (normal_compile C)"
    by (simp add: r normal_compile_def)
  have zero: "icpc_matches c T 0 (s\<lparr>gs_verdict := c, gs_compilation := x\<rparr>)" for c x
    using fresh(2) by (simp add: icpc_matches_def icpc_expected_def icpc_expected_verdict_def first_bad_def)
  have dom: "dom (\<lambda>t. if Suc 0 \<le> t \<and> t \<le> n then Some (bare_result t V_SK) else None) = {1..<Suc n}"
    by (auto split: if_splits)
  have "jres_verdict (normal_compile C) \<noteq> V_RU" by (auto simp: normal_compile_def)
  note ru = this
  let ?x = "Some (buildTestResult j (normal_compile r))"
  show "icpc_pre n (gs_score s) (start_verdict C) T (icpc_compileJobCompleted j r g)"
  proof (cases "jres_verdict (normal_compile C) = V_CD")
    case True
    have eq: "icpc_compileJobCompleted j r g =
      g\<lparr>ic_state := CompilationFinished, ic_submission := s\<lparr>gs_verdict := V_RU, gs_compilation := ?x\<rparr>\<rparr>"
      using True by (simp add: icpc_compileJobCompleted_def v f Let_def)
    have c: "start_verdict C = V_RU" using True by (simp add: start_verdict_def)
    show ?thesis unfolding eq c by (rule icpc_preI) (simp_all add: f given zero)
  next
    case False
    let ?c = "jres_verdict (normal_compile C)"
    let ?rs = "\<lambda>t. if Suc 0 \<le> t \<and> t \<le> n then Some (bare_result t V_SK) else None"
    have eq: "icpc_compileJobCompleted j r g =
      g\<lparr>ic_state := CompilationFinished, ic_submission := s\<lparr>gs_verdict := ?c, gs_compilation := ?x\<rparr>,
        ic_next := Suc n, ic_results := ?rs\<rparr>"
      using False by (simp add: icpc_compileJobCompleted_def v f Let_def setFail_eq cong: if_cong)
    have c: "start_verdict C = ?c" using False by (simp add: start_verdict_def Let_def)
    have rec: "recordable ?c T t r'" for t r' using ru by (simp add: recordable_def)
    show ?thesis
      unfolding eq c
    proof (rule icpc_preI)
      show "dom (ic_results (g\<lparr>ic_state := CompilationFinished, ic_submission := s\<lparr>gs_verdict := ?c, gs_compilation := ?x\<rparr>,
        ic_next := Suc n, ic_results := ?rs\<rparr>)) = {1..<ic_next (g\<lparr>ic_state := CompilationFinished,
        ic_submission := s\<lparr>gs_verdict := ?c, gs_compilation := ?x\<rparr>, ic_next := Suc n, ic_results := ?rs\<rparr>)} -
        job_test ` ran (ic_given (g\<lparr>ic_state := CompilationFinished, ic_submission := s\<lparr>gs_verdict := ?c,
        gs_compilation := ?x\<rparr>, ic_next := Suc n, ic_results := ?rs\<rparr>))"
        by (simp add: dom given)
    qed (simp_all add: f given zero rec)
  qed
  show "ic_given (icpc_compileJobCompleted j r g) = Map.empty" "ic_tests (icpc_compileJobCompleted j r g) = n"
    using f given by (simp_all add: icpc_compileJobCompleted_def Let_def setFail_eq)
qed

text \<open>The calls a generator can still serve: two for every test, and two for the compilation.\<close>

definition icpc_work :: "icpc \<Rightarrow> nat" where
  "icpc_work g = (case ic_state g of
     CompilationNotStarted \<Rightarrow> 2 * ic_tests g + 2
   | CompilationStarted \<Rightarrow> 2 * ic_tests g + 1
   | CompilationFinished \<Rightarrow> 2 * (Suc (ic_tests g) - ic_next g) + card (dom (ic_given g)))"

lemma testing_not_over: "icpc_testing n sc c T g \<Longrightarrow> \<not> icpc_over g"
proof
  assume t: "icpc_testing n sc c T g" and o: "icpc_over g"
  note d = icpc_preD [OF conjunct1 [OF t [unfolded icpc_testing_def]]]
  have "Suc (ic_prefix g) \<in> dom (ic_results g)"
    unfolding d(7) using o t d(1) by (auto simp: icpc_over_def icpc_testing_def)
  then show False using t by (auto simp: icpc_testing_def)
qed

lemma ok_not_over: "icpc_ok s n C T g \<Longrightarrow> \<not> icpc_over g"
  using testing_not_over by (auto simp: icpc_ok_def icpc_over_def split: generator_state.splits)

lemma icpc_completed_pre:
  assumes "icpc_pre n sc c T g"
  shows "\<exists>g' u out. bindE (icpc_update g False) (\<lambda>(g, updated, final).
      Inr (g, updated, if final then Some (ic_submission g) else None)) = Inr (g', u, out) \<and>
    icpc_work g' = icpc_work g \<and>
    (out = None \<and> icpc_testing n sc c T g' \<or> (\<exists>s'. out = Some s' \<and> icpc_over g' \<and> icpc_final n sc c T s'))"
proof -
  obtain g' u' where g': "ic_given g' = ic_given g" "ic_next g' = ic_next g" "ic_tests g' = ic_tests g"
    "icpc_update g False = Inr (g', u', False) \<and> icpc_testing n sc c T g' \<and> \<not> icpc_over g' \<or>
     icpc_update g False = Inr (g', u', True) \<and> icpc_over g' \<and> icpc_final n sc c T (ic_submission g')"
    using icpc_update_pre [OF assms] by metis
  have "ic_state g' = CompilationFinished"
    using g'(4) by (auto simp: icpc_testing_def icpc_over_def dest: icpc_preD(5))
  then have "icpc_work g' = icpc_work g"
    using g'(1-3) icpc_preD(5) [OF assms] by (simp add: icpc_work_def)
  then show ?thesis using g'(4) by (auto simp: bindE_def)
qed

lemma icpc_JobCompleted_ok:
  assumes ok: "icpc_ok s n C T g" and empty: "gs_results s = []" and job: "ic_given g i = Some j"
  shows "\<exists>g' u out. icpc_JobCompleted (job_report C T i j) g = Inr (g', u, out) \<and>
    icpc_work g' < icpc_work g \<and>
    (out = None \<and> icpc_ok s n C T g' \<or>
     (\<exists>s'. out = Some s' \<and> icpc_over g' \<and> icpc_final n (gs_score s) (start_verdict C) T s'))"
proof -
  let ?r = "job_report C T i j"
  have lift: "?thesis"
    if eq: "icpc_JobCompleted ?r g = bindE (icpc_update h False) (\<lambda>(g, updated, final).
        Inr (g, updated, if final then Some (ic_submission g) else None))"
      and pre: "icpc_pre n (gs_score s) (start_verdict C) T h" and less: "icpc_work h < icpc_work g" for h
  proof -
    obtain g' u out where g': "icpc_JobCompleted ?r g = Inr (g', u, out)" "icpc_work g' = icpc_work h"
      "out = None \<and> icpc_testing n (gs_score s) (start_verdict C) T g' \<or>
       (\<exists>s'. out = Some s' \<and> icpc_over g' \<and> icpc_final n (gs_score s) (start_verdict C) T s')"
      using icpc_completed_pre [OF pre, folded eq] by (elim exE conjE) (rule that)
    have "out = None \<and> icpc_ok s n C T g' \<or>
       (\<exists>s'. out = Some s' \<and> icpc_over g' \<and> icpc_final n (gs_score s) (start_verdict C) T s')"
      using g'(3) testing_ok by blast
    moreover have "icpc_work g' < icpc_work g" using g'(2) less by simp
    ultimately show ?thesis using g'(1) by blast
  qed
  show ?thesis
  proof (cases "ic_state g")
    case CompilationNotStarted
    then show ?thesis using ok job by (simp add: icpc_ok_def)
  next
    case CompilationStarted
    then obtain a b where f: "icpc_fresh s n g" and ab: "ic_given g = [a \<mapsto> b]" "job_type b = CompileJob"
      using ok by (auto simp: icpc_ok_def)
    have "a = i" "b = j" using job ab(1) by (simp_all split: if_splits)
    then have g: "(ic_given g)(i := None) = Map.empty" and c: "job_type j = CompileJob" using ab by simp_all
    let ?g = "g\<lparr>ic_given := Map.empty\<rparr>"
    have f': "icpc_fresh s n ?g" using f by (simp add: icpc_fresh_def)
    have r: "?r = C\<lparr>jres_job := i\<rparr>" "jres_job ?r = i" by (simp_all add: job_report_def c)
    note pre = icpc_compile_done_pre [OF f' empty _ r(1), simplified]
    show ?thesis
    proof (rule lift [OF _ pre(1)])
      show "icpc_JobCompleted ?r g = bindE (icpc_update (icpc_compileJobCompleted j ?r ?g) False)
        (\<lambda>(g, updated, final). Inr (g, updated, if final then Some (ic_submission g) else None))"
        using job c g r(2) by (simp add: icpc_JobCompleted_def Let_def)
      show "icpc_work (icpc_compileJobCompleted j ?r ?g) < icpc_work g"
        using CompilationStarted pre(2,3) icpc_preD(4,5) [OF pre(1) [of T j]] f
        by (simp add: icpc_work_def icpc_fresh_def)
    qed
  next
    case CompilationFinished
    then have pre: "icpc_pre n (gs_score s) (start_verdict C) T g"
      using ok by (simp add: icpc_ok_def icpc_testing_def)
    then have t: "job_type j = TestJob" using job unfolding icpc_pre_def by blast
    let ?g = "g\<lparr>ic_given := (ic_given g)(i := None)\<rparr>"
    have r: "?r = (T (job_test j))\<lparr>jres_job := i\<rparr>" "jres_job ?r = i" by (simp_all add: job_report_def t)
    note pre' = icpc_test_done_pre [OF pre job r(1)]
    show ?thesis
    proof (rule lift [OF _ pre'])
      show "icpc_JobCompleted ?r g = bindE (icpc_update (icpc_testJobCompleted j ?r ?g) False)
        (\<lambda>(g, updated, final). Inr (g, updated, if final then Some (ic_submission g) else None))"
        using job t r(2) by (simp add: icpc_JobCompleted_def Let_def)
      have "card (dom ((ic_given g)(i := None))) < card (dom (ic_given g))"
        using icpc_preD(9) [OF pre] job by (auto intro: psubset_card_mono)
      moreover have "ic_next g \<le> ic_next (icpc_testJobCompleted j ?r ?g)"
        "ic_given (icpc_testJobCompleted j ?r ?g) = (ic_given g)(i := None)"
        "ic_tests (icpc_testJobCompleted j ?r ?g) = ic_tests g"
        by (simp_all add: icpc_testJobCompleted_def setFail_eq Let_def)
      ultimately show "icpc_work (icpc_testJobCompleted j ?r ?g) < icpc_work g"
        using CompilationFinished icpc_preD(5) [OF pre'] by (simp add: icpc_work_def diff_le_mono2 add_le_less_mono)
    qed
  qed
qed

section \<open>The contract\<close>

text \<open>The generator never waits for nothing, and every call that does something uses up work.\<close>

definition icpc_next :: "string \<Rightarrow> icpc \<Rightarrow> panic + icpc \<times> job option" where
  "icpc_next i g = Inr (icpc_NextJob i g)"

definition icpc_complete :: "job_result \<Rightarrow> icpc \<Rightarrow> panic + icpc \<times> gsubmission option" where
  "icpc_complete r g = bindE (icpc_JobCompleted r g) (\<lambda>(g, updated, out). Inr (g, out))"

lemma icpc_next_ok:
  assumes ok: "icpc_ok s n C T g" and new: "i \<notin> dom (ic_given g)"
  shows "\<exists>g' j. icpc_next i g = Inr (g', j) \<and> icpc_ok s n C T g' \<and>
    (j = None \<longrightarrow> ic_given g \<noteq> Map.empty \<and> icpc_work g' \<le> icpc_work g) \<and> (j \<noteq> None \<longrightarrow> icpc_work g' < icpc_work g)"
proof -
  obtain g' j where step: "icpc_NextJob i g = (g', j)" by (cases "icpc_NextJob i g")
  have ok': "icpc_ok s n C T g'" by (rule icpc_NextJob_ok [OF ok new step])
  have "g' = g \<and> ic_given g \<noteq> Map.empty" if "j = None"
  proof (cases "ic_state g")
    case CompilationFinished
    then have "\<not> icpc_over g" using ok ok_not_over by blast
    then show ?thesis
      using CompilationFinished step that by (auto simp: icpc_over_def icpc_NextJob_def Let_def split: if_splits)
  qed (use ok step that in \<open>auto simp: icpc_ok_def icpc_NextJob_def Let_def fun_eq_iff split: if_splits\<close>)
  moreover have "icpc_work g' < icpc_work g" if "j = Some jb" for jb
  proof (cases "ic_state g")
    case CompilationFinished
    then have t: "icpc_pre n (gs_score s) (start_verdict C) T g"
      using ok by (simp add: icpc_ok_def icpc_testing_def)
    note nx = icpc_next_pre [OF t new step [unfolded that]]
    have "card (dom ((ic_given g)(i \<mapsto> jb))) = Suc (card (dom (ic_given g)))"
      using icpc_preD(9) [OF t] new by simp
    then show ?thesis
      using nx(2,3,6,7) CompilationFinished icpc_preD(5) [OF nx(1)] icpc_preD(1) [OF t]
      by (simp add: icpc_work_def)
  qed (use step ok that in \<open>auto simp: icpc_NextJob_def icpc_work_def Let_def\<close>)
  ultimately show ?thesis using step ok' by (cases j) (auto simp: icpc_next_def)
qed

lemma icpc_complete_ok:
  assumes "icpc_ok s n C T g" and "gs_results s = []" and "ic_given g i = Some j"
  shows "\<exists>g' out. icpc_complete (job_report C T i j) g = Inr (g', out) \<and> icpc_work g' < icpc_work g \<and>
    (out = None \<and> icpc_ok s n C T g' \<or>
     (\<exists>s'. out = Some s' \<and> icpc_over g' \<and> icpc_final n (gs_score s) (start_verdict C) T s'))"
proof -
  obtain g' u out where g': "icpc_JobCompleted (job_report C T i j) g = Inr (g', u, out)" "icpc_work g' < icpc_work g"
    "out = None \<and> icpc_ok s n C T g' \<or>
     (\<exists>s'. out = Some s' \<and> icpc_over g' \<and> icpc_final n (gs_score s) (start_verdict C) T s')"
    using icpc_JobCompleted_ok [OF assms] by blast
  then have "icpc_complete (job_report C T i j) g = Inr (g', out)" by (simp add: icpc_complete_def bindE_def)
  then show ?thesis using g'(2,3) by blast
qed

text \<open>What both methods do to the given jobs, and that they keep the submission's id.\<close>

lemma icpc_next_gives:
  "icpc_NextJob i g = (g', j) \<Longrightarrow> gs_id (ic_submission g') = gs_id (ic_submission g) \<and>
     ic_given g' = (case j of None \<Rightarrow> ic_given g | Some x \<Rightarrow> (ic_given g)(i \<mapsto> x)) \<and>
     (\<forall>x. j = Some x \<longrightarrow> job_id x = i \<and> job_submission x = gs_id (ic_submission g))"
  by (auto simp: icpc_NextJob_def Let_def split: generator_state.splits if_splits)

lemma setFail_given [simp]: "ic_given (setFail g) = ic_given g" "ic_submission (setFail g) = ic_submission g"
  by (simp_all add: setFail_def case_prod_beta Let_def)

lemma icpc_append_id: "icpc_append t r s = Inr s' \<Longrightarrow> gs_id s' = gs_id s"
  by (auto simp: icpc_append_def Let_def split: if_splits)

lemma icpc_update_keeps:
  "icpc_update g u = Inr (g', u', f) \<Longrightarrow> ic_given g' = ic_given g \<and> gs_id (ic_submission g') = gs_id (ic_submission g)"
proof (induction g u arbitrary: g' u' f rule: icpc_update.induct)
  case (1 g u)
  show ?case
  proof (cases "ic_prefix g < ic_tests g")
    case True
    show ?thesis
    proof (cases "ic_results g (ic_prefix g + 1)")
      case None
      then show ?thesis using 1(2) True by (subst (asm) icpc_update.simps) simp
    next
      case (Some r)
      then obtain s where s: "icpc_append (ic_prefix g + 1) r (ic_submission g) = Inr s"
        "icpc_update (g\<lparr>ic_prefix := ic_prefix g + 1, ic_submission := s\<rparr>) True = Inr (g', u', f)"
        using 1(2) True by (subst (asm) icpc_update.simps) (auto split: sum.splits)
      show ?thesis using 1(1) [OF True Some s(1,2)] icpc_append_id [OF s(1)] by simp
    qed
  next
    case False
    then show ?thesis using 1(2) by (subst (asm) icpc_update.simps) (auto split: if_splits)
  qed
qed

lemma icpc_complete_takes:
  "icpc_JobCompleted r g = Inr (g', u, out) \<Longrightarrow> gs_id (ic_submission g') = gs_id (ic_submission g) \<and>
     ic_given g' = (ic_given g)(jres_job r := None)"
  by (auto simp: icpc_JobCompleted_def Let_def bindE_eq_Inr icpc_compileJobCompleted_def icpc_testJobCompleted_def
    split: option.splits job_type.splits if_splits dest!: icpc_update_keeps)

lemma icpc_given_finite: "icpc_ok s n C T g \<Longrightarrow> finite (dom (ic_given g))"
  by (cases "ic_state g") (auto simp: icpc_ok_def icpc_testing_def dest: icpc_preD(9))

interpretation icpc_generator: ending_generator icpc_next icpc_complete ic_given "job_report C T"
  "\<lambda>g. icpc_ok s n C T g \<and> gs_results s = []" icpc_work "icpc_final n (gs_score s) (start_verdict C) T"
  icpc_over "\<lambda>g. gs_id (ic_submission g)" for s n C T
proof
  fix g i
  assume "icpc_ok s n C T g \<and> gs_results s = []" and "i \<notin> dom (ic_given g)"
  then show "\<exists>g' j. icpc_next i g = Inr (g', j) \<and> (icpc_ok s n C T g' \<and> gs_results s = []) \<and>
    (j = None \<longrightarrow> ic_given g \<noteq> Map.empty \<and> icpc_work g' \<le> icpc_work g) \<and> (j \<noteq> None \<longrightarrow> icpc_work g' < icpc_work g)"
    using icpc_next_ok [of s n C T g i] by simp
next
  fix g i j
  assume ok: "icpc_ok s n C T g \<and> gs_results s = []" and j: "ic_given g i = Some j"
  note c = icpc_complete_ok [OF conjunct1 [OF ok] conjunct2 [OF ok] j]
  show "\<exists>g' out. icpc_complete (job_report C T i j) g = Inr (g', out) \<and> icpc_work g' < icpc_work g \<and>
    (out = None \<and> icpc_ok s n C T g' \<and> gs_results s = [] \<or>
     (\<exists>s'. out = Some s' \<and> icpc_final n (gs_score s) (start_verdict C) T s'))"
    using c ok by auto
  show "icpc_over g'" if "icpc_complete (job_report C T i j) g = Inr (g', Some s')" for g' s'
    using c that by auto
next
  fix g i g' j
  assume "icpc_next i g = Inr (g', j)"
  then have "icpc_NextJob i g = (g', j)" by (simp add: icpc_next_def)
  then show "gs_id (ic_submission g') = gs_id (ic_submission g) \<and>
     ic_given g' = (case j of None \<Rightarrow> ic_given g | Some x \<Rightarrow> (ic_given g)(i \<mapsto> x)) \<and>
     (\<forall>x. j = Some x \<longrightarrow> job_id x = i \<and> job_submission x = gs_id (ic_submission g))"
    by (rule icpc_next_gives)
next
  fix r g g' out
  assume "icpc_complete r g = Inr (g', out)"
  then show "gs_id (ic_submission g') = gs_id (ic_submission g) \<and> ic_given g' = (ic_given g)(jres_job r := None)"
    by (auto simp: icpc_complete_def bindE_eq_Inr dest!: icpc_complete_takes)
next
  fix g i assume "icpc_over g"
  then show "\<exists>g'. icpc_next i g = Inr (g', None) \<and> icpc_over g'"
    by (simp add: icpc_over_def icpc_next_def icpc_NextJob_def)
qed (auto simp: icpc_over_def dest: icpc_given_finite)

end
