(* ===== verification/GoIoiRef.thy ===== *)
theory GoIoiRef
  imports GoIoi
begin

text \<open>
  What the IOI generator should do, without its state: the problems it accepts (\<open>ioi_valid\<close>), the
  group of a test, how the loss of a group spreads over the groups that depend on it (\<open>spread\<close>, a
  closure because groups require earlier ones), and the results of running all tests one after the other
  (\<open>ref_results\<close>).  The lemmas tie the loops of the code to these definitions.
\<close>

section \<open>Problems the generator accepts\<close>

text \<open>
  The groups follow each other and cover the tests from \<open>l + 1\<close> to \<open>n\<close>; a group requires earlier
  groups only, which are worth their score as a whole; and every group has the score its scoring needs.
\<close>

fun groups_cover :: "nat \<Rightarrow> test_group list \<Rightarrow> nat \<Rightarrow> bool" where
  "groups_cover l [] n \<longleftrightarrow> l = n"
| "groups_cover l (gr # grs) n \<longleftrightarrow> tg_first gr = l + 1 \<and> tg_first gr \<le> tg_last gr \<and> groups_cover (tg_last gr) grs n"

definition score_given :: "test_group \<Rightarrow> bool" where
  "score_given gr = (case tg_scoring gr of
     ScoringComplete \<Rightarrow> tg_group_score gr \<noteq> None
   | ScoringMin \<Rightarrow> tg_group_score gr \<noteq> None
   | ScoringEachTest \<Rightarrow> tg_test_score gr \<noteq> None
   | OtherScoring n \<Rightarrow> False)"

fun requires_earlier :: "test_group list \<Rightarrow> test_group list \<Rightarrow> bool" where
  "requires_earlier before [] \<longleftrightarrow> True"
| "requires_earlier before (gr # grs) \<longleftrightarrow>
     (\<forall>r \<in> set (tg_required gr). \<exists>g \<in> set before. tg_name g = r \<and> tg_scoring g = ScoringComplete) \<and>
     requires_earlier (before @ [gr]) grs"

definition ioi_valid :: "problem \<Rightarrow> bool" where
  "ioi_valid p \<longleftrightarrow> p_type p = ProblemIOI \<and> groups_cover 0 (p_groups p) (p_tests p) \<and>
     distinct (map tg_name (p_groups p)) \<and> (\<forall>gr \<in> set (p_groups p). score_given gr) \<and>
     requires_earlier [] (p_groups p)"

lemma groups_cover_le: "groups_cover l grs n \<Longrightarrow> l \<le> n"
  by (induction l grs n rule: groups_cover.induct) auto

lemma groups_cover_first:
  "groups_cover l grs n \<Longrightarrow> gr \<in> set grs \<Longrightarrow> l < tg_first gr \<and> tg_first gr \<le> tg_last gr \<and> tg_last gr \<le> n"
  by (induction l grs n rule: groups_cover.induct) (auto dest: groups_cover_le)

lemma groups_cover_sorted: "groups_cover l grs n \<Longrightarrow> sorted (map tg_first grs)"
proof (induction l grs n rule: groups_cover.induct)
  case (2 l x xs n)
  then show ?case using groups_cover_first [of "tg_last x" xs n] by fastforce
qed simp

lemma prepare_groups_eq:
  "prepare_groups pid grs g = Inr g' \<longleftrightarrow>
     (\<forall>gr \<in> set grs. score_given gr \<and> tg_first gr \<le> tg_last gr) \<and> g' = foldl (\<lambda>g gr. add_group gr g) g grs"
  by (induction pid grs g rule: prepare_groups.induct)
    (auto simp: bindE_eq_Inr score_given_def not_less split: scoring_type.splits)

lemma check_required_eq:
  "check_required info seen name rs = Inr () \<longleftrightarrow>
     (\<forall>r \<in> set rs. r \<in> seen \<and> (\<exists>gi. info r = Some gi \<and> tg_scoring gi = ScoringComplete))"
  by (induction info seen name rs rule: check_required.induct) (auto split: option.splits)

lemma check_groups_eq:
  assumes "\<And>g. g \<in> set (pre @ grs) \<Longrightarrow> info (tg_name g) = Some g" and "distinct (map tg_name (pre @ grs))"
  shows "check_groups info (tg_name ` set pre) l grs = Inr n \<longleftrightarrow> groups_cover l grs n \<and> requires_earlier pre grs"
  using assms
proof (induction grs arbitrary: pre l)
  case (Cons gr grs)
  have seen: "tg_name ` set (pre @ [gr]) = insert (tg_name gr) (tg_name ` set pre)" by simp
  have new: "tg_name gr \<notin> tg_name ` set pre" using Cons.prems(2) by auto
  have req: "(\<forall>r \<in> set rs. r \<in> tg_name ` set pre \<and> (\<exists>gi. info r = Some gi \<and> tg_scoring gi = ScoringComplete)) \<longleftrightarrow>
    (\<forall>r \<in> set rs. \<exists>g \<in> set pre. tg_name g = r \<and> tg_scoring g = ScoringComplete)" for rs
    using Cons.prems(1) by fastforce
  have "check_groups info (insert (tg_name gr) (tg_name ` set pre)) (tg_last gr) grs = Inr n \<longleftrightarrow>
      groups_cover (tg_last gr) grs n \<and> requires_earlier (pre @ [gr]) grs"
    using Cons.IH [of "pre @ [gr]" "tg_last gr"] Cons.prems unfolding seen by simp
  then show ?case
    using new by (auto simp: bindE_eq_Inr check_required_eq req)
qed simp

lemma check_groups_distinct:
  "check_groups info seen l grs = Inr n \<Longrightarrow> distinct (map tg_name grs) \<and> seen \<inter> tg_name ` set grs = {}"
  by (induction info seen l grs rule: check_groups.induct) (auto simp: bindE_eq_Inr split: if_splits)

text \<open>What the generator knows of the groups.\<close>

lemma add_groups_fields:
  "io_problem (foldl (\<lambda>g gr. add_group gr g) g grs) = io_problem g"
  "io_submission (foldl (\<lambda>g gr. add_group gr g) g grs) = io_submission g"
  "io_state (foldl (\<lambda>g gr. add_group gr g) g grs) = io_state g"
  "io_given (foldl (\<lambda>g gr. add_group gr g) g grs) = io_given g"
  "io_next_test (foldl (\<lambda>g gr. add_group gr g) g grs) = io_next_test g"
  "io_next_group (foldl (\<lambda>g gr. add_group gr g) g grs) = io_next_group g"
  "io_next_given (foldl (\<lambda>g gr. add_group gr g) g grs) = io_next_given g"
  by (induction grs arbitrary: g) (simp_all add: add_group_def)

lemma add_group_sel:
  "io_groups (add_group gr g) = (io_groups g)(tg_name gr \<mapsto> gr)"
  "io_internal (add_group gr g) = (io_internal g)(tg_name gr \<mapsto> \<lparr>ig_give = True, ig_skip = False\<rparr>)"
  by (simp_all add: add_group_def)

lemma add_groups_info:
  assumes "distinct (map tg_name grs)" and "gr \<in> set grs"
  shows "io_groups (foldl (\<lambda>g gr. add_group gr g) g grs) (tg_name gr) = Some gr"
    and "io_internal (foldl (\<lambda>g gr. add_group gr g) g grs) (tg_name gr) = Some \<lparr>ig_give = True, ig_skip = False\<rparr>"
  using assms by (induction grs rule: rev_induct) (auto simp: add_group_sel image_iff)

lemma NewIOIGenerator_eq:
  "NewIOIGenerator p s = Inr g \<longleftrightarrow> ioi_valid p \<and> g = foldl (\<lambda>g gr. add_group gr g)
     \<lparr>io_submission = s\<lparr>gs_verdict := V_RU\<rparr>, io_problem = p, io_state = CompilationNotStarted,
      io_given = Map.empty, io_groups = Map.empty, io_internal = Map.empty, io_names = Map.empty,
      io_results = [], io_next_test = 1, io_next_group = 1, io_next_given = 1\<rparr> (p_groups p)"
    (is "_ \<longleftrightarrow> _ \<and> g = ?g")
proof -
  have "checkIfGroupsDependenciesOK (io_groups ?g) p = Inr () \<longleftrightarrow>
    groups_cover 0 (p_groups p) (p_tests p) \<and> distinct (map tg_name (p_groups p)) \<and> requires_earlier [] (p_groups p)"
  proof (cases "distinct (map tg_name (p_groups p))")
    case True
    have "check_groups (io_groups ?g) {} 0 (p_groups p) = Inr n \<longleftrightarrow>
        groups_cover 0 (p_groups p) n \<and> requires_earlier [] (p_groups p)" for n
      using check_groups_eq [of "[]" "p_groups p" "io_groups ?g" 0 n] add_groups_info(1) [OF True] True by simp
    then show ?thesis
      using True by (auto simp: checkIfGroupsDependenciesOK_def bindE_eq_Inr groups_cover_sorted)
  next
    case False
    then show ?thesis
      using check_groups_distinct [of "io_groups ?g" "{}" 0 "p_groups p"]
      by (auto simp: checkIfGroupsDependenciesOK_def bindE_eq_Inr)
  qed
  then show ?thesis
    using groups_cover_first [of 0 "p_groups p" "p_tests p"]
    by (auto simp: NewIOIGenerator_def prepareGenerator_def Let_def bindE_eq_Inr prepare_groups_eq ioi_valid_def)
qed

section \<open>Groups and tests\<close>

definition in_group :: "nat \<Rightarrow> test_group \<Rightarrow> bool" where
  "in_group t gr \<longleftrightarrow> tg_first gr \<le> t \<and> t \<le> tg_last gr"

definition group_at :: "test_group list \<Rightarrow> nat \<Rightarrow> test_group" where
  "group_at grs t = the (find (in_group t) grs)"

lemma groups_cover_find:
  assumes "groups_cover l grs n" and "l < t" and "t \<le> n"
  shows "\<exists>gr \<in> set grs. find (in_group t) grs = Some gr \<and> in_group t gr"
  using assms
proof (induction l grs n rule: groups_cover.induct)
  case (2 l gr grs n)
  show ?case
  proof (cases "t \<le> tg_last gr")
    case False
    then show ?thesis using 2 by (auto simp: in_group_def)
  qed (use 2 in \<open>auto simp: in_group_def\<close>)
qed simp

lemma group_at_in:
  assumes "groups_cover l grs n" and "l < t" and "t \<le> n"
  shows "group_at grs t \<in> set grs" and "in_group t (group_at grs t)"
  using groups_cover_find [OF assms] by (auto simp: group_at_def)

lemma group_at_unique:
  assumes "groups_cover l grs n" and "gr \<in> set grs" and "in_group t gr"
  shows "group_at grs t = gr"
  using assms
proof (induction l grs n rule: groups_cover.induct)
  case (2 l x grs n)
  show ?case
  proof (cases "gr = x")
    case True
    then show ?thesis using 2(4) by (simp add: group_at_def)
  next
    case False
    then have "tg_last x < tg_first gr" using 2(2,3) groups_cover_first [of "tg_last x" grs n gr] by simp
    then have "\<not> in_group t x" using 2(4) by (simp add: in_group_def)
    then show ?thesis using 2 False by (simp add: group_at_def)
  qed
qed simp

lemma foldl_upd_names:
  "foldl (\<lambda>m t. m(t - 1 \<mapsto> h)) m [a..<b] k = (if \<exists>t \<in> {a..<b}. k = t - 1 then Some h else m k)"
proof (induction b)
  case (Suc b)
  then show ?case by (cases "a \<le> b") (auto simp: less_Suc_eq)
qed simp

lemma add_group_names:
  "io_names (add_group gr g) k =
     (if \<exists>t. tg_first gr \<le> t \<and> t \<le> tg_last gr \<and> k = t - 1 then Some (tg_name gr) else io_names g k)"
  unfolding add_group_def using foldl_upd_names [of "tg_name gr" "io_names g" "tg_first gr" "Suc (tg_last gr)" k]
  by (simp add: Bex_def less_Suc_eq_le conj_assoc del: upt_Suc)

lemma upt_append: "i \<le> j \<Longrightarrow> j \<le> k \<Longrightarrow> [i..<j] @ [j..<k] = [i..<k]"
  by (metis le_Suc_ex upt_add_eq_append)

text \<open>The entries of the tests after the groups were entered.\<close>

lemma add_groups_results:
  assumes "groups_cover l grs n"
  shows "io_results (foldl (\<lambda>g gr. add_group gr g) g grs) = io_results g @ map new_result [Suc l..<Suc n]"
  using assms
proof (induction l grs n arbitrary: g rule: groups_cover.induct)
  case (2 l gr grs n)
  have "[Suc l..<Suc n] = [Suc l..<Suc (tg_last gr)] @ [Suc (tg_last gr)..<Suc n]"
    using 2(2) groups_cover_le [of "tg_last gr" grs n] upt_append [of "Suc l" "Suc (tg_last gr)" "Suc n"] by simp
  moreover have "io_results (add_group gr g) = io_results g @ map new_result [Suc l..<Suc (tg_last gr)]"
    using 2(2) by (simp add: add_group_def del: upt_Suc)
  moreover have "io_results (foldl (\<lambda>g gr. add_group gr g) g (gr # grs)) =
      io_results (add_group gr g) @ map new_result [Suc (tg_last gr)..<Suc n]"
    using 2(1) [of "add_group gr g"] 2(2) by simp
  ultimately show ?case by simp
qed simp

lemma add_groups_names:
  assumes "groups_cover l grs n" and "l < t"
  shows "io_names (foldl (\<lambda>g gr. add_group gr g) g grs) (t - 1) =
    (if t \<le> n then Some (tg_name (group_at grs t)) else io_names g (t - 1))"
  using assms
proof (induction l grs n arbitrary: g rule: groups_cover.induct)
  case (2 l gr grs n)
  have c: "tg_first gr = l + 1" "tg_first gr \<le> tg_last gr" "groups_cover (tg_last gr) grs n" "tg_last gr \<le> n"
    using 2(2) groups_cover_le [of "tg_last gr" grs n] by simp_all
  show ?case
  proof (cases "t \<le> tg_last gr")
    case True
    have keep: "io_names (foldl (\<lambda>g gr. add_group gr g) g grs) (t - 1) = io_names g (t - 1)" for g
      using c(3) True 2(3)
    proof (induction "tg_last gr" grs n arbitrary: g gr rule: groups_cover.induct)
      case (2 x xs n)
      have "io_names (add_group x g) (t - 1) = io_names g (t - 1)"
        using 2(2-4) by (auto simp: add_group_names)
      moreover have "t \<le> tg_last x" using 2(2,3) by simp
      ultimately show ?case using 2(1) [OF refl] 2(2,4) by simp
    qed simp
    have "in_group t gr" using True c(1) 2(3) by (simp add: in_group_def)
    then have "group_at (gr # grs) t = gr" by (simp add: group_at_def)
    moreover have "io_names (add_group gr g) (t - 1) = Some (tg_name gr)"
      using True c(1) 2(3) by (auto simp: add_group_names intro!: exI [of _ t])
    ultimately show ?thesis using keep [of "add_group gr g"] True c(4) by simp
  next
    case False
    have "io_names (add_group gr g) (t - 1) = io_names g (t - 1)"
      using False c(1) by (auto simp: add_group_names)
    moreover have "group_at (gr # grs) t = group_at grs t" using False by (simp add: group_at_def in_group_def)
    ultimately show ?thesis using 2(1) [OF c(3), of "add_group gr g"] False by simp
  qed
qed simp

section \<open>Stopping dependent groups\<close>

text \<open>The loops over groups and required names, on sets of names.\<close>

definition spread :: "test_group list \<Rightarrow> string set \<Rightarrow> string set" where
  "spread grs S = foldl (\<lambda>S gr. if \<exists>r \<in> set (tg_required gr). r \<in> S then insert (tg_name gr) S else S) S grs"

lemma spread_simps [simp]:
  "spread [] S = S"
  "spread (gr # grs) S = spread grs (if \<exists>r \<in> set (tg_required gr). r \<in> S then insert (tg_name gr) S else S)"
  by (simp_all add: spread_def)

lemma spread_snoc:
  "spread (grs @ [gr]) S =
     (if \<exists>r \<in> set (tg_required gr). r \<in> spread grs S then insert (tg_name gr) (spread grs S) else spread grs S)"
  by (simp add: spread_def)

definition closed_under :: "test_group list \<Rightarrow> string set \<Rightarrow> bool" where
  "closed_under grs S \<longleftrightarrow> (\<forall>gr \<in> set grs. (\<exists>r \<in> set (tg_required gr). r \<in> S) \<longrightarrow> tg_name gr \<in> S)"

lemma spread_mono: "S \<subseteq> spread grs S"
proof (induction grs arbitrary: S)
  case (Cons gr grs)
  show ?case
    using Cons.IH [of "if \<exists>r \<in> set (tg_required gr). r \<in> S then insert (tg_name gr) S else S"]
    by (auto split: if_splits)
qed simp

lemma spread_least: "S \<subseteq> C \<Longrightarrow> closed_under grs C \<Longrightarrow> spread grs S \<subseteq> C"
proof (induction grs arbitrary: S)
  case (Cons gr grs)
  have "closed_under grs C" using Cons.prems(2) by (simp add: closed_under_def)
  moreover have "(if \<exists>r \<in> set (tg_required gr). r \<in> S then insert (tg_name gr) S else S) \<subseteq> C"
    using Cons.prems by (auto simp: closed_under_def)
  ultimately show ?case using Cons.IH by simp
qed simp

lemma spread_subset: "spread grs S \<subseteq> S \<union> tg_name ` set grs"
proof (induction grs arbitrary: S)
  case (Cons gr grs)
  show ?case
    using Cons.IH [of "if \<exists>r \<in> set (tg_required gr). r \<in> S then insert (tg_name gr) S else S"]
    by (auto split: if_splits)
qed simp

lemma requires_earlier_snoc:
  "requires_earlier before (grs @ [gr]) \<longleftrightarrow> requires_earlier before grs \<and>
     (\<forall>r \<in> set (tg_required gr). \<exists>g \<in> set (before @ grs). tg_name g = r \<and> tg_scoring g = ScoringComplete)"
  by (induction before grs rule: requires_earlier.induct) auto

lemma requires_names:
  "requires_earlier before grs \<Longrightarrow> gr \<in> set grs \<Longrightarrow> r \<in> set (tg_required gr) \<Longrightarrow>
     \<exists>g \<in> set (before @ grs). tg_name g = r \<and> tg_scoring g = ScoringComplete"
  by (induction before grs rule: requires_earlier.induct) fastforce+

lemma not_self_required:
  assumes "requires_earlier before grs" and "distinct (map tg_name (before @ grs))" and "gr \<in> set grs"
  shows "tg_name gr \<notin> set (tg_required gr)"
  using assms
proof (induction before grs rule: requires_earlier.induct)
  case (2 before x grs)
  show ?case
  proof (cases "gr = x")
    case True
    have "tg_name x \<notin> tg_name ` set before" using 2(3) by auto
    then show ?thesis using 2(2) True by (metis imageI requires_earlier.simps(2))
  qed (use 2 in auto)
qed simp

lemma spread_closed:
  "requires_earlier [] grs \<Longrightarrow> distinct (map tg_name grs) \<Longrightarrow> closed_under grs (spread grs S)"
proof (induction grs rule: rev_induct)
  case (snoc gr grs)
  have ih: "closed_under grs (spread grs S)" using snoc by (simp add: requires_earlier_snoc)
  have "tg_name gr \<notin> tg_name ` set grs" using snoc(3) by auto
  then have "tg_name gr \<notin> set (tg_required x)" if "x \<in> set grs" for x
    using requires_names [of "[]" grs x "tg_name gr"] snoc(2) that
    by (metis append_Nil imageI requires_earlier_snoc)
  moreover have "tg_name gr \<notin> set (tg_required gr)"
    using not_self_required [OF snoc(2), of gr] snoc(3) by simp
  ultimately show ?case
    using ih by (fastforce simp: spread_snoc closed_under_def)
qed (simp add: closed_under_def)

text \<open>The flags of the groups as sets of names.\<close>

definition skip_set :: "(string \<rightharpoonup> internal_group) \<Rightarrow> string set" where
  "skip_set m = {h. \<exists>i. m h = Some i \<and> ig_skip i}"

definition stop_set :: "(string \<rightharpoonup> internal_group) \<Rightarrow> string set" where
  "stop_set m = {h. \<exists>i. m h = Some i \<and> \<not> ig_give i}"

definition put_skip :: "string set \<Rightarrow> (string \<rightharpoonup> internal_group) \<Rightarrow> (string \<rightharpoonup> internal_group)" where
  "put_skip A m = (\<lambda>h. map_option (\<lambda>i. if h \<in> A then i\<lparr>ig_skip := True\<rparr> else i) (m h))"

definition put_stop :: "string set \<Rightarrow> (string \<rightharpoonup> internal_group) \<Rightarrow> (string \<rightharpoonup> internal_group)" where
  "put_stop A m = (\<lambda>h. map_option (\<lambda>i. if h \<in> A then i\<lparr>ig_give := False\<rparr> else i) (m h))"

lemma put_member:
  "h \<in> skip_set (put_skip A m) \<longleftrightarrow> h \<in> skip_set m \<or> h \<in> A \<and> h \<in> dom m"
  "h \<in> stop_set (put_skip A m) \<longleftrightarrow> h \<in> stop_set m"
  "h \<in> stop_set (put_stop A m) \<longleftrightarrow> h \<in> stop_set m \<or> h \<in> A \<and> h \<in> dom m"
  "h \<in> skip_set (put_stop A m) \<longleftrightarrow> h \<in> skip_set m"
  "h \<in> dom (put_skip A m) \<longleftrightarrow> h \<in> dom m" "h \<in> dom (put_stop A m) \<longleftrightarrow> h \<in> dom m"
  by (cases "m h"; simp add: skip_set_def stop_set_def put_skip_def put_stop_def domIff)+

lemma put_sets:
  "skip_set (put_skip A m) = skip_set m \<union> (A \<inter> dom m)" "stop_set (put_skip A m) = stop_set m"
  "stop_set (put_stop A m) = stop_set m \<union> (A \<inter> dom m)" "skip_set (put_stop A m) = skip_set m"
  "dom (put_skip A m) = dom m" "dom (put_stop A m) = dom m"
  by (rule set_eqI, simp only: put_member Un_iff Int_iff)+

lemma put_one:
  "m h = Some i \<Longrightarrow> m(h \<mapsto> i\<lparr>ig_skip := True\<rparr>) = put_skip {h} m"
  "m h = Some i \<Longrightarrow> m(h \<mapsto> i\<lparr>ig_give := False\<rparr>) = put_stop {h} m"
  by (auto simp: put_skip_def put_stop_def fun_eq_iff option.map_ident)

lemma put_again: "put_skip A (put_skip B m) = put_skip (A \<union> B) m" "put_stop A (put_stop B m) = put_stop (A \<union> B) m"
  by (auto simp: put_skip_def put_stop_def fun_eq_iff option.map_comp intro!: option.map_cong)

lemma put_empty [simp]: "put_skip {} m = m" "put_stop {} m = m"
  by (simp_all add: put_skip_def put_stop_def option.map_ident)

lemma skip_required_eq:
  assumes "name \<in> dom m" and "set rs \<subseteq> dom m" and "name \<notin> set rs"
  shows "skip_required name rs m = Inr (put_skip (if \<exists>r \<in> set rs. r \<in> skip_set m then {name} else {}) m)"
  using assms
proof (induction rs arbitrary: m)
  case (Cons r rs)
  obtain i j where i: "m r = Some i" "m name = Some j" using Cons.prems by auto
  show ?case
  proof (cases "ig_skip i")
    case True
    have "skip_required name rs (put_skip {name} m) =
        Inr (put_skip (if \<exists>r \<in> set rs. r \<in> skip_set (put_skip {name} m) then {name} else {}) (put_skip {name} m))"
      using Cons.prems by (intro Cons.IH) (auto simp: put_sets)
    then show ?thesis
      using i True by (auto simp: bindE_def deref_def put_one put_again skip_set_def)
  next
    case False
    then show ?thesis using Cons i by (auto simp: bindE_def deref_def skip_set_def)
  qed
qed simp

lemma stop_required_eq:
  assumes "name \<in> dom m" and "set rs \<subseteq> dom m"
  shows "stop_required name rs m = Inr (put_stop (if \<exists>r \<in> set rs. r \<in> stop_set m then {name} else {}) m)"
  using assms
proof (induction rs)
  case (Cons r rs)
  obtain i j where i: "m r = Some i" "m name = Some j" using Cons.prems by auto
  then show ?case using Cons by (auto simp: bindE_def deref_def stop_set_def put_one)
qed simp

lemma skip_dependent_eq:
  assumes "requires_earlier before grs" and "distinct (map tg_name (before @ grs))"
    and "tg_name ` set (before @ grs) \<subseteq> dom m"
  shows "skip_dependent grs m = Inr (put_skip (spread grs (skip_set m)) m)"
  using assms
proof (induction grs arbitrary: before m)
  case Nil
  have "put_skip (skip_set m) m = m"
    by (auto simp: put_skip_def skip_set_def fun_eq_iff map_option_case split: option.splits)
  then show ?case by simp
next
  case (Cons gr grs)
  let ?B = "if \<exists>r \<in> set (tg_required gr). r \<in> skip_set m then {tg_name gr} else {}"
  have "set (tg_required gr) \<subseteq> tg_name ` set before"
    using Cons.prems(1) by (metis imageI requires_earlier.simps(2) subsetI)
  then have dom: "tg_name gr \<in> dom m" "set (tg_required gr) \<subseteq> dom m" using Cons.prems(3) by (simp_all add: image_Un subset_trans)
  have "tg_name gr \<notin> set (tg_required gr)" using not_self_required [OF Cons.prems(1,2)] by simp
  then have one: "skip_required (tg_name gr) (tg_required gr) m = Inr (put_skip ?B m)"
    using skip_required_eq dom by simp
  have set: "skip_set (put_skip ?B m) = (if \<exists>r \<in> set (tg_required gr). r \<in> skip_set m
      then insert (tg_name gr) (skip_set m) else skip_set m)"
    using dom(1) by (auto simp: put_sets)
  have "skip_dependent grs (put_skip ?B m) = Inr (put_skip (spread grs (skip_set (put_skip ?B m))) (put_skip ?B m))"
    using Cons.prems by (intro Cons.IH [of "before @ [gr]"]) (auto simp: put_sets)
  moreover have "?B \<subseteq> spread grs (skip_set (put_skip ?B m))"
    using spread_mono [of "insert (tg_name gr) (skip_set m)" grs] unfolding set by auto
  ultimately show ?case by (simp add: one bindE_def put_again set Un_absorb2)
qed

lemma stop_dependent_eq:
  assumes "requires_earlier before grs" and "distinct (map tg_name (before @ grs))"
    and "tg_name ` set (before @ grs) \<subseteq> dom m"
  shows "stop_dependent grs m = Inr (put_stop (spread grs (stop_set m)) m)"
  using assms
proof (induction grs arbitrary: before m)
  case Nil
  have "put_stop (stop_set m) m = m"
    by (auto simp: put_stop_def stop_set_def fun_eq_iff map_option_case split: option.splits)
  then show ?case by simp
next
  case (Cons gr grs)
  let ?B = "if \<exists>r \<in> set (tg_required gr). r \<in> stop_set m then {tg_name gr} else {}"
  have "set (tg_required gr) \<subseteq> tg_name ` set before"
    using Cons.prems(1) by (metis imageI requires_earlier.simps(2) subsetI)
  then have dom: "tg_name gr \<in> dom m" "set (tg_required gr) \<subseteq> dom m" using Cons.prems(3) by (simp_all add: image_Un subset_trans)
  have one: "stop_required (tg_name gr) (tg_required gr) m = Inr (put_stop ?B m)"
    using stop_required_eq [OF dom] .
  have set: "stop_set (put_stop ?B m) = (if \<exists>r \<in> set (tg_required gr). r \<in> stop_set m
      then insert (tg_name gr) (stop_set m) else stop_set m)"
    using dom(1) by (auto simp: put_sets)
  have "stop_dependent grs (put_stop ?B m) = Inr (put_stop (spread grs (stop_set (put_stop ?B m))) (put_stop ?B m))"
    using Cons.prems by (intro Cons.IH [of "before @ [gr]"]) (auto simp: put_sets)
  moreover have "?B \<subseteq> spread grs (stop_set (put_stop ?B m))"
    using spread_mono [of "insert (tg_name gr) (stop_set m)" grs] unfolding set by auto
  ultimately show ?case by (simp add: one bindE_def put_again set Un_absorb2)
qed

lemma skip_all_eq:
  assumes "tg_name ` set grs \<subseteq> dom m"
  shows "skip_all grs m = Inr (put_skip (tg_name ` set grs) m)"
  using assms
proof (induction grs arbitrary: m)
  case (Cons gr grs)
  then obtain i where i: "m (tg_name gr) = Some i" by auto
  have "skip_all grs (put_skip {tg_name gr} m) = Inr (put_skip (tg_name ` set grs) (put_skip {tg_name gr} m))"
    using Cons.prems by (intro Cons.IH) (auto simp: put_sets)
  then show ?case by (simp add: i deref_def bindE_def put_one put_again)
qed simp

section \<open>The results testing should end with\<close>

text \<open>
  The reference: all tests one after the other.  \<open>R t\<close> is the result of test \<open>t\<close> when it is
  run, \<open>B\<close> the groups that are lost before testing starts (all of them when the compilation
  failed); a test that prevents its group loses the group and those that depend on it, and the tests of a
  lost group are skipped.
\<close>

definition prevents :: "test_group \<Rightarrow> verdict \<Rightarrow> bool" where
  "prevents gr v = (case tg_scoring gr of
     ScoringComplete \<Rightarrow> v \<noteq> V_OK
   | ScoringMin \<Rightarrow> v \<noteq> V_OK \<and> v \<noteq> V_PT
   | ScoringEachTest \<Rightarrow> False
   | OtherScoring n \<Rightarrow> False)"

fun lost_groups :: "test_group list \<Rightarrow> (nat \<Rightarrow> gtest_result) \<Rightarrow> string set \<Rightarrow> nat \<Rightarrow> string set" where
  "lost_groups grs R B 0 = B"
| "lost_groups grs R B (Suc k) =
     (let S = lost_groups grs R B k; gr = group_at grs (Suc k) in
      if tg_name gr \<notin> S \<and> prevents gr (gtr_verdict (no_skip_ioi (R (Suc k))))
      then spread grs (insert (tg_name gr) S) else S)"

definition ref_result :: "test_group list \<Rightarrow> (nat \<Rightarrow> gtest_result) \<Rightarrow> string set \<Rightarrow> nat \<Rightarrow> gtest_result" where
  "ref_result grs R B t =
     (if tg_name (group_at grs t) \<in> lost_groups grs R B (t - 1) then bare_result t V_SK else no_skip_ioi (R t))"

definition ref_results :: "test_group list \<Rightarrow> (nat \<Rightarrow> gtest_result) \<Rightarrow> string set \<Rightarrow> nat \<Rightarrow> gtest_result list" where
  "ref_results grs R B k = map (ref_result grs R B) [1..<Suc k]"

lemma ref_results_simps:
  "ref_results grs R B 0 = []" "ref_results grs R B (Suc k) = ref_results grs R B k @ [ref_result grs R B (Suc k)]"
  "length (ref_results grs R B k) = k"
  by (simp_all add: ref_results_def)

lemma prevents_eq: "score_given gr \<Longrightarrow> doesTestPreventTestingGroup gr v = Inr (prevents gr v)"
  by (cases "tg_scoring gr") (simp_all add: score_given_def prevents_def doesTestPreventTestingGroup_def)

lemma lost_groups_mono: "i \<le> k \<Longrightarrow> lost_groups grs R B i \<subseteq> lost_groups grs R B k"
proof (induction k)
  case (Suc k)
  have "lost_groups grs R B k \<subseteq> lost_groups grs R B (Suc k)"
    using spread_mono by (fastforce simp: Let_def)
  then show ?case using Suc by (cases "i = Suc k") auto
qed simp

lemma lost_groups_closed:
  assumes "requires_earlier [] grs" "distinct (map tg_name grs)" "closed_under grs B"
  shows "closed_under grs (lost_groups grs R B k)"
  by (induction k) (simp_all add: Let_def assms spread_closed)

lemma lost_groups_names:
  assumes "groups_cover 0 grs n" and "B \<subseteq> tg_name ` set grs" and "k \<le> n"
  shows "lost_groups grs R B k \<subseteq> tg_name ` set grs"
  using assms(3)
proof (induction k)
  case (Suc k)
  have "tg_name (group_at grs (Suc k)) \<in> tg_name ` set grs" using group_at_in(1) [OF assms(1)] Suc by auto
  then show ?case using Suc spread_subset [of grs "insert (tg_name (group_at grs (Suc k))) (lost_groups grs R B k)"]
    by (auto simp: Let_def)
qed (simp add: assms)

text \<open>A group is lost only after a test that was run and went wrong.\<close>

lemma lost_groups_cause:
  assumes "h \<in> lost_groups grs R {} k"
  shows "\<exists>t. 1 \<le> t \<and> t \<le> k \<and> tg_name (group_at grs t) \<notin> lost_groups grs R {} (t - 1) \<and>
    prevents (group_at grs t) (gtr_verdict (no_skip_ioi (R t)))"
  using assms
proof (induction k)
  case (Suc k)
  then show ?case
    by (cases "tg_name (group_at grs (Suc k)) \<notin> lost_groups grs R {} k \<and>
        prevents (group_at grs (Suc k)) (gtr_verdict (no_skip_ioi (R (Suc k))))")
      (fastforce simp: Let_def intro: exI [of _ "Suc k"] le_SucI)+
qed simp

end
