(* ===== verification/GoIoiRun.thy ===== *)
theory GoIoiRun
  imports GoIoiRef GoGenerator
begin

text \<open>
  Runs of the IOI generator: the invariant of the tested prefix (\<open>ioi_prefix\<close>) and of the test phase
  (\<open>ioi_core\<close>), its preservation by handing out tests, by results and by the loop over the prefix,
  and the interpretation of the contract \<open>job_generator\<close>: every run under it ends with the
  submission of the reference (\<open>ioi_final\<close>).
\<close>

section \<open>The tested prefix\<close>

definition ioi_static :: "problem \<Rightarrow> ioi \<Rightarrow> bool" where
  "ioi_static p g \<longleftrightarrow> io_problem g = p \<and>
     (\<forall>gr \<in> set (p_groups p). io_groups g (tg_name gr) = Some gr) \<and>
     (\<forall>t. 1 \<le> t \<and> t \<le> p_tests p \<longrightarrow> io_names g (t - 1) = Some (tg_name (group_at (p_groups p) t))) \<and>
     length (io_results g) = p_tests p \<and> dom (io_internal g) = tg_name ` set (p_groups p)"

lemma name_of_static:
  "ioi_static p g \<Longrightarrow> 1 \<le> t \<Longrightarrow> t \<le> p_tests p \<Longrightarrow> name_of g t = tg_name (group_at (p_groups p) t)"
  by (simp add: ioi_static_def name_of_def)

text \<open>The groups whose last test has its final result.\<close>

definition done_groups :: "test_group list \<Rightarrow> nat \<Rightarrow> test_group list" where
  "done_groups grs k = filter (\<lambda>gr. tg_last gr \<le> k) grs"

definition ref_group :: "test_group list \<Rightarrow> (nat \<Rightarrow> gtest_result) \<Rightarrow> string set \<Rightarrow> test_group \<Rightarrow> panic + ggroup_result" where
  "ref_group grs R B gr = group_result gr (ref_results grs R B (tg_last gr))"

definition ioi_prefix :: "problem \<Rightarrow> (nat \<Rightarrow> gtest_result) \<Rightarrow> string set \<Rightarrow> ioi \<Rightarrow> bool" where
  "ioi_prefix p R B g \<longleftrightarrow>
     1 \<le> io_next_test g \<and> io_next_test g - 1 \<le> p_tests p \<and>
     gs_results (io_submission g) = ref_results (p_groups p) R B (io_next_test g - 1) \<and>
     skip_set (io_internal g) = lost_groups (p_groups p) R B (io_next_test g - 1) \<and>
     map Inr (gs_groups (io_submission g)) =
       map (ref_group (p_groups p) R B) (done_groups (p_groups p) (io_next_test g - 1)) \<and>
     io_next_group g = Suc (length (gs_groups (io_submission g)))"

definition ioi_entries :: "problem \<Rightarrow> (nat \<Rightarrow> gtest_result) \<Rightarrow> string set \<Rightarrow> ioi \<Rightarrow> bool" where
  "ioi_entries p R B g \<longleftrightarrow>
     (\<forall>t. io_next_test g \<le> t \<and> 1 \<le> t \<and> t \<le> p_tests p \<longrightarrow>
        gtr_test (ir_result (io_results g ! (t - 1))) = t \<and>
        (ir_state (io_results g ! (t - 1)) = TestFinished \<longrightarrow>
           tg_name (group_at (p_groups p) t) \<in> lost_groups (p_groups p) R B (t - 1) \<or>
           ir_result (io_results g ! (t - 1)) = R t))"

text \<open>What the loop over the prefix leaves alone.\<close>

definition same_frame :: "ioi \<Rightarrow> ioi \<Rightarrow> bool" where
  "same_frame g g' \<longleftrightarrow> io_given g' = io_given g \<and> io_state g' = io_state g \<and> io_next_given g' = io_next_given g \<and>
     map ir_state (io_results g') = map ir_state (io_results g) \<and> stop_set (io_internal g') = stop_set (io_internal g) \<and>
     gs_verdict (io_submission g') = gs_verdict (io_submission g) \<and> gs_score (io_submission g') = gs_score (io_submission g)"

lemma same_frame_refl [simp]: "same_frame g g"
  by (simp add: same_frame_def)

lemma same_frame_trans: "same_frame g g' \<Longrightarrow> same_frame g' g'' \<Longrightarrow> same_frame g g''"
  by (simp add: same_frame_def)

lemma ioi_validD:
  assumes "ioi_valid p"
  shows "groups_cover 0 (p_groups p) (p_tests p)" "distinct (map tg_name (p_groups p))"
    "requires_earlier [] (p_groups p)" "\<And>gr. gr \<in> set (p_groups p) \<Longrightarrow> score_given gr"
  using assms by (simp_all add: ioi_valid_def)

text \<open>A test waits when it is running, or was not given and its group is not lost.\<close>

definition test_waits :: "ioi \<Rightarrow> bool" where
  "test_waits g \<longleftrightarrow> ir_state (io_results g ! (io_next_test g - 1)) = TestRunning \<or>
     ir_state (io_results g ! (io_next_test g - 1)) = TestNotGiven \<and>
     name_of g (io_next_test g) \<notin> skip_set (io_internal g)"

lemma record_result_ref:
  assumes p: "ioi_valid p" and st: "ioi_static p g" and pre: "ioi_prefix p R B g" and ent: "ioi_entries p R B g"
    and t: "io_next_test g = Suc k" "Suc k \<le> p_tests p" and go: "\<not> test_waits g"
    and ii: "io_internal g (name_of g (Suc k)) = Some ii"
  shows "\<exists>g'. record_result (group_at (p_groups p) (Suc k)) ii (io_results g ! k) g = Inr g' \<and> ioi_static p g' \<and>
    io_next_test g' = Suc k \<and> same_frame g g' \<and> gs_results (io_submission g') = ref_results (p_groups p) R B (Suc k) \<and>
    skip_set (io_internal g') = lost_groups (p_groups p) R B (Suc k) \<and>
    gs_groups (io_submission g') = gs_groups (io_submission g) \<and> io_next_group g' = io_next_group g \<and>
    (\<forall>i > k. io_results g' ! i = io_results g ! i)"
proof -
  let ?grs = "p_groups p" and ?gi = "group_at (p_groups p) (Suc k)" and ?ir = "io_results g ! k"
  note v = ioi_validD [OF p]
  have gi: "?gi \<in> set ?grs" "score_given ?gi" using group_at_in(1) [OF v(1)] t(2) v(4) by auto
  have name: "name_of g (Suc k) = tg_name ?gi" and len: "k < length (io_results g)"
    using st t(2) by (auto simp: ioi_static_def name_of_def)
  have res: "gs_results (io_submission g) = ref_results ?grs R B k"
    and skip: "skip_set (io_internal g) = lost_groups ?grs R B k"
    using pre t(1) by (simp_all add: ioi_prefix_def)
  have lost: "tg_name ?gi \<in> lost_groups ?grs R B k \<longleftrightarrow> ig_skip ii"
    using ii name by (auto simp: skip [symmetric] skip_set_def)
  have num: "gtr_test (ir_result ?ir) = Suc k"
    and fin: "ir_state ?ir = TestFinished \<Longrightarrow> \<not> ig_skip ii \<Longrightarrow> ir_result ?ir = R (Suc k)"
    using ent t lost by (auto simp: ioi_entries_def)
  show ?thesis
  proof (cases "ig_skip ii")
    case True
    let ?g = "append_result (bare_result (Suc k) V_SK) g"
    have "record_result ?gi ii ?ir g = Inr ?g" using True num by (simp add: record_result_def)
    moreover have "ref_result ?grs R B (Suc k) = bare_result (Suc k) V_SK" using True lost by (simp add: ref_result_def)
    moreover have "lost_groups ?grs R B (Suc k) = lost_groups ?grs R B k" using True lost by (simp add: Let_def)
    ultimately show ?thesis
      using st t res skip by (intro exI [of _ ?g])
        (simp add: append_result_def ioi_static_def same_frame_def ref_results_simps name_of_def del: lost_groups.simps)
  next
    case False
    then have "ir_state ?ir = TestFinished"
      using go t name lost skip by (cases "ir_state ?ir") (auto simp: test_waits_def)
    with fin False have r: "ir_result ?ir = R (Suc k)" by simp
    let ?r = "no_skip_ioi (R (Suc k))"
    let ?g = "append_result ?r (g\<lparr>io_results := (io_results g)[k := ?ir\<lparr>ir_result := ?r\<rparr>]\<rparr>)"
    have ref: "ref_result ?grs R B (Suc k) = ?r" using False lost by (simp add: ref_result_def)
    have states: "map ir_state ((io_results g)[k := ?ir\<lparr>ir_result := ?r\<rparr>]) = map ir_state (io_results g)"
      using len by (intro nth_equalityI) (auto simp: nth_list_update)
    show ?thesis
    proof (cases "prevents ?gi (gtr_verdict ?r)")
      case bad: True
      let ?m = "put_skip (spread ?grs (insert (tg_name ?gi) (lost_groups ?grs R B k))) (put_skip {tg_name ?gi} (io_internal g))"
      have dom: "dom (io_internal g) = tg_name ` set ?grs" using st by (simp add: ioi_static_def)
      have in_dom: "tg_name ?gi \<in> dom (io_internal g)" using gi(1) dom by simp
      have "skip_set (put_skip {tg_name ?gi} (io_internal g)) = insert (tg_name ?gi) (lost_groups ?grs R B k)"
        using in_dom skip by (auto simp: put_sets)
      then have "skip_dependent ?grs (put_skip {tg_name ?gi} (io_internal g)) = Inr ?m"
        using skip_dependent_eq [of "[]" ?grs "put_skip {tg_name ?gi} (io_internal g)"] v(2,3) dom by (simp add: put_sets)
      then have rec: "record_result ?gi ii ?ir g = Inr (?g\<lparr>io_internal := ?m\<rparr>)"
        using False bad t(1) r st ii name prevents_eq [OF gi(2)]
        by (simp add: record_result_def Let_def bindE_def put_one ioi_static_def append_result_def)
      have sub: "spread ?grs (insert (tg_name ?gi) (lost_groups ?grs R B k)) \<subseteq> tg_name ` set ?grs"
        using spread_subset [of ?grs "insert (tg_name ?gi) (lost_groups ?grs R B k)"] gi(1) dom
        by (auto simp: skip [symmetric] skip_set_def)
      have "skip_set ?m = spread ?grs (insert (tg_name ?gi) (lost_groups ?grs R B k))"
        using sub dom in_dom skip spread_mono [of "insert (tg_name ?gi) (lost_groups ?grs R B k)" ?grs]
        by (auto simp: put_sets)
      also have "... = lost_groups ?grs R B (Suc k)" using bad False lost by (simp add: Let_def)
      finally have skip': "skip_set ?m = lost_groups ?grs R B (Suc k)" .
      show ?thesis
        using rec st t res skip' states ref
        by (intro exI [of _ "?g\<lparr>io_internal := ?m\<rparr>"])
          (simp add: append_result_def ioi_static_def same_frame_def ref_results_simps name_of_def put_sets del: lost_groups.simps)
    next
      case ok: False
      have rec: "record_result ?gi ii ?ir g = Inr ?g"
        using False ok t(1) r prevents_eq [OF gi(2)] by (simp add: record_result_def Let_def bindE_def)
      have "lost_groups ?grs R B (Suc k) = lost_groups ?grs R B k" using ok by (simp add: Let_def)
      then show ?thesis
        using rec st t res skip states ref
        by (intro exI [of _ ?g])
          (simp add: append_result_def ioi_static_def same_frame_def ref_results_simps name_of_def del: lost_groups.simps)
    qed
  qed
qed

lemma done_groups_Suc:
  assumes "groups_cover l grs n" and "l < t" and "t \<le> n"
  shows "done_groups grs t =
    done_groups grs (t - 1) @ (if t = tg_last (group_at grs t) then [group_at grs t] else [])"
  using assms
proof (induction l grs n rule: groups_cover.induct)
  case (2 l gr grs n)
  have c: "tg_first gr = l + 1" "tg_first gr \<le> tg_last gr" "groups_cover (tg_last gr) grs n" using 2(2) by simp_all
  have later: "tg_last gr < tg_last x" if "x \<in> set grs" for x
    using groups_cover_first [OF c(3) that] by simp
  show ?case
  proof (cases "t \<le> tg_last gr")
    case True
    then have "group_at (gr # grs) t = gr" using c(1) 2(3) by (simp add: group_at_def in_group_def)
    moreover have "done_groups grs k = []" if "k \<le> tg_last gr" for k
      using later that by (fastforce simp: done_groups_def filter_empty_conv)
    ultimately show ?thesis using True 2(3) by (auto simp: done_groups_def)
  next
    case False
    then have "group_at (gr # grs) t = group_at grs t" by (simp add: group_at_def in_group_def)
    then show ?thesis using 2(1) [OF c(3)] 2(4) False by (simp add: done_groups_def)
  qed
qed simp

text \<open>One round: it waits, or takes the reference one test further, or panics where the score of a group does.\<close>

lemma ioi_update_test_ref:
  assumes p: "ioi_valid p" and st: "ioi_static p g" and pre: "ioi_prefix p R B g" and ent: "ioi_entries p R B g"
    and t: "io_next_test g \<le> p_tests p"
  shows "test_waits g \<Longrightarrow> ioi_update_test g = Inr None"
    and "\<not> test_waits g \<Longrightarrow>
      (let gr = group_at (p_groups p) (io_next_test g) in
       if io_next_test g = tg_last gr \<and> (\<exists>e. ref_group (p_groups p) R B gr = Inl e)
       then \<exists>e. ioi_update_test g = Inl e
       else \<exists>g'. ioi_update_test g = Inr (Some g') \<and> ioi_static p g' \<and> ioi_prefix p R B g' \<and> ioi_entries p R B g' \<and>
         io_next_test g' = Suc (io_next_test g) \<and> same_frame g g')"
proof -
  note v = ioi_validD [OF p]
  obtain k where k: "io_next_test g = Suc k" using pre by (cases "io_next_test g") (simp_all add: ioi_prefix_def)
  let ?grs = "p_groups p" and ?gi = "group_at (p_groups p) (Suc k)" and ?ir = "io_results g ! k"
  have gi: "?gi \<in> set ?grs" using group_at_in(1) [OF v(1)] t k by simp
  have name: "name_of g (Suc k) = tg_name ?gi" and len: "k < length (io_results g)"
    using st t k by (auto simp: ioi_static_def name_of_def)
  have "tg_name ?gi \<in> dom (io_internal g)" using st gi by (simp add: ioi_static_def)
  then obtain ii where ii: "io_internal g (tg_name ?gi) = Some ii" by blast
  have look: "at_index (io_results g) k = Inr ?ir" "deref (io_internal g (tg_name ?gi)) = Inr ii"
    "deref (io_groups g (tg_name ?gi)) = Inr ?gi"
    using len ii st gi by (simp_all add: at_index_def deref_def ioi_static_def)
  have waits: "test_waits g \<longleftrightarrow> ir_state ?ir = TestRunning \<or> ir_state ?ir = TestNotGiven \<and> \<not> ig_skip ii"
    using ii name k by (simp add: test_waits_def skip_set_def)
  show "ioi_update_test g = Inr None" if "test_waits g"
    using that waits look name k by (auto simp: ioi_update_test_def Let_def bindE_def)
  assume go: "\<not> test_waits g"
  obtain g1 where g1: "record_result ?gi ii ?ir g = Inr g1" "ioi_static p g1" "io_next_test g1 = Suc k" "same_frame g g1"
    "gs_results (io_submission g1) = ref_results ?grs R B (Suc k)"
    "skip_set (io_internal g1) = lost_groups ?grs R B (Suc k)"
    "gs_groups (io_submission g1) = gs_groups (io_submission g)" "io_next_group g1 = io_next_group g"
    "\<forall>i > k. io_results g1 ! i = io_results g ! i"
    using record_result_ref [OF p st pre ent k t [unfolded k] go] ii name by metis
  have upd: "ioi_update_test g = bindE (close_test ?gi g1) (\<lambda>g. Inr (Some g))"
    using go waits look name k g1(1) by (auto simp: ioi_update_test_def Let_def bindE_def)
  have groups: "map Inr (gs_groups (io_submission g1)) = map (ref_group ?grs R B) (done_groups ?grs k)"
    "io_next_group g1 = Suc (length (gs_groups (io_submission g1)))"
    using pre k g1(7,8) by (simp_all add: ioi_prefix_def)
  have ent': "ioi_entries p R B (g'\<lparr>io_next_test := Suc (Suc k)\<rparr>)" if "io_results g' = io_results g1" for g'
    unfolding ioi_entries_def
  proof (intro allI impI)
    fix u assume u: "io_next_test (g'\<lparr>io_next_test := Suc (Suc k)\<rparr>) \<le> u \<and> 1 \<le> u \<and> u \<le> p_tests p"
    then have "io_results g1 ! (u - 1) = io_results g ! (u - 1)" using g1(9) by auto
    then show "gtr_test (ir_result (io_results (g'\<lparr>io_next_test := Suc (Suc k)\<rparr>) ! (u - 1))) = u \<and>
        (ir_state (io_results (g'\<lparr>io_next_test := Suc (Suc k)\<rparr>) ! (u - 1)) = TestFinished \<longrightarrow>
           tg_name (group_at (p_groups p) u) \<in> lost_groups (p_groups p) R B (u - 1) \<or>
           ir_result (io_results (g'\<lparr>io_next_test := Suc (Suc k)\<rparr>) ! (u - 1)) = R u)"
      using ent u k that by (simp add: ioi_entries_def)
  qed
  note done_Suc = done_groups_Suc [OF v(1), of "Suc k"]
  show "let gr = group_at (p_groups p) (io_next_test g) in
       if io_next_test g = tg_last gr \<and> (\<exists>e. ref_group (p_groups p) R B gr = Inl e)
       then \<exists>e. ioi_update_test g = Inl e
       else \<exists>g'. ioi_update_test g = Inr (Some g') \<and> ioi_static p g' \<and> ioi_prefix p R B g' \<and> ioi_entries p R B g' \<and>
         io_next_test g' = Suc (io_next_test g) \<and> same_frame g g'"
  proof (cases "Suc k = tg_last ?gi")
    case True
    have ref: "group_result ?gi (gs_results (io_submission g1)) = ref_group ?grs R B ?gi"
      using True g1(5) by (simp add: ref_group_def)
    show ?thesis
    proof (cases "ref_group ?grs R B ?gi")
      case (Inl e)
      then have "ioi_update_test g = Inl e"
        unfolding upd using True ref g1(3) by (simp add: close_test_def completeGroupTesting_def bindE_def)
      then show ?thesis using Inl True k by simp
    next
      case (Inr r)
      let ?s = "(io_submission g1)\<lparr>gs_groups := gs_groups (io_submission g1) @ [r]\<rparr>"
      let ?g = "g1\<lparr>io_submission := ?s, io_next_group := io_next_group g1 + 1, io_next_test := Suc (Suc k)\<rparr>"
      have "ioi_update_test g = Inr (Some ?g)"
        unfolding upd using True ref g1(3) Inr by (simp add: close_test_def completeGroupTesting_def bindE_def)
      moreover have "ioi_prefix p R B ?g"
        using g1(5,6) groups done_Suc True t k Inr by (simp add: ioi_prefix_def del: lost_groups.simps)
      moreover have "ioi_entries p R B ?g"
        using ent' [of "g1\<lparr>io_submission := ?s, io_next_group := io_next_group g1 + 1\<rparr>"] by simp
      moreover have "ioi_static p ?g" "same_frame g ?g" using g1(2,4) by (simp_all add: ioi_static_def same_frame_def)
      ultimately show ?thesis using True Inr k by auto
    qed
  next
    case False
    let ?g = "g1\<lparr>io_next_test := Suc (Suc k)\<rparr>"
    have "ioi_update_test g = Inr (Some ?g)"
      unfolding upd using False g1(3) by (simp add: close_test_def bindE_def)
    moreover have "ioi_prefix p R B ?g"
      using g1(5,6) groups done_Suc False t k by (simp add: ioi_prefix_def del: lost_groups.simps)
    moreover have "ioi_entries p R B ?g" using ent' [of g1] by simp
    moreover have "ioi_static p ?g" "same_frame g ?g" using g1(2,4) by (simp_all add: ioi_static_def same_frame_def)
    ultimately show ?thesis using False k by auto
  qed
qed

definition groups_fine :: "problem \<Rightarrow> (nat \<Rightarrow> gtest_result) \<Rightarrow> string set \<Rightarrow> bool" where
  "groups_fine p R B \<longleftrightarrow> (\<forall>gr \<in> set (p_groups p). \<exists>r. ref_group (p_groups p) R B gr = Inr r)"

text \<open>
  The stopped groups include those lost so far, and those of recorded results that lose their group; and
  a test of the prefix that was never given is one of a group lost before it.
\<close>

definition ioi_stops :: "problem \<Rightarrow> (nat \<Rightarrow> gtest_result) \<Rightarrow> string set \<Rightarrow> ioi \<Rightarrow> bool" where
  "ioi_stops p R B g \<longleftrightarrow> closed_under (p_groups p) (stop_set (io_internal g)) \<and>
     lost_groups (p_groups p) R B (io_next_test g - 1) \<subseteq> stop_set (io_internal g) \<and>
     (\<forall>t. io_next_test g \<le> t \<and> 1 \<le> t \<and> t \<le> p_tests p \<and> ir_state (io_results g ! (t - 1)) = TestFinished \<and>
        prevents (group_at (p_groups p) t) (gtr_verdict (no_skip_ioi (R t))) \<and>
        tg_name (group_at (p_groups p) t) \<notin> lost_groups (p_groups p) R B (t - 1) \<longrightarrow>
        tg_name (group_at (p_groups p) t) \<in> stop_set (io_internal g)) \<and>
     (\<forall>t. 1 \<le> t \<and> t < io_next_test g \<and> t \<le> p_tests p \<and> ir_state (io_results g ! (t - 1)) = TestNotGiven \<longrightarrow>
        tg_name (group_at (p_groups p) t) \<in> lost_groups (p_groups p) R B (t - 1))"

lemma same_frame_state:
  assumes "same_frame g g'" and "i < length (io_results g)"
  shows "ir_state (io_results g' ! i) = ir_state (io_results g ! i)"
proof -
  have m: "map ir_state (io_results g') = map ir_state (io_results g)" using assms(1) by (simp add: same_frame_def)
  then have "length (io_results g') = length (io_results g)" by (metis length_map)
  then show ?thesis using assms(2) m by (metis nth_map)
qed

lemma ioi_stops_step:
  assumes st: "ioi_static p g" and pre: "ioi_prefix p R B g" and stops: "ioi_stops p R B g"
    and t: "io_next_test g \<le> p_tests p" and go: "\<not> test_waits g"
    and g': "io_next_test g' = Suc (io_next_test g)" "same_frame g g'"
  shows "ioi_stops p R B g'"
proof -
  obtain k where k: "io_next_test g = Suc k" using pre by (cases "io_next_test g") (simp_all add: ioi_prefix_def)
  let ?grs = "p_groups p" and ?gi = "group_at (p_groups p) (Suc k)"
  have stop: "stop_set (io_internal g') = stop_set (io_internal g)" using g'(2) by (simp add: same_frame_def)
  have states: "ir_state (io_results g' ! (t - 1)) = ir_state (io_results g ! (t - 1))" if "1 \<le> t" "t \<le> p_tests p" for t
    using same_frame_state [OF g'(2), of "t - 1"] that st by (simp add: ioi_static_def)
  have s: "closed_under ?grs (stop_set (io_internal g))" "lost_groups ?grs R B k \<subseteq> stop_set (io_internal g)"
    using stops k by (simp_all add: ioi_stops_def)
  have "lost_groups ?grs R B (Suc k) \<subseteq> stop_set (io_internal g)"
  proof (cases "tg_name ?gi \<notin> lost_groups ?grs R B k \<and> prevents ?gi (gtr_verdict (no_skip_ioi (R (Suc k))))")
    case True
    have name: "name_of g (Suc k) = tg_name ?gi" using name_of_static [OF st, of "Suc k"] t k by simp
    have "skip_set (io_internal g) = lost_groups ?grs R B k" using pre k by (simp add: ioi_prefix_def)
    then have "ir_state (io_results g ! k) = TestFinished"
      using go True name k by (cases "ir_state (io_results g ! k)") (simp_all add: test_waits_def)
    then have "tg_name ?gi \<in> stop_set (io_internal g)" using stops True t k by (simp add: ioi_stops_def)
    then show ?thesis using True s spread_least [OF _ s(1), of "insert (tg_name ?gi) (lost_groups ?grs R B k)"]
      by (simp add: Let_def)
  next
    case False
    then have "lost_groups ?grs R B (Suc k) = lost_groups ?grs R B k" by (auto simp: Let_def)
    then show ?thesis using s(2) by simp
  qed
  note lost = this
  have "tg_name (group_at ?grs t) \<in> stop_set (io_internal g)"
    if "io_next_test g' \<le> t \<and> 1 \<le> t \<and> t \<le> p_tests p \<and> ir_state (io_results g' ! (t - 1)) = TestFinished \<and>
        prevents (group_at ?grs t) (gtr_verdict (no_skip_ioi (R t))) \<and>
        tg_name (group_at ?grs t) \<notin> lost_groups ?grs R B (t - 1)" for t
    using stops that states [of t] k g'(1) unfolding ioi_stops_def by auto
  moreover have "tg_name (group_at ?grs u) \<in> lost_groups ?grs R B (u - 1)"
    if u: "1 \<le> u \<and> u < io_next_test g' \<and> u \<le> p_tests p \<and> ir_state (io_results g' ! (u - 1)) = TestNotGiven" for u
  proof (cases "u = Suc k")
    case True
    then show ?thesis
      using go u states [of u] k pre name_of_static [OF st, of "Suc k"] by (simp add: test_waits_def ioi_prefix_def)
  next
    case False
    then show ?thesis using stops u states [of u] k g'(1) unfolding ioi_stops_def by auto
  qed
  ultimately show ?thesis using s(1) lost k g'(1) stop unfolding ioi_stops_def by (simp del: lost_groups.simps)
qed

lemma ioi_update_loop_ref:
  assumes "ioi_valid p" and "groups_fine p R B"
    and "ioi_static p g" and "ioi_prefix p R B g" and "ioi_entries p R B g"
  shows "\<exists>g' u'. ioi_update_loop (p_tests p) g u = Inr (g', u') \<and> ioi_static p g' \<and> ioi_prefix p R B g' \<and>
    ioi_entries p R B g' \<and> same_frame g g' \<and> (p_tests p < io_next_test g' \<or> test_waits g') \<and>
    (ioi_stops p R B g \<longrightarrow> ioi_stops p R B g')"
  using assms
proof (induction "p_tests p" g u rule: ioi_update_loop.induct)
  case (1 g u)
  show ?case
  proof (cases "p_tests p < io_next_test g \<or> test_waits g")
    case True
    then have "ioi_update_loop (p_tests p) g u = Inr (g, u)"
      using ioi_update_test_ref(1) [OF 1(2,4,5,6)] by (subst ioi_update_loop.simps) (auto simp: not_less)
    then show ?thesis using True 1 by auto
  next
    case False
    then have t: "io_next_test g \<le> p_tests p" and go: "\<not> test_waits g" by auto
    have "group_at (p_groups p) (io_next_test g) \<in> set (p_groups p)"
      using group_at_in(1) [OF ioi_validD(1) [OF 1(2)]] t 1(5) by (simp add: ioi_prefix_def)
    then obtain g' where g': "ioi_update_test g = Inr (Some g')" "ioi_static p g'" "ioi_prefix p R B g'"
      "ioi_entries p R B g'" "same_frame g g'" "io_next_test g' = Suc (io_next_test g)"
      using ioi_update_test_ref(2) [OF 1(2,4,5,6) t go] 1(3) by (auto simp: groups_fine_def Let_def split: if_splits)
    have "ioi_update_loop (p_tests p) g u = ioi_update_loop (p_tests p) g' True"
      using t g'(1) by (subst ioi_update_loop.simps) simp
    moreover have "ioi_stops p R B g \<longrightarrow> ioi_stops p R B g'"
      using ioi_stops_step [OF 1(4,5) _ t go g'(6,5)] by simp
    moreover have "\<not> p_tests p < io_next_test g" using t by simp
    note 1(1) [OF this g'(1) refl 1(2,3) g'(2-4)]
    ultimately show ?thesis using same_frame_trans [OF g'(5)] by auto
  qed
qed

section \<open>The final verdict\<close>

text \<open>The verdict of the last test that did not succeed and was not skipped decides.\<close>

definition ioi_verdict :: "gtest_result list \<Rightarrow> verdict" where
  "ioi_verdict rs =
     (let bad = filter (\<lambda>r. gtr_verdict r \<noteq> V_OK \<and> gtr_verdict r \<noteq> V_SK) rs in
      if bad = [] then V_OK else if gtr_verdict (last bad) = V_CF then V_CF else V_PT)"

lemma final_scan_eq:
  "final_scan rs v sk has =
     (let bad = filter (\<lambda>r. gtr_verdict r \<noteq> V_OK \<and> gtr_verdict r \<noteq> V_SK) rs in
      (if bad = [] then v else if gtr_verdict (last bad) = V_CF then V_CF else V_PT,
       sk \<or> (\<exists>r \<in> set rs. gtr_verdict r = V_SK), has \<or> bad \<noteq> []))"
  by (induction rs arbitrary: v sk has) (simp_all add: Let_def)

lemma prevents_bad: "prevents gr (gtr_verdict (no_skip_ioi r)) \<Longrightarrow>
    gtr_verdict (no_skip_ioi r) \<noteq> V_OK \<and> gtr_verdict (no_skip_ioi r) \<noteq> V_SK"
  by (auto simp: prevents_def no_skip_ioi_def split: scoring_type.splits if_splits)

lemma ref_results_skip_bad:
  assumes "r \<in> set (ref_results grs R {} n)" and "gtr_verdict r = V_SK"
  shows "\<exists>r' \<in> set (ref_results grs R {} n). gtr_verdict r' \<noteq> V_OK \<and> gtr_verdict r' \<noteq> V_SK"
proof -
  obtain t where t: "1 \<le> t" "t \<le> n" "r = ref_result grs R {} t"
    using assms(1) by (auto simp: ref_results_def)
  have "gtr_verdict (no_skip_ioi x) \<noteq> V_SK" for x by (simp add: no_skip_ioi_def)
  then have "tg_name (group_at grs t) \<in> lost_groups grs R {} (t - 1)"
    using t(3) assms(2) by (auto simp: ref_result_def split: if_splits)
  from lost_groups_cause [OF this] obtain u where u: "1 \<le> u" "u \<le> t - 1"
    "tg_name (group_at grs u) \<notin> lost_groups grs R {} (u - 1)"
    "prevents (group_at grs u) (gtr_verdict (no_skip_ioi (R u)))" by blast
  have "ref_result grs R {} u \<in> set (ref_results grs R {} n)"
    using u(1,2) t(2) by (auto simp: ref_results_def simp del: upt_Suc)
  moreover have "ref_result grs R {} u = no_skip_ioi (R u)" using u(3) by (simp add: ref_result_def)
  ultimately show ?thesis using prevents_bad [OF u(4)] by auto
qed

definition lost_first :: "problem \<Rightarrow> verdict \<Rightarrow> string set" where
  "lost_first p c = (if c = V_RU then {} else tg_name ` set (p_groups p))"

text \<open>The submission the reference ends with: \<open>c\<close> is the verdict after the compilation.\<close>

definition ioi_final :: "problem \<Rightarrow> jsnum \<Rightarrow> verdict \<Rightarrow> (nat \<Rightarrow> gtest_result) \<Rightarrow> gsubmission \<Rightarrow> bool" where
  "ioi_final p sc c R s \<longleftrightarrow>
     gs_results s = ref_results (p_groups p) R (lost_first p c) (p_tests p) \<and>
     map Inr (gs_groups s) = map (ref_group (p_groups p) R (lost_first p c)) (p_groups p) \<and>
     gs_score s = foldl fadd sc (map ggr_points (gs_groups s)) \<and>
     gs_verdict s = (if c \<noteq> V_RU then c else ioi_verdict (gs_results s))"

lemma ioi_final_step:
  assumes p: "ioi_valid p" and st: "ioi_static p g" and pre: "ioi_prefix p R (lost_first p c) g"
    and over: "io_next_test g = Suc (p_tests p)" "io_given g = Map.empty"
    and s: "gs_verdict (io_submission g) = c" "gs_score (io_submission g) = sc"
  shows "\<exists>s'. setFinalScoreAndVerdict g = Inr (g\<lparr>io_submission := s'\<rparr>) \<and> ioi_final p sc c R s'"
    and "length (p_groups p) < io_next_group g"
proof -
  have "tg_last gr \<le> p_tests p" if "gr \<in> set (p_groups p)" for gr
    using groups_cover_first [OF ioi_validD(1) [OF p] that] by simp
  then have d: "done_groups (p_groups p) (p_tests p) = p_groups p"
    by (simp add: done_groups_def)
  have r: "gs_results (io_submission g) = ref_results (p_groups p) R (lost_first p c) (p_tests p)"
    and g: "map Inr (gs_groups (io_submission g)) = map (ref_group (p_groups p) R (lost_first p c)) (p_groups p)"
    and nx: "io_next_group g = Suc (length (gs_groups (io_submission g)))"
    using pre over d by (simp_all add: ioi_prefix_def)
  have len: "length (gs_groups (io_submission g)) = length (p_groups p)"
    using arg_cong [OF g, of length] by simp
  then show "length (p_groups p) < io_next_group g" using nx by simp
  let ?s = "(io_submission g)\<lparr>gs_score := foldl fadd sc (map ggr_points (gs_groups (io_submission g)))\<rparr>"
  let ?bad = "filter (\<lambda>r. gtr_verdict r \<noteq> V_OK \<and> gtr_verdict r \<noteq> V_SK) (gs_results (io_submission g))"
  have none: "c = V_RU \<Longrightarrow> ?bad = [] \<Longrightarrow> \<not> (\<exists>x \<in> set (gs_results (io_submission g)). gtr_verdict x = V_SK)"
    using ref_results_skip_bad unfolding r lost_first_def by (fastforce simp: filter_empty_conv)
  have probl: "io_problem g = p" using st by (simp add: ioi_static_def)
  show "\<exists>s'. setFinalScoreAndVerdict g = Inr (g\<lparr>io_submission := s'\<rparr>) \<and> ioi_final p sc c R s'"
  proof (cases "c = V_RU")
    case False
    then have "setFinalScoreAndVerdict g = Inr (g\<lparr>io_submission := ?s\<rparr>)"
      using over s len r probl by (simp add: setFinalScoreAndVerdict_def Let_def ref_results_simps)
    then show ?thesis using False r g s by (intro exI [of _ ?s]) (simp add: ioi_final_def)
  next
    case True
    let ?rs = "gs_results (io_submission g)"
    have len': "length ?rs = p_tests p" using r by (simp add: ref_results_simps)
    have "setFinalScoreAndVerdict g = Inr (g\<lparr>io_submission := ?s\<lparr>gs_verdict := ioi_verdict ?rs\<rparr>\<rparr>)"
    proof (cases "?bad = []")
      case empty: True
      have "final_scan ?rs V_RU False False = (V_RU, False, False)"
        using none [OF True empty] empty unfolding final_scan_eq Let_def by simp
      moreover have "ioi_verdict ?rs = V_OK" using empty unfolding ioi_verdict_def Let_def by simp
      ultimately show ?thesis using over s len len' probl True by (simp add: setFinalScoreAndVerdict_def Let_def)
    next
      case bad: False
      have "\<exists>sk. final_scan ?rs V_RU False False = (ioi_verdict ?rs, sk, True)"
        using bad unfolding final_scan_eq ioi_verdict_def Let_def by simp
      then obtain sk where "final_scan ?rs V_RU False False = (ioi_verdict ?rs, sk, True)" ..
      then show ?thesis using over s len len' probl True by (simp add: setFinalScoreAndVerdict_def Let_def)
    qed
    then show ?thesis using True r g s
      by (intro exI [of _ "?s\<lparr>gs_verdict := ioi_verdict (gs_results (io_submission g))\<rparr>"]) (simp add: ioi_final_def)
  qed
qed

section \<open>The invariant of the test phase\<close>

text \<open>The result of a test in the end, when \<open>T t\<close> is what an invoker reports for it.\<close>

definition ioi_outcome :: "problem \<Rightarrow> (nat \<Rightarrow> job_result) \<Rightarrow> nat \<Rightarrow> gtest_result" where
  "ioi_outcome p T t =
     (case populateTestJobResult (group_at (p_groups p) t) (T t) of
        Inl e \<Rightarrow> bare_result t V_CF
      | Inr x \<Rightarrow> buildTestResult
          \<lparr>job_id = '''', job_submission = 0, job_type = TestJob, job_test = t, job_required = {}\<rparr> (settle_result x))"

text \<open>
  Tests below \<open>io_next_given\<close> were given or passed over; a running test has exactly one job; the
  stopped groups are lost in the reference before the next test that may be given.
\<close>

definition ioi_core :: "problem \<Rightarrow> jsnum \<Rightarrow> (nat \<Rightarrow> gtest_result) \<Rightarrow> ioi \<Rightarrow> bool" where
  "ioi_core p sc R g \<longleftrightarrow>
     ioi_static p g \<and> ioi_prefix p R {} g \<and> ioi_entries p R {} g \<and> ioi_stops p R {} g \<and>
     io_state g = CompilationFinished \<and> gs_verdict (io_submission g) = V_RU \<and> gs_score (io_submission g) = sc \<and>
     1 \<le> io_next_given g \<and> io_next_given g \<le> Suc (p_tests p) \<and>
     stop_set (io_internal g) \<subseteq> lost_groups (p_groups p) R {} (io_next_given g - 1) \<and>
     finite (dom (io_given g)) \<and>
     (\<forall>i j. io_given g i = Some j \<longrightarrow> job_type j = TestJob \<and> 1 \<le> job_test j \<and> job_test j < io_next_given g \<and>
        ir_state (io_results g ! (job_test j - 1)) = TestRunning) \<and>
     (\<forall>i i' j j'. io_given g i = Some j \<and> io_given g i' = Some j' \<and> job_test j = job_test j' \<longrightarrow> i = i') \<and>
     (\<forall>t. 1 \<le> t \<and> t \<le> p_tests p \<and> ir_state (io_results g ! (t - 1)) = TestRunning \<longrightarrow>
        (\<exists>i j. io_given g i = Some j \<and> job_test j = t)) \<and>
     (\<forall>t. 1 \<le> t \<and> t \<le> p_tests p \<longrightarrow> (ir_state (io_results g ! (t - 1)) = TestNotGiven \<longleftrightarrow> io_next_given g \<le> t))"

lemma ioi_coreD:
  assumes "ioi_core p sc R g"
  shows "ioi_static p g" "ioi_prefix p R {} g" "ioi_entries p R {} g" "ioi_stops p R {} g"
    "io_state g = CompilationFinished" "gs_verdict (io_submission g) = V_RU" "gs_score (io_submission g) = sc"
    "1 \<le> io_next_given g" "io_next_given g \<le> Suc (p_tests p)"
    "stop_set (io_internal g) \<subseteq> lost_groups (p_groups p) R {} (io_next_given g - 1)"
    "finite (dom (io_given g))"
    "\<forall>i j. io_given g i = Some j \<longrightarrow> job_type j = TestJob \<and> 1 \<le> job_test j \<and> job_test j < io_next_given g \<and>
        ir_state (io_results g ! (job_test j - 1)) = TestRunning"
    "\<forall>i i' j j'. io_given g i = Some j \<and> io_given g i' = Some j' \<and> job_test j = job_test j' \<longrightarrow> i = i'"
    "\<forall>t. 1 \<le> t \<and> t \<le> p_tests p \<and> ir_state (io_results g ! (t - 1)) = TestRunning \<longrightarrow>
        (\<exists>i j. io_given g i = Some j \<and> job_test j = t)"
    "\<forall>t. 1 \<le> t \<and> t \<le> p_tests p \<longrightarrow> (ir_state (io_results g ! (t - 1)) = TestNotGiven \<longleftrightarrow> io_next_given g \<le> t)"
  using assms unfolding ioi_core_def by - (elim conjE; assumption)+

lemma ioi_coreI:
  assumes "ioi_static p g" "ioi_prefix p R {} g" "ioi_entries p R {} g" "ioi_stops p R {} g"
    "io_state g = CompilationFinished" "gs_verdict (io_submission g) = V_RU" "gs_score (io_submission g) = sc"
    "1 \<le> io_next_given g" "io_next_given g \<le> Suc (p_tests p)"
    "stop_set (io_internal g) \<subseteq> lost_groups (p_groups p) R {} (io_next_given g - 1)"
    "finite (dom (io_given g))"
    "\<And>i j. io_given g i = Some j \<Longrightarrow> job_type j = TestJob \<and> 1 \<le> job_test j \<and> job_test j < io_next_given g \<and>
        ir_state (io_results g ! (job_test j - 1)) = TestRunning"
    "\<And>i i' j j'. io_given g i = Some j \<Longrightarrow> io_given g i' = Some j' \<Longrightarrow> job_test j = job_test j' \<Longrightarrow> i = i'"
    "\<And>t. 1 \<le> t \<Longrightarrow> t \<le> p_tests p \<Longrightarrow> ir_state (io_results g ! (t - 1)) = TestRunning \<Longrightarrow>
        \<exists>i j. io_given g i = Some j \<and> job_test j = t"
    "\<And>t. 1 \<le> t \<Longrightarrow> t \<le> p_tests p \<Longrightarrow> ir_state (io_results g ! (t - 1)) = TestNotGiven \<longleftrightarrow> io_next_given g \<le> t"
  shows "ioi_core p sc R g"
  unfolding ioi_core_def using assms by (intro conjI allI impI; (elim conjE)?; blast?)

definition ioi_over :: "ioi \<Rightarrow> bool" where
  "ioi_over g \<longleftrightarrow> io_state g \<noteq> CompilationNotStarted \<and> io_given g = Map.empty \<and>
     p_tests (io_problem g) < io_next_test g"

definition ioi_testing :: "problem \<Rightarrow> jsnum \<Rightarrow> (nat \<Rightarrow> gtest_result) \<Rightarrow> ioi \<Rightarrow> bool" where
  "ioi_testing p sc R g \<longleftrightarrow> ioi_core p sc R g \<and> \<not> ioi_over g \<and> (io_next_test g \<le> p_tests p \<longrightarrow> test_waits g)"

text \<open>A generator that gave its answer: the tests it never gave are all of stopped groups.\<close>

definition ioi_spent :: "ioi \<Rightarrow> bool" where
  "ioi_spent g \<longleftrightarrow> io_given g = Map.empty \<and>
     (case io_state g of
        CompilationNotStarted \<Rightarrow> False
      | CompilationStarted \<Rightarrow> True
      | CompilationFinished \<Rightarrow> 1 \<le> io_next_given g \<and>
          (\<forall>t. io_next_given g \<le> t \<and> t \<le> p_tests (io_problem g) \<longrightarrow> t - 1 < length (io_results g) \<and>
             (\<exists>ii. io_internal g (name_of g t) = Some ii \<and> \<not> ig_give ii)))"

lemma ioi_spent_submission [simp]: "ioi_spent (g\<lparr>io_submission := s\<rparr>) = ioi_spent g"
  by (cases "io_state g") (simp_all add: ioi_spent_def name_of_def)

lemma core_spent:
  assumes p: "ioi_valid p" and c: "ioi_core p sc R g" and over: "p_tests p < io_next_test g" "io_given g = Map.empty"
  shows "ioi_spent g"
proof -
  note d = ioi_coreD [OF c]
  have "t - 1 < length (io_results g) \<and> (\<exists>ii. io_internal g (name_of g t) = Some ii \<and> \<not> ig_give ii)"
    if t: "io_next_given g \<le> t" "t \<le> p_tests p" for t
  proof -
    let ?h = "tg_name (group_at (p_groups p) t)"
    have t1: "1 \<le> t" using t(1) d(8) by simp
    have "ir_state (io_results g ! (t - 1)) = TestNotGiven" using d(15) t t1 by simp
    then have "?h \<in> lost_groups (p_groups p) R {} (t - 1)"
      using d(4) t(2) t1 over(1) by (simp add: ioi_stops_def)
    moreover have "lost_groups (p_groups p) R {} (t - 1) \<subseteq> lost_groups (p_groups p) R {} (io_next_test g - 1)"
      using t(2) over(1) by (intro lost_groups_mono) simp
    ultimately have "?h \<in> stop_set (io_internal g)" using d(4) by (auto simp: ioi_stops_def)
    then have "\<exists>ii. io_internal g ?h = Some ii \<and> \<not> ig_give ii" by (auto simp: stop_set_def)
    then show ?thesis using name_of_static [OF d(1) t1 t(2)] d(1) t(2) t1 by (simp add: ioi_static_def)
  qed
  then show ?thesis using over(2) d(1,5,8) by (simp add: ioi_spent_def ioi_static_def)
qed

lemma ioi_give_spent:
  assumes "io_state g = CompilationFinished" and "ioi_spent g"
  shows "\<exists>g'. ioi_give (p_tests (io_problem g)) i g = Inr (g', None) \<and> ioi_spent g'"
  using assms
proof (induction "Suc (p_tests (io_problem g)) - io_next_given g" arbitrary: g rule: less_induct)
  case less
  let ?t = "io_next_given g" and ?n = "p_tests (io_problem g)"
  show ?case
  proof (cases "?n < ?t")
    case True
    then show ?thesis using less(3) by (subst ioi_give.simps) (simp add: Let_def)
  next
    case False
    then obtain ii where ii: "io_internal g (name_of g ?t) = Some ii" "\<not> ig_give ii" "?t - 1 < length (io_results g)"
      using less(2,3) by (auto simp: ioi_spent_def)
    let ?g = "g\<lparr>io_results := (io_results g)[?t - 1 := (io_results g ! (?t - 1))\<lparr>ir_state := TestFinished\<rparr>], io_next_given := ?t + 1\<rparr>"
    have "ioi_give ?n i g = ioi_give ?n i ?g"
      using False ii by (subst ioi_give.simps) (simp add: Let_def deref_def at_index_def bindE_def)
    moreover have "ioi_spent ?g" using less(2,3) by (simp add: ioi_spent_def name_of_def)
    ultimately show ?thesis using less(1) [of ?g] less(2) False by auto
  qed
qed

lemma ioi_spent_next: "ioi_spent g \<Longrightarrow> \<exists>g'. ioi_NextJob i g = Inr (g', None) \<and> ioi_spent g'"
  using ioi_give_spent [of g i] by (cases "io_state g") (auto simp: ioi_NextJob_def ioi_spent_def)

text \<open>The calls a generator can still serve.\<close>

definition ioi_work :: "ioi \<Rightarrow> nat" where
  "ioi_work g = (let n = p_tests (io_problem g) in case io_state g of
     CompilationNotStarted \<Rightarrow> 2 * n + 2
   | CompilationStarted \<Rightarrow> 2 * n + card (dom (io_given g))
   | CompilationFinished \<Rightarrow> 2 * (Suc n - io_next_given g) + card (dom (io_given g)))"

lemma core_same_frame:
  assumes c: "ioi_core p sc R g" and s: "same_frame g g'" and g': "ioi_static p g'" "ioi_prefix p R {} g'"
    "ioi_entries p R {} g'" "ioi_stops p R {} g'"
  shows "ioi_core p sc R g'" and "ioi_work g' = ioi_work g"
proof -
  note d = ioi_coreD [OF c]
  have f: "io_given g' = io_given g" "io_state g' = io_state g" "io_next_given g' = io_next_given g"
    "stop_set (io_internal g') = stop_set (io_internal g)" "gs_verdict (io_submission g') = gs_verdict (io_submission g)"
    "gs_score (io_submission g') = gs_score (io_submission g)"
    using s by (simp_all add: same_frame_def)
  have states: "ir_state (io_results g' ! (t - 1)) = ir_state (io_results g ! (t - 1))" if "1 \<le> t" "t \<le> p_tests p" for t
    using same_frame_state [OF s, of "t - 1"] that d(1) by (simp add: ioi_static_def)
  have jobs: "job_type j = TestJob \<and> 1 \<le> job_test j \<and> job_test j < io_next_given g \<and>
      ir_state (io_results g' ! (job_test j - 1)) = TestRunning" if "io_given g i = Some j" for i j
    using d(12) that states [of "job_test j"] d(9) by fastforce
  show "ioi_core p sc R g'"
  proof (rule ioi_coreI)
    show "\<exists>i j. io_given g' i = Some j \<and> job_test j = t"
      if "1 \<le> t" "t \<le> p_tests p" "ir_state (io_results g' ! (t - 1)) = TestRunning" for t
      using d(14) that states [of t] f(1) by simp
    show "ir_state (io_results g' ! (t - 1)) = TestNotGiven \<longleftrightarrow> io_next_given g' \<le> t" if "1 \<le> t" "t \<le> p_tests p" for t
      using d(15) that states [of t] f(3) by simp
    show "i = i'" if "io_given g' i = Some j" "io_given g' i' = Some j'" "job_test j = job_test j'" for i i' j j'
      using d(13) that f(1) by metis
  qed (use d f g' jobs in simp_all)
  show "ioi_work g' = ioi_work g" using f g'(1) d(1,5) by (simp add: ioi_work_def ioi_static_def Let_def)
qed

lemma ioi_update_core:
  assumes p: "ioi_valid p" and fine: "groups_fine p R {}" and c: "ioi_core p sc R g"
  shows "\<exists>g' u out. ioi_update g = Inr (g', u, out) \<and> ioi_work g' = ioi_work g \<and>
    (out = None \<and> ioi_testing p sc R g' \<or> (\<exists>s'. out = Some s' \<and> ioi_spent g' \<and> ioi_final p sc V_RU R s'))"
proof -
  note d = ioi_coreD [OF c]
  obtain g' u where g': "ioi_update_loop (p_tests p) g False = Inr (g', u)" "ioi_static p g'" "ioi_prefix p R {} g'"
    "ioi_entries p R {} g'" "same_frame g g'" "p_tests p < io_next_test g' \<or> test_waits g'" "ioi_stops p R {} g'"
    using ioi_update_loop_ref [OF p fine d(1-3), of False] d(4) by blast
  note core = core_same_frame [OF c g'(5,2,3,4,7)]
  have pr: "io_problem g = p" "io_problem g' = p" using d(1) g'(2) by (simp_all add: ioi_static_def)
  show ?thesis
  proof (cases "p_tests p < io_next_test g' \<and> io_given g' = Map.empty")
    case False
    then have "ioi_update g = Inr (g', u, None)" using g'(1) pr by (auto simp: ioi_update_def Let_def bindE_def)
    moreover have "ioi_testing p sc R g'"
      using False core(1) g'(6) pr by (auto simp: ioi_testing_def ioi_over_def)
    ultimately show ?thesis using core(2) by blast
  next
    case True
    then have nx: "io_next_test g' = Suc (p_tests p)" using g'(3) by (auto simp: ioi_prefix_def)
    have l: "lost_first p V_RU = {}" by (simp add: lost_first_def)
    obtain s' where s': "setFinalScoreAndVerdict g' = Inr (g'\<lparr>io_submission := s'\<rparr>)" "ioi_final p sc V_RU R s'"
      and len: "length (p_groups p) < io_next_group g'"
      using ioi_final_step [OF p g'(2) _ nx, of R V_RU sc] g'(3) True ioi_coreD(6,7) [OF core(1)] l by auto
    let ?g = "g'\<lparr>io_submission := s'\<rparr>"
    have "ioi_update g = Inr (?g, True, Some s')"
      using g'(1) pr True s'(1) len by (simp add: ioi_update_def Let_def bindE_def)
    moreover have "ioi_spent ?g" using core_spent [OF p core(1)] True by simp
    moreover have "ioi_work ?g = ioi_work g" using core(2) by (cases "io_state g'") (simp_all add: ioi_work_def)
    ultimately show ?thesis using s'(2) by blast
  qed
qed

section \<open>Handing out tests\<close>

lemma set_state_static: "ioi_static p (g\<lparr>io_results := (io_results g)[k := x], io_next_given := m\<rparr>) = ioi_static p g"
  by (simp add: ioi_static_def)

text \<open>One test more is given or passed over: its entry gets state \<open>s\<close>, and \<open>m\<close> are the given jobs after it.\<close>

lemma ioi_core_advance:
  assumes p: "ioi_valid p" and c: "ioi_core p sc R g" and t: "io_next_given g = Suc k" "Suc k \<le> p_tests p"
    and s: "s = TestFinished \<and> m = io_given g \<and> tg_name (group_at (p_groups p) (Suc k)) \<in> stop_set (io_internal g) \<or>
      s = TestRunning \<and> i \<notin> dom (io_given g) \<and> m = (io_given g)(i \<mapsto> j) \<and> job_type j = TestJob \<and> job_test j = Suc k"
    and g': "g' = g\<lparr>io_results := (io_results g)[k := (io_results g ! k)\<lparr>ir_state := s\<rparr>], io_given := m,
      io_next_given := Suc (Suc k)\<rparr>"
  shows "ioi_core p sc R g'"
proof -
  note d = ioi_coreD [OF c]
  have len: "length (io_results g) = p_tests p" using d(1) by (simp add: ioi_static_def)
  have old: "io_results g' ! (t - 1) = io_results g ! (t - 1)" if "1 \<le> t" "t \<noteq> Suc k" for t
    using that by (cases t) (simp_all add: g')
  have new: "io_results g' ! k = (io_results g ! k)\<lparr>ir_state := s\<rparr>" using len t(2) by (simp add: g')
  have st: "ioi_static p g'" using d(1) by (simp add: g' ioi_static_def)
  have pre: "ioi_prefix p R {} g'" using d(2) by (simp add: g' ioi_prefix_def)
  have lost: "tg_name (group_at (p_groups p) (Suc k)) \<in> lost_groups (p_groups p) R {} k" if "s = TestFinished"
    using s that d(10) t(1) by auto
  have ent: "ioi_entries p R {} g'"
    unfolding ioi_entries_def
  proof (intro allI impI)
    fix u assume u: "io_next_test g' \<le> u \<and> 1 \<le> u \<and> u \<le> p_tests p"
    have e: "gtr_test (ir_result (io_results g ! (u - 1))) = u \<and>
        (ir_state (io_results g ! (u - 1)) = TestFinished \<longrightarrow>
           tg_name (group_at (p_groups p) u) \<in> lost_groups (p_groups p) R {} (u - 1) \<or>
           ir_result (io_results g ! (u - 1)) = R u)"
      using d(3) u by (simp add: ioi_entries_def g')
    show "gtr_test (ir_result (io_results g' ! (u - 1))) = u \<and>
        (ir_state (io_results g' ! (u - 1)) = TestFinished \<longrightarrow>
           tg_name (group_at (p_groups p) u) \<in> lost_groups (p_groups p) R {} (u - 1) \<or>
           ir_result (io_results g' ! (u - 1)) = R u)"
    proof (cases "u = Suc k")
      case True
      then show ?thesis using e new lost by auto
    next
      case False
      then show ?thesis using e old u by simp
    qed
  qed
  have stops: "ioi_stops p R {} g'"
    unfolding ioi_stops_def
  proof (intro conjI allI impI)
    fix u assume u: "io_next_test g' \<le> u \<and> 1 \<le> u \<and> u \<le> p_tests p \<and> ir_state (io_results g' ! (u - 1)) = TestFinished \<and>
        prevents (group_at (p_groups p) u) (gtr_verdict (no_skip_ioi (R u))) \<and>
        tg_name (group_at (p_groups p) u) \<notin> lost_groups (p_groups p) R {} (u - 1)"
    show "tg_name (group_at (p_groups p) u) \<in> stop_set (io_internal g')"
    proof (cases "u = Suc k")
      case True
      then show ?thesis using u new s by (auto simp: g')
    next
      case False
      then show ?thesis using u old [of u] d(4) by (simp add: ioi_stops_def g')
    qed
  next
    fix u assume u: "1 \<le> u \<and> u < io_next_test g' \<and> u \<le> p_tests p \<and> ir_state (io_results g' ! (u - 1)) = TestNotGiven"
    then have "u \<noteq> Suc k" using new s by auto
    then show "tg_name (group_at (p_groups p) u) \<in> lost_groups (p_groups p) R {} (u - 1)"
      using u old [of u] d(4) by (simp add: ioi_stops_def g')
  qed (use d(4) in \<open>simp_all add: ioi_stops_def g'\<close>)
  have ngiven: "ir_state (io_results g ! k) = TestNotGiven" using d(15) t by force
  show ?thesis
  proof (rule ioi_coreI [OF st pre ent stops])
    show "stop_set (io_internal g') \<subseteq> lost_groups (p_groups p) R {} (io_next_given g' - 1)"
      using d(10) lost_groups_mono [of k "Suc k" "p_groups p" R "{}"] t(1) by (simp add: g' del: lost_groups.simps)
  next
    fix a b assume ab: "io_given g' a = Some b"
    show "job_type b = TestJob \<and> 1 \<le> job_test b \<and> job_test b < io_next_given g' \<and>
        ir_state (io_results g' ! (job_test b - 1)) = TestRunning"
    proof (cases "io_given g a = Some b")
      case True
      then have b: "job_type b = TestJob" "1 \<le> job_test b" "job_test b < Suc k"
        "ir_state (io_results g ! (job_test b - 1)) = TestRunning" using d(12) t(1) by auto
      then show ?thesis using old [of "job_test b"] by (simp add: g')
    next
      case False
      then have "b = j" "s = TestRunning" "job_type j = TestJob" "job_test j = Suc k"
        using s ab by (auto simp: g' split: if_splits)
      then show ?thesis using new by (simp add: g')
    qed
  next
    fix a a' b b' assume "io_given g' a = Some b" "io_given g' a' = Some b'" "job_test b = job_test b'"
    moreover have "job_test x < Suc k" if "io_given g y = Some x" for x y using d(12) that t(1) by auto
    ultimately show "a = a'" using s d(13) by (fastforce simp: g' split: if_splits)
  next
    fix u assume u: "1 \<le> u" "u \<le> p_tests p" "ir_state (io_results g' ! (u - 1)) = TestRunning"
    show "\<exists>a b. io_given g' a = Some b \<and> job_test b = u"
    proof (cases "u = Suc k")
      case True
      then have "s = TestRunning" using u new by simp
      then have "io_given g' i = Some j" "job_test j = u" using s True by (auto simp: g')
      then show ?thesis by blast
    next
      case False
      then obtain a b where ab: "io_given g a = Some b" "job_test b = u" using d(14) u old by auto
      then have "io_given g' a = Some b" using s by (cases "a = i") (auto simp: g' domIff)
      then show ?thesis using ab(2) by blast
    qed
  next
    fix u assume u: "1 \<le> u" "u \<le> p_tests p"
    show "ir_state (io_results g' ! (u - 1)) = TestNotGiven \<longleftrightarrow> io_next_given g' \<le> u"
    proof (cases "u = Suc k")
      case True
      then show ?thesis using new s by (auto simp: g')
    next
      case False
      then have "ir_state (io_results g' ! (u - 1)) = TestNotGiven \<longleftrightarrow> Suc k \<le> u"
        using d(15) u old t(1) by simp
      then show ?thesis using False by (auto simp: g')
    qed
  qed (use d t s in \<open>auto simp: g'\<close>)
qed

lemma stop_set_static: "ioi_static p g \<Longrightarrow> h \<in> tg_name ` set (p_groups p) \<Longrightarrow>
    \<exists>ii. io_internal g h = Some ii \<and> (h \<in> stop_set (io_internal g) \<longleftrightarrow> \<not> ig_give ii)"
  by (auto simp: ioi_static_def stop_set_def dest!: equalityD2)

lemma ioi_testing_advance:
  assumes p: "ioi_valid p" and t: "ioi_testing p sc R g" and k: "io_next_given g = Suc k" "Suc k \<le> p_tests p"
    and s: "s = TestFinished \<and> m = io_given g \<and> tg_name (group_at (p_groups p) (Suc k)) \<in> stop_set (io_internal g) \<or>
      s = TestRunning \<and> i \<notin> dom (io_given g) \<and> m = (io_given g)(i \<mapsto> j) \<and> job_type j = TestJob \<and> job_test j = Suc k"
    and g': "g' = g\<lparr>io_results := (io_results g)[k := (io_results g ! k)\<lparr>ir_state := s\<rparr>], io_given := m,
      io_next_given := Suc (Suc k)\<rparr>"
  shows "ioi_testing p sc R g'"
proof -
  have c: "ioi_core p sc R g" using t by (simp add: ioi_testing_def)
  note d = ioi_coreD [OF c]
  have len: "length (io_results g) = p_tests p" using d(1) by (simp add: ioi_static_def)
  have "\<not> ioi_over g'"
  proof (cases "s = TestFinished")
    case True
    then show ?thesis using t s by (auto simp: ioi_testing_def ioi_over_def g')
  next
    case False
    then show ?thesis using s by (auto simp: ioi_over_def g' fun_eq_iff)
  qed
  moreover have "test_waits g'" if nx: "io_next_test g' \<le> p_tests p"
  proof -
    have w: "test_waits g" and n1: "1 \<le> io_next_test g" using t nx d(2) by (simp_all add: ioi_testing_def g' ioi_prefix_def)
    show ?thesis
    proof (cases "io_next_test g = Suc k")
      case True
      show ?thesis
      proof (cases "s = TestRunning")
        case True
        then show ?thesis using \<open>io_next_test g = Suc k\<close> k(2) len by (simp add: test_waits_def g')
      next
        case False
        then have "tg_name (group_at (p_groups p) (Suc k)) \<in> lost_groups (p_groups p) R {} k"
          using s d(10) k(1) by auto
        then have "name_of g (Suc k) \<in> skip_set (io_internal g)"
          using name_of_static [OF d(1), of "Suc k"] k(2) d(2) True by (simp add: ioi_prefix_def)
        moreover have "ir_state (io_results g ! k) = TestNotGiven" using d(15) k by force
        ultimately show ?thesis using w True by (simp add: test_waits_def)
      qed
    next
      case False
      then have "io_results g' ! (io_next_test g - 1) = io_results g ! (io_next_test g - 1)"
        using n1 by (cases "io_next_test g") (simp_all add: g')
      then show ?thesis using w by (simp add: test_waits_def g' name_of_def)
    qed
  qed
  ultimately show ?thesis
    using ioi_core_advance [OF p c k s g'] by (simp add: ioi_testing_def)
qed

lemma ioi_give_core:
  assumes "ioi_valid p" and "ioi_testing p sc R g" and "i \<notin> dom (io_given g)"
  shows "\<exists>g' out. ioi_give (p_tests p) i g = Inr (g', out) \<and> ioi_testing p sc R g' \<and>
    (out = None \<longrightarrow> io_given g' = io_given g \<and> io_next_given g' = Suc (p_tests p)) \<and>
    (\<forall>j. out = Some j \<longrightarrow> io_given g' = (io_given g)(i \<mapsto> j) \<and> io_next_given g < io_next_given g') \<and>
    io_next_given g \<le> io_next_given g'"
  using assms
proof (induction "Suc (p_tests p) - io_next_given g" arbitrary: g rule: less_induct)
  case (less g)
  note 1 = less
  note d = ioi_coreD [OF conjunct1 [OF 1(3) [unfolded ioi_testing_def]]]
  show ?case
  proof (cases "p_tests p < io_next_given g")
    case True
    then have "ioi_give (p_tests p) i g = Inr (g, None)" by (subst ioi_give.simps) (simp add: Let_def)
    then show ?thesis using 1(3) True d(9) by auto
  next
    case False
    then obtain k where k: "io_next_given g = Suc k" "Suc k \<le> p_tests p" using d(8) by (cases "io_next_given g") auto
    let ?gi = "group_at (p_groups p) (Suc k)"
    have gi: "?gi \<in> set (p_groups p)" using group_at_in(1) [OF ioi_validD(1) [OF 1(2)]] k(2) by simp
    obtain ii where ii: "io_internal g (tg_name ?gi) = Some ii"
      "tg_name ?gi \<in> stop_set (io_internal g) \<longleftrightarrow> \<not> ig_give ii"
      using stop_set_static [OF d(1), of "tg_name ?gi"] gi by blast
    have name: "name_of g (Suc k) = tg_name ?gi" using name_of_static [OF d(1), of "Suc k"] k(2) by simp
    have look: "deref (io_internal g (tg_name ?gi)) = Inr ii" "at_index (io_results g) k = Inr (io_results g ! k)"
      "deref (io_groups g (tg_name ?gi)) = Inr ?gi"
      using ii k(2) gi d(1) by (simp_all add: deref_def at_index_def ioi_static_def)
    show ?thesis
    proof (cases "ig_give ii")
      case False
      let ?g = "g\<lparr>io_results := (io_results g)[k := (io_results g ! k)\<lparr>ir_state := TestFinished\<rparr>], io_next_given := Suc (Suc k)\<rparr>"
      have t: "ioi_testing p sc R ?g"
        using ioi_testing_advance [OF 1(2,3) k, of TestFinished "io_given g"] False ii(2) by (cases g) simp
      have "ioi_give (p_tests p) i g = ioi_give (p_tests p) i ?g"
        using k False name look by (subst ioi_give.simps) (simp add: Let_def bindE_def)
      moreover have "Suc (p_tests p) - io_next_given ?g < Suc (p_tests p) - io_next_given g" using k by simp
      note 1(1) [OF this 1(2) t]
      ultimately show ?thesis using 1(4) k(1) by (auto dest: Suc_leD)
    next
      case True
      have "\<exists>req. depends_on g (tg_name ?gi) = Inr req" using look(3) by (simp add: depends_on_def bindE_def)
      then obtain req where req: "depends_on g (tg_name ?gi) = Inr req" ..
      let ?j = "\<lparr>job_id = i, job_submission = gs_id (io_submission g), job_type = TestJob, job_test = Suc k, job_required = req\<rparr>"
      let ?g = "g\<lparr>io_results := (io_results g)[k := (io_results g ! k)\<lparr>ir_state := TestRunning\<rparr>],
        io_given := (io_given g)(i \<mapsto> ?j), io_next_given := Suc (Suc k)\<rparr>"
      have t: "ioi_testing p sc R ?g"
        using ioi_testing_advance [OF 1(2,3) k, of TestRunning "(io_given g)(i \<mapsto> ?j)" i ?j] 1(4) by simp
      have "ioi_give (p_tests p) i g = Inr (?g, Some ?j)"
        using k True name look req by (subst ioi_give.simps) (simp add: Let_def bindE_def)
      then show ?thesis using t k(1) by (intro exI [of _ ?g] exI [of _ "Some ?j"]) simp
    qed
  qed
qed

section \<open>Results of jobs\<close>

lemma prevents_no_skip: "prevents gr (gtr_verdict (no_skip_ioi r)) \<longleftrightarrow> prevents gr (gtr_verdict r)"
  by (auto simp: prevents_def no_skip_ioi_def split: scoring_type.splits)

lemma lost_here:
  assumes "1 \<le> t" and "prevents (group_at grs t) (gtr_verdict (R t))"
  shows "tg_name (group_at grs t) \<in> lost_groups grs R B t"
proof (cases t)
  case (Suc k)
  have "tg_name (group_at grs t) \<in> spread grs (insert (tg_name (group_at grs t)) (lost_groups grs R B k))"
    using spread_mono by blast
  then show ?thesis using assms(2) Suc by (simp add: Let_def prevents_no_skip)
qed (use assms in simp)

lemma populate_scored: "score_given gr \<Longrightarrow> \<exists>x. populateTestJobResult gr r = Inr x"
  by (cases "tg_scoring gr") (simp_all add: populateTestJobResult_def score_given_def)

lemma populate_job:
  "populateTestJobResult gr r = Inr (r', e) \<Longrightarrow> populateTestJobResult gr (r\<lparr>jres_job := i\<rparr>) = Inr (r'\<lparr>jres_job := i\<rparr>, e)"
  by (auto simp: populateTestJobResult_def fill_points_def split: scoring_type.splits if_splits)

lemma settle_job: "buildTestResult j (settle_result (r\<lparr>jres_job := i\<rparr>, e)) = buildTestResult j (settle_result (r, e))"
  by (auto simp: settle_result_def buildTestResult_def split: option.splits)

lemma buildTestResult_cong: "job_test j = job_test j' \<Longrightarrow> buildTestResult j r = buildTestResult j' r"
  by (simp add: buildTestResult_def)

text \<open>The code of \<open>testJobCompleted\<close> records the outcome and stops the groups that the outcome loses.\<close>

lemma ioi_testJobCompleted_eq:
  assumes p: "ioi_valid p" and st: "ioi_static p g" and t: "1 \<le> job_test j" "job_test j \<le> p_tests p"
    and stop: "closed_under (p_groups p) (stop_set (io_internal g))"
  shows "\<exists>m. ioi_testJobCompleted j ((T (job_test j))\<lparr>jres_job := i\<rparr>) g =
      Inr (g\<lparr>io_results := (io_results g)[job_test j - 1 :=
        \<lparr>ir_result = ioi_outcome p T (job_test j), ir_state = TestFinished\<rparr>], io_internal := m\<rparr>) \<and>
    skip_set m = skip_set (io_internal g) \<and> dom m = dom (io_internal g) \<and> closed_under (p_groups p) (stop_set m) \<and>
    stop_set m = (if prevents (group_at (p_groups p) (job_test j)) (gtr_verdict (ioi_outcome p T (job_test j)))
      then spread (p_groups p) (insert (tg_name (group_at (p_groups p) (job_test j))) (stop_set (io_internal g)))
      else stop_set (io_internal g))"
proof -
  let ?t = "job_test j" and ?gi = "group_at (p_groups p) (job_test j)"
  note v = ioi_validD [OF p]
  have gi: "?gi \<in> set (p_groups p)" "score_given ?gi" using group_at_in(1) [OF v(1)] t v(4) by auto
  obtain r e where pop: "populateTestJobResult ?gi (T ?t) = Inr (r, e)" using populate_scored [OF gi(2)] by force
  let ?r = "settle_result (r\<lparr>jres_job := i\<rparr>, e)"
  have out: "buildTestResult j ?r = ioi_outcome p T ?t"
    unfolding settle_job by (simp add: ioi_outcome_def pop) (rule buildTestResult_cong, simp)
  then have verd: "jres_verdict ?r = gtr_verdict (ioi_outcome p T ?t)"
    by (metis buildTestResult_simps(2))
  have name: "name_of g ?t = tg_name ?gi" using name_of_static [OF st t] .
  obtain ii where ii: "io_internal g (tg_name ?gi) = Some ii" using stop_set_static [OF st, of "tg_name ?gi"] gi by blast
  have look: "deref (io_internal g (tg_name ?gi)) = Inr ii" "deref (io_groups g (tg_name ?gi)) = Inr ?gi"
    "at_index (io_results g) (?t - 1) = Inr (io_results g ! (?t - 1))"
    using ii gi st t by (auto simp: deref_def ioi_static_def at_index_def)
  let ?g = "g\<lparr>io_results := (io_results g)[?t - 1 := \<lparr>ir_result = ioi_outcome p T ?t, ir_state = TestFinished\<rparr>]\<rparr>"
  have eq: "ioi_testJobCompleted j ((T ?t)\<lparr>jres_job := i\<rparr>) g =
      stopGivingNewTestsIfNeeded (tg_name ?gi) ?gi (gtr_verdict (ioi_outcome p T ?t)) ?g"
    using look name populate_job [OF pop] by (simp add: ioi_testJobCompleted_def bindE_def Let_def out verd)
  show ?thesis
  proof (cases "prevents ?gi (gtr_verdict (ioi_outcome p T ?t))")
    case False
    then have "ioi_testJobCompleted j ((T ?t)\<lparr>jres_job := i\<rparr>) g = Inr ?g"
      unfolding eq by (simp add: stopGivingNewTestsIfNeeded_def prevents_eq [OF gi(2)] bindE_def)
    moreover have "?g = ?g\<lparr>io_internal := io_internal g\<rparr>" by simp
    ultimately show ?thesis using False stop by (intro exI [of _ "io_internal g"] conjI) simp_all
  next
    case True
    let ?m = "put_stop (spread (p_groups p) (insert (tg_name ?gi) (stop_set (io_internal g))))
      (put_stop {tg_name ?gi} (io_internal g))"
    have dom: "dom (io_internal g) = tg_name ` set (p_groups p)" using st by (simp add: ioi_static_def)
    have in_dom: "tg_name ?gi \<in> dom (io_internal g)" using gi(1) dom by simp
    have one: "stop_set (put_stop {tg_name ?gi} (io_internal g)) = insert (tg_name ?gi) (stop_set (io_internal g))"
      using in_dom by (auto simp: put_sets)
    have "stop_dependent (p_groups p) (put_stop {tg_name ?gi} (io_internal g)) = Inr ?m"
      using stop_dependent_eq [of "[]" "p_groups p" "put_stop {tg_name ?gi} (io_internal g)"] v(2,3) dom one
      by (simp add: put_sets)
    then have "ioi_testJobCompleted j ((T ?t)\<lparr>jres_job := i\<rparr>) g = Inr (?g\<lparr>io_internal := ?m\<rparr>)"
      unfolding eq using True look(1) st
      by (simp add: stopGivingNewTestsIfNeeded_def prevents_eq [OF gi(2)] bindE_def put_one ii ioi_static_def)
    moreover have sub: "spread (p_groups p) (insert (tg_name ?gi) (stop_set (io_internal g))) \<subseteq> tg_name ` set (p_groups p)"
      using spread_subset [of "p_groups p" "insert (tg_name ?gi) (stop_set (io_internal g))"] gi(1) dom
      by (auto simp: stop_set_def)
    have set: "stop_set ?m = spread (p_groups p) (insert (tg_name ?gi) (stop_set (io_internal g)))"
      using sub dom in_dom spread_mono [of "insert (tg_name ?gi) (stop_set (io_internal g))" "p_groups p"]
      by (auto simp: put_sets)
    ultimately show ?thesis
      using True spread_closed [OF v(3,2)]
      by (intro exI [of _ ?m] conjI) (simp_all add: set, simp_all add: put_sets)
  qed
qed

lemma ioi_test_done_core:
  assumes p: "ioi_valid p" and c: "ioi_core p sc (ioi_outcome p T) g" and job: "io_given g i = Some j"
  shows "\<exists>g'. ioi_testJobCompleted j ((T (job_test j))\<lparr>jres_job := i\<rparr>) (g\<lparr>io_given := (io_given g)(i := None)\<rparr>) = Inr g' \<and>
    ioi_core p sc (ioi_outcome p T) g' \<and> io_given g' = (io_given g)(i := None) \<and> io_next_given g' = io_next_given g"
proof -
  let ?t = "job_test j" and ?gi = "group_at (p_groups p) (job_test j)" and ?R = "ioi_outcome p T" and ?grs = "p_groups p"
  note d = ioi_coreD [OF c] and v = ioi_validD [OF p]
  have t: "1 \<le> ?t" "?t < io_next_given g" "?t \<le> p_tests p" "ir_state (io_results g ! (?t - 1)) = TestRunning"
    using d(12) job d(9) by fastforce+
  let ?g = "g\<lparr>io_given := (io_given g)(i := None)\<rparr>"
  have st: "ioi_static p ?g" using d(1) by (simp add: ioi_static_def)
  have cl: "closed_under ?grs (stop_set (io_internal ?g))" using d(4) by (simp add: ioi_stops_def)
  have sel: "io_internal ?g = io_internal g" "io_results ?g = io_results g" by simp_all
  obtain m where m: "ioi_testJobCompleted j ((T ?t)\<lparr>jres_job := i\<rparr>) ?g =
      Inr (?g\<lparr>io_results := (io_results g)[?t - 1 := \<lparr>ir_result = ?R ?t, ir_state = TestFinished\<rparr>], io_internal := m\<rparr>)"
    "skip_set m = skip_set (io_internal g)" "dom m = dom (io_internal g)" "closed_under ?grs (stop_set m)"
    "stop_set m = (if prevents ?gi (gtr_verdict (?R ?t)) then spread ?grs (insert (tg_name ?gi) (stop_set (io_internal g)))
        else stop_set (io_internal g))"
    using ioi_testJobCompleted_eq [OF p st t(1,3) cl, where T = T and i = i] unfolding sel by blast
  let ?h = "?g\<lparr>io_results := (io_results g)[?t - 1 := \<lparr>ir_result = ?R ?t, ir_state = TestFinished\<rparr>], io_internal := m\<rparr>"
  have len: "length (io_results g) = p_tests p" using d(1) by (simp add: ioi_static_def)
  have old: "io_results ?h ! (u - 1) = io_results g ! (u - 1)" if "1 \<le> u" "u \<noteq> ?t" for u
    using that t(1) by (cases u; cases ?t) simp_all
  have new: "io_results ?h ! (?t - 1) = \<lparr>ir_result = ?R ?t, ir_state = TestFinished\<rparr>"
    using len t(1,3) by simp
  have stop_le: "stop_set (io_internal g) \<subseteq> stop_set m" using spread_mono [of "insert (tg_name ?gi) (stop_set (io_internal g))" ?grs] m(5) by auto
  have sub: "stop_set m \<subseteq> lost_groups ?grs ?R {} (io_next_given g - 1)"
  proof (cases "prevents ?gi (gtr_verdict (?R ?t))")
    case True
    have "tg_name ?gi \<in> lost_groups ?grs ?R {} ?t" using lost_here [of ?t ?grs ?R] t(1) True by simp
    moreover have "?t \<le> io_next_given g - 1" using t(1,2) by simp
    ultimately have "tg_name ?gi \<in> lost_groups ?grs ?R {} (io_next_given g - 1)"
      using lost_groups_mono by blast
    moreover have "closed_under ?grs {}" by (simp add: closed_under_def)
    ultimately show ?thesis
      using True m(5) d(10) spread_least [OF _ lost_groups_closed [OF v(3,2), of "{}" ?R "io_next_given g - 1"],
        of "insert (tg_name ?gi) (stop_set (io_internal g))"] by simp
  next
    case False
    then show ?thesis using m(5) d(10) by simp
  qed
  have "ioi_core p sc ?R ?h"
  proof (rule ioi_coreI)
    show "ioi_static p ?h" using d(1) m(3) by (simp add: ioi_static_def)
    show "ioi_prefix p ?R {} ?h" using d(2) m(2) by (simp add: ioi_prefix_def)
    show "ioi_entries p ?R {} ?h"
      unfolding ioi_entries_def
    proof (intro allI impI)
      fix u assume u: "io_next_test ?h \<le> u \<and> 1 \<le> u \<and> u \<le> p_tests p"
      show "gtr_test (ir_result (io_results ?h ! (u - 1))) = u \<and>
        (ir_state (io_results ?h ! (u - 1)) = TestFinished \<longrightarrow>
           tg_name (group_at ?grs u) \<in> lost_groups ?grs ?R {} (u - 1) \<or> ir_result (io_results ?h ! (u - 1)) = ?R u)"
      proof (cases "u = ?t")
        case True
        then show ?thesis unfolding True new
          by (simp add: ioi_outcome_def split: sum.splits)
      next
        case False
        then show ?thesis using d(3) u old [of u] by (simp add: ioi_entries_def)
      qed
    qed
    show "ioi_stops p ?R {} ?h"
      unfolding ioi_stops_def
    proof (intro conjI allI impI)
      fix u assume u: "io_next_test ?h \<le> u \<and> 1 \<le> u \<and> u \<le> p_tests p \<and> ir_state (io_results ?h ! (u - 1)) = TestFinished \<and>
        prevents (group_at ?grs u) (gtr_verdict (no_skip_ioi (?R u))) \<and>
        tg_name (group_at ?grs u) \<notin> lost_groups ?grs ?R {} (u - 1)"
      show "tg_name (group_at ?grs u) \<in> stop_set (io_internal ?h)"
      proof (cases "u = ?t")
        case True
        then show ?thesis using u m(5) spread_mono [of "insert (tg_name ?gi) (stop_set (io_internal g))" ?grs]
          by (auto simp: prevents_no_skip)
      next
        case False
        then show ?thesis using u old [of u] d(4) stop_le by (auto simp: ioi_stops_def)
      qed
    next
      fix u assume u: "1 \<le> u \<and> u < io_next_test ?h \<and> u \<le> p_tests p \<and> ir_state (io_results ?h ! (u - 1)) = TestNotGiven"
      then have "u \<noteq> ?t" using new by auto
      then show "tg_name (group_at ?grs u) \<in> lost_groups ?grs ?R {} (u - 1)"
        using u old [of u] d(4) by (simp add: ioi_stops_def)
    qed (use d(4) m(4) stop_le in \<open>auto simp: ioi_stops_def\<close>)
  next
    fix a b assume "io_given ?h a = Some b"
    then have ab: "io_given g a = Some b" "a \<noteq> i" by (simp_all split: if_splits)
    then have "job_test b \<noteq> ?t" using d(13) job by blast
    then show "job_type b = TestJob \<and> 1 \<le> job_test b \<and> job_test b < io_next_given ?h \<and>
        ir_state (io_results ?h ! (job_test b - 1)) = TestRunning"
      using d(12) ab(1) old [of "job_test b"] by auto
  next
    fix a a' b b' assume "io_given ?h a = Some b" "io_given ?h a' = Some b'" "job_test b = job_test b'"
    then show "a = a'" using d(13) by (simp split: if_splits)
  next
    fix u assume u: "1 \<le> u" "u \<le> p_tests p" "ir_state (io_results ?h ! (u - 1)) = TestRunning"
    then have ut: "u \<noteq> ?t" using new by auto
    then obtain a b where ab: "io_given g a = Some b" "job_test b = u" using d(14) u old by auto
    then have "a \<noteq> i" using job ut by auto
    then show "\<exists>a b. io_given ?h a = Some b \<and> job_test b = u" using ab by auto
  next
    fix u assume u: "1 \<le> u" "u \<le> p_tests p"
    show "ir_state (io_results ?h ! (u - 1)) = TestNotGiven \<longleftrightarrow> io_next_given ?h \<le> u"
    proof (cases "u = ?t")
      case True
      then show ?thesis using new t(2) by simp
    next
      case False
      then show ?thesis using d(15) u old by simp
    qed
  qed (use d sub in simp_all)
  then show ?thesis using m(1) by auto
qed

section \<open>Compilation\<close>

text \<open>A generator that was created and has no result of the compilation yet.\<close>

definition ioi_fresh :: "problem \<Rightarrow> gsubmission \<Rightarrow> ioi \<Rightarrow> bool" where
  "ioi_fresh p s g \<longleftrightarrow> ioi_static p g \<and> io_submission g = s\<lparr>gs_verdict := V_RU\<rparr> \<and>
     io_next_test g = 1 \<and> io_next_group g = 1 \<and> io_next_given g = 1 \<and>
     skip_set (io_internal g) = {} \<and> stop_set (io_internal g) = {} \<and>
     (\<forall>t. 1 \<le> t \<and> t \<le> p_tests p \<longrightarrow> io_results g ! (t - 1) = new_result t)"

lemma add_groups_sets:
  assumes "skip_set (io_internal g) = {}" and "stop_set (io_internal g) = {}"
  shows "skip_set (io_internal (foldl (\<lambda>g gr. add_group gr g) g grs)) = {}"
    and "stop_set (io_internal (foldl (\<lambda>g gr. add_group gr g) g grs)) = {}"
    and "dom (io_internal (foldl (\<lambda>g gr. add_group gr g) g grs)) = dom (io_internal g) \<union> tg_name ` set grs"
proof -
  have "skip_set (io_internal (add_group gr g)) = {} \<and> stop_set (io_internal (add_group gr g)) = {} \<and>
      dom (io_internal (add_group gr g)) = insert (tg_name gr) (dom (io_internal g))"
    if "skip_set (io_internal g) = {}" "stop_set (io_internal g) = {}" for g gr
    using that by (auto simp: add_group_sel skip_set_def stop_set_def split: if_splits)
  then have "skip_set (io_internal (foldl (\<lambda>g gr. add_group gr g) g grs)) = {} \<and>
      stop_set (io_internal (foldl (\<lambda>g gr. add_group gr g) g grs)) = {} \<and>
      dom (io_internal (foldl (\<lambda>g gr. add_group gr g) g grs)) = dom (io_internal g) \<union> tg_name ` set grs"
    using assms by (induction grs arbitrary: g) simp_all
  then show "skip_set (io_internal (foldl (\<lambda>g gr. add_group gr g) g grs)) = {}"
    and "stop_set (io_internal (foldl (\<lambda>g gr. add_group gr g) g grs)) = {}"
    and "dom (io_internal (foldl (\<lambda>g gr. add_group gr g) g grs)) = dom (io_internal g) \<union> tg_name ` set grs" by simp_all
qed

lemma NewIOI_fresh:
  assumes "NewIOIGenerator p s = Inr g"
  shows "ioi_valid p" "ioi_fresh p s g" "io_state g = CompilationNotStarted" "io_given g = Map.empty"
proof -
  let ?g0 = "\<lparr>io_submission = s\<lparr>gs_verdict := V_RU\<rparr>, io_problem = p, io_state = CompilationNotStarted,
      io_given = Map.empty, io_groups = Map.empty, io_internal = Map.empty, io_names = Map.empty,
      io_results = [], io_next_test = 1, io_next_group = 1, io_next_given = 1\<rparr> :: ioi"
  have p: "ioi_valid p" and g: "g = foldl (\<lambda>g gr. add_group gr g) ?g0 (p_groups p)"
    using assms unfolding NewIOIGenerator_eq by auto
  note v = ioi_validD [OF p]
  have res: "io_results g = map new_result [1..<Suc (p_tests p)]"
    using add_groups_results [OF v(1), of ?g0] unfolding g by simp
  have nm: "io_names g (t - 1) = Some (tg_name (group_at (p_groups p) t))" if "1 \<le> t" "t \<le> p_tests p" for t
    using add_groups_names [OF v(1), of t ?g0] that unfolding g by simp
  have sets: "skip_set (io_internal g) = {}" "stop_set (io_internal g) = {}" "dom (io_internal g) = tg_name ` set (p_groups p)"
    unfolding g by (subst add_groups_sets; simp add: skip_set_def stop_set_def)+
  have "ioi_static p g"
    using add_groups_info(1) [OF v(2)] res nm sets(3) unfolding ioi_static_def g by (simp add: add_groups_fields del: upt_Suc)
  moreover have "io_results g ! (t - 1) = new_result t" if "1 \<le> t" "t \<le> p_tests p" for t
    using that by (simp add: res del: upt_Suc)
  ultimately show "ioi_fresh p s g"
    using sets(1,2) unfolding ioi_fresh_def g by (simp add: add_groups_fields del: upt_Suc)
  show "ioi_valid p" "io_state g = CompilationNotStarted" "io_given g = Map.empty"
    using p unfolding g by (simp_all add: add_groups_fields)
qed

lemma fresh_loop:
  assumes v: "ioi_valid p" and f: "ioi_fresh p s g" "gs_results s = []" "gs_groups s = []"
  shows "ioi_prefix p R {} g" "ioi_entries p R B g" "ioi_stops p R {} g"
    "1 \<le> t \<Longrightarrow> t \<le> p_tests p \<Longrightarrow> ir_state (io_results g ! (t - 1)) = TestNotGiven"
proof -
  have "tg_last gr \<noteq> 0" if "gr \<in> set (p_groups p)" for gr
    using groups_cover_first [OF ioi_validD(1) [OF v] that] by simp
  then have d: "done_groups (p_groups p) 0 = []" by (auto simp: done_groups_def filter_empty_conv)
  show "ioi_prefix p R {} g" "ioi_entries p R B g"
    using f d by (simp_all add: ioi_fresh_def ioi_prefix_def ioi_entries_def new_result_def ref_results_simps)
  show "ioi_stops p R {} g"
    using f(1) by (auto simp: ioi_fresh_def ioi_stops_def new_result_def closed_under_def)
  show "1 \<le> t \<Longrightarrow> t \<le> p_tests p \<Longrightarrow> ir_state (io_results g ! (t - 1)) = TestNotGiven"
    using f(1) by (simp add: ioi_fresh_def new_result_def)
qed

text \<open>A failed compilation: all tests are skipped in one go.\<close>

lemma ioi_failed_update:
  assumes p: "ioi_valid p" and f: "ioi_fresh p s g" "gs_results s = []" "gs_groups s = []" and c: "c \<noteq> V_RU"
    and given: "io_given g = Map.empty" and st: "io_state g = CompilationStarted"
    and fine: "groups_fine p R (lost_first p c)"
    and h: "h = g\<lparr>io_internal := put_skip (tg_name ` set (p_groups p)) (io_internal g),
      io_submission := s\<lparr>gs_verdict := c, gs_compilation := x\<rparr>\<rparr>"
  shows "\<exists>g' s'. ioi_update h = Inr (g', True, Some s') \<and> ioi_spent g' \<and> ioi_final p (gs_score s) c R s' \<and>
    io_given g' = Map.empty \<and> io_state g' = CompilationStarted \<and> io_problem g' = p"
proof -
  let ?B = "tg_name ` set (p_groups p)"
  have B: "lost_first p c = ?B" using c by (simp add: lost_first_def)
  have dom: "dom (io_internal g) = ?B" using f(1) by (simp add: ioi_fresh_def ioi_static_def)
  have skip: "skip_set (io_internal h) = ?B"
    using dom f(1) by (simp add: h put_sets ioi_fresh_def)
  have static: "ioi_static p h" using f(1) by (simp add: h ioi_fresh_def ioi_static_def put_sets)
  have res: "io_results h = io_results g" by (simp add: h)
  have "tg_last gr \<noteq> 0" if "gr \<in> set (p_groups p)" for gr
    using groups_cover_first [OF ioi_validD(1) [OF p] that] by simp
  then have "done_groups (p_groups p) 0 = []" by (auto simp: done_groups_def filter_empty_conv)
  then have pre: "ioi_prefix p R ?B h"
    using f skip by (simp add: ioi_prefix_def ioi_fresh_def h ref_results_simps)
  have ent: "ioi_entries p R ?B h"
    using f(1) by (simp add: ioi_entries_def ioi_fresh_def h new_result_def)
  obtain g' u where g': "ioi_update_loop (p_tests p) h False = Inr (g', u)" "ioi_static p g'" "ioi_prefix p R ?B g'"
    "same_frame h g'" "p_tests p < io_next_test g' \<or> test_waits g'"
    using ioi_update_loop_ref [OF p fine [unfolded B] static pre ent, of False] by blast
  have "io_next_test g' = Suc (p_tests p)"
  proof (rule ccontr)
    assume "io_next_test g' \<noteq> Suc (p_tests p)"
    then have n: "1 \<le> io_next_test g'" "io_next_test g' \<le> p_tests p" and w: "test_waits g'"
      using g'(3,5) by (auto simp: ioi_prefix_def)
    have "ir_state (io_results g' ! (io_next_test g' - 1)) = TestNotGiven"
      using same_frame_state [OF g'(4), of "io_next_test g' - 1"] n static res f(1)
      by (simp add: ioi_static_def ioi_fresh_def new_result_def)
    moreover have "name_of g' (io_next_test g') \<in> ?B"
      using name_of_static [OF g'(2) n] group_at_in(1) [OF ioi_validD(1) [OF p], of "io_next_test g'"] n by simp
    moreover have "?B \<subseteq> skip_set (io_internal g')"
      using g'(3) lost_groups_mono [of 0 "io_next_test g' - 1" "p_groups p" R ?B] by (simp add: ioi_prefix_def)
    ultimately show False using w by (auto simp: test_waits_def)
  qed
  moreover have fr: "io_given g' = Map.empty" "io_state g' = CompilationStarted"
    "gs_verdict (io_submission g') = c" "gs_score (io_submission g') = gs_score s"
    using g'(4) given st by (simp_all add: same_frame_def h)
  ultimately obtain s' where s': "setFinalScoreAndVerdict g' = Inr (g'\<lparr>io_submission := s'\<rparr>)"
    "ioi_final p (gs_score s) c R s'" and len: "length (p_groups p) < io_next_group g'"
    using ioi_final_step [OF p g'(2) g'(3) [folded B]] by blast
  have pr: "io_problem h = p" "io_problem g' = p" using static g'(2) by (simp_all add: ioi_static_def)
  have "ioi_update h = Inr (g'\<lparr>io_submission := s'\<rparr>, True, Some s')"
    using g'(1) pr s'(1) len fr \<open>io_next_test g' = Suc (p_tests p)\<close>
    by (simp add: ioi_update_def Let_def bindE_def)
  then show ?thesis
    using s'(2) fr pr \<open>io_next_test g' = Suc (p_tests p)\<close>
    by (intro exI [of _ "g'\<lparr>io_submission := s'\<rparr>"] exI [of _ s']) (simp, simp add: ioi_spent_def)
qed

section \<open>The contract\<close>

text \<open>
  The hypotheses under which the generator keeps its contract: the problem is accepted, the submission
  is new, and every group of the reference has a score (\<open>groups_fine\<close>).
\<close>

definition ioi_ok :: "problem \<Rightarrow> gsubmission \<Rightarrow> job_result \<Rightarrow> (nat \<Rightarrow> job_result) \<Rightarrow> ioi \<Rightarrow> bool" where
  "ioi_ok p s C T g \<longleftrightarrow> ioi_valid p \<and> gs_results s = [] \<and> gs_groups s = [] \<and>
     groups_fine p (ioi_outcome p T) (lost_first p (start_verdict C)) \<and>
     (case io_state g of
        CompilationNotStarted \<Rightarrow> ioi_fresh p s g \<and> io_given g = Map.empty
      | CompilationStarted \<Rightarrow> ioi_fresh p s g \<and> (\<exists>i j. io_given g = [i \<mapsto> j] \<and> job_type j = CompileJob)
      | CompilationFinished \<Rightarrow> start_verdict C = V_RU \<and> ioi_testing p (gs_score s) (ioi_outcome p T) g)"

definition ioi_complete :: "job_result \<Rightarrow> ioi \<Rightarrow> panic + ioi \<times> gsubmission option" where
  "ioi_complete r g = bindE (ioi_JobCompleted r g) (\<lambda>(g, a).
     Inr (g, case a of Answered updated out \<Rightarrow> out | UnknownJob i \<Rightarrow> None))"

lemma ioi_next_ok:
  assumes ok: "ioi_ok p s C T g" and new: "i \<notin> dom (io_given g)"
  shows "\<exists>g' j. ioi_NextJob i g = Inr (g', j) \<and> ioi_ok p s C T g' \<and>
    (j = None \<longrightarrow> io_given g \<noteq> Map.empty \<and> ioi_work g' \<le> ioi_work g) \<and> (j \<noteq> None \<longrightarrow> ioi_work g' < ioi_work g)"
proof (cases "io_state g")
  case CompilationNotStarted
  let ?j = "\<lparr>job_id = i, job_submission = gs_id (io_submission g), job_type = CompileJob, job_test = 0, job_required = {}\<rparr>"
  let ?g = "g\<lparr>io_state := CompilationStarted, io_given := [i \<mapsto> ?j]\<rparr>"
  have f: "ioi_fresh p s g" "io_given g = Map.empty" using ok CompilationNotStarted by (simp_all add: ioi_ok_def)
  then have "ioi_fresh p s ?g" by (simp add: ioi_fresh_def ioi_static_def)
  moreover have "\<exists>a b. [i \<mapsto> ?j] = [a \<mapsto> b] \<and> job_type b = CompileJob" by (metis job.select_convs(3))
  ultimately have "ioi_ok p s C T ?g" using ok by (simp add: ioi_ok_def)
  moreover have "ioi_NextJob i g = Inr (?g, Some ?j)"
    using CompilationNotStarted f(2) by (simp add: ioi_NextJob_def Let_def)
  moreover have "ioi_work ?g < ioi_work g" using CompilationNotStarted by (simp add: ioi_work_def Let_def)
  ultimately show ?thesis by blast
next
  case CompilationStarted
  then show ?thesis using ok by (auto simp: ioi_ok_def ioi_NextJob_def fun_eq_iff split: if_splits)
next
  case CompilationFinished
  let ?R = "ioi_outcome p T"
  have v: "ioi_valid p" and t: "ioi_testing p (gs_score s) ?R g" using ok CompilationFinished by (simp_all add: ioi_ok_def)
  note d = ioi_coreD [OF conjunct1 [OF t [unfolded ioi_testing_def]]]
  obtain g' out where g': "ioi_give (p_tests p) i g = Inr (g', out)" "ioi_testing p (gs_score s) ?R g'"
    "out = None \<longrightarrow> io_given g' = io_given g \<and> io_next_given g' = Suc (p_tests p)"
    "\<forall>j. out = Some j \<longrightarrow> io_given g' = (io_given g)(i \<mapsto> j) \<and> io_next_given g < io_next_given g'"
    "io_next_given g \<le> io_next_given g'"
    using ioi_give_core [OF v t new] by blast
  note d' = ioi_coreD [OF conjunct1 [OF g'(2) [unfolded ioi_testing_def]]]
  have "ioi_ok p s C T g'" using ok CompilationFinished g'(2) d'(5) unfolding ioi_ok_def by auto
  moreover have "ioi_NextJob i g = Inr (g', out)"
    using CompilationFinished g'(1) d(1) by (simp add: ioi_NextJob_def ioi_static_def)
  moreover have pr: "io_problem g = p" "io_problem g' = p" using d(1) d'(1) by (simp_all add: ioi_static_def)
  moreover have "io_given g \<noteq> Map.empty \<and> ioi_work g' \<le> ioi_work g" if "out = None"
  proof
    show "ioi_work g' \<le> ioi_work g" using that g'(3,5) pr d(5) d'(5) by (simp add: ioi_work_def Let_def)
    show "io_given g \<noteq> Map.empty"
    proof
      assume e: "io_given g = Map.empty"
      then have "io_next_test g' \<le> p_tests p" and w: "test_waits g'"
        using g'(2,3) that d'(5) pr by (auto simp: ioi_testing_def ioi_over_def)
      moreover have "1 \<le> io_next_test g'" using d'(2) by (simp add: ioi_prefix_def)
      ultimately show False
        using d'(14,15) e g'(3) that by (fastforce simp: test_waits_def)
    qed
  qed
  moreover have "ioi_work g' < ioi_work g" if "out = Some j" for j
  proof -
    have "io_given g' = (io_given g)(i \<mapsto> j)" "io_next_given g < io_next_given g'" using g'(4) that by auto
    moreover have "card (dom ((io_given g)(i \<mapsto> j))) = Suc (card (dom (io_given g)))" using d(11) new by simp
    ultimately show ?thesis using pr d(5) d'(5,9) by (simp add: ioi_work_def Let_def)
  qed
  ultimately show ?thesis by blast
qed

lemma ioi_compile_core:
  assumes p: "ioi_valid p" and f: "ioi_fresh p s g" "gs_results s = []" "gs_groups s = []"
    and given: "io_given g = Map.empty"
  shows "ioi_core p (gs_score s) R (g\<lparr>io_state := CompilationFinished,
    io_submission := (io_submission g)\<lparr>gs_compilation := x\<rparr>\<rparr>)"
proof -
  note l = fresh_loop [OF p f]
  show ?thesis
    by (rule ioi_coreI) (use f(1) given l in \<open>auto simp: ioi_fresh_def ioi_static_def ioi_prefix_def ioi_entries_def
      ioi_stops_def new_result_def\<close>)
qed

lemma ioi_complete_ok:
  assumes ok: "ioi_ok p s C T g" and job: "io_given g i = Some j"
  shows "\<exists>g' out. ioi_complete (job_report C T i j) g = Inr (g', out) \<and> ioi_work g' < ioi_work g \<and>
    (out = None \<and> ioi_ok p s C T g' \<or>
     (\<exists>s'. out = Some s' \<and> ioi_spent g' \<and> ioi_final p (gs_score s) (start_verdict C) (ioi_outcome p T) s'))"
proof -
  let ?R = "ioi_outcome p T" and ?r = "job_report C T i j"
  have v: "ioi_valid p" and new: "gs_results s = []" "gs_groups s = []"
    and fine: "groups_fine p ?R (lost_first p (start_verdict C))"
    using ok by (simp_all add: ioi_ok_def)
  have lift: "?thesis"
    if eq: "ioi_complete ?r g = bindE (ioi_update h) (\<lambda>(g, updated, out). Inr (g, out))"
      and c: "ioi_core p (gs_score s) ?R h" and run: "start_verdict C = V_RU" and less: "ioi_work h < ioi_work g" for h
  proof -
    have "groups_fine p ?R {}" using fine run by (simp add: lost_first_def)
    then obtain g' u out where g': "ioi_update h = Inr (g', u, out)" "ioi_work g' = ioi_work h"
      "out = None \<and> ioi_testing p (gs_score s) ?R g' \<or> (\<exists>s'. out = Some s' \<and> ioi_spent g' \<and> ioi_final p (gs_score s) V_RU ?R s')"
      using ioi_update_core [OF v _ c] by blast
    have "ioi_ok p s C T g'" if t: "ioi_testing p (gs_score s) ?R g'"
      using v new fine run t ioi_coreD(5) [OF conjunct1 [OF t [unfolded ioi_testing_def]]]
      unfolding ioi_ok_def by simp
    then have "out = None \<and> ioi_ok p s C T g' \<or>
        (\<exists>s'. out = Some s' \<and> ioi_spent g' \<and> ioi_final p (gs_score s) (start_verdict C) ?R s')"
      using g'(3) run by auto
    moreover have "ioi_complete ?r g = Inr (g', out)" using eq g'(1) by (simp add: bindE_def)
    moreover have "ioi_work g' < ioi_work g" using g'(2) less by simp
    ultimately show ?thesis by blast
  qed
  show ?thesis
  proof (cases "io_state g")
    case CompilationNotStarted
    then show ?thesis using ok job by (simp add: ioi_ok_def)
  next
    case CompilationFinished
    then have t: "ioi_core p (gs_score s) ?R g" and run: "start_verdict C = V_RU"
      using ok by (simp_all add: ioi_ok_def ioi_testing_def)
    note d = ioi_coreD [OF t]
    have tj: "job_type j = TestJob" using d(12) job by blast
    then have r: "?r = (T (job_test j))\<lparr>jres_job := i\<rparr>" by (simp add: job_report_def)
    obtain h where h: "ioi_testJobCompleted j ((T (job_test j))\<lparr>jres_job := i\<rparr>) (g\<lparr>io_given := (io_given g)(i := None)\<rparr>) = Inr h"
      "ioi_core p (gs_score s) ?R h" "io_given h = (io_given g)(i := None)" "io_next_given h = io_next_given g"
      using ioi_test_done_core [OF v t job] by blast
    show ?thesis
    proof (rule lift [OF _ h(2) run])
      show "ioi_complete ?r g = bindE (ioi_update h) (\<lambda>(g, updated, out). Inr (g, out))"
        using job tj h(1)
        by (simp add: ioi_complete_def ioi_JobCompleted_def r Let_def bindE_def split: sum.split)
      have "card (dom ((io_given g)(i := None))) < card (dom (io_given g))"
        using d(11) job by (auto intro: psubset_card_mono)
      then show "ioi_work h < ioi_work g"
        using h(3,4) d(1,5) ioi_coreD(1,5) [OF h(2)] by (simp add: ioi_work_def Let_def ioi_static_def)
    qed
  next
    case CompilationStarted
    then obtain a b where f: "ioi_fresh p s g" and ab: "io_given g = [a \<mapsto> b]" "job_type b = CompileJob"
      using ok by (auto simp: ioi_ok_def)
    have "a = i" "b = j" using job ab(1) by (simp_all split: if_splits)
    then have none: "(io_given g)(i := None) = Map.empty" and cj: "job_type j = CompileJob" and one: "dom (io_given g) = {i}"
      using ab by simp_all
    let ?g = "g\<lparr>io_given := Map.empty\<rparr>"
    have f': "ioi_fresh p s ?g" using f by (simp add: ioi_fresh_def ioi_static_def)
    have sub: "io_submission g = s\<lparr>gs_verdict := V_RU\<rparr>" and pr: "io_problem g = p"
      and dom: "dom (io_internal g) = tg_name ` set (p_groups p)"
      using f by (simp_all add: ioi_fresh_def ioi_static_def)
    have r: "?r = C\<lparr>jres_job := i\<rparr>" by (simp add: job_report_def cj)
    have nv: "jres_verdict (normal_compile (C\<lparr>jres_job := i\<rparr>)) = jres_verdict (normal_compile C)"
      by (simp add: normal_compile_def)
    let ?x = "Some (buildTestResult j (normal_compile (C\<lparr>jres_job := i\<rparr>)))"
    show ?thesis
    proof (cases "jres_verdict (normal_compile C) = V_CD")
      case True
      let ?h = "?g\<lparr>io_state := CompilationFinished, io_submission := (io_submission ?g)\<lparr>gs_compilation := ?x\<rparr>\<rparr>"
      have run: "start_verdict C = V_RU" using True by (simp add: start_verdict_def)
      show ?thesis
      proof (rule lift [OF _ ioi_compile_core [OF v f' new] run])
        show "ioi_complete ?r g = bindE (ioi_update ?h) (\<lambda>(g, updated, out). Inr (g, out))"
          using job cj none True nv
          by (simp add: ioi_complete_def ioi_JobCompleted_def ioi_compileJobCompleted_def r Let_def bindE_def split: sum.split)
        show "ioi_work ?h < ioi_work g"
          using CompilationStarted pr f one by (simp add: ioi_work_def Let_def ioi_fresh_def)
      qed simp
    next
      case False
      let ?c = "jres_verdict (normal_compile C)"
      have c: "start_verdict C = ?c" "?c \<noteq> V_RU" using False normal_compile_not_running by (simp_all add: start_verdict_def Let_def)
      let ?h = "?g\<lparr>io_internal := put_skip (tg_name ` set (p_groups p)) (io_internal ?g),
        io_submission := s\<lparr>gs_verdict := ?c, gs_compilation := ?x\<rparr>\<rparr>"
      have "\<exists>g' s'. ioi_update ?h = Inr (g', True, Some s') \<and> ioi_spent g' \<and> ioi_final p (gs_score s) ?c ?R s' \<and>
          io_given g' = Map.empty \<and> io_state g' = CompilationStarted \<and> io_problem g' = p"
        by (rule ioi_failed_update [OF v f' new c(2) _ _ fine [unfolded c(1)] refl]) (simp_all add: CompilationStarted)
      then obtain g' s' where g': "ioi_update ?h = Inr (g', True, Some s')" "ioi_final p (gs_score s) ?c ?R s'"
        "io_given g' = Map.empty" "io_state g' = CompilationStarted" "io_problem g' = p" "ioi_spent g'"
        by blast
      have "skip_all (p_groups p) (io_internal g) = Inr (put_skip (tg_name ` set (p_groups p)) (io_internal g))"
        using skip_all_eq dom by simp
      then have "ioi_complete ?r g = Inr (g', Some s')"
        using job cj none False nv pr sub g'(1)
        by (simp add: ioi_complete_def ioi_JobCompleted_def ioi_compileJobCompleted_def r Let_def bindE_def)
      moreover have "ioi_work g' < ioi_work g"
        using CompilationStarted pr g'(3-5) one by (simp add: ioi_work_def Let_def)
      ultimately show ?thesis using g'(2,6) c(1) by auto
    qed
  qed
qed

lemma ioi_given_finite: "ioi_ok p s C T g \<Longrightarrow> finite (dom (io_given g))"
  by (cases "io_state g") (auto simp: ioi_ok_def ioi_testing_def dest: ioi_coreD(11))

text \<open>What both methods do to the given jobs, and that they keep the submission's id.\<close>

definition ioi_keeps :: "ioi \<Rightarrow> ioi \<Rightarrow> bool" where
  "ioi_keeps g g' \<longleftrightarrow> io_given g' = io_given g \<and> gs_id (io_submission g') = gs_id (io_submission g)"

lemma ioi_keeps_trans: "ioi_keeps g g' \<Longrightarrow> ioi_keeps g' g'' \<Longrightarrow> ioi_keeps g g''"
  by (simp add: ioi_keeps_def)

lemma record_result_keeps: "record_result gi ii ir g = Inr g' \<Longrightarrow> ioi_keeps g g'"
  by (auto simp: record_result_def append_result_def ioi_keeps_def bindE_eq_Inr Let_def split: if_splits)

lemma close_test_keeps: "close_test gi g = Inr g' \<Longrightarrow> ioi_keeps g g'"
  by (auto simp: close_test_def completeGroupTesting_def ioi_keeps_def bindE_eq_Inr split: if_splits)

lemma ioi_update_test_keeps: "ioi_update_test g = Inr (Some g') \<Longrightarrow> ioi_keeps g g'"
  by (auto simp: ioi_update_test_def bindE_eq_Inr Let_def split: if_splits
    dest!: record_result_keeps close_test_keeps intro: ioi_keeps_trans)

lemma ioi_update_loop_keeps: "ioi_update_loop n g u = Inr (g', u') \<Longrightarrow> ioi_keeps g g'"
proof (induction n g u rule: ioi_update_loop.induct)
  case (1 n g u)
  show ?case
  proof (cases "n < io_next_test g")
    case True
    then show ?thesis using 1(2) by (subst (asm) ioi_update_loop.simps) (simp add: ioi_keeps_def)
  next
    case False
    consider "ioi_update_test g = Inr None" | h where "ioi_update_test g = Inr (Some h)" | e where "ioi_update_test g = Inl e"
      by (cases "ioi_update_test g") (auto intro: option.exhaust)
    then show ?thesis
    proof cases
      case (2 h)
      then show ?thesis
        using 1 False ioi_keeps_trans [OF ioi_update_test_keeps [OF 2]] by (subst (asm) (2) ioi_update_loop.simps) simp
    qed (use 1(2) False in \<open>subst (asm) ioi_update_loop.simps; simp add: ioi_keeps_def\<close>)+
  qed
qed

lemma setFinalScoreAndVerdict_keeps: "setFinalScoreAndVerdict g = Inr g' \<Longrightarrow> ioi_keeps g g'"
  by (auto simp: setFinalScoreAndVerdict_def ioi_keeps_def Let_def case_prod_beta split: if_splits)

lemma ioi_update_keeps: "ioi_update g = Inr (g', u, out) \<Longrightarrow> ioi_keeps g g'"
  by (auto simp: ioi_update_def Let_def bindE_eq_Inr split: if_splits
    dest!: ioi_update_loop_keeps setFinalScoreAndVerdict_keeps intro: ioi_keeps_trans)

lemma ioi_complete_takes:
  assumes "ioi_JobCompleted r g = Inr (g', a)"
  shows "gs_id (io_submission g') = gs_id (io_submission g) \<and> io_given g' = (io_given g)(jres_job r := None)"
proof (cases "io_given g (jres_job r)")
  case None
  then show ?thesis using assms by (auto simp: ioi_JobCompleted_def)
next
  case (Some j)
  let ?g = "g\<lparr>io_given := (io_given g)(jres_job r := None)\<rparr>"
  obtain h u out where h: "(case job_type j of CompileJob \<Rightarrow> ioi_compileJobCompleted j r ?g | TestJob \<Rightarrow> ioi_testJobCompleted j r ?g) = Inr h"
    and u: "ioi_update h = Inr (g', u, out)"
    using assms Some by (auto simp: ioi_JobCompleted_def Let_def bindE_eq_Inr)
  have "ioi_keeps ?g h"
    using h by (cases "job_type j")
      (auto simp: ioi_compileJobCompleted_def ioi_testJobCompleted_def stopGivingNewTestsIfNeeded_def ioi_keeps_def
        bindE_eq_Inr Let_def split: if_splits)
  from ioi_keeps_trans [OF this ioi_update_keeps [OF u]] show ?thesis by (simp add: ioi_keeps_def)
qed

lemma ioi_give_gives:
  "ioi_give n i g = Inr (g', j) \<Longrightarrow> gs_id (io_submission g') = gs_id (io_submission g) \<and>
     io_given g' = (case j of None \<Rightarrow> io_given g | Some x \<Rightarrow> (io_given g)(i \<mapsto> x)) \<and>
     (\<forall>x. j = Some x \<longrightarrow> job_id x = i \<and> job_submission x = gs_id (io_submission g))"
proof (induction n i g arbitrary: g' j rule: ioi_give.induct)
  case (1 n i g)
  show ?case
  proof (cases "n < io_next_given g")
    case True
    then show ?thesis using 1(2) by (subst (asm) ioi_give.simps) (auto simp: Let_def)
  next
    case False
    then obtain ii ir where d: "deref (io_internal g (name_of g (io_next_given g))) = Inr ii"
      "at_index (io_results g) (io_next_given g - 1) = Inr ir"
      using 1(2) by (subst (asm) ioi_give.simps) (auto simp: Let_def bindE_eq_Inr)
    show ?thesis
    proof (cases "ig_give ii")
      case True
      then show ?thesis
        using 1(2) False d by (subst (asm) ioi_give.simps) (auto simp: Let_def bindE_eq_Inr bindE_def [of "Inr _"])
    next
      case give: False
      let ?g = "g\<lparr>io_results := (io_results g)[io_next_given g - 1 := ir\<lparr>ir_state := TestFinished\<rparr>], io_next_given := io_next_given g + 1\<rparr>"
      have "ioi_give n i ?g = Inr (g', j)"
        using 1(2) False d give by (subst (asm) ioi_give.simps) (simp add: Let_def bindE_def)
      from 1(1) [OF refl refl False give this] show ?thesis by (cases j) simp_all
    qed
  qed
qed

interpretation ioi_generator: ending_generator ioi_NextJob ioi_complete io_given "job_report C T" "ioi_ok p s C T" ioi_work
  "ioi_final p (gs_score s) (start_verdict C) (ioi_outcome p T)" ioi_spent "\<lambda>g. gs_id (io_submission g)" for p s C T
proof
  fix g i assume "ioi_ok p s C T g" and "i \<notin> dom (io_given g)"
  then show "\<exists>g' j. ioi_NextJob i g = Inr (g', j) \<and> ioi_ok p s C T g' \<and>
    (j = None \<longrightarrow> io_given g \<noteq> Map.empty \<and> ioi_work g' \<le> ioi_work g) \<and> (j \<noteq> None \<longrightarrow> ioi_work g' < ioi_work g)"
    by (rule ioi_next_ok)
next
  fix g i j assume ok: "ioi_ok p s C T g" and j: "io_given g i = Some j"
  note c = ioi_complete_ok [OF ok j]
  show "\<exists>g' out. ioi_complete (job_report C T i j) g = Inr (g', out) \<and> ioi_work g' < ioi_work g \<and>
    (out = None \<and> ioi_ok p s C T g' \<or>
     (\<exists>s'. out = Some s' \<and> ioi_final p (gs_score s) (start_verdict C) (ioi_outcome p T) s'))"
    using c by auto
  show "ioi_spent g'" if "ioi_complete (job_report C T i j) g = Inr (g', Some s')" for g' s'
    using c that by auto
next
  fix g i g' j assume "ioi_NextJob i g = Inr (g', j)"
  then show "gs_id (io_submission g') = gs_id (io_submission g) \<and>
     io_given g' = (case j of None \<Rightarrow> io_given g | Some x \<Rightarrow> (io_given g)(i \<mapsto> x)) \<and>
     (\<forall>x. j = Some x \<longrightarrow> job_id x = i \<and> job_submission x = gs_id (io_submission g))"
    by (auto simp: ioi_NextJob_def Let_def split: generator_state.splits dest!: ioi_give_gives)
next
  fix r g g' out assume "ioi_complete r g = Inr (g', out)"
  then show "gs_id (io_submission g') = gs_id (io_submission g) \<and> io_given g' = (io_given g)(jres_job r := None)"
    by (auto simp: ioi_complete_def bindE_eq_Inr dest!: ioi_complete_takes)
qed (auto simp: ioi_spent_next dest: ioi_given_finite, simp add: ioi_spent_def)

end
