(* ===== verification/GoIoiScores.thy ===== *)
theory GoIoiScores
  imports GoIoiRun
begin

text \<open>
  When every group of an IOI submission gets its score, and when scoring panics: groups that are scored
  test by test need points for every test, but a skipped test has none, and neither has a partial
  solution whose checker gave none.
\<close>

section \<open>Points of tests\<close>

definition needs_points :: "test_group \<Rightarrow> bool" where
  "needs_points gr \<longleftrightarrow> tg_scoring gr = ScoringEachTest \<or> tg_scoring gr = ScoringMin"

text \<open>Checkers give points for partial solutions.\<close>

definition points_reported :: "problem \<Rightarrow> (nat \<Rightarrow> job_result) \<Rightarrow> bool" where
  "points_reported p T \<longleftrightarrow> (\<forall>t. 1 \<le> t \<and> t \<le> p_tests p \<and> needs_points (group_at (p_groups p) t) \<longrightarrow>
     \<not> (jres_verdict (T t) = V_PT \<and> jres_points (T t) = None))"

text \<open>Groups that are scored test by test are not skipped: they require nothing, and the compilation succeeds.\<close>

definition each_test_free :: "problem \<Rightarrow> verdict \<Rightarrow> bool" where
  "each_test_free p c \<longleftrightarrow> (\<forall>gr \<in> set (p_groups p). tg_scoring gr = ScoringEachTest \<longrightarrow> tg_required gr = [] \<and> c = V_RU)"

lemma no_skip_points [simp]: "gtr_points (no_skip_ioi r) = gtr_points r"
  by (simp add: no_skip_ioi_def)

lemma fill_points_some:
  assumes "full \<noteq> None" and "\<not> (jres_verdict r = V_PT \<and> jres_points r = None)"
  shows "jres_points (settle_result (fill_points full r)) \<noteq> None"
  using assms by (auto simp: fill_points_def settle_result_def)

lemma outcome_points:
  assumes "score_given (group_at (p_groups p) t)" and "needs_points (group_at (p_groups p) t)"
    and "\<not> (jres_verdict (T t) = V_PT \<and> jres_points (T t) = None)"
  shows "gtr_points (ioi_outcome p T t) \<noteq> None"
  using assms fill_points_some
  by (auto simp: ioi_outcome_def populateTestJobResult_def needs_points_def score_given_def)

lemma spread_avoids:
  assumes "h \<notin> S" and "\<And>gr. gr \<in> set grs \<Longrightarrow> tg_name gr = h \<Longrightarrow> tg_required gr = []"
  shows "h \<notin> spread grs S"
  using assms
proof (induction grs arbitrary: S)
  case (Cons gr grs)
  have "h \<notin> (if \<exists>r \<in> set (tg_required gr). r \<in> S then insert (tg_name gr) S else S)"
    using Cons.prems(1) Cons.prems(2) [of gr] by auto
  then show ?case using Cons.IH Cons.prems(2) by simp
qed simp

lemma each_test_kept:
  assumes d: "distinct (map tg_name grs)" and gr: "gr \<in> set grs" "tg_scoring gr = ScoringEachTest" "tg_required gr = []"
    and cover: "groups_cover 0 grs n" and k: "k \<le> n"
  shows "tg_name gr \<notin> lost_groups grs R {} k"
  using k
proof (induction k)
  case (Suc k)
  have same: "x = gr" if "x \<in> set grs" "tg_name x = tg_name gr" for x
    using d gr(1) that by (simp add: distinct_map inj_on_def)
  let ?x = "group_at grs (Suc k)"
  have x: "?x \<in> set grs" using group_at_in(1) [OF cover] Suc.prems by simp
  show ?case
  proof (cases "prevents ?x (gtr_verdict (no_skip_ioi (R (Suc k))))")
    case True
    then have "?x \<noteq> gr" using gr(2) by (auto simp: prevents_def)
    then have "tg_name gr \<notin> insert (tg_name ?x) (lost_groups grs R {} k)" using same [OF x] Suc by auto
    moreover have "tg_required y = []" if "y \<in> set grs" "tg_name y = tg_name gr" for y using same [OF that] gr(3) by simp
    ultimately have "tg_name gr \<notin> spread grs (insert (tg_name ?x) (lost_groups grs R {} k))" by (rule spread_avoids)
    then show ?thesis using Suc by (simp add: Let_def)
  next
    case False
    then show ?thesis using Suc by (simp add: Let_def)
  qed
qed simp

section \<open>Scores of groups\<close>

lemma sum_points_ok:
  "(\<And>t. t \<in> set ts \<Longrightarrow> t - 1 < length rs \<and> gtr_points (rs ! (t - 1)) \<noteq> None) \<Longrightarrow> \<exists>x. sum_points gr rs ts s = Inr x"
  by (induction ts arbitrary: s) (fastforce simp: at_index_def bindE_def)+

lemma min_points_ok:
  "(\<And>t. t \<in> set ts \<Longrightarrow> t - 1 < length rs \<and> (gtr_points (rs ! (t - 1)) \<noteq> None \<or> gtr_verdict (rs ! (t - 1)) = V_SK)) \<Longrightarrow>
     \<exists>x. min_points gr rs ts s = Inr x"
proof (induction ts arbitrary: s)
  case (Cons t ts)
  have t: "t - 1 < length rs" "gtr_points (rs ! (t - 1)) \<noteq> None \<or> gtr_verdict (rs ! (t - 1)) = V_SK" using Cons.prems by auto
  have "\<exists>x. min_points gr rs ts s = Inr x" for s using Cons by simp
  then show ?case using t by (cases "gtr_points (rs ! (t - 1))") (auto simp: at_index_def bindE_def)
qed simp

lemma sum_points_panics:
  "t \<in> set ts \<Longrightarrow> t - 1 < length rs \<Longrightarrow> gtr_points (rs ! (t - 1)) = None \<Longrightarrow> \<exists>e. sum_points gr rs ts s = Inl e"
  by (induction ts arbitrary: s) (auto simp: at_index_def bindE_def split: option.splits)

lemma min_points_panics:
  "t \<in> set ts \<Longrightarrow> t - 1 < length rs \<Longrightarrow> gtr_points (rs ! (t - 1)) = None \<Longrightarrow> gtr_verdict (rs ! (t - 1)) \<noteq> V_SK \<Longrightarrow>
     \<exists>e. min_points gr rs ts s = Inl e"
  by (induction ts arbitrary: s) (auto simp: at_index_def bindE_def split: option.splits)

lemma ref_results_nth: "1 \<le> t \<Longrightarrow> t \<le> k \<Longrightarrow> ref_results grs R B k ! (t - 1) = ref_result grs R B t"
  by (simp add: ref_results_def del: upt_Suc)

lemma groups_fine_reported:
  assumes p: "ioi_valid p" and reported: "points_reported p T" and free: "each_test_free p c"
  shows "groups_fine p (ioi_outcome p T) (lost_first p c)"
  unfolding groups_fine_def
proof
  fix gr assume gr: "gr \<in> set (p_groups p)"
  let ?grs = "p_groups p" and ?R = "ioi_outcome p T" and ?B = "lost_first p c"
  let ?rs = "ref_results ?grs ?R ?B (tg_last gr)"
  note v = ioi_validD [OF p]
  note b = groups_cover_first [OF v(1) gr]
  have at: "group_at ?grs t = gr" if "tg_first gr \<le> t" "t \<le> tg_last gr" for t
    using group_at_unique [OF v(1) gr] that by (simp add: in_group_def)
  have entry: "?rs ! (t - 1) = ref_result ?grs ?R ?B t \<and> t - 1 < length ?rs" if "tg_first gr \<le> t" "t \<le> tg_last gr" for t
    using that b ref_results_nth [of t "tg_last gr"] by (auto simp: ref_results_simps)
  have points: "gtr_points (?R t) \<noteq> None" if "needs_points gr" "tg_first gr \<le> t" "t \<le> tg_last gr" for t
    using outcome_points [of p t T] v(4) [OF gr] reported that at [OF that(2,3)] b by (auto simp: points_reported_def)
  have "tg_first gr - 1 \<le> tg_last gr" using b by linarith
  then have "\<exists>vd. calcGroupVerdict gr ?rs = Inr vd"
    using b by (simp add: calcGroupVerdict_def group_slice_def ref_results_simps bindE_def)
  then obtain vd where vd: "calcGroupVerdict gr ?rs = Inr vd" ..
  have "\<exists>x. group_points gr ?rs vd = Inr x"
  proof (cases "tg_scoring gr")
    case ScoringComplete
    then show ?thesis using v(4) [OF gr] by (auto simp: group_points_def score_given_def deref_def)
  next
    case ScoringEachTest
    then have req: "tg_required gr = []" "?B = {}" using free gr by (auto simp: each_test_free_def lost_first_def)
    have "gtr_points (?rs ! (t - 1)) \<noteq> None" if t: "tg_first gr \<le> t" "t \<le> tg_last gr" for t
    proof -
      have "t - 1 \<le> p_tests p" using t b by linarith
      from each_test_kept [OF v(2) gr ScoringEachTest req(1) v(1) this]
      have "tg_name gr \<notin> lost_groups ?grs ?R {} (t - 1)" .
      then show ?thesis
        using entry [OF t] at [OF t] points [OF _ t] ScoringEachTest req(2) by (simp add: ref_result_def needs_points_def)
    qed
    then show ?thesis
      using ScoringEachTest sum_points_ok [of "[tg_first gr..<Suc (tg_last gr)]" ?rs gr "Fin 0"] entry
      by (simp add: group_points_def del: upt_Suc)
  next
    case ScoringMin
    have "gtr_points (?rs ! (t - 1)) \<noteq> None \<or> gtr_verdict (?rs ! (t - 1)) = V_SK"
      if t: "tg_first gr \<le> t" "t \<le> tg_last gr" for t
      using entry [OF t] points [OF _ t] ScoringMin by (simp add: ref_result_def needs_points_def)
    moreover obtain x where "tg_group_score gr = Some x" using v(4) [OF gr] ScoringMin by (auto simp: score_given_def)
    ultimately show ?thesis
      using ScoringMin min_points_ok [of "[tg_first gr..<Suc (tg_last gr)]" ?rs gr x] entry
      by (simp add: group_points_def deref_def bindE_def del: upt_Suc)
  next
    case (OtherScoring n)
    then show ?thesis using v(4) [OF gr] by (simp add: score_given_def)
  qed
  then show "\<exists>r. ref_group ?grs ?R ?B gr = Inr r"
    using vd by (auto simp: ref_group_def group_result_def bindE_def)
qed

section \<open>Skipped tests\<close>

text \<open>Groups all of whose tests were skipped fail; they give no points, or cannot be scored.\<close>

lemma all_skipped:
  assumes "groups_cover 0 grs n" and "k \<le> n"
  shows "ref_results grs R (tg_name ` set grs) k = map (\<lambda>t. bare_result t V_SK) [1..<Suc k]"
proof -
  have "ref_result grs R (tg_name ` set grs) t = bare_result t V_SK" if "t \<in> set [1..<Suc k]" for t
    using lost_groups_mono [of 0 "t - 1" grs R "tg_name ` set grs"] group_at_in(1) [OF assms(1), of t] that assms(2)
    by (auto simp: ref_result_def simp del: upt_Suc)
  then show ?thesis unfolding ref_results_def by (rule map_cong [OF refl])
qed

lemma min_points_skipped:
  "(\<And>t. t \<in> set ts \<Longrightarrow> t - 1 < length rs \<and> gtr_points (rs ! (t - 1)) = None \<and> gtr_verdict (rs ! (t - 1)) = V_SK) \<Longrightarrow>
     ts \<noteq> [] \<Longrightarrow> min_points gr rs ts s = Inr (Fin 0)"
proof (induction ts arbitrary: s)
  case (Cons t ts)
  have "ts = [] \<or> (\<forall>s. min_points gr rs ts s = Inr (Fin 0))" using Cons by auto
  then show ?case using Cons.prems by (auto simp: at_index_def bindE_def)
qed simp

lemma skipped_group:
  assumes p: "ioi_valid p" and gr: "gr \<in> set (p_groups p)" "tg_scoring gr \<noteq> ScoringEachTest"
    and r: "ref_group (p_groups p) R (tg_name ` set (p_groups p)) gr = Inr r"
  shows "ggr_points r = Fin 0 \<and> \<not> ggr_passed r"
proof -
  note v = ioi_validD [OF p]
  note b = groups_cover_first [OF v(1) gr(1)]
  let ?rs = "map (\<lambda>t. bare_result t V_SK) [1..<Suc (tg_last gr)]"
  have r': "group_result gr ?rs = Inr r" using r all_skipped [OF v(1), of "tg_last gr" R] b by (simp add: ref_group_def)
  have first: "tg_first gr - 1 < tg_last gr" using b by linarith
  then have "drop (tg_first gr - 1) ?rs \<noteq> []" by (simp del: upt_Suc)
  then obtain x where x: "x \<in> set (drop (tg_first gr - 1) ?rs)"
    unfolding set_empty [symmetric] ex_in_conv [symmetric] by (elim exE) iprover
  then have "gtr_verdict x = V_SK" using set_drop_subset [of "tg_first gr - 1" ?rs] by (auto simp del: upt_Suc)
  then have "gtr_verdict x \<noteq> V_OK" by simp
  with x have "\<exists>x \<in> set (drop (tg_first gr - 1) ?rs). gtr_verdict x \<noteq> V_OK" ..
  moreover have "group_slice gr ?rs = Inr (drop (tg_first gr - 1) ?rs)"
    using b less_imp_le [OF first] by (simp add: group_slice_def del: upt_Suc)
  ultimately have vd: "calcGroupVerdict gr ?rs = Inr V_PT" by (simp add: calcGroupVerdict_def bindE_def del: upt_Suc)
  have "?rs ! (t - 1) = bare_result t V_SK" if "t \<in> set [tg_first gr..<Suc (tg_last gr)]" for t
    using that b by (auto simp del: upt_Suc)
  then have "min_points gr ?rs [tg_first gr..<Suc (tg_last gr)] y = Inr (Fin 0)" for y
    using b by (intro min_points_skipped) (auto simp del: upt_Suc)
  note min = this
  have "group_points gr ?rs V_PT = Inr (ggr_points r)" "ggr_passed r = False"
    using r' vd by (auto simp: group_result_def bindE_eq_Inr)
  then show ?thesis
    using min gr(2) v(4) [OF gr(1)]
    by (cases "tg_scoring gr") (auto simp: group_points_def bindE_eq_Inr score_given_def deref_def)
qed

section \<open>Panics\<close>

text \<open>A compilation error reaches every group, and one that is scored test by test has no points to add up.\<close>

lemma ioi_update_loop_panics:
  assumes "ioi_valid p" and "ioi_static p g" and "ioi_prefix p R (tg_name ` set (p_groups p)) g"
    and "ioi_entries p R (tg_name ` set (p_groups p)) g"
    and "\<And>t. 1 \<le> t \<Longrightarrow> t \<le> p_tests p \<Longrightarrow> ir_state (io_results g ! (t - 1)) \<noteq> TestRunning"
    and "gr \<in> set (p_groups p)" and "io_next_test g \<le> tg_last gr"
    and "ref_group (p_groups p) R (tg_name ` set (p_groups p)) gr = Inl e"
  shows "\<exists>e. ioi_update_loop (p_tests p) g u = Inl e"
  using assms
proof (induction "p_tests p" g u rule: ioi_update_loop.induct)
  case (1 g u)
  let ?B = "tg_name ` set (p_groups p)"
  note v = ioi_validD [OF 1(2)]
  have le: "io_next_test g \<le> p_tests p" using groups_cover_first [OF v(1) 1(7)] 1(8) by simp
  have n1: "1 \<le> io_next_test g" using 1(4) by (simp add: ioi_prefix_def)
  have "?B \<subseteq> skip_set (io_internal g)"
    using 1(4) lost_groups_mono [of 0 "io_next_test g - 1" "p_groups p" R ?B] by (simp add: ioi_prefix_def)
  moreover have "name_of g (io_next_test g) \<in> ?B"
    using name_of_static [OF 1(3) n1 le] group_at_in(1) [OF v(1), of "io_next_test g"] n1 le by simp
  ultimately have go: "\<not> test_waits g" using 1(6) [OF n1 le] by (auto simp: test_waits_def)
  note step = ioi_update_test_ref(2) [OF 1(2-5) le go]
  show ?case
  proof (cases "\<exists>e. ioi_update_test g = Inl e")
    case True
    then show ?thesis using le by (subst ioi_update_loop.simps) auto
  next
    case False
    then obtain g' where g': "ioi_update_test g = Inr (Some g')" "ioi_static p g'" "ioi_prefix p R ?B g'"
      "ioi_entries p R ?B g'" "io_next_test g' = Suc (io_next_test g)" "same_frame g g'"
      and other: "\<not> (io_next_test g = tg_last (group_at (p_groups p) (io_next_test g)) \<and>
        (\<exists>e. ref_group (p_groups p) R ?B (group_at (p_groups p) (io_next_test g)) = Inl e))"
      using step by (auto simp: Let_def split: if_splits)
    have "io_next_test g \<noteq> tg_last gr"
    proof
      assume l: "io_next_test g = tg_last gr"
      then have "group_at (p_groups p) (io_next_test g) = gr"
        using group_at_unique [OF v(1) 1(7)] groups_cover_first [OF v(1) 1(7)] by (simp add: in_group_def)
      then show False using other l 1(9) by simp
    qed
    then have last: "io_next_test g' \<le> tg_last gr" using g'(5) 1(8) by simp
    have states: "ir_state (io_results g' ! (t - 1)) \<noteq> TestRunning" if "1 \<le> t" "t \<le> p_tests p" for t
      using same_frame_state [OF g'(6), of "t - 1"] 1(3,6) that by (simp add: ioi_static_def)
    have "\<not> p_tests p < io_next_test g" using le by simp
    note 1(1) [OF this g'(1) refl 1(2) g'(2-4) states 1(7) last 1(9)]
    moreover have "ioi_update_loop (p_tests p) g u = ioi_update_loop (p_tests p) g' True"
      using le g'(1) by (subst ioi_update_loop.simps) simp
    ultimately show ?thesis by simp
  qed
qed

lemma each_test_unscored:
  assumes gr: "gr \<in> set grs" "tg_scoring gr = ScoringEachTest" and cover: "groups_cover 0 grs n"
  shows "\<exists>e. ref_group grs R (tg_name ` set grs) gr = Inl e"
proof -
  let ?rs = "ref_results grs R (tg_name ` set grs) (tg_last gr)"
  have b: "0 < tg_first gr" "tg_first gr \<le> tg_last gr" "tg_last gr \<le> n"
    using groups_cover_first [OF cover gr(1)] by simp_all
  have at: "group_at grs (tg_first gr) = gr" using group_at_unique [OF cover gr(1)] b by (simp add: in_group_def)
  have "tg_name gr \<in> lost_groups grs R (tg_name ` set grs) (tg_first gr - 1)"
    using lost_groups_mono [of 0 "tg_first gr - 1" grs R "tg_name ` set grs"] gr(1) by auto
  then have "gtr_points (?rs ! (tg_first gr - 1)) = None"
    using ref_results_nth [of "tg_first gr" "tg_last gr"] at b by (simp add: ref_result_def)
  then have "\<exists>e. sum_points gr ?rs [tg_first gr..<Suc (tg_last gr)] (Fin 0) = Inl e"
    using b by (intro sum_points_panics [of "tg_first gr"]) (auto simp: ref_results_simps simp del: upt_Suc)
  then have pts: "\<exists>e. group_points gr ?rs v = Inl e" for v using gr(2) by (simp add: group_points_def)
  show ?thesis
  proof (cases "calcGroupVerdict gr ?rs")
    case (Inr v)
    then show ?thesis using pts [of v] by (auto simp: ref_group_def group_result_def bindE_def)
  qed (simp add: ref_group_def group_result_def bindE_def)
qed

lemma ioi_compile_error_panics:
  assumes p: "ioi_valid p" and f: "ioi_fresh p s g" "gs_results s = []" "gs_groups s = []"
    and job: "io_given g = [i \<mapsto> j]" "job_type j = CompileJob" and fail: "jres_verdict r \<noteq> V_CD" "jres_job r = i"
    and gr: "gr \<in> set (p_groups p)" "tg_scoring gr = ScoringEachTest"
  shows "\<exists>e. ioi_JobCompleted r g = Inl e"
proof -
  let ?B = "tg_name ` set (p_groups p)"
  let ?c = "jres_verdict (normal_compile r)" and ?x = "Some (buildTestResult j (normal_compile r))"
  let ?h = "g\<lparr>io_given := Map.empty, io_internal := put_skip ?B (io_internal g),
    io_submission := s\<lparr>gs_verdict := ?c, gs_compilation := ?x\<rparr>\<rparr>"
  have cd: "?c \<noteq> V_CD" using fail(1) by (auto simp: normal_compile_def)
  have st: "ioi_static p g" and sub: "io_submission g = s\<lparr>gs_verdict := V_RU\<rparr>" and pr: "io_problem g = p"
    and dom: "dom (io_internal g) = ?B"
    using f(1) by (simp_all add: ioi_fresh_def ioi_static_def)
  have static: "ioi_static p ?h" using st by (simp add: ioi_static_def put_sets)
  have "tg_last x \<noteq> 0" if "x \<in> set (p_groups p)" for x
    using groups_cover_first [OF ioi_validD(1) [OF p] that] by simp
  then have "done_groups (p_groups p) 0 = []" by (auto simp: done_groups_def filter_empty_conv)
  then have pre: "ioi_prefix p R ?B ?h" for R
    using f dom by (simp add: ioi_prefix_def ioi_fresh_def ref_results_simps put_sets)
  have ent: "ioi_entries p R ?B ?h" for R
    using f(1) by (simp add: ioi_entries_def ioi_fresh_def new_result_def)
  have states: "ir_state (io_results ?h ! (t - 1)) \<noteq> TestRunning" if "1 \<le> t" "t \<le> p_tests p" for t
    using f(1) that by (simp add: ioi_fresh_def new_result_def)
  have last: "io_next_test ?h \<le> tg_last gr"
    using f(1) groups_cover_first [OF ioi_validD(1) [OF p] gr(1)] by (simp add: ioi_fresh_def)
  obtain e where e: "ref_group (p_groups p) (\<lambda>t. bare_result t V_OK) ?B gr = Inl e"
    using each_test_unscored [OF gr ioi_validD(1) [OF p]] by blast
  have "\<exists>e. ioi_update_loop (p_tests p) ?h False = Inl e"
    by (rule ioi_update_loop_panics [OF p static pre ent states gr(1) last e])
  then have "\<exists>e. ioi_update ?h = Inl e" using pr by (auto simp: ioi_update_def Let_def bindE_def)
  moreover have "skip_all (p_groups p) (io_internal g) = Inr (put_skip ?B (io_internal g))"
    using skip_all_eq dom by simp
  ultimately show ?thesis
    using job fail(2) cd pr sub
    by (auto simp: ioi_JobCompleted_def ioi_compileJobCompleted_def Let_def bindE_def)
qed

text \<open>A partial solution without points keeps none, and its group cannot be scored.\<close>

lemma ioi_partial_unscored:
  assumes "needs_points gr" and r: "jres_verdict r = V_PT" "jres_points r = None"
    and t: "tg_first gr \<le> t" "t \<le> tg_last gr" "t - 1 < length rs" "0 < tg_first gr"
    and x: "populateTestJobResult gr r = Inr x" and rs: "rs ! (t - 1) = buildTestResult j (settle_result x)"
  shows "gtr_verdict (rs ! (t - 1)) = V_CF" and "gtr_points (rs ! (t - 1)) = None" and "\<exists>e. group_result gr rs = Inl e"
proof -
  have x': "x = (r, Some ''checker returned nil points, but verdict=PT'')"
    using assms(1) r x by (auto simp: needs_points_def populateTestJobResult_def fill_points_def)
  show pts: "gtr_verdict (rs ! (t - 1)) = V_CF" "gtr_points (rs ! (t - 1)) = None"
    unfolding rs x' using r by (simp_all add: settle_result_def)
  have "\<exists>e. group_points gr rs v = Inl e" for v
  proof (cases "tg_scoring gr = ScoringEachTest")
    case True
    have "\<exists>e. sum_points gr rs [tg_first gr..<Suc (tg_last gr)] (Fin 0) = Inl e"
      using t pts by (intro sum_points_panics [of t]) (simp_all del: upt_Suc)
    then show ?thesis using True by (simp add: group_points_def)
  next
    case False
    then have m: "tg_scoring gr = ScoringMin" using assms(1) by (simp add: needs_points_def)
    have "\<exists>e. min_points gr rs [tg_first gr..<Suc (tg_last gr)] y = Inl e" for y
      using t pts by (intro min_points_panics [of t]) (simp_all del: upt_Suc)
    then show ?thesis using m by (auto simp: group_points_def deref_def bindE_def simp del: upt_Suc split: option.splits)
  qed
  note points = this
  show "\<exists>e. group_result gr rs = Inl e"
  proof (cases "calcGroupVerdict gr rs")
    case (Inr v)
    then show ?thesis using points [of v] by (auto simp: group_result_def bindE_def)
  qed (simp add: group_result_def bindE_def)
qed

end
