(* ===== verification/GoQueueRun.thy ===== *)
theory GoQueueRun
  imports GoIcpcRun GoIoiScores GoQueue
begin

text \<open>
  Runs of the queue with its clients: submissions, jobs handed out to invokers, their results, invokers
  that are lost, and submissions that were saved.  The invariant says who has each job: exactly one invoker or
  the list of jobs to hand out again, and every generator that is not active waits for a job.  Both kinds of
  generators are one provider of the contract \<open>ending_generator\<close>, and the proofs here rest on it alone.
\<close>

section \<open>Both kinds of generators\<close>

definition gen_complete :: "job_result \<Rightarrow> generator \<Rightarrow> panic + generator \<times> gsubmission option" where
  "gen_complete r g = bindE (gen_JobCompleted r g) (\<lambda>(g, a).
     Inr (g, case a of Answered updated out \<Rightarrow> out | UnknownJob i \<Rightarrow> None))"

definition gen_given :: "generator \<Rightarrow> string \<rightharpoonup> job" where
  "gen_given g = (case g of ICPC g \<Rightarrow> ic_given g | IOI g \<Rightarrow> io_given g)"

definition gen_ok :: "problem \<Rightarrow> gsubmission \<Rightarrow> job_result \<Rightarrow> (nat \<Rightarrow> job_result) \<Rightarrow> generator \<Rightarrow> bool" where
  "gen_ok p s C T g = (case g of
     ICPC g \<Rightarrow> p_type p = ProblemICPC \<and> icpc_ok s (p_tests p) C T g \<and> gs_results s = []
   | IOI g \<Rightarrow> p_type p = ProblemIOI \<and> ioi_ok p s C T g)"

definition gen_work :: "generator \<Rightarrow> nat" where
  "gen_work g = (case g of ICPC g \<Rightarrow> icpc_work g | IOI g \<Rightarrow> ioi_work g)"

definition gen_final :: "problem \<Rightarrow> gsubmission \<Rightarrow> job_result \<Rightarrow> (nat \<Rightarrow> job_result) \<Rightarrow> gsubmission \<Rightarrow> bool" where
  "gen_final p s C T s' = (case p_type p of
     ProblemICPC \<Rightarrow> icpc_final (p_tests p) (gs_score s) (start_verdict C) T s'
   | ProblemIOI \<Rightarrow> ioi_final p (gs_score s) (start_verdict C) (ioi_outcome p T) s'
   | OtherProblem n \<Rightarrow> False)"

definition gen_spent :: "generator \<Rightarrow> bool" where
  "gen_spent g = (case g of ICPC g \<Rightarrow> icpc_over g | IOI g \<Rightarrow> ioi_spent g)"

definition gen_subm :: "generator \<Rightarrow> nat" where
  "gen_subm g = gs_id (gen_submission g)"

lemma gen_simps [simp]:
  "gen_given (ICPC g) = ic_given g" "gen_given (IOI h) = io_given h"
  "gen_work (ICPC g) = icpc_work g" "gen_work (IOI h) = ioi_work h"
  "gen_spent (ICPC g) = icpc_over g" "gen_spent (IOI h) = ioi_spent h"
  "gen_subm (ICPC g) = gs_id (ic_submission g)" "gen_subm (IOI h) = gs_id (io_submission h)"
  by (simp_all add: gen_given_def gen_work_def gen_spent_def gen_subm_def gen_submission_def)

text \<open>What each kind does, read through the constructor.\<close>

lemma gen_NextJob_simps:
  "gen_NextJob i (ICPC g) = bindE (icpc_next i g) (\<lambda>(g', j). Inr (ICPC g', j))"
  "gen_NextJob i (IOI h) = bindE (ioi_NextJob i h) (\<lambda>(g', j). Inr (IOI g', j))"
  by (simp_all add: gen_NextJob_def icpc_next_def bindE_def Let_def case_prod_beta)

lemma gen_complete_simps:
  "gen_complete r (ICPC g) = bindE (icpc_complete r g) (\<lambda>(g', out). Inr (ICPC g', out))"
  "gen_complete r (IOI h) = bindE (ioi_complete r h) (\<lambda>(g', out). Inr (IOI g', out))"
  by (auto simp: gen_complete_def gen_JobCompleted_def icpc_complete_def ioi_complete_def bindE_def split: sum.splits)

lemma gen_next_ok:
  assumes "gen_ok p s C T g" and "i \<notin> dom (gen_given g)"
  shows "\<exists>g' j. gen_NextJob i g = Inr (g', j) \<and> gen_ok p s C T g' \<and>
    (j = None \<longrightarrow> gen_given g \<noteq> Map.empty \<and> gen_work g' \<le> gen_work g) \<and> (j \<noteq> None \<longrightarrow> gen_work g' < gen_work g)"
proof (cases g)
  case (ICPC h)
  then show ?thesis
    using icpc_next_ok [of s "p_tests p" C T h i] assms
    by (fastforce simp: gen_ok_def gen_NextJob_simps bindE_def)
next
  case (IOI h)
  then show ?thesis
    using ioi_next_ok [of p s C T h i] assms
    by (fastforce simp: gen_ok_def gen_NextJob_simps bindE_def)
qed

lemma gen_complete_ok:
  assumes "gen_ok p s C T g" and "gen_given g i = Some j"
  shows "\<exists>g' out. gen_complete (job_report C T i j) g = Inr (g', out) \<and> gen_work g' < gen_work g \<and>
    (out = None \<and> gen_ok p s C T g' \<or> (\<exists>s'. out = Some s' \<and> gen_spent g' \<and> gen_final p s C T s'))"
proof (cases g)
  case (ICPC h)
  then show ?thesis
    using icpc_complete_ok [of s "p_tests p" C T h i j] assms
    by (fastforce simp: gen_ok_def gen_complete_simps gen_final_def bindE_def)
next
  case (IOI h)
  then show ?thesis
    using ioi_complete_ok [of p s C T h i j] assms
    by (fastforce simp: gen_ok_def gen_complete_simps gen_final_def bindE_def)
qed

lemma gen_next_gives:
  assumes "gen_NextJob i g = Inr (g', j)"
  shows "gen_subm g' = gen_subm g \<and> gen_given g' = (case j of None \<Rightarrow> gen_given g | Some x \<Rightarrow> (gen_given g)(i \<mapsto> x)) \<and>
     (\<forall>x. j = Some x \<longrightarrow> job_id x = i \<and> job_submission x = gen_subm g)"
proof (cases g)
  case (ICPC h)
  then obtain h' where h: "icpc_next i h = Inr (h', j)" "g' = ICPC h'" using assms by (auto simp: gen_NextJob_simps bindE_eq_Inr)
  then show ?thesis using icpc_generator.next_gives [OF h(1)] ICPC by (cases j) simp_all
next
  case (IOI h)
  then obtain h' where h: "ioi_NextJob i h = Inr (h', j)" "g' = IOI h'" using assms by (auto simp: gen_NextJob_simps bindE_eq_Inr)
  then show ?thesis using ioi_generator.next_gives [OF h(1)] IOI by (cases j) simp_all
qed

lemma gen_complete_takes:
  assumes "gen_complete r g = Inr (g', out)"
  shows "gen_subm g' = gen_subm g \<and> gen_given g' = (gen_given g)(jres_job r := None)"
proof (cases g)
  case (ICPC h)
  then obtain h' where "icpc_complete r h = Inr (h', out)" "g' = ICPC h'" using assms by (auto simp: gen_complete_simps bindE_eq_Inr)
  then show ?thesis using icpc_generator.complete_takes ICPC by simp
next
  case (IOI h)
  then obtain h' where "ioi_complete r h = Inr (h', out)" "g' = IOI h'" using assms by (auto simp: gen_complete_simps bindE_eq_Inr)
  then show ?thesis using ioi_generator.complete_takes IOI by simp
qed

lemma gen_spent_next:
  assumes "gen_spent g"
  shows "\<exists>g'. gen_NextJob i g = Inr (g', None) \<and> gen_spent g'"
proof (cases g)
  case (ICPC h)
  then obtain h' where "icpc_next i h = Inr (h', None)" "icpc_over h'" using icpc_generator.spent_next assms by fastforce
  then show ?thesis using ICPC by (simp add: gen_NextJob_simps bindE_def)
next
  case (IOI h)
  then obtain h' where "ioi_NextJob i h = Inr (h', None)" "ioi_spent h'" using ioi_spent_next assms by fastforce
  then show ?thesis using IOI by (simp add: gen_NextJob_simps bindE_def)
qed

interpretation generator: ending_generator gen_NextJob gen_complete gen_given "job_report C T" "gen_ok p s C T" gen_work
  "gen_final p s C T" gen_spent gen_subm for p s C T
proof
  fix g i j assume ok: "gen_ok p s C T g" and j: "gen_given g i = Some j"
  note c = gen_complete_ok [OF ok j]
  show "\<exists>g' out. gen_complete (job_report C T i j) g = Inr (g', out) \<and> gen_work g' < gen_work g \<and>
    (out = None \<and> gen_ok p s C T g' \<or> (\<exists>s'. out = Some s' \<and> gen_final p s C T s'))"
    using c by auto
  show "gen_spent g'" if "gen_complete (job_report C T i j) g = Inr (g', Some s')" for g' s' using c that by auto
next
  show "finite (dom (gen_given g))" if "gen_ok p s C T g" for g
    using that by (auto simp: gen_ok_def gen_given_def dest: icpc_given_finite ioi_given_finite split: generator.splits)
next
  show "gen_spent g \<Longrightarrow> gen_given g = Map.empty" for g
    by (auto simp: gen_spent_def gen_given_def icpc_over_def ioi_spent_def split: generator.splits)
qed (use gen_next_ok gen_next_gives gen_complete_takes gen_spent_next in blast)+

section \<open>Runs\<close>

text \<open>
  The clients of the queue beside it: the jobs that invokers have, by the id they got them with; every
  submission, under the name of its generator, with its problem; the answers; the submissions that were saved
  to the database; and the ids in use.
\<close>

record testing_run =
  t_queue :: queue
  t_held :: "string \<rightharpoonup> job"
  t_world :: "string \<rightharpoonup> problem \<times> gsubmission"
  t_done :: "nat \<rightharpoonup> gsubmission"
  t_saved :: "nat set"
  t_used :: "string set"

text \<open>Reports depend on the submission and on what is run; the conditions under which generators do not panic.\<close>

type_synonym reports = "(nat \<Rightarrow> job_result) \<times> (nat \<Rightarrow> nat \<Rightarrow> job_result)"

definition queue_report :: "reports \<Rightarrow> job \<Rightarrow> job_result" where
  "queue_report W j = job_report (fst W (job_submission j)) (snd W (job_submission j)) (job_id j) j"

definition admissible :: "reports \<Rightarrow> problem \<Rightarrow> gsubmission \<Rightarrow> bool" where
  "admissible W p s \<longleftrightarrow> gs_results s = [] \<and> gs_groups s = [] \<and>
     (p_type p = ProblemIOI \<longrightarrow> points_reported p (snd W (gs_id s)) \<and> each_test_free p (start_verdict (fst W (gs_id s))))"

definition new_submission :: "gsubmission \<Rightarrow> testing_run \<Rightarrow> bool" where
  "new_submission s c \<longleftrightarrow> (\<forall>gid p s'. t_world c gid = Some (p, s') \<longrightarrow> gs_id s' \<noteq> gs_id s)"

text \<open>An invoker has the job that was handed out, if any.\<close>

definition handed :: "string \<Rightarrow> queue \<Rightarrow> job option \<Rightarrow> testing_run \<Rightarrow> testing_run" where
  "handed i q jo c = c\<lparr>t_queue := q, t_held := (case jo of None \<Rightarrow> t_held c | Some j \<Rightarrow> (t_held c)(job_id j \<mapsto> j)),
     t_used := insert i (t_used c)\<rparr>"

inductive testing_step :: "reports \<Rightarrow> testing_run \<Rightarrow> testing_run \<Rightarrow> bool" for W where
  submitted: "gid \<notin> t_used c \<Longrightarrow> admissible W p s \<Longrightarrow> new_submission s c \<Longrightarrow>
    Submit gid e p s (t_queue c) = Inr (q, None) \<Longrightarrow>
    testing_step W c (c\<lparr>t_queue := q, t_world := (t_world c)(gid \<mapsto> (p, s)), t_used := insert gid (t_used c)\<rparr>)"
| asked: "i \<notin> t_used c \<Longrightarrow> NextJob i (t_queue c) = Inr (q, jo) \<Longrightarrow>
    testing_step W c (handed i q jo c)"
| reported: "t_held c i = Some j \<Longrightarrow> JobCompleted e (queue_report W j) (t_queue c) = Inr (q, QueueAnswer out) \<Longrightarrow>
    testing_step W c (c\<lparr>t_queue := q, t_held := (t_held c)(i := None),
      t_done := (case out of None \<Rightarrow> t_done c | Some s \<Rightarrow> (t_done c)(job_submission j \<mapsto> s))\<rparr>)"
| lost: "t_held c i = Some j \<Longrightarrow> n \<notin> t_used c \<Longrightarrow> RescheduleJob n i (t_queue c) = Inr (q, None) \<Longrightarrow>
    testing_step W c (c\<lparr>t_queue := q, t_held := (t_held c)(i := None), t_used := insert n (t_used c)\<rparr>)"
| saved: "k \<in> dom (t_done c) - t_saved c \<Longrightarrow> FinishSubmissionTesting k (q_status (t_queue c)) = Inr st \<Longrightarrow>
    testing_step W c (c\<lparr>t_queue := (t_queue c)\<lparr>q_status := st\<rparr>, t_saved := insert k (t_saved c)\<rparr>)"

definition testing_start :: testing_run where
  "testing_start = \<lparr>t_queue = NewQueue, t_held = Map.empty, t_world = Map.empty, t_done = Map.empty, t_saved = {}, t_used = {}\<rparr>"

abbreviation testing_runs :: "reports \<Rightarrow> testing_run \<Rightarrow> testing_run \<Rightarrow> bool" where
  "testing_runs W \<equiv> rtranclp (testing_step W)"

section \<open>The invariant\<close>

text \<open>The id a job was last handed out under, by its first id.\<close>

definition cur :: "queue \<Rightarrow> string \<Rightarrow> string" where
  "cur q k = job_id (the (q_job q k))"

text \<open>Every generator does what its contract says, up to its answer and after it.\<close>

definition gen_state :: "reports \<Rightarrow> (nat \<rightharpoonup> gsubmission) \<Rightarrow> problem \<Rightarrow> gsubmission \<Rightarrow> generator \<Rightarrow> bool" where
  "gen_state W don p s g \<longleftrightarrow> gen_subm g = gs_id s \<and>
     (case don (gs_id s) of
        None \<Rightarrow> gen_ok p s (fst W (gs_id s)) (snd W (gs_id s)) g
      | Some s' \<Rightarrow> gen_spent g \<and> gen_final p s (fst W (gs_id s)) (snd W (gs_id s)) s')"

definition run_gens :: "reports \<Rightarrow> testing_run \<Rightarrow> bool" where
  "run_gens W c \<longleftrightarrow> finite (dom (t_world c)) \<and> dom (q_generators (t_queue c)) = dom (t_world c) \<and>
     (\<forall>gid p s g. t_world c gid = Some (p, s) \<and> q_generators (t_queue c) gid = Some g \<longrightarrow> gen_state W (t_done c) p s g) \<and>
     (\<forall>gid gid' p p' s s'. t_world c gid = Some (p, s) \<and> t_world c gid' = Some (p', s') \<and> gs_id s = gs_id s' \<longrightarrow> gid = gid')"

text \<open>A generator that is not active waits for a result, or gave its answer.\<close>

definition run_active :: "testing_run \<Rightarrow> bool" where
  "run_active c \<longleftrightarrow> distinct (q_active (t_queue c)) \<and> set (q_active (t_queue c)) = q_active_ids (t_queue c) \<and>
     q_active_ids (t_queue c) \<subseteq> dom (q_generators (t_queue c)) \<and>
     (\<forall>gid g. q_generators (t_queue c) gid = Some g \<and> gid \<notin> q_active_ids (t_queue c) \<and> t_done c (gen_subm g) = None \<longrightarrow>
        gen_given g \<noteq> Map.empty)"

text \<open>The tables of jobs agree with what the generators gave.\<close>

definition run_jobs :: "queue \<Rightarrow> bool" where
  "run_jobs q \<longleftrightarrow> dom (q_generator q) = q_known q \<and>
     (\<forall>k gid. q_generator q k = Some gid \<longrightarrow>
        (\<exists>g j. q_generators q gid = Some g \<and> gen_given g k = Some j \<and> job_submission j = gen_subm g \<and>
           q_job q k = Some (j\<lparr>job_id := cur q k\<rparr>))) \<and>
     (\<forall>gid g k. q_generators q gid = Some g \<and> k \<in> dom (gen_given g) \<longrightarrow> q_generator q k = Some gid)"

text \<open>Every job is with exactly one invoker, under its last id, or is to be handed out again.\<close>

definition run_ids :: "testing_run \<Rightarrow> bool" where
  "run_ids c \<longleftrightarrow> (let q = t_queue c in
     inj_on (cur q) (q_known q) \<and>
     (\<forall>k \<in> q_known q. q_original q (cur q k) = (if cur q k = k then None else Some k)) \<and>
     (\<forall>i k. q_original q i = Some k \<longrightarrow> k \<in> q_known q \<and> cur q k = i) \<and>
     distinct (q_failed q) \<and> set (q_failed q) \<subseteq> q_known q \<and>
     (\<forall>i j. t_held c i = Some j \<longleftrightarrow> (\<exists>k \<in> q_known q - set (q_failed q). q_job q k = Some j \<and> job_id j = i)) \<and>
     finite (t_used c) \<and> dom (q_generators q) \<union> q_known q \<union> cur q ` q_known q \<subseteq> t_used c)"

definition run_shown :: "testing_run \<Rightarrow> bool" where
  "run_shown c \<longleftrightarrow> \<not> qs_testing (q_status (t_queue c)) \<and>
     dom (qs_active (q_status (t_queue c))) = (\<lambda>(p, s). gs_id s) ` ran (t_world c) - t_saved c \<and>
     t_saved c \<subseteq> dom (t_done c) \<and> dom (t_done c) \<subseteq> (\<lambda>(p, s). gs_id s) ` ran (t_world c)"

definition run_ok :: "reports \<Rightarrow> testing_run \<Rightarrow> bool" where
  "run_ok W c \<longleftrightarrow> run_gens W c \<and> run_active c \<and> run_jobs (t_queue c) \<and> run_ids c \<and> run_shown c"

lemma run_gensD:
  assumes "run_gens W c"
  shows "finite (dom (t_world c))" "dom (q_generators (t_queue c)) = dom (t_world c)"
    "t_world c gid = Some (p, s) \<Longrightarrow> q_generators (t_queue c) gid = Some g \<Longrightarrow> gen_state W (t_done c) p s g"
    "t_world c gid = Some (p, s) \<Longrightarrow> t_world c gid' = Some (p', s') \<Longrightarrow> gs_id s = gs_id s' \<Longrightarrow> gid = gid'"
  using assms unfolding run_gens_def by blast+

lemma run_activeD:
  assumes "run_active c"
  shows "distinct (q_active (t_queue c))" "set (q_active (t_queue c)) = q_active_ids (t_queue c)"
    "q_active_ids (t_queue c) \<subseteq> dom (q_generators (t_queue c))"
    "q_generators (t_queue c) gid = Some g \<Longrightarrow> gid \<notin> q_active_ids (t_queue c) \<Longrightarrow> t_done c (gen_subm g) = None \<Longrightarrow>
       gen_given g \<noteq> Map.empty"
  using assms unfolding run_active_def by blast+

lemma run_jobsD:
  assumes "run_jobs q"
  shows "dom (q_generator q) = q_known q"
    "q_generator q k = Some gid \<Longrightarrow> \<exists>g j. q_generators q gid = Some g \<and> gen_given g k = Some j \<and>
       job_submission j = gen_subm g \<and> q_job q k = Some (j\<lparr>job_id := cur q k\<rparr>)"
    "q_generators q gid = Some g \<Longrightarrow> k \<in> dom (gen_given g) \<Longrightarrow> q_generator q k = Some gid"
  using assms unfolding run_jobs_def by blast+

lemma run_idsD:
  assumes "run_ids c"
  shows "inj_on (cur (t_queue c)) (q_known (t_queue c))"
    "k \<in> q_known (t_queue c) \<Longrightarrow> q_original (t_queue c) (cur (t_queue c) k) = (if cur (t_queue c) k = k then None else Some k)"
    "q_original (t_queue c) i = Some k \<Longrightarrow> k \<in> q_known (t_queue c) \<and> cur (t_queue c) k = i"
    "distinct (q_failed (t_queue c))" "set (q_failed (t_queue c)) \<subseteq> q_known (t_queue c)"
    "t_held c i = Some j \<longleftrightarrow> (\<exists>k \<in> q_known (t_queue c) - set (q_failed (t_queue c)). q_job (t_queue c) k = Some j \<and> job_id j = i)"
    "finite (t_used c)" "dom (q_generators (t_queue c)) \<subseteq> t_used c" "q_known (t_queue c) \<subseteq> t_used c"
    "k \<in> q_known (t_queue c) \<Longrightarrow> cur (t_queue c) k \<in> t_used c"
  using assms unfolding run_ids_def Let_def by blast+

lemma run_okD:
  assumes "run_ok W c"
  shows "run_gens W c" "run_active c" "run_jobs (t_queue c)" "run_ids c" "run_shown c"
  using assms unfolding run_ok_def by blast+


lemma run_gensI:
  assumes "finite (dom (t_world c))" "dom (q_generators (t_queue c)) = dom (t_world c)"
    "\<And>gid p s g. t_world c gid = Some (p, s) \<Longrightarrow> q_generators (t_queue c) gid = Some g \<Longrightarrow> gen_state W (t_done c) p s g"
    "\<And>gid gid' p p' s s'. t_world c gid = Some (p, s) \<Longrightarrow> t_world c gid' = Some (p', s') \<Longrightarrow> gs_id s = gs_id s' \<Longrightarrow> gid = gid'"
  shows "run_gens W c"
  unfolding run_gens_def by (intro conjI allI impI; (elim conjE)?) (rule assms; assumption)+

lemma run_activeI:
  assumes "distinct (q_active (t_queue c))" "set (q_active (t_queue c)) = q_active_ids (t_queue c)"
    "q_active_ids (t_queue c) \<subseteq> dom (q_generators (t_queue c))"
    "\<And>gid g. q_generators (t_queue c) gid = Some g \<Longrightarrow> gid \<notin> q_active_ids (t_queue c) \<Longrightarrow> t_done c (gen_subm g) = None \<Longrightarrow>
       gen_given g \<noteq> Map.empty"
  shows "run_active c"
  unfolding run_active_def by (intro conjI allI impI; (elim conjE)?) (rule assms; assumption)+

lemma run_jobsI:
  assumes "dom (q_generator q) = q_known q"
    "\<And>k gid. q_generator q k = Some gid \<Longrightarrow> \<exists>g j. q_generators q gid = Some g \<and> gen_given g k = Some j \<and>
       job_submission j = gen_subm g \<and> q_job q k = Some (j\<lparr>job_id := cur q k\<rparr>)"
    "\<And>gid g k. q_generators q gid = Some g \<Longrightarrow> k \<in> dom (gen_given g) \<Longrightarrow> q_generator q k = Some gid"
  shows "run_jobs q"
  unfolding run_jobs_def by (intro conjI allI impI; (elim conjE)?) (rule assms; assumption)+

lemma run_idsI:
  assumes "inj_on (cur (t_queue c)) (q_known (t_queue c))"
    "\<And>k. k \<in> q_known (t_queue c) \<Longrightarrow> q_original (t_queue c) (cur (t_queue c) k) = (if cur (t_queue c) k = k then None else Some k)"
    "\<And>i k. q_original (t_queue c) i = Some k \<Longrightarrow> k \<in> q_known (t_queue c) \<and> cur (t_queue c) k = i"
    "distinct (q_failed (t_queue c))" "set (q_failed (t_queue c)) \<subseteq> q_known (t_queue c)"
    "\<And>i j. t_held c i = Some j \<longleftrightarrow> (\<exists>k \<in> q_known (t_queue c) - set (q_failed (t_queue c)). q_job (t_queue c) k = Some j \<and> job_id j = i)"
    "finite (t_used c)" "dom (q_generators (t_queue c)) \<subseteq> t_used c" "q_known (t_queue c) \<subseteq> t_used c"
    "\<And>k. k \<in> q_known (t_queue c) \<Longrightarrow> cur (t_queue c) k \<in> t_used c"
  shows "run_ids c"
  unfolding run_ids_def Let_def using assms by (intro conjI allI impI ballI; blast)


text \<open>The calls that the generators without an answer can still serve.\<close>

definition open_work :: "(nat \<rightharpoonup> gsubmission) \<Rightarrow> generator \<Rightarrow> nat" where
  "open_work don g = (if don (gen_subm g) = None then gen_work g else 0)"

definition t_work :: "testing_run \<Rightarrow> nat" where
  "t_work c = (\<Sum>gid \<in> dom (q_generators (t_queue c)). open_work (t_done c) (the (q_generators (t_queue c) gid)))"

lemma t_work_update:
  assumes "finite (dom (q_generators (t_queue c)))" and "q_generators (t_queue c) gid = Some g"
    and "q_generators (t_queue c') = (q_generators (t_queue c))(gid \<mapsto> g')"
    and "\<And>y h. y \<noteq> gid \<Longrightarrow> q_generators (t_queue c) y = Some h \<Longrightarrow> open_work (t_done c') h \<le> open_work (t_done c) h"
  shows "open_work (t_done c') g' \<le> open_work (t_done c) g \<Longrightarrow> t_work c' \<le> t_work c"
    and "open_work (t_done c') g' < open_work (t_done c) g \<Longrightarrow> t_work c' < t_work c"
proof -
  let ?D = "dom (q_generators (t_queue c))"
  have D: "dom (q_generators (t_queue c')) = ?D" "gid \<in> ?D" using assms(2,3) by auto
  have le: "open_work (t_done c') (the (q_generators (t_queue c') y)) \<le> open_work (t_done c) (the (q_generators (t_queue c) y))"
    if "y \<in> ?D" "open_work (t_done c') g' \<le> open_work (t_done c) g" for y
    using that assms(2-4) by (cases "y = gid") auto
  show "open_work (t_done c') g' \<le> open_work (t_done c) g \<Longrightarrow> t_work c' \<le> t_work c"
    unfolding t_work_def D(1) by (intro sum_mono le)
  assume less: "open_work (t_done c') g' < open_work (t_done c) g"
  show "t_work c' < t_work c"
    unfolding t_work_def D(1)
  proof (rule sum_strict_mono_ex1 [OF assms(1)])
    show "\<forall>y \<in> ?D. open_work (t_done c') (the (q_generators (t_queue c') y)) \<le> open_work (t_done c) (the (q_generators (t_queue c) y))"
      using le less by simp
    show "\<exists>y \<in> ?D. open_work (t_done c') (the (q_generators (t_queue c') y)) < open_work (t_done c) (the (q_generators (t_queue c) y))"
      using D(2) less assms(2,3) by (intro bexI [of _ gid]) auto
  qed
qed

end
