(* ===== verification/GoQueueSteps.thy ===== *)
theory GoQueueSteps
  imports GoQueueRun
begin

text \<open>
  Every step of a run keeps its invariant, and no operation of the queue panics or is refused: NextJob, the result
  of a job, a job whose invoker is lost, a submission that is added and one that was saved.
\<close>

section \<open>Jobs that are handed out\<close>

text \<open>The generators of the queue, one of which is replaced.\<close>

lemma run_gens_update:
  assumes "run_gens W c" and "t_world c gid = Some (p, s)" and "gen_state W (t_done c) p s g'"
    and "q_generators q = (q_generators (t_queue c))(gid \<mapsto> g')"
    and "t_world c' = t_world c" and "t_done c' = t_done c" and "t_queue c' = q"
  shows "run_gens W c'"
proof -
  note d = run_gensD [OF assms(1)]
  have "dom (q_generators q) = dom (t_world c)" using d(2) assms(2,4) by auto
  moreover have "gen_state W (t_done c) p' s' h" if "t_world c gid' = Some (p', s')" "q_generators q gid' = Some h" for gid' p' s' h
    using that d(3) [OF that(1)] assms(2,3,4) by (cases "gid' = gid") simp_all
  ultimately show ?thesis using d(1,4) by (intro run_gensI) (simp_all add: assms(5-7))
qed

text \<open>An attempt that gives nothing.\<close>

lemma attempt_none:
  assumes ok: "run_ok W c" and active: "q_active (t_queue c) = gid # rest" and g: "q_generators (t_queue c) gid = Some g"
    and step: "gen_NextJob i g = Inr (g', None)" and i: "i \<notin> t_used c"
    and q': "q' = (t_queue c)\<lparr>q_generators := (q_generators (t_queue c))(gid \<mapsto> g'), q_active := rest,
      q_active_ids := q_active_ids (t_queue c) - {gid}\<rparr>"
  shows "run_ok W (c\<lparr>t_queue := q'\<rparr>)" and "t_work (c\<lparr>t_queue := q'\<rparr>) \<le> t_work c"
proof -
  note d = run_okD [OF ok]
  note gd = run_gensD [OF d(1)] and ad = run_activeD [OF d(2)] and jd = run_jobsD [OF d(3)] and xd = run_idsD [OF d(4)]
  obtain p s where w: "t_world c gid = Some (p, s)" using gd(2) g by (metis domD domI surj_pair)
  have st: "gen_state W (t_done c) p s g" by (rule gd(3) [OF w g])
  note give = gen_next_gives [OF step]
  have free: "i \<notin> dom (gen_given g)" using jd(1) jd(3) [OF g] xd(9) i by blast
  have st': "gen_state W (t_done c) p s g' \<and> (t_done c (gen_subm g) = None \<longrightarrow> gen_given g \<noteq> Map.empty \<and> gen_work g' \<le> gen_work g)"
  proof (cases "t_done c (gs_id s)")
    case None
    then have "gen_ok p s (fst W (gs_id s)) (snd W (gs_id s)) g" using st by (simp add: gen_state_def)
    from generator.next_ok [OF this free] step show ?thesis using st give None by (auto simp: gen_state_def)
  next
    case (Some s')
    then have "gen_spent g" using st by (simp add: gen_state_def)
    from generator.spent_next [OF this, of i] step show ?thesis using st give Some by (auto simp: gen_state_def)
  qed
  let ?c = "c\<lparr>t_queue := q'\<rparr>"
  have "finite (dom (q_generators (t_queue c)))" using gd(1,2) by simp
  then show "t_work ?c \<le> t_work c" by (rule t_work_update(1) [OF _ g]) (use st' give q' in \<open>auto simp: open_work_def\<close>)
  have gens: "run_gens W ?c" by (rule run_gens_update [OF d(1) w, of g' q']) (use st' q' in simp_all)
  have rest: "distinct rest" "gid \<notin> set rest" "q_active_ids (t_queue c) = insert gid (set rest)"
    using ad(1,2) active by auto
  have "gen_given x \<noteq> Map.empty" if x: "q_generators q' y = Some x" "y \<notin> set rest" "t_done c (gen_subm x) = None" for x y
  proof (cases "y = gid")
    case True
    then show ?thesis using x st' give q' by auto
  next
    case False
    then show ?thesis using ad(4) [of y x] x q' rest(3) by simp
  qed
  then have act: "run_active ?c" using rest ad(3) q' by (intro run_activeI) auto
  have same: "cur q' = cur (t_queue c)" by (simp add: cur_def q' fun_eq_iff)
  have jobs: "run_jobs q'"
  proof (rule run_jobsI, unfold same)
    show "\<exists>h j. q_generators q' y = Some h \<and> gen_given h k = Some j \<and> job_submission j = gen_subm h \<and>
        q_job q' k = Some (j\<lparr>job_id := cur (t_queue c) k\<rparr>)" if "q_generator q' k = Some y" for k y
      using jd(2) [of k y] that g give by (cases "y = gid") (auto simp: q')
    show "q_generator q' k = Some y" if "q_generators q' y = Some h" "k \<in> dom (gen_given h)" for y h k
      using jd(3) [of y _ k] that g give by (cases "y = gid") (auto simp: q')
  qed (simp add: q' jd(1))
  have ids: "run_ids ?c"
    by (rule run_idsI) (use xd g in \<open>auto simp: q' same [unfolded q']\<close>)
  have shown: "run_shown ?c" using d(5) unfolding run_shown_def q' by simp
  show "run_ok W ?c" using gens act jobs ids shown unfolding run_ok_def by (simp add: q')
qed

text \<open>An attempt that gives a job.\<close>

lemma bex_insert_other:
  assumes "i \<notin> A" and "job_id j \<noteq> a"
  shows "(\<exists>k \<in> insert i A - B. (m(i \<mapsto> j)) k = Some b \<and> job_id b = a) \<longleftrightarrow> (\<exists>k \<in> A - B. m k = Some b \<and> job_id b = a)"
proof -
  have "(m(i \<mapsto> j)) k = Some b \<and> job_id b = a \<longleftrightarrow> m k = Some b \<and> job_id b = a" if "k \<in> A" for k
    using that assms(1) by auto
  moreover have "\<not> ((m(i \<mapsto> j)) i = Some b \<and> job_id b = a)" using assms(2) by auto
  ultimately show ?thesis by blast
qed

lemma attempt_some:
  assumes ok: "run_ok W c" and active: "q_active (t_queue c) = gid # rest" and g: "q_generators (t_queue c) gid = Some g"
    and step: "gen_NextJob i g = Inr (g', Some j)" and i: "i \<notin> t_used c"
    and c': "c' = c\<lparr>t_queue := (t_queue c)\<lparr>q_generators := (q_generators (t_queue c))(gid \<mapsto> g'), q_active := rest @ [gid],
      q_generator := (q_generator (t_queue c))(i \<mapsto> gid), q_job := (q_job (t_queue c))(i \<mapsto> j),
      q_known := insert i (q_known (t_queue c))\<rparr>, t_held := (t_held c)(i \<mapsto> j), t_used := insert i (t_used c)\<rparr>"
  shows "run_ok W c'" and "t_work c' < t_work c"
proof -
  note d = run_okD [OF ok]
  note gd = run_gensD [OF d(1)] and ad = run_activeD [OF d(2)] and jd = run_jobsD [OF d(3)] and xd = run_idsD [OF d(4)]
  obtain p s where w: "t_world c gid = Some (p, s)" using gd(2) g by (metis domD domI surj_pair)
  have st: "gen_state W (t_done c) p s g" by (rule gd(3) [OF w g])
  note give = gen_next_gives [OF step]
  have free: "i \<notin> dom (gen_given g)" using jd(1) jd(3) [OF g] xd(9) i by blast
  have undone: "t_done c (gs_id s) = None"
  proof (rule ccontr)
    assume "t_done c (gs_id s) \<noteq> None"
    then have "gen_spent g" using st by (auto simp: gen_state_def)
    then show False using generator.spent_next [of g i] step by auto
  qed
  then have "gen_ok p s (fst W (gs_id s)) (snd W (gs_id s)) g" using st by (simp add: gen_state_def)
  from generator.next_ok [OF this free] step
  have st': "gen_state W (t_done c) p s g'" and work: "gen_work g' < gen_work g"
    using st give undone by (auto simp: gen_state_def)
  have "finite (dom (q_generators (t_queue c)))" using gd(1,2) by simp
  then show "t_work c' < t_work c"
    by (rule t_work_update(2) [OF _ g]) (use st work give undone c' in \<open>auto simp: open_work_def gen_state_def\<close>)
  have gens: "run_gens W c'" by (rule run_gens_update [OF d(1) w st']) (simp_all add: c')
  have act: "run_active c'" using ad active g give by (intro run_activeI) (auto simp: c' split: if_splits)
  have new: "i \<notin> q_known (t_queue c)" using xd(9) i by blast
  have job: "job_id j = i" "job_submission j = gen_subm g" using give by simp_all
  have f: "q_known (t_queue c') = insert i (q_known (t_queue c))" "q_original (t_queue c') = q_original (t_queue c)"
    "q_failed (t_queue c') = q_failed (t_queue c)" "t_held c' = (t_held c)(i \<mapsto> j)" "t_used c' = insert i (t_used c)"
    "q_job (t_queue c') = (q_job (t_queue c))(i \<mapsto> j)" by (simp_all add: c')
  have cur: "cur (t_queue c') k = (if k = i then i else cur (t_queue c) k)" for k by (simp add: cur_def c' job)
  have jobs: "run_jobs (t_queue c')"
  proof (rule run_jobsI)
    show "\<exists>h j'. q_generators (t_queue c') y = Some h \<and> gen_given h k = Some j' \<and> job_submission j' = gen_subm h \<and>
        q_job (t_queue c') k = Some (j'\<lparr>job_id := cur (t_queue c') k\<rparr>)" if k: "q_generator (t_queue c') k = Some y" for k y
    proof (cases "k = i")
      case True
      then show ?thesis using k give job by (auto simp: c' cur_def)
    next
      case False
      then show ?thesis using jd(2) [of k y] k g give by (cases "y = gid") (auto simp: c' cur_def)
    qed
    show "q_generator (t_queue c') k = Some y"
      if "q_generators (t_queue c') y = Some h" "k \<in> dom (gen_given h)" for y h k
    proof (cases "y = gid")
      case True
      then show ?thesis using jd(3) [OF g, of k] that give by (auto simp: c')
    next
      case False
      then have "q_generator (t_queue c) k = Some y" using jd(3) [of y h k] that by (simp add: c')
      then show ?thesis using new jd(1) by (auto simp: c')
    qed
  qed (auto simp: c' jd(1))
  have old: "cur (t_queue c) k \<noteq> i" if "k \<in> q_known (t_queue c)" for k using xd(10) [OF that] i by blast
  have old': "job_id x \<noteq> i" if "k \<in> q_known (t_queue c)" "q_job (t_queue c) k = Some x" for k x
    using old [OF that(1)] that(2) by (simp add: cur_def)
  have none: "q_original (t_queue c) i = None"
    using xd(3) [of i] old by (cases "q_original (t_queue c) i") blast+
  have ids: "run_ids c'"
  proof (rule run_idsI)
    show "inj_on (cur (t_queue c')) (q_known (t_queue c'))"
      using xd(1) old new unfolding inj_on_def by (auto simp: cur f split: if_splits)
    show "t_held c' a = Some b \<longleftrightarrow> (\<exists>k \<in> q_known (t_queue c') - set (q_failed (t_queue c')). q_job (t_queue c') k = Some b \<and> job_id b = a)"
      for a b
    proof (cases "a = i")
      case True
      have "t_held c i \<noteq> Some x" for x using xd(6) [of i x] old' by blast
      then have "t_held c i = None" using not_None_eq [of "t_held c i"] by blast
      moreover have "\<not> (\<exists>k \<in> q_known (t_queue c). q_job (t_queue c) k = Some b \<and> job_id b = i)"
        using old' by blast
      ultimately show ?thesis using True new xd(5) job by (auto simp: f)
    next
      case False
      then have "job_id j \<noteq> a" using job by simp
      from bex_insert_other [OF new this] False show ?thesis unfolding f using xd(6) [of a b] by simp
    qed
    show "q_original (t_queue c') (cur (t_queue c') k) = (if cur (t_queue c') k = k then None else Some k)"
      if "k \<in> q_known (t_queue c')" for k
      using that xd(2) [of k] none new by (cases "k = i") (auto simp: cur f)
    show "k \<in> q_known (t_queue c') \<and> cur (t_queue c') k = a" if "q_original (t_queue c') a = Some k" for a k
      using that xd(3) [of a k] new by (auto simp: cur f)
    show "cur (t_queue c') k \<in> t_used c'" if "k \<in> q_known (t_queue c')" for k using that xd(10) by (auto simp: cur f)
  qed (use xd g in \<open>auto simp: f c'\<close>)
  have shown: "run_shown c'" using d(5) unfolding run_shown_def c' by simp
  show "run_ok W c'" using gens act jobs ids shown unfolding run_ok_def by simp
qed


lemma handed_queue [simp]: "handed i q jo (c\<lparr>t_queue := q'\<rparr>) = handed i q jo c"
  by (cases jo) (simp_all add: handed_def)

text \<open>What does not matter to the parts of the invariant.\<close>

lemma run_frame [simp]:
  "run_gens W (c\<lparr>t_used := u\<rparr>) = run_gens W c" "run_gens W (c\<lparr>t_held := h\<rparr>) = run_gens W c"
  "run_active (c\<lparr>t_used := u\<rparr>) = run_active c" "run_active (c\<lparr>t_held := h\<rparr>) = run_active c"
  "run_shown (c\<lparr>t_used := u\<rparr>) = run_shown c" "run_shown (c\<lparr>t_held := h\<rparr>) = run_shown c"
  "run_gens W (c\<lparr>t_queue := q\<lparr>q_failed := ks\<rparr>\<rparr>) = run_gens W (c\<lparr>t_queue := q\<rparr>)"
  "run_active (c\<lparr>t_queue := q\<lparr>q_failed := ks\<rparr>\<rparr>) = run_active (c\<lparr>t_queue := q\<rparr>)"
  "run_shown (c\<lparr>t_queue := q\<lparr>q_failed := ks\<rparr>\<rparr>) = run_shown (c\<lparr>t_queue := q\<rparr>)"
  "run_jobs (q\<lparr>q_failed := ks\<rparr>) = run_jobs q" "t_work (c\<lparr>t_used := u\<rparr>) = t_work c" "t_work (c\<lparr>t_held := h\<rparr>) = t_work c"
  by (simp_all add: run_gens_def run_active_def run_shown_def run_jobs_def cur_def t_work_def)

lemma run_ok_used: "run_ok W c \<Longrightarrow> run_ok W (c\<lparr>t_used := insert i (t_used c)\<rparr>)"
proof -
  assume ok: "run_ok W c"
  have "run_ids (c\<lparr>t_used := insert i (t_used c)\<rparr>)"
    by (rule run_idsI) (use run_idsD [OF run_okD(4) [OF ok]] in auto)
  then show ?thesis using run_okD [OF ok] unfolding run_ok_def by simp
qed

lemma known_job:
  assumes "run_jobs q" and "k \<in> q_known q"
  obtains j where "q_job q k = Some j" "job_id j = cur q k"
proof -
  obtain gid where "q_generator q k = Some gid" using run_jobsD(1) [OF assms(1)] assms(2) by blast
  from run_jobsD(2) [OF assms(1) this] show ?thesis using that by fastforce
qed

lemma next_attempts_ok:
  assumes "run_ok W c" and "i \<notin> t_used c" and "n = length (q_active (t_queue c))"
  shows "\<exists>q' jo. next_attempts n i (t_queue c) = Inr (q', jo) \<and> (jo = None \<longrightarrow> q_active q' = []) \<and>
    q_failed q' = q_failed (t_queue c) \<and>
    run_ok W (handed i q' jo c) \<and> t_work (handed i q' jo c) \<le> t_work c \<and> (jo \<noteq> None \<longrightarrow> t_work (handed i q' jo c) < t_work c)"
  using assms
proof (induction n arbitrary: c)
  case 0
  then show ?case using run_ok_used [OF 0(1), of i] by (simp add: handed_def t_work_def)
next
  case (Suc n)
  obtain gid rest where act: "q_active (t_queue c) = gid # rest" using Suc.prems(3) by (cases "q_active (t_queue c)") auto
  have "gid \<in> dom (q_generators (t_queue c))" using run_activeD(2,3) [OF run_okD(2) [OF Suc.prems(1)]] act by auto
  then obtain g where g: "q_generators (t_queue c) gid = Some g" by blast
  obtain p s where w: "t_world c gid = Some (p, s)"
    using run_gensD(2) [OF run_okD(1) [OF Suc.prems(1)]] g by (metis domD domI surj_pair)
  have free: "i \<notin> dom (gen_given g)"
    using run_jobsD(1) [OF run_okD(3) [OF Suc.prems(1)]] run_jobsD(3) [OF run_okD(3) [OF Suc.prems(1)] g]
      run_idsD(9) [OF run_okD(4) [OF Suc.prems(1)]] Suc.prems(2) by blast
  have "\<exists>g' jo. gen_NextJob i g = Inr (g', jo)"
    using run_gensD(3) [OF run_okD(1) [OF Suc.prems(1)] w g] generator.next_ok [OF _ free] generator.spent_next [of g i]
    by (fastforce simp: gen_state_def split: option.splits)
  then obtain g' jo where step: "gen_NextJob i g = Inr (g', jo)" by blast
  show ?case
  proof (cases jo)
    case None
    let ?q = "(t_queue c)\<lparr>q_generators := (q_generators (t_queue c))(gid \<mapsto> g'), q_active := rest,
      q_active_ids := q_active_ids (t_queue c) - {gid}\<rparr>"
    let ?c = "c\<lparr>t_queue := ?q\<rparr>"
    note n = attempt_none [OF Suc.prems(1) act g step [unfolded None] Suc.prems(2) refl]
    have loop: "next_attempts (Suc n) i (t_queue c) = next_attempts n i (t_queue ?c)"
      using act g step None by (simp add: deref_def bindE_def)
    have fresh: "i \<notin> t_used ?c" "n = length (q_active (t_queue ?c))" using Suc.prems(2,3) act by simp_all
    obtain q' jo' where q': "next_attempts n i (t_queue ?c) = Inr (q', jo')" "jo' = None \<longrightarrow> q_active q' = []"
      "q_failed q' = q_failed (t_queue ?c)" "run_ok W (handed i q' jo' ?c)" "t_work (handed i q' jo' ?c) \<le> t_work ?c"
      "jo' \<noteq> None \<longrightarrow> t_work (handed i q' jo' ?c) < t_work ?c"
      using Suc.IH [OF n(1) fresh] by blast
    then show ?thesis unfolding loop using n(2) by (intro exI [of _ q'] exI [of _ jo']) auto
  next
    case (Some j)
    have j: "job_id j = i" using gen_next_gives [OF step] Some by simp
    note n = attempt_some [OF Suc.prems(1) act g step [unfolded Some] Suc.prems(2) refl]
    show ?thesis using n act g step Some j by (simp add: deref_def bindE_def handed_def)
  qed
qed

lemma NextJob_ok:
  assumes ok: "run_ok W c" and i: "i \<notin> t_used c"
  shows "\<exists>q' jo. NextJob i (t_queue c) = Inr (q', jo) \<and>
    (jo = None \<longrightarrow> q_active q' = [] \<and> q_failed q' = [] \<and> q_failed (t_queue c) = []) \<and>
    run_ok W (handed i q' jo c) \<and> t_work (handed i q' jo c) \<le> t_work c \<and>
    (jo \<noteq> None \<longrightarrow> t_work (handed i q' jo c) < t_work c \<or> length (q_failed q') < length (q_failed (t_queue c)))"
proof (cases "q_failed (t_queue c)")
  case Nil
  then show ?thesis using next_attempts_ok [OF ok i refl] by (auto simp: NextJob_def)
next
  case (Cons k ks)
  note d = run_okD [OF ok] and xd = run_idsD [OF run_okD(4) [OF ok]]
  have k: "k \<in> q_known (t_queue c)" "k \<notin> set ks" "set ks \<subseteq> q_known (t_queue c)" "distinct ks" using xd(4,5) Cons by auto
  obtain j where j: "q_job (t_queue c) k = Some j" "job_id j = cur (t_queue c) k" by (rule known_job [OF d(3) k(1)])
  let ?q = "(t_queue c)\<lparr>q_failed := ks\<rparr>"
  let ?c = "c\<lparr>t_queue := ?q, t_held := (t_held c)(job_id j \<mapsto> j)\<rparr>"
  have cur: "cur ?q = cur (t_queue c)" by (simp add: cur_def fun_eq_iff)
  have held: "t_held ?c a = Some b \<longleftrightarrow> (\<exists>y \<in> q_known ?q - set ks. q_job ?q y = Some b \<and> job_id b = a)" for a b
  proof (cases "a = job_id j")
    case True
    have "y = k \<and> b = j" if "y \<in> q_known ?q" "q_job ?q y = Some b" "job_id b = a" for y
    proof -
      have "cur (t_queue c) y = cur (t_queue c) k" using that j(1) True by (simp add: cur_def)
      from inj_onD [OF xd(1) this] have "y = k" using k(1) that(1) by simp
      then show ?thesis using that(2) j(1) by simp
    qed
    then show ?thesis using True j(1) k(1,2) by auto
  next
    case False
    then have "y \<noteq> k" if "q_job ?q y = Some b" "job_id b = a" for y using that j by auto
    then show ?thesis using False xd(6) [of a b] Cons by auto
  qed
  have "run_ids ?c"
    by (rule run_idsI, unfold held) (use xd k in \<open>auto simp: cur\<close>)
  then have "run_ok W ?c" using d unfolding run_ok_def by simp
  moreover have "t_work (c\<lparr>t_queue := ?q\<rparr>) = t_work c" by (simp add: t_work_def)
  moreover have "NextJob i (t_queue c) = Inr (?q, Some j)" using Cons j(1) by (simp add: NextJob_def deref_def bindE_def)
  ultimately show ?thesis
    using run_ok_used [of W ?c i] Cons by (intro exI [of _ ?q] exI [of _ "Some j"]) (simp add: handed_def)
qed

section \<open>Results\<close>

lemma gen_answers:
  assumes "gen_ok p s C T g" and "gen_given g i = Some j"
  shows "\<exists>g' updated out. gen_JobCompleted (job_report C T i j) g = Inr (g', Answered updated out) \<and>
    gen_complete (job_report C T i j) g = Inr (g', out)"
proof -
  obtain g' out where "gen_complete (job_report C T i j) g = Inr (g', out)" using gen_complete_ok [OF assms] by blast
  then obtain a where a: "gen_JobCompleted (job_report C T i j) g = Inr (g', a)" by (auto simp: gen_complete_def bindE_eq_Inr)
  have "\<exists>updated out. a = Answered updated out"
  proof (cases g)
    case (ICPC h)
    then show ?thesis using a by (auto simp: gen_JobCompleted_def bindE_eq_Inr)
  next
    case (IOI h)
    then have "io_given h i = Some j" using assms(2) by simp
    then show ?thesis using a IOI by (auto simp: gen_JobCompleted_def ioi_JobCompleted_def bindE_eq_Inr Let_def)
  qed
  then obtain updated out' where "a = Answered updated out'" by blast
  then show ?thesis using a by (simp add: gen_complete_def bindE_def)
qed

text \<open>What a job that an invoker has stands for.\<close>

lemma held_job:
  assumes "run_ok W c" and "t_held c i = Some j"
  obtains k gid g p s j0 where "k \<in> q_known (t_queue c)" "k \<notin> set (q_failed (t_queue c))" "q_job (t_queue c) k = Some j"
    "cur (t_queue c) k = i" "first_id (t_queue c) i = k" "q_generator (t_queue c) k = Some gid"
    "q_generators (t_queue c) gid = Some g" "gen_given g k = Some j0" "j = j0\<lparr>job_id := i\<rparr>" "job_submission j = gs_id s"
    "gen_subm g = gs_id s" "t_world c gid = Some (p, s)" "t_done c (gs_id s) = None"
    "gen_ok p s (fst W (gs_id s)) (snd W (gs_id s)) g"
proof -
  note d = run_okD [OF assms(1)]
  obtain k where k: "k \<in> q_known (t_queue c)" "k \<notin> set (q_failed (t_queue c))" "q_job (t_queue c) k = Some j" "job_id j = i"
    using run_idsD(6) [OF d(4), of i j] assms(2) by blast
  have cur: "cur (t_queue c) k = i" using k by (simp add: cur_def)
  have first: "first_id (t_queue c) i = k"
    using run_idsD(2) [OF d(4) k(1)] unfolding cur by (simp add: first_id_def split: if_splits)
  obtain gid where gid: "q_generator (t_queue c) k = Some gid" using run_jobsD(1) [OF d(3)] k(1) by blast
  obtain g j0 where g: "q_generators (t_queue c) gid = Some g" "gen_given g k = Some j0" "job_submission j0 = gen_subm g"
    "j = j0\<lparr>job_id := i\<rparr>" using run_jobsD(2) [OF d(3) gid] k(3) cur by auto
  obtain p s where w: "t_world c gid = Some (p, s)" using run_gensD(2) [OF d(1)] g(1) by (metis domD domI surj_pair)
  have st: "gen_state W (t_done c) p s g" by (rule run_gensD(3) [OF d(1) w g(1)])
  have "t_done c (gs_id s) = None"
    using st g(2) generator.spent_given [of g] by (cases "t_done c (gs_id s)") (auto simp: gen_state_def)
  moreover from this have "gen_ok p s (fst W (gs_id s)) (snd W (gs_id s)) g" using st by (simp add: gen_state_def)
  ultimately show ?thesis using that k(1-3) cur first gid g w st by (simp add: gen_state_def)
qed

text \<open>A submission that has no answer yet can be updated in the status.\<close>

lemma update_shown:
  assumes "run_shown c" and "t_world c gid = Some (p, s)" and "t_done c (gs_id s) = None" and "gs_id x = gs_id s"
  shows "\<exists>st. (if updated then UpdateSubmission e x (q_status (t_queue c)) else Inr (q_status (t_queue c))) = Inr st \<and>
    \<not> qs_testing st \<and> dom (qs_active st) = dom (qs_active (q_status (t_queue c)))"
proof -
  have "(p, s) \<in> ran (t_world c)" using assms(2) by (rule ranI)
  moreover have "gs_id s \<notin> t_saved c" using assms(1,3) by (auto simp: run_shown_def)
  ultimately have "gs_id s \<in> dom (qs_active (q_status (t_queue c)))" using assms(1) by (force simp: run_shown_def)
  then show ?thesis using assms(1,4) by (auto simp: run_shown_def UpdateSubmission_def)
qed

text \<open>What the queue does with the result of such a job.\<close>

lemma JobCompleted_eq:
  assumes "first_id q i = k" and "q_generator q k = Some gid" and "q_generators q gid = Some g"
    and "gen_JobCompleted (r\<lparr>jres_job := k\<rparr>) g = Inr (g', Answered updated out)" and "jres_job r = i"
    and "(if updated then UpdateSubmission e (gen_submission g') (q_status q) else Inr (q_status q)) = Inr st"
  shows "\<exists>q'. JobCompleted e r q = Inr (q', QueueAnswer out) \<and> q_generators q' = (q_generators q)(gid \<mapsto> g') \<and>
    q_active q' = (if gid \<in> q_active_ids q then q_active q else q_active q @ [gid]) \<and>
    q_active_ids q' = insert gid (q_active_ids q) \<and> q_original q' = (q_original q)(i := None) \<and>
    q_failed q' = q_failed q \<and> q_job q' = q_job q \<and> q_known q' = q_known q - {k} \<and>
    q_generator q' = (q_generator q)(k := None) \<and> q_status q' = st"
proof -
  have "first_id q (jres_job r) = k" using assms(1,5) by simp
  then show ?thesis using assms(2-6)
    by (cases updated; cases "gid \<in> q_active_ids q")
      (simp_all add: JobCompleted_def Let_def activate_def deref_def bindE_def insert_absorb)
qed

lemma completed_ids:
  assumes "run_ids c" and k: "k \<in> q_known (t_queue c)" "k \<notin> set (q_failed (t_queue c))" "cur (t_queue c) k = i"
    and q: "q_original q = (q_original (t_queue c))(i := None)" "q_failed q = q_failed (t_queue c)" "q_job q = q_job (t_queue c)"
      "q_known q = q_known (t_queue c) - {k}" "dom (q_generators q) \<subseteq> t_used c"
    and c': "t_queue c' = q" "t_held c' = (t_held c)(i := None)" "t_used c' = t_used c"
  shows "run_ids c'"
proof -
  note xd = run_idsD [OF assms(1)]
  have cur: "cur q = cur (t_queue c)" by (simp add: cur_def q fun_eq_iff)
  have other: "cur (t_queue c) y \<noteq> i" if "y \<in> q_known (t_queue c)" "y \<noteq> k" for y
    using inj_onD [OF xd(1) _ that(1) k(1)] that(2) k(3) by auto
  show ?thesis
  proof (rule run_idsI, unfold c' cur q(1-4))
    show "inj_on (cur (t_queue c)) (q_known (t_queue c) - {k})" using xd(1) by (rule inj_on_subset) auto
    show "((q_original (t_queue c))(i := None)) (cur (t_queue c) y) = (if cur (t_queue c) y = y then None else Some y)"
      if "y \<in> q_known (t_queue c) - {k}" for y using that other [of y] xd(2) [of y] by simp
    show "y \<in> q_known (t_queue c) - {k} \<and> cur (t_queue c) y = a" if "((q_original (t_queue c))(i := None)) a = Some y" for a y
      using that xd(3) [of a y] k(3) by (auto split: if_splits)
    show "((t_held c)(i := None)) a = Some b \<longleftrightarrow>
        (\<exists>y \<in> q_known (t_queue c) - {k} - set (q_failed (t_queue c)). q_job (t_queue c) y = Some b \<and> job_id b = a)" for a b
    proof (cases "a = i")
      case True
      have "cur (t_queue c) y = i" if "q_job (t_queue c) y = Some b" "job_id b = i" for y using that by (simp add: cur_def)
      then show ?thesis using True other by auto
    next
      case False
      then have "y \<noteq> k" if "q_job (t_queue c) y = Some b" "job_id b = a" for y using that k(3) by (auto simp: cur_def)
      then show ?thesis using False xd(6) [of a b] by auto
    qed
  qed (use xd k(2) q(5) in auto)
qed

lemma JobCompleted_ok:
  assumes ok: "run_ok W c" and held: "t_held c i = Some j"
  shows "\<exists>q' out. JobCompleted e (queue_report W j) (t_queue c) = Inr (q', QueueAnswer out) \<and>
    (let c' = c\<lparr>t_queue := q', t_held := (t_held c)(i := None),
       t_done := (case out of None \<Rightarrow> t_done c | Some s \<Rightarrow> (t_done c)(job_submission j \<mapsto> s))\<rparr>
     in run_ok W c' \<and> t_work c' < t_work c)"
proof -
  note d = run_okD [OF ok]
  note gd = run_gensD [OF d(1)] and ad = run_activeD [OF d(2)] and jd = run_jobsD [OF d(3)] and xd = run_idsD [OF d(4)]
  obtain k gid g p s j0 where k: "k \<in> q_known (t_queue c)" "k \<notin> set (q_failed (t_queue c))" "q_job (t_queue c) k = Some j"
    "cur (t_queue c) k = i" "first_id (t_queue c) i = k" "q_generator (t_queue c) k = Some gid"
    and g: "q_generators (t_queue c) gid = Some g" "gen_given g k = Some j0" "j = j0\<lparr>job_id := i\<rparr>" "job_submission j = gs_id s"
    "gen_subm g = gs_id s" and w: "t_world c gid = Some (p, s)" and undone: "t_done c (gs_id s) = None"
    and gok: "gen_ok p s (fst W (gs_id s)) (snd W (gs_id s)) g"
    by (rule held_job [OF ok held])
  let ?r = "job_report (fst W (gs_id s)) (snd W (gs_id s)) k j0"
  have r: "(queue_report W j)\<lparr>jres_job := k\<rparr> = ?r" "jres_job (queue_report W j) = i"
    using g(3,4) by (cases "job_type j0"; simp add: queue_report_def job_report_def)+
  obtain g' updated out where a: "gen_JobCompleted ?r g = Inr (g', Answered updated out)" "gen_complete ?r g = Inr (g', out)"
    using gen_answers [OF gok g(2)] by blast
  note take = gen_complete_takes [OF a(2)]
  have sub: "gs_id (gen_submission g') = gs_id s" using take g(5) by (simp add: gen_subm_def)
  obtain st where st: "(if updated then UpdateSubmission e (gen_submission g') (q_status (t_queue c)) else Inr (q_status (t_queue c))) = Inr st"
    "\<not> qs_testing st" "dom (qs_active st) = dom (qs_active (q_status (t_queue c)))"
    using update_shown [OF d(5) w undone sub] by blast
  obtain q' where q': "JobCompleted e (queue_report W j) (t_queue c) = Inr (q', QueueAnswer out)"
    "q_generators q' = (q_generators (t_queue c))(gid \<mapsto> g')"
    "q_active q' = (if gid \<in> q_active_ids (t_queue c) then q_active (t_queue c) else q_active (t_queue c) @ [gid])"
    "q_active_ids q' = insert gid (q_active_ids (t_queue c))" "q_original q' = (q_original (t_queue c))(i := None)"
    "q_failed q' = q_failed (t_queue c)" "q_job q' = q_job (t_queue c)" "q_known q' = q_known (t_queue c) - {k}"
    "q_generator q' = (q_generator (t_queue c))(k := None)" "q_status q' = st"
    using JobCompleted_eq [OF k(5,6) g(1) a(1) [folded r(1)] r(2) st(1)] by blast
  define don where "don = (case out of None \<Rightarrow> t_done c | Some x \<Rightarrow> (t_done c)(gs_id s \<mapsto> x))"
  let ?c = "c\<lparr>t_queue := q', t_held := (t_held c)(i := None), t_done := don\<rparr>"
  have work: "gen_work g' < gen_work g" and st': "gen_state W don p s g'"
    using generator.complete_ok [OF gok g(2)] generator.complete_spent [OF gok g(2)] a(2) undone take g(5)
    by (auto simp: gen_state_def don_def split: option.split)
  have same: "don y = t_done c y" if "y \<noteq> gs_id s" for y using that by (simp add: don_def split: option.split)
  have one: "gen_subm h = gs_id s'" "y \<noteq> gid \<Longrightarrow> gs_id s' \<noteq> gs_id s"
    if "t_world c y = Some (p', s')" "q_generators (t_queue c) y = Some h" for y h p' s'
    using gd(3) [OF that] gd(4) [OF that(1) w] by (auto simp: gen_state_def)
  have other: "don (gen_subm h) = t_done c (gen_subm h)" if h: "q_generators (t_queue c) y = Some h" and y: "y \<noteq> gid" for y h
  proof -
    obtain p' s' where "t_world c y = Some (p', s')" using gd(2) h by (metis domD domI surj_pair)
    from one [OF this h] y show ?thesis by (simp add: same)
  qed
  have "finite (dom (q_generators (t_queue c)))" using gd(1,2) by simp
  then have less: "t_work ?c < t_work c"
  proof (rule t_work_update(2) [OF _ g(1)])
    show "open_work (t_done ?c) h \<le> open_work (t_done c) h" if "y \<noteq> gid" "q_generators (t_queue c) y = Some h" for y h
      using other [OF that(2,1)] by (simp add: open_work_def)
    show "open_work (t_done ?c) g' < open_work (t_done c) g" using work undone g(5) by (simp add: open_work_def)
  qed (simp add: q'(2))
  have gens: "run_gens W ?c"
  proof (rule run_gensI)
    show "gen_state W (t_done ?c) p' s' h" if "t_world ?c y = Some (p', s')" "q_generators (t_queue ?c) y = Some h" for y p' s' h
    proof (cases "y = gid")
      case True
      then show ?thesis using that w st' q'(2) by simp
    next
      case False
      then have "gen_state W (t_done c) p' s' h" "gs_id s' \<noteq> gs_id s" using that gd(3) one(2) q'(2) by simp_all
      then show ?thesis by (simp add: gen_state_def same)
    qed
  qed (use gd q'(2) w in auto)
  have act: "run_active ?c"
  proof (rule run_activeI)
    show "gen_given h \<noteq> Map.empty"
      if "q_generators (t_queue ?c) y = Some h" "y \<notin> q_active_ids (t_queue ?c)" "t_done ?c (gen_subm h) = None" for y h
      using that ad(4) [of y h] other [of y h] q'(2,4) by simp
  qed (use ad(1-3) g(1) q'(2-4) in auto)
  have cur: "cur q' = cur (t_queue c)" by (simp add: cur_def q' fun_eq_iff)
  have jobs: "run_jobs q'"
  proof (rule run_jobsI, unfold cur)
    show "\<exists>h x. q_generators q' y = Some h \<and> gen_given h z = Some x \<and> job_submission x = gen_subm h \<and>
        q_job q' z = Some (x\<lparr>job_id := cur (t_queue c) z\<rparr>)" if "q_generator q' z = Some y" for z y
      using jd(2) [of z y] that take g(1) q' by (cases "y = gid") (auto split: if_splits)
    show "q_generator q' z = Some y" if "q_generators q' y = Some h" "z \<in> dom (gen_given h)" for y h z
    proof (cases "y = gid")
      case True
      then show ?thesis using that take r(1) q'(2,9) jd(3) [OF g(1), of z] by (auto split: if_splits)
    next
      case False
      then have "q_generator (t_queue c) z = Some y" using that jd(3) q'(2) by simp
      then show ?thesis using k(6) False q'(9) by auto
    qed
  qed (use jd(1) q' in auto)
  have "dom (q_generators q') \<subseteq> t_used c" using xd(8) g(1) q'(2) by auto
  then have ids: "run_ids ?c" by (rule completed_ids [OF d(4) k(1,2,4) q'(5-8)]) simp_all
  have "dom (t_done c) \<subseteq> dom don" "dom don \<subseteq> insert (gs_id s) (dom (t_done c))" by (auto simp: don_def split: option.splits)
  moreover have "gs_id s \<in> (\<lambda>(p, s). gs_id s) ` ran (t_world c)" using ranI [of "t_world c", OF w] by force
  moreover have "t_saved c \<subseteq> dom (t_done c)" "dom (t_done c) \<subseteq> (\<lambda>(p, s). gs_id s) ` ran (t_world c)"
    using d(5) by (simp_all add: run_shown_def)
  ultimately have "t_saved c \<subseteq> dom don" "dom don \<subseteq> (\<lambda>(p, s). gs_id s) ` ran (t_world c)" by blast+
  then have shown: "run_shown ?c" using d(5) st(2,3) q'(10) by (simp add: run_shown_def)
  have "run_ok W ?c" using gens act jobs ids shown unfolding run_ok_def by simp
  then have "run_ok W ?c \<and> t_work ?c < t_work c" using less by simp
  then show ?thesis using q'(1) unfolding Let_def g(4) don_def by (intro exI [of _ q'] exI [of _ out] conjI) auto
qed

section \<open>Lost invokers\<close>

lemma RescheduleJob_eq:
  assumes "first_id q i = k" and "k \<in> q_known q" and "q_job q k = Some j"
  shows "RescheduleJob n i q = Inr (q\<lparr>q_original := (q_original q)(i := None, n \<mapsto> k), q_job := (q_job q)(k \<mapsto> j\<lparr>job_id := n\<rparr>),
    q_failed := q_failed q @ [k]\<rparr>, None)"
  using assms by (simp add: RescheduleJob_def Let_def deref_def bindE_def)

lemma rescheduled_ids:
  assumes "run_ids c" and k: "k \<in> q_known (t_queue c)" "k \<notin> set (q_failed (t_queue c))" "q_job (t_queue c) k = Some j"
    and i: "cur (t_queue c) k = i" and n: "n \<notin> t_used c"
    and q: "q = (t_queue c)\<lparr>q_original := (q_original (t_queue c))(i := None, n \<mapsto> k),
      q_job := (q_job (t_queue c))(k \<mapsto> j\<lparr>job_id := n\<rparr>), q_failed := q_failed (t_queue c) @ [k]\<rparr>"
    and c': "t_queue c' = q" "t_held c' = (t_held c)(i := None)" "t_used c' = insert n (t_used c)"
  shows "run_ids c'"
proof -
  note xd = run_idsD [OF assms(1)]
  have f: "q_original q = (q_original (t_queue c))(i := None, n \<mapsto> k)" "q_failed q = q_failed (t_queue c) @ [k]"
    "q_job q = (q_job (t_queue c))(k \<mapsto> j\<lparr>job_id := n\<rparr>)" "q_known q = q_known (t_queue c)"
    "q_generators q = q_generators (t_queue c)" by (simp_all add: q)
  have cur: "cur q y = (if y = k then n else cur (t_queue c) y)" for y by (simp add: cur_def f)
  have other: "cur (t_queue c) y \<noteq> i" if "y \<in> q_known (t_queue c)" "y \<noteq> k" for y
    using inj_onD [OF xd(1) _ that(1) k(1)] that(2) i by auto
  have new: "cur (t_queue c) y \<noteq> n" if "y \<in> q_known (t_queue c)" for y using xd(10) [OF that] n by blast
  have nk: "n \<noteq> k" using xd(9) k(1) n by blast
  show ?thesis
  proof (rule run_idsI, unfold c')
    show "inj_on (cur q) (q_known q)"
      using xd(1) new unfolding inj_on_def by (auto simp: cur f(4) split: if_splits)
    show "q_original q (cur q y) = (if cur q y = y then None else Some y)" if "y \<in> q_known q" for y
    proof (cases "y = k")
      case True
      then show ?thesis using nk by (simp add: cur f(1))
    next
      case False
      then have "q_original q (cur q y) = q_original (t_queue c) (cur (t_queue c) y)"
        using that other [of y] new [of y] by (simp add: cur f(1,4))
      then show ?thesis using that False xd(2) [of y] by (simp only: f(4) cur if_False)
    qed
    show "y \<in> q_known q \<and> cur q y = a" if "q_original q a = Some y" for a y
      using that xd(3) [of a y] i k(1) by (auto simp: cur f(1,4) split: if_splits)
    show "((t_held c)(i := None)) a = Some b \<longleftrightarrow> (\<exists>y \<in> q_known q - set (q_failed q). q_job q y = Some b \<and> job_id b = a)" for a b
    proof (cases "a = i")
      case True
      have "cur (t_queue c) y = i" if "q_job (t_queue c) y = Some b" "job_id b = i" for y using that by (simp add: cur_def)
      then show ?thesis using True other by (auto simp: f)
    next
      case False
      then have "y \<noteq> k" if "q_job (t_queue c) y = Some b" "job_id b = a" for y using that i by (auto simp: cur_def)
      then show ?thesis using False xd(6) [of a b] by (auto simp: f)
    qed
    show "cur q y \<in> insert n (t_used c)" if "y \<in> q_known q" for y using that xd(10) [of y] by (simp add: cur f(4))
  qed (use xd k(1,2) in \<open>auto simp: f\<close>)
qed

lemma RescheduleJob_ok:
  assumes ok: "run_ok W c" and held: "t_held c i = Some j" and n: "n \<notin> t_used c"
  shows "\<exists>q'. RescheduleJob n i (t_queue c) = Inr (q', None) \<and>
    (let c' = c\<lparr>t_queue := q', t_held := (t_held c)(i := None), t_used := insert n (t_used c)\<rparr>
     in run_ok W c' \<and> t_work c' = t_work c)"
proof -
  note d = run_okD [OF ok]
  note gd = run_gensD [OF d(1)] and ad = run_activeD [OF d(2)] and jd = run_jobsD [OF d(3)]
  obtain k where k: "k \<in> q_known (t_queue c)" "k \<notin> set (q_failed (t_queue c))" "q_job (t_queue c) k = Some j"
    "cur (t_queue c) k = i" "first_id (t_queue c) i = k"
    by (rule held_job [OF ok held])
  define q' where "q' = (t_queue c)\<lparr>q_original := (q_original (t_queue c))(i := None, n \<mapsto> k),
      q_job := (q_job (t_queue c))(k \<mapsto> j\<lparr>job_id := n\<rparr>), q_failed := q_failed (t_queue c) @ [k]\<rparr>"
  let ?c = "c\<lparr>t_queue := q', t_held := (t_held c)(i := None), t_used := insert n (t_used c)\<rparr>"
  have f: "q_generators q' = q_generators (t_queue c)" "q_active q' = q_active (t_queue c)" "q_known q' = q_known (t_queue c)"
    "q_active_ids q' = q_active_ids (t_queue c)" "q_status q' = q_status (t_queue c)" "q_generator q' = q_generator (t_queue c)"
    by (simp_all add: q'_def)
  have step: "RescheduleJob n i (t_queue c) = Inr (q', None)" unfolding q'_def by (rule RescheduleJob_eq [OF k(5,1,3)])
  have gens: "run_gens W ?c" using d(1) by (simp add: run_gens_def f)
  have act: "run_active ?c"
  proof (rule run_activeI)
    show "gen_given g \<noteq> Map.empty"
      if "q_generators (t_queue ?c) gid = Some g" "gid \<notin> q_active_ids (t_queue ?c)" "t_done ?c (gen_subm g) = None" for gid g
      using that ad(4) [of gid g] by (simp add: f)
  qed (simp_all add: f ad(1-3))
  have shown: "run_shown ?c" using d(5) by (simp add: run_shown_def f)
  have ids: "run_ids ?c" by (rule rescheduled_ids [OF d(4) k(1-4) n q'_def]) simp_all
  have jobs: "run_jobs q'"
  proof (rule run_jobsI, unfold f)
    show "\<exists>g j. q_generators (t_queue c) gid = Some g \<and> gen_given g y = Some j \<and> job_submission j = gen_subm g \<and>
        q_job q' y = Some (j\<lparr>job_id := cur q' y\<rparr>)" if y: "q_generator (t_queue c) y = Some gid" for y gid
    proof (cases "y = k")
      case True
      obtain g j0 where g: "q_generators (t_queue c) gid = Some g" "gen_given g k = Some j0" "job_submission j0 = gen_subm g"
        and j: "j = j0\<lparr>job_id := i\<rparr>" using jd(2) [OF y] True k(3,4) by auto
      have "j\<lparr>job_id := n\<rparr> = j0\<lparr>job_id := n\<rparr>" unfolding j by simp
      then show ?thesis using True g by (simp add: cur_def q'_def)
    next
      case False
      then show ?thesis using jd(2) [OF y] by (simp add: cur_def q'_def)
    qed
  qed (use jd in auto)
  have "run_ok W ?c" using gens act jobs ids shown unfolding run_ok_def by simp
  moreover have "t_work ?c = t_work c" by (simp add: t_work_def f)
  ultimately show ?thesis using step unfolding Let_def by (intro exI [of _ q'] conjI)
qed

section \<open>Submissions\<close>

lemma NewGenerator_ok:
  assumes "NewGenerator p s = Inr g" and "admissible W p s"
  shows "gen_ok p s (fst W (gs_id s)) (snd W (gs_id s)) g \<and> gen_subm g = gs_id s \<and> gen_given g = Map.empty"
proof (cases "p_type p")
  case ProblemICPC
  then obtain h where h: "newICPCGenerator p s = Inr h" "g = ICPC h" using assms(1) by (auto simp: NewGenerator_def split: sum.splits)
  have "gen_subm g = gs_id s" "gen_given g = Map.empty" using h by (auto simp: newICPCGenerator_def split: if_splits)
  then show ?thesis using newICPC_ok [OF h(1)] h(2) ProblemICPC assms(2) by (simp add: gen_ok_def admissible_def)
next
  case ProblemIOI
  then obtain h where h: "NewIOIGenerator p s = Inr h" "g = IOI h" using assms(1) by (auto simp: NewGenerator_def split: sum.splits)
  note new = NewIOI_fresh [OF h(1)]
  show ?thesis
    using new h(2) ProblemIOI assms(2) groups_fine_reported by (simp add: gen_ok_def ioi_ok_def admissible_def ioi_fresh_def)
qed (use assms(1) in \<open>auto simp: NewGenerator_def\<close>)

lemma Submit_ok:
  assumes ok: "run_ok W c" and gid: "gid \<notin> t_used c" and adm: "admissible W p s" and new: "new_submission s c"
  shows "(\<exists>err. Submit gid e p s (t_queue c) = Inr (t_queue c, Some err)) \<or>
    (\<exists>q'. Submit gid e p s (t_queue c) = Inr (q', None) \<and>
       run_ok W (c\<lparr>t_queue := q', t_world := (t_world c)(gid \<mapsto> (p, s)), t_used := insert gid (t_used c)\<rparr>))"
proof (cases "NewGenerator p s")
  case (Inl err)
  then show ?thesis by (simp add: Submit_def)
next
  case (Inr g)
  note d = run_okD [OF ok]
  note gd = run_gensD [OF d(1)] and ad = run_activeD [OF d(2)] and jd = run_jobsD [OF d(3)] and xd = run_idsD [OF d(4)]
  note g = NewGenerator_ok [OF Inr adm]
  let ?ids = "\<lambda>m. (\<lambda>(p, s). gs_id s) ` ran m"
  have fresh: "t_world c gid = None" "q_generators (t_queue c) gid = None" "gid \<notin> q_active_ids (t_queue c)"
    using gid xd(8) gd(2) ad(3) by blast+
  have unknown: "gs_id s \<notin> ?ids (t_world c)" using new by (force simp: new_submission_def ran_def)
  have sd: "dom (qs_active (q_status (t_queue c))) = ?ids (t_world c) - t_saved c" "t_saved c \<subseteq> dom (t_done c)"
    "dom (t_done c) \<subseteq> ?ids (t_world c)" using d(5) by (simp_all add: run_shown_def)
  have undone: "gs_id s \<notin> dom (t_done c)" and unsaved: "gs_id s \<notin> t_saved c" using unknown sd(2,3) by blast+
  have unseen: "gs_id s \<notin> dom (qs_active (q_status (t_queue c)))" using unknown sd(1) by blast
  define st where "st = (q_status (t_queue c))\<lparr>qs_active := (qs_active (q_status (t_queue c)))(gs_id s \<mapsto> \<lparr>h_submission = Live, h_epoch = e\<rparr>),
    qs_order := gs_id s # qs_order (q_status (t_queue c))\<rparr>"
  define q' where "q' = (t_queue c)\<lparr>q_status := st, q_generators := (q_generators (t_queue c))(gid \<mapsto> g),
    q_active := q_active (t_queue c) @ [gid], q_active_ids := insert gid (q_active_ids (t_queue c))\<rparr>"
  let ?c = "c\<lparr>t_queue := q', t_world := (t_world c)(gid \<mapsto> (p, s)), t_used := insert gid (t_used c)\<rparr>"
  have step: "Submit gid e p s (t_queue c) = Inr (q', None)"
    using Inr unseen by (simp add: Submit_def AddSubmission_def bindE_def q'_def st_def)
  have f: "q_generators q' = (q_generators (t_queue c))(gid \<mapsto> g)" "q_active q' = q_active (t_queue c) @ [gid]"
    "q_active_ids q' = insert gid (q_active_ids (t_queue c))" "q_known q' = q_known (t_queue c)" "q_status q' = st"
    "q_generator q' = q_generator (t_queue c)" "q_job q' = q_job (t_queue c)" "q_original q' = q_original (t_queue c)"
    "q_failed q' = q_failed (t_queue c)" by (simp_all add: q'_def)
  have cur: "cur q' = cur (t_queue c)" by (simp add: cur_def f fun_eq_iff)
  have gens: "run_gens W ?c"
  proof (rule run_gensI)
    show "gen_state W (t_done ?c) p' s' h" if "t_world ?c y = Some (p', s')" "q_generators (t_queue ?c) y = Some h" for y p' s' h
    proof (cases "y = gid")
      case True
      moreover have "t_done c (gs_id s) = None" using undone by blast
      ultimately show ?thesis using that g f(1) by (simp add: gen_state_def)
    next
      case False
      then show ?thesis using that gd(3) f(1) by simp
    qed
    show "y = y'" if "t_world ?c y = Some (p1, s1)" "t_world ?c y' = Some (p2, s2)" "gs_id s1 = gs_id s2" for y y' p1 p2 s1 s2
      using that gd(4) [of y p1 s1 y' p2 s2] new unfolding new_submission_def by (auto split: if_splits)
  qed (use gd(1,2) f(1) in auto)
  have act: "run_active ?c"
  proof (rule run_activeI)
    show "gen_given h \<noteq> Map.empty"
      if "q_generators (t_queue ?c) y = Some h" "y \<notin> q_active_ids (t_queue ?c)" "t_done ?c (gen_subm h) = None" for y h
      using that ad(4) [of y h] by (simp add: f)
  qed (use ad(1-3) fresh in \<open>auto simp: f\<close>)
  have jobs: "run_jobs q'"
  proof (rule run_jobsI, unfold cur f(4,6,7))
    show "\<exists>h x. q_generators q' y = Some h \<and> gen_given h z = Some x \<and> job_submission x = gen_subm h \<and>
        q_job (t_queue c) z = Some (x\<lparr>job_id := cur (t_queue c) z\<rparr>)" if "q_generator (t_queue c) z = Some y" for z y
      using jd(2) [OF that] fresh(2) by (auto simp: f)
    show "q_generator (t_queue c) z = Some y" if "q_generators q' y = Some h" "z \<in> dom (gen_given h)" for y h z
      using that jd(3) [of y h z] g by (auto simp: f split: if_splits)
  qed (rule jd(1))
  have ids: "run_ids ?c" by (rule run_idsI) (use xd in \<open>auto simp: cur f\<close>)
  have ran: "ran (t_world ?c) = insert (p, s) (ran (t_world c))" using fresh(1) by simp
  have "dom (qs_active st) = insert (gs_id s) (dom (qs_active (q_status (t_queue c))))" by (simp add: st_def)
  then have "dom (qs_active st) = ?ids (t_world ?c) - t_saved c" unfolding ran sd(1) using unsaved by auto
  moreover have "dom (t_done c) \<subseteq> ?ids (t_world ?c)" unfolding ran using sd(3) by auto
  moreover have "\<not> qs_testing st" using d(5) by (simp add: run_shown_def st_def)
  ultimately have shown: "run_shown ?c" using sd(2) f(5) by (simp add: run_shown_def)
  have "run_ok W ?c" using gens act jobs ids shown unfolding run_ok_def by simp
  then show ?thesis using step by blast
qed

lemma saved_ok:
  assumes ok: "run_ok W c" and k: "k \<in> dom (t_done c) - t_saved c"
  shows "\<exists>st. FinishSubmissionTesting k (q_status (t_queue c)) = Inr st \<and>
    run_ok W (c\<lparr>t_queue := (t_queue c)\<lparr>q_status := st\<rparr>, t_saved := insert k (t_saved c)\<rparr>)"
proof -
  note d = run_okD [OF ok]
  have "k \<in> dom (qs_active (q_status (t_queue c)))" using d(5) k unfolding run_shown_def by blast
  then obtain st where step: "FinishSubmissionTesting k (q_status (t_queue c)) = Inr st"
    and st: "qs_testing st = qs_testing (q_status (t_queue c))" "qs_active st = (qs_active (q_status (t_queue c)))(k := None)"
    by (simp add: FinishSubmissionTesting_def)
  let ?c = "c\<lparr>t_queue := (t_queue c)\<lparr>q_status := st\<rparr>, t_saved := insert k (t_saved c)\<rparr>"
  have "run_gens W ?c = run_gens W c" by (simp add: run_gens_def)
  moreover have "run_active ?c = run_active c" by (simp add: run_active_def)
  moreover have "run_jobs (t_queue ?c) = run_jobs (t_queue c)" by (simp add: run_jobs_def cur_def)
  moreover have "run_ids ?c = run_ids c" by (simp add: run_ids_def cur_def inj_on_def Let_def)
  moreover have "run_shown ?c" using d(5) st k unfolding run_shown_def by auto
  ultimately show ?thesis using step d unfolding run_ok_def by blast
qed

section \<open>All steps\<close>

lemma run_ok_start: "run_ok W testing_start"
  by (simp add: run_ok_def run_gens_def run_active_def run_jobs_def run_ids_def run_shown_def testing_start_def NewQueue_def
    NewQueueStatus_def)

lemma run_ok_step:
  assumes "testing_step W c c'" and ok: "run_ok W c"
  shows "run_ok W c'"
  using assms(1)
proof cases
  case (submitted gid p s e q)
  then show ?thesis using Submit_ok [OF ok, of gid p s e] by auto
next
  case (asked i q jo)
  then show ?thesis using NextJob_ok [OF ok asked(2)] by auto
next
  case (reported i j e q out)
  then show ?thesis using JobCompleted_ok [OF ok reported(2), of e] by (auto simp: Let_def)
next
  case (lost i j n q)
  then show ?thesis using RescheduleJob_ok [OF ok lost(2,3)] by (auto simp: Let_def)
next
  case (saved k st)
  then show ?thesis using saved_ok [OF ok saved(2)] by auto
qed

lemma run_ok_run: "testing_runs W c c' \<Longrightarrow> run_ok W c \<Longrightarrow> run_ok W c'"
  by (induction rule: rtranclp_induct) (auto intro: run_ok_step)

section \<open>The end of testing\<close>

definition all_tested :: "testing_run \<Rightarrow> bool" where
  "all_tested c \<longleftrightarrow> (\<forall>gid p s. t_world c gid = Some (p, s) \<longrightarrow> gs_id s \<in> dom (t_done c))"

text \<open>Who has a job, by its first id.\<close>

definition holders :: "string \<Rightarrow> testing_run \<Rightarrow> string set" where
  "holders k c = {i \<in> dom (t_held c). first_id (t_queue c) i = k}"

lemma holders_eq:
  assumes ok: "run_ok W c" and k: "k \<in> q_known (t_queue c)"
  shows "holders k c = (if k \<in> set (q_failed (t_queue c)) then {} else {cur (t_queue c) k})"
proof -
  note d = run_okD [OF ok]
  obtain j where j: "q_job (t_queue c) k = Some j" "job_id j = cur (t_queue c) k" by (rule known_job [OF d(3) k])
  have "k \<notin> set (q_failed (t_queue c)) \<and> i = cur (t_queue c) k" if i: "i \<in> holders k c" for i
  proof -
    obtain x where x: "t_held c i = Some x" "first_id (t_queue c) i = k" using i by (auto simp: holders_def)
    obtain k' where "k' \<notin> set (q_failed (t_queue c))" "cur (t_queue c) k' = i" "first_id (t_queue c) i = k'"
      by (rule held_job [OF ok x(1)])
    then show ?thesis using x(2) by simp
  qed
  moreover have "cur (t_queue c) k \<in> holders k c" if "k \<notin> set (q_failed (t_queue c))"
  proof -
    have "t_held c (cur (t_queue c) k) = Some j" using run_idsD(6) [OF d(4), of "cur (t_queue c) k" j] k j that by blast
    moreover have "first_id (t_queue c) (cur (t_queue c) k) = k" using run_idsD(2) [OF d(4) k] by (simp add: first_id_def)
    ultimately show ?thesis by (simp add: holders_def domI)
  qed
  ultimately show ?thesis by auto
qed

text \<open>A queue that has nothing to give, while no invoker has a job, has tested everything.\<close>

lemma stuck_tested:
  assumes ok: "run_ok W c" and i: "i \<notin> t_used c" and step: "NextJob i (t_queue c) = Inr (q', None)" and free: "t_held c = Map.empty"
  shows "all_tested c"
  unfolding all_tested_def
proof (intro allI impI, rule ccontr)
  let ?c = "handed i q' None c"
  have f: "t_queue ?c = q'" "t_world ?c = t_world c" "t_done ?c = t_done c" "t_held ?c = t_held c" by (simp_all add: handed_def)
  have "run_ok W ?c" and e: "q_active q' = []" "q_failed q' = []" using NextJob_ok [OF ok i] step by auto
  note d = run_okD [OF this(1)]
  fix gid p s assume w: "t_world c gid = Some (p, s)" and undone: "gs_id s \<notin> dom (t_done c)"
  obtain g where g: "q_generators q' gid = Some g" using run_gensD(2) [OF d(1)] w by (metis f(1,2) domD domI)
  have "gen_subm g = gs_id s" using run_gensD(3) [OF d(1), of gid p s g] w g by (simp add: f gen_state_def)
  moreover have "gid \<notin> q_active_ids q'" using run_activeD(2) [OF d(2)] e(1) by (simp add: f)
  ultimately have "gen_given g \<noteq> Map.empty" using run_activeD(4) [OF d(2), of gid g] g undone by (auto simp: f)
  then obtain k where "k \<in> dom (gen_given g)" by fastforce
  then have k: "k \<in> q_known (t_queue ?c)" using run_jobsD(1) [OF d(3)] run_jobsD(3) [OF d(3), of gid g k] g f(1) by auto
  have "holders k ?c = {cur q' k}" using holders_eq [OF run_ok_used [OF ok], of k] holders_eq [OF \<open>run_ok W ?c\<close> k] e(2) by (simp add: f)
  then show False using free by (auto simp: holders_def f)
qed

lemma fresh_id: "run_ok W c \<Longrightarrow> \<exists>i. i \<notin> t_used c"
  using run_idsD(7) [OF run_okD(4)] ex_new_if_finite infinite_UNIV_listI by blast

text \<open>Every run can be continued, with the results of the jobs that are out and of those still to come, to the end.\<close>

lemma drains:
  assumes "run_ok W c"
  shows "\<exists>c'. testing_runs W c c' \<and> t_world c' = t_world c \<and> t_saved c' = t_saved c \<and> all_tested c'"
  using wf_measures [of "[t_work, \<lambda>c. length (q_failed (t_queue c))]"] assms
proof (induction c rule: wf_induct_rule)
  case (less c)
  show ?case
  proof (cases "t_held c = Map.empty")
    case False
    then obtain i j where "t_held c i = Some j" by fastforce
    note ij = this JobCompleted_ok [OF less(2) this, of "''''"]
    then obtain q out where step: "JobCompleted '''' (queue_report W j) (t_queue c) = Inr (q, QueueAnswer out)" by blast
    define c1 where "c1 = c\<lparr>t_queue := q, t_held := (t_held c)(i := None),
      t_done := (case out of None \<Rightarrow> t_done c | Some s \<Rightarrow> (t_done c)(job_submission j \<mapsto> s))\<rparr>"
    have c1: "run_ok W c1" "t_work c1 < t_work c" using ij(2) step by (auto simp: Let_def c1_def)
    have "testing_step W c c1" unfolding c1_def by (rule reported [OF ij(1) step])
    moreover obtain c' where "testing_runs W c1 c'" "t_world c' = t_world c1" "t_saved c' = t_saved c1" "all_tested c'"
      using less(1) [OF _ c1(1)] c1(2) by auto
    moreover have "t_world c1 = t_world c" "t_saved c1 = t_saved c" by (simp_all add: c1_def)
    ultimately show ?thesis by (metis converse_rtranclp_into_rtranclp)
  next
    case True
    obtain i where i: "i \<notin> t_used c" using fresh_id [OF less(2)] ..
    obtain q jo where step: "NextJob i (t_queue c) = Inr (q, jo)" and ok: "run_ok W (handed i q jo c)"
      and work: "t_work (handed i q jo c) \<le> t_work c"
        "jo \<noteq> None \<longrightarrow> t_work (handed i q jo c) < t_work c \<or> length (q_failed q) < length (q_failed (t_queue c))"
      using NextJob_ok [OF less(2) i] by blast
    show ?thesis
    proof (cases jo)
      case None
      then show ?thesis using stuck_tested [OF less(2) i _ True] step by blast
    next
      case (Some j)
      have f: "t_queue (handed i q jo c) = q" "t_world (handed i q jo c) = t_world c"
        "t_saved (handed i q jo c) = t_saved c" by (simp_all add: handed_def)
      have smaller: "(handed i q jo c, c) \<in> measures [t_work, \<lambda>c. length (q_failed (t_queue c))]"
        using work Some f(1) by (auto simp: le_less)
      have "testing_step W c (handed i q jo c)" by (rule asked [OF i step])
      moreover obtain c' where "testing_runs W (handed i q jo c) c'" "t_world c' = t_world c" "t_saved c' = t_saved c"
        "all_tested c'"
        using less(1) [OF smaller ok] f(2,3) by auto
      ultimately show ?thesis by (metis converse_rtranclp_into_rtranclp)
    qed
  qed
qed

text \<open>The answers are those of the generators.\<close>

lemma answers_final:
  assumes "run_ok W c" and "t_world c gid = Some (p, s)" and "t_done c (gs_id s) = Some s'"
  shows "gen_final p s (fst W (gs_id s)) (snd W (gs_id s)) s'"
proof -
  note d = run_okD [OF assms(1)]
  obtain g where "q_generators (t_queue c) gid = Some g" using run_gensD(2) [OF d(1)] assms(2) by (metis domD domI)
  from run_gensD(3) [OF d(1) assms(2) this] show ?thesis using assms(3) by (simp add: gen_state_def)
qed

end
