(* ===== verification/GoMaster.thy ===== *)
theory GoMaster
  imports GoRegistry GoFields
begin

text \<open>
  src/master: what the master does with the requests of its clients and its invokers.  What a request holds and what the
  database and the storage answer are arguments; the result is the state after the handler, the reply, and what the handler
  leaves to the background.  A handler is several calls under mutexes; here they follow each other at once, and
  the runs of the master allow what happens in between.
\<close>

section \<open>The master\<close>

record master =
  mr_queue :: queue
  mr_registry :: registry
  mr_invokers :: "nat \<rightharpoonup> invoker"

definition SetupMaster :: "bool \<Rightarrow> string + master" where
  "SetupMaster configured =
     (if \<not> configured then Inl ''master is not configured''
      else Inr \<lparr>mr_queue = NewQueue, mr_registry = NewInvokerRegistry, mr_invokers = Map.empty\<rparr>)"

text \<open>Replies are plain text, the id of a submission, or the two answers invokers get.\<close>

datatype reply = Plain nat string | SubmissionResponse nat | RespOK | RespErr nat string

abbreviation internal_error :: reply where
  "internal_error \<equiv> Plain 500 ''internal server error''"

text \<open>The tick of the loop that sends jobs.\<close>

definition sendingJobsTick :: "(nat \<Rightarrow> string) \<Rightarrow> master \<Rightarrow> panic + master \<times> (nat \<times> job) list" where
  "sendingJobsTick ids m = bindE (SendJobs ids (mr_registry m) (mr_queue m) (mr_invokers m)) (\<lambda>(r, q, ivs, sent).
     Inr (\<lparr>mr_queue = q, mr_registry = r, mr_invokers = ivs\<rparr>, sent))"

section \<open>Submissions\<close>

datatype lookup = Found problem | NotFound | DbFailed

definition loadProblem :: "lookup \<Rightarrow> reply + problem" where
  "loadProblem l = (case l of Found p \<Rightarrow> Inr p | NotFound \<Rightarrow> Inl (Plain 404 ''Problem not found'') | DbFailed \<Rightarrow> Inl internal_error)"

definition saveSubmissionInStorage :: "bool \<Rightarrow> bool \<Rightarrow> reply option" where
  "saveSubmissionInStorage opened uploaded =
     (if \<not> opened then Some (Plain 400 ''failed to read source code'')
      else if \<not> uploaded then Some internal_error
      else None)"

text \<open>The database gives the id, when it stores the submission.\<close>

definition saveSubmissionInDB :: "nat option \<Rightarrow> reply + gsubmission" where
  "saveSubmissionInDB saved =
     (case saved of
        None \<Rightarrow> Inl internal_error
      | Some k \<Rightarrow> Inr \<lparr>gs_id = k, gs_score = Fin 0, gs_verdict = V_RU, gs_results = [], gs_compilation = None, gs_groups = []\<rparr>)"

record submit_request =
  sr_problem :: string
  sr_file :: bool
  sr_lookup :: "nat \<Rightarrow> lookup"
  sr_saved :: "nat option"
  sr_opened :: bool
  sr_uploaded :: bool

text \<open>What is undone in the background until it succeeds.\<close>

datatype cleanup = RemoveFromDB nat | RemoveFromStorage nat

definition handleNewSubmission :: "(nat \<Rightarrow> string) \<Rightarrow> string \<Rightarrow> string \<Rightarrow> submit_request \<Rightarrow> master \<Rightarrow>
    panic + master \<times> reply \<times> cleanup list \<times> (nat \<times> job) list" where
  "handleNewSubmission ids gid e req m =
     (case ParseUint (sr_problem req) of
        Inl err \<Rightarrow> Inr (m, Plain 400 ''ProblemID is not uint'', [], [])
      | Inr k \<Rightarrow>
          if \<not> sr_file req then Inr (m, Plain 400 ''No source code'', [], [])
          else
            (case loadProblem (sr_lookup req (unat k)) of
               Inl rep \<Rightarrow> Inr (m, rep, [], [])
             | Inr p \<Rightarrow>
                 (case saveSubmissionInDB (sr_saved req) of
                    Inl rep \<Rightarrow> Inr (m, rep, [], [])
                  | Inr s \<Rightarrow>
                      (case saveSubmissionInStorage (sr_opened req) (sr_uploaded req) of
                         Some rep \<Rightarrow> Inr (m, rep, [RemoveFromDB (gs_id s)], [])
                       | None \<Rightarrow> bindE (Submit gid e p s (mr_queue m)) (\<lambda>(q, err).
                           case err of
                             Some x \<Rightarrow> Inr (m\<lparr>mr_queue := q\<rparr>, internal_error, [RemoveFromDB (gs_id s), RemoveFromStorage (gs_id s)], [])
                           | None \<Rightarrow> bindE (sendingJobsTick ids (m\<lparr>mr_queue := q\<rparr>)) (\<lambda>(m, sent).
                               Inr (m, SubmissionResponse (gs_id s), [], sent)))))))"

text \<open>
  One attempt to store a tested submission, which is repeated until the database takes it; only then the submission
  leaves the status.
\<close>

definition finishSubmissionTesting :: "bool \<Rightarrow> nat \<Rightarrow> master \<Rightarrow> panic + master \<times> bool" where
  "finishSubmissionTesting stored k m =
     (if \<not> stored then Inr (m, False)
      else bindE (FinishSubmissionTesting k (q_status (mr_queue m))) (\<lambda>st.
        Inr (m\<lparr>mr_queue := (mr_queue m)\<lparr>q_status := st\<rparr>\<rparr>, True)))"

section \<open>Status and caches\<close>

fun reports_loop :: "(nat \<Rightarrow> string list) \<Rightarrow> (nat \<rightharpoonup> invoker) \<Rightarrow> nat list \<Rightarrow> panic + invoker_report list" where
  "reports_loop order ivs [] = Inr []"
| "reports_loop order ivs (p # ps) =
     bindE (deref (ivs p)) (\<lambda>iv. bindE (reports_loop order ivs ps) (\<lambda>rs. Inr (StatusForMaster (order p) iv # rs)))"

definition handleStatus :: "(nat \<Rightarrow> gsubmission) \<Rightarrow> string \<Rightarrow> string \<Rightarrow> (nat \<Rightarrow> string list) \<Rightarrow> master \<Rightarrow>
    panic + master_state \<times> invoker_report list" where
  "handleStatus live e prev order m =
     (let st = GetStatus live e prev (q_status (mr_queue m)) in
      bindE (reports_loop order (mr_invokers m) (r_invokers (mr_registry m))) (\<lambda>rs. Inr (st, rs)))"

text \<open>The answers of the invokers come in any order; the first error ends the wait.\<close>

fun invokersAction :: "string option list \<Rightarrow> string option" where
  "invokersAction [] = None"
| "invokersAction (a # as) = (case a of Some err \<Rightarrow> Some err | None \<Rightarrow> invokersAction as)"

definition handleResetInvokerCache :: "string option list \<Rightarrow> reply" where
  "handleResetInvokerCache answers =
     (case invokersAction answers of Some err \<Rightarrow> internal_error | None \<Rightarrow> Plain 200 ''OK'')"

section \<open>Invokers\<close>

text \<open>The body of a request may not be readable.\<close>

definition handleInvokerStatus :: "(nat \<Rightarrow> string list) \<Rightarrow> nat \<Rightarrow> int \<Rightarrow> string + invoker_status \<Rightarrow> master \<Rightarrow>
    panic + master \<times> reply \<times> (nat \<times> string list \<times> bool) list" where
  "handleInvokerStatus order new now body m =
     (case body of
        Inl err \<Rightarrow> Inr (m, RespErr 400 (''can not parse invoker status, error: '' @ err), [])
      | Inr st \<Rightarrow> bindE (UpsertInvoker order new now st (mr_registry m) (mr_invokers m)) (\<lambda>(r, ivs, started).
          Inr (m\<lparr>mr_registry := r, mr_invokers := ivs\<rparr>, RespOK, started)))"

text \<open>
  What the handler of a result starts: requests to stop jobs, timers and failures of invokers, sending of jobs, and storing the
  submission that is tested.
\<close>

record result_work =
  rw_stops :: "(nat \<times> string) list"
  rw_started :: "(nat \<times> string list \<times> bool) list"
  rw_sent :: "(nat \<times> job) list"
  rw_tested :: "gsubmission option"

definition handleInvokerJobResult :: "string list \<Rightarrow> (nat \<Rightarrow> string list) \<Rightarrow> nat \<Rightarrow> int \<Rightarrow> (nat \<Rightarrow> string) \<Rightarrow> string \<Rightarrow>
    string + job_result \<times> invoker_status \<Rightarrow> master \<Rightarrow> panic + master \<times> reply \<times> result_work" where
  "handleInvokerJobResult order orders new now ids e body m =
     (case body of
        Inl err \<Rightarrow> Inr (m, RespErr 400 (''can not parse invoker job result, error: '' @ err),
          \<lparr>rw_stops = [], rw_started = [], rw_sent = [], rw_tested = None\<rparr>)
      | Inr (res, st) \<Rightarrow>
          bindE (HandleInvokerJobResult order (jres_verdict res) (jres_job res) (mr_registry m) (mr_invokers m)) (\<lambda>(r, ivs, stops, known).
          bindE (UpsertInvoker orders new now st r ivs) (\<lambda>(r, ivs, started).
            let m = m\<lparr>mr_registry := r, mr_invokers := ivs\<rparr>;
                w = \<lparr>rw_stops = stops, rw_started = started, rw_sent = [], rw_tested = None\<rparr> in
            if \<not> known then Inr (m, RespOK, w)
            else bindE (JobCompleted e res (mr_queue m)) (\<lambda>(q, answer).
              case answer of
                QueueError err \<Rightarrow> Inr (m\<lparr>mr_queue := q\<rparr>, RespErr 500 ''Queue error'', w)
              | QueueAnswer out \<Rightarrow> bindE (sendingJobsTick ids (m\<lparr>mr_queue := q\<rparr>)) (\<lambda>(m, sent).
                  Inr (m, RespOK, w\<lparr>rw_sent := sent, rw_tested := out\<rparr>))))))"

end
