(* ===== verification/GoMasterRun.thy ===== *)
theory GoMasterRun
  imports GoInvokers GoQueueSteps GoMaster
begin

text \<open>
  Runs of the master: its queue, its registry of invokers, and what goes on in the background between their calls.  Each
  step is one call under the mutex, or one iteration of a loop that calls the queue, so runs allow more
  interleavings than the mutex of the registry.  Their invariant makes every run a run of the queue with its clients.
\<close>

section \<open>Runs of the master\<close>

text \<open>
  The clients of the queue are now those of the code: the registry with its invokers, and the handlers.  Beside the run
  of the queue (whose table of held jobs is no part of the program, like \<open>m_sent\<close> and \<open>m_lost\<close> here) the state has
  what runs in the background: jobs on their way to an invoker, failures that are to be handled, the jobs that were
  taken from a failed invoker, and results that the registry accepted and the queue has not got yet.
\<close>

record master_run =
  m_tests :: testing_run
  m_registry :: registry
  m_invokers :: "nat \<rightharpoonup> invoker"
  m_sends :: "(nat \<times> job) set"
  m_failing :: "nat set"
  m_extracted :: "nat \<rightharpoonup> string list"
  m_results :: "string \<rightharpoonup> job"
  m_sent :: "string set"
  m_lost :: "string set"

definition master_start :: master_run where
  "master_start = \<lparr>m_tests = testing_start, m_registry = NewInvokerRegistry, m_invokers = Map.empty, m_sends = {}, m_failing = {},
     m_extracted = Map.empty, m_results = Map.empty, m_sent = {}, m_lost = {}\<rparr>"

text \<open>An invoker that changed, and its failure if it failed just now.\<close>

definition changed :: "nat \<Rightarrow> invoker \<Rightarrow> bool \<Rightarrow> master_run \<Rightarrow> master_run" where
  "changed p iv failure m = m\<lparr>m_invokers := (m_invokers m)(p \<mapsto> iv),
     m_failing := (if failure then insert p (m_failing m) else m_failing m)\<rparr>"

text \<open>The job that an iteration of \<open>SendJobs\<close> took from the queue, and the one it sent.\<close>

definition took :: "registry \<Rightarrow> send_end \<Rightarrow> job option" where
  "took r e = (case e of NoJobs \<Rightarrow> None | NotSent \<Rightarrow> r_next r | Sent j \<Rightarrow> Some j)"

definition sent_off :: "nat \<Rightarrow> send_end \<Rightarrow> master_run \<Rightarrow> master_run" where
  "sent_off p e m = (case e of
     Sent j \<Rightarrow> m\<lparr>m_sends := insert (p, j) (m_sends m), m_sent := insert (job_id j) (m_sent m)\<rparr>
   | _ \<Rightarrow> m)"

text \<open>What the run of the queue records of a result and of a lost job.\<close>

definition finished :: "string \<Rightarrow> job \<Rightarrow> queue \<Rightarrow> gsubmission option \<Rightarrow> testing_run \<Rightarrow> testing_run" where
  "finished i j q out c = c\<lparr>t_queue := q, t_held := (t_held c)(i := None),
     t_done := (case out of None \<Rightarrow> t_done c | Some s \<Rightarrow> (t_done c)(job_submission j \<mapsto> s))\<rparr>"

definition returned :: "string \<Rightarrow> string \<Rightarrow> queue \<Rightarrow> testing_run \<Rightarrow> testing_run" where
  "returned n i q c = c\<lparr>t_queue := q, t_held := (t_held c)(i := None), t_used := insert n (t_used c)\<rparr>"

inductive master_step :: "reports \<Rightarrow> master_run \<Rightarrow> master_run \<Rightarrow> bool" for W where
  submitting: "gid \<notin> t_used (m_tests m) \<Longrightarrow> admissible W p s \<Longrightarrow> new_submission s (m_tests m) \<Longrightarrow>
    Submit gid e p s (t_queue (m_tests m)) = Inr (q, None) \<Longrightarrow>
    master_step W m (m\<lparr>m_tests := (m_tests m)\<lparr>t_queue := q, t_world := (t_world (m_tests m))(gid \<mapsto> (p, s)),
      t_used := insert gid (t_used (m_tests m))\<rparr>\<rparr>)"
| saving: "k \<in> dom (t_done (m_tests m)) - t_saved (m_tests m) \<Longrightarrow>
    FinishSubmissionTesting k (q_status (t_queue (m_tests m))) = Inr st \<Longrightarrow>
    master_step W m (m\<lparr>m_tests := (m_tests m)\<lparr>t_queue := (t_queue (m_tests m))\<lparr>q_status := st\<rparr>,
      t_saved := insert k (t_saved (m_tests m))\<rparr>\<rparr>)"
| sending: "p \<in> set (r_invokers (m_registry m)) \<Longrightarrow> m_invokers m p = Some iv \<Longrightarrow> n \<notin> t_used (m_tests m) \<Longrightarrow>
    send_one n p (m_registry m) (t_queue (m_tests m)) iv = Inr (r, q, iv', e) \<Longrightarrow>
    master_step W m (sent_off p e (changed p iv' False (m\<lparr>m_registry := r,
      m_tests := (case r_next (m_registry m) of None \<Rightarrow> handed n q (took r e) (m_tests m) | Some j \<Rightarrow> m_tests m)\<rparr>)))"
| sent: "(p, j) \<in> m_sends m \<Longrightarrow> m_invokers m p = Some iv \<Longrightarrow> completeSendJob order answer j iv = Inr (iv', timers, failure) \<Longrightarrow>
    master_step W m (changed p iv' failure (m\<lparr>m_sends := m_sends m - {(p, j)}\<rparr>))"
| pinged: "m_invokers m p = Some iv \<Longrightarrow> ping order answer iv = Inr (iv', timers, failure) \<Longrightarrow>
    master_step W m (changed p iv' failure m)"
| timed_out: "m_invokers m p = Some iv \<Longrightarrow> ensureJobIsNotLost i iv = (iv', failure) \<Longrightarrow> master_step W m (changed p iv' failure m)"
| requested: "m_invokers m p = Some iv \<Longrightarrow> request_failed failed iv = (iv', failure) \<Longrightarrow> master_step W m (changed p iv' failure m)"
| registered: "p \<notin> dom (m_invokers m) \<Longrightarrow>
    master_step W m (m\<lparr>m_registry := (m_registry m)\<lparr>r_invokers := r_invokers (m_registry m) @ [p]\<rparr>,
      m_invokers := (m_invokers m)(p \<mapsto> newInvoker now st)\<rparr>)"
| extracting: "p \<in> m_failing m \<Longrightarrow> m_invokers m p = Some iv \<Longrightarrow> set order = dom (iv_jobs iv) \<Longrightarrow>
    ExtractJobs order iv = (iv', is) \<Longrightarrow>
    master_step W m (m\<lparr>m_invokers := (m_invokers m)(p \<mapsto> iv'), m_failing := m_failing m - {p},
      m_extracted := (m_extracted m)(p \<mapsto> is)\<rparr>)"
| rescheduling: "m_extracted m p = Some (i # is) \<Longrightarrow> n \<notin> t_used (m_tests m) \<Longrightarrow>
    reschedule_one n i (m_registry m) (t_queue (m_tests m)) = Inr (r, q) \<Longrightarrow>
    master_step W m (m\<lparr>m_registry := r, m_extracted := (m_extracted m)(p \<mapsto> is),
      m_tests := (if i \<in> dom (r_by_job (m_registry m)) then returned n i q (m_tests m) else m_tests m)\<rparr>)"
| removed: "m_extracted m p = Some [] \<Longrightarrow>
    master_step W m (m\<lparr>m_registry := (m_registry m)\<lparr>r_invokers := removeAll p (r_invokers (m_registry m))\<rparr>,
      m_extracted := (m_extracted m)(p := None)\<rparr>)"
| ignored: "r_by_job (m_registry m) i = None \<Longrightarrow> master_step W m m"
| answered: "r_testing (m_registry m) i = Some j \<Longrightarrow> set order = dom (r_testing (m_registry m)) \<Longrightarrow>
    HandleInvokerJobResult order (jres_verdict (queue_report W j)) i (m_registry m) (m_invokers m) = Inr (r, ivs, stops, known) \<Longrightarrow>
    master_step W m (m\<lparr>m_registry := r, m_invokers := ivs,
      m_results := (if known then (m_results m)(i \<mapsto> j) else m_results m),
      m_lost := (if known then m_lost m else insert i (m_lost m))\<rparr>)"
| completing: "m_results m i = Some j \<Longrightarrow> JobCompleted e (queue_report W j) (t_queue (m_tests m)) = Inr (q, QueueAnswer out) \<Longrightarrow>
    master_step W m (m\<lparr>m_results := (m_results m)(i := None), m_tests := finished i j q out (m_tests m)\<rparr>)"

abbreviation master_runs :: "reports \<Rightarrow> master_run \<Rightarrow> master_run \<Rightarrow> bool" where
  "master_runs W \<equiv> rtranclp (master_step W)"

section \<open>The invariant\<close>

text \<open>Every job that is held is with the registry, was answered, is the next to be sent, or was lost.\<close>

definition reg_ok :: "master_run \<Rightarrow> bool" where
  "reg_ok m \<longleftrightarrow> (let r = m_registry m; c = m_tests m in
     dom (r_testing r) = dom (r_by_job r) \<and>
     (\<forall>i j. r_testing r i = Some j \<longrightarrow> t_held c i = Some j) \<and>
     (\<forall>j. r_next r = Some j \<longrightarrow> t_held c (job_id j) = Some j \<and> job_id j \<notin> m_sent m) \<and>
     (\<forall>i j. m_results m i = Some j \<longrightarrow> t_held c i = Some j \<and> i \<notin> dom (r_by_job r)) \<and>
     dom (r_by_job r) \<union> dom (m_results m) \<subseteq> m_sent m \<and> m_sent m \<subseteq> t_used c \<and>
     (\<forall>k \<in> set (q_failed (t_queue c)). cur (t_queue c) k \<notin> m_sent m) \<and>
     dom (t_held c) \<subseteq> dom (r_by_job r) \<union> dom (m_results m) \<union> m_lost m \<union> job_id ` set_option (r_next r))"

definition ivs_ok :: "master_run \<Rightarrow> bool" where
  "ivs_ok m \<longleftrightarrow> set (r_invokers (m_registry m)) \<subseteq> dom (m_invokers m) \<and> ran (r_by_job (m_registry m)) \<subseteq> dom (m_invokers m) \<and>
     (\<forall>p iv. m_invokers m p = Some iv \<longrightarrow> invoker_ok iv \<and>
        (\<forall>i j t. iv_jobs iv i = Some (j, t) \<longrightarrow> r_by_job (m_registry m) i = Some p \<and> r_testing (m_registry m) i = Some j))"

definition sends_ok :: "master_run \<Rightarrow> bool" where
  "sends_ok m \<longleftrightarrow>
     (\<forall>p j. (p, j) \<in> m_sends m \<longrightarrow> job_id j \<in> m_sent m \<and>
        (\<exists>iv. m_invokers m p = Some iv \<and> getJobType_of (job_id j) iv \<in> {SendingJob, NotKnown})) \<and>
     (\<forall>p j p' j'. (p, j) \<in> m_sends m \<and> (p', j') \<in> m_sends m \<and> job_id j = job_id j' \<longrightarrow> p = p' \<and> j = j')"

text \<open>A job with the registry is in the table of its invoker or was taken from it and will be handed out again.\<close>

definition fails_ok :: "master_run \<Rightarrow> bool" where
  "fails_ok m \<longleftrightarrow>
     (\<forall>i p. r_by_job (m_registry m) i = Some p \<longrightarrow>
        i \<in> dom (iv_jobs (the (m_invokers m p))) \<or> (\<exists>is. m_extracted m p = Some is \<and> i \<in> set is)) \<and>
     (\<forall>p is. m_extracted m p = Some is \<longrightarrow> p \<notin> m_failing m \<and>
        (\<exists>iv. m_invokers m p = Some iv \<and> iv_failed iv \<and> iv_jobs iv = Map.empty)) \<and>
     (\<forall>p iv. m_invokers m p = Some iv \<and> iv_failed iv \<and> iv_jobs iv \<noteq> Map.empty \<longrightarrow> p \<in> m_failing m) \<and>
     (\<forall>p \<in> m_failing m. \<exists>iv. m_invokers m p = Some iv \<and> iv_failed iv) \<and>
     (\<forall>p is i. m_extracted m p = Some is \<and> i \<in> set is \<longrightarrow> i \<in> m_sent m \<and> r_by_job (m_registry m) i \<in> {None, Some p})"

definition master_ok :: "reports \<Rightarrow> master_run \<Rightarrow> bool" where
  "master_ok W m \<longleftrightarrow> run_ok W (m_tests m) \<and> reg_ok m \<and> ivs_ok m \<and> sends_ok m \<and> fails_ok m"

lemma master_okD:
  assumes "master_ok W m"
  shows "run_ok W (m_tests m)" "reg_ok m" "ivs_ok m" "sends_ok m" "fails_ok m"
  using assms unfolding master_ok_def by blast+

lemma reg_okD:
  assumes "reg_ok m"
  shows "dom (r_testing (m_registry m)) = dom (r_by_job (m_registry m))"
    "r_testing (m_registry m) i = Some j \<Longrightarrow> t_held (m_tests m) i = Some j"
    "r_next (m_registry m) = Some j \<Longrightarrow> t_held (m_tests m) (job_id j) = Some j \<and> job_id j \<notin> m_sent m"
    "m_results m i = Some j \<Longrightarrow> t_held (m_tests m) i = Some j \<and> i \<notin> dom (r_by_job (m_registry m))"
    "dom (r_by_job (m_registry m)) \<subseteq> m_sent m" "dom (m_results m) \<subseteq> m_sent m" "m_sent m \<subseteq> t_used (m_tests m)"
    "k \<in> set (q_failed (t_queue (m_tests m))) \<Longrightarrow> cur (t_queue (m_tests m)) k \<notin> m_sent m"
    "dom (t_held (m_tests m)) \<subseteq> dom (r_by_job (m_registry m)) \<union> dom (m_results m) \<union> m_lost m \<union> job_id ` set_option (r_next (m_registry m))"
  using assms unfolding reg_ok_def Let_def by blast+

lemma reg_okI:
  assumes "dom (r_testing (m_registry m)) = dom (r_by_job (m_registry m))"
    "\<And>i j. r_testing (m_registry m) i = Some j \<Longrightarrow> t_held (m_tests m) i = Some j"
    "\<And>j. r_next (m_registry m) = Some j \<Longrightarrow> t_held (m_tests m) (job_id j) = Some j \<and> job_id j \<notin> m_sent m"
    "\<And>i j. m_results m i = Some j \<Longrightarrow> t_held (m_tests m) i = Some j \<and> i \<notin> dom (r_by_job (m_registry m))"
    "dom (r_by_job (m_registry m)) \<subseteq> m_sent m" "dom (m_results m) \<subseteq> m_sent m" "m_sent m \<subseteq> t_used (m_tests m)"
    "\<And>k. k \<in> set (q_failed (t_queue (m_tests m))) \<Longrightarrow> cur (t_queue (m_tests m)) k \<notin> m_sent m"
    "dom (t_held (m_tests m)) \<subseteq> dom (r_by_job (m_registry m)) \<union> dom (m_results m) \<union> m_lost m \<union> job_id ` set_option (r_next (m_registry m))"
  shows "reg_ok m"
  unfolding reg_ok_def Let_def using assms by (intro conjI allI impI ballI; blast)

lemma ivs_okD:
  assumes "ivs_ok m"
  shows "set (r_invokers (m_registry m)) \<subseteq> dom (m_invokers m)" "ran (r_by_job (m_registry m)) \<subseteq> dom (m_invokers m)"
    "m_invokers m p = Some iv \<Longrightarrow> invoker_ok iv"
    "m_invokers m p = Some iv \<Longrightarrow> iv_jobs iv i = Some (j, t) \<Longrightarrow>
       r_by_job (m_registry m) i = Some p \<and> r_testing (m_registry m) i = Some j"
  using assms unfolding ivs_ok_def by blast+

lemma sends_okD:
  assumes "sends_ok m"
  shows "(p, j) \<in> m_sends m \<Longrightarrow> job_id j \<in> m_sent m"
    "(p, j) \<in> m_sends m \<Longrightarrow> \<exists>iv. m_invokers m p = Some iv \<and> getJobType_of (job_id j) iv \<in> {SendingJob, NotKnown}"
    "(p, j) \<in> m_sends m \<Longrightarrow> (p', j') \<in> m_sends m \<Longrightarrow> job_id j = job_id j' \<Longrightarrow> p = p' \<and> j = j'"
  using assms unfolding sends_ok_def by blast+

lemma fails_okD:
  assumes "fails_ok m"
  shows "r_by_job (m_registry m) i = Some p \<Longrightarrow>
      i \<in> dom (iv_jobs (the (m_invokers m p))) \<or> (\<exists>is. m_extracted m p = Some is \<and> i \<in> set is)"
    "m_extracted m p = Some is \<Longrightarrow> p \<notin> m_failing m \<and> (\<exists>iv. m_invokers m p = Some iv \<and> iv_failed iv \<and> iv_jobs iv = Map.empty)"
    "m_invokers m p = Some iv \<Longrightarrow> iv_failed iv \<Longrightarrow> iv_jobs iv \<noteq> Map.empty \<Longrightarrow> p \<in> m_failing m"
    "p \<in> m_failing m \<Longrightarrow> \<exists>iv. m_invokers m p = Some iv \<and> iv_failed iv"
    "m_extracted m p = Some is \<Longrightarrow> i \<in> set is \<Longrightarrow> i \<in> m_sent m \<and> r_by_job (m_registry m) i \<in> {None, Some p}"
  using assms unfolding fails_ok_def by blast+

end
