(* ===== verification/GoMasterSteps.thy ===== *)
theory GoMasterSteps
  imports GoMasterRun
begin

text \<open>
  Every step of the master keeps its invariant, makes no operation panic, and is a run of the queue with its
  clients; and the loops of the registry are sequences of such steps.
\<close>

section \<open>What the queue leaves alone\<close>

lemma JobCompleted_frame:
  assumes "JobCompleted e r q = Inr (q', a)"
  shows "q_failed q' = q_failed q" "q_job q' = q_job q"
proof -
  define i where "i = first_id q (jres_job r)"
  have "q_failed q' = q_failed q \<and> q_job q' = q_job q"
  proof (cases "q_generator q i")
    case None
    then show ?thesis using assms by (auto simp: JobCompleted_def Let_def i_def split: if_splits)
  next
    case (Some gid)
    let ?q = "activate gid (q\<lparr>q_original := (q_original q)(jres_job r := None), q_known := q_known q - {i},
      q_generator := (q_generator q)(i := None)\<rparr>)"
    have act: "q_failed ?q = q_failed q" "q_job ?q = q_job q" by (simp_all add: activate_def)
    obtain g g' x where x: "gen_JobCompleted (r\<lparr>jres_job := i\<rparr>) g = Inr (g', x)" "deref (q_generators ?q gid) = Inr g"
      using assms Some unfolding JobCompleted_def Let_def i_def [symmetric] by (auto simp: bindE_eq_Inr)
    then show ?thesis
      using assms Some act unfolding JobCompleted_def Let_def i_def [symmetric]
      by (cases x) (auto simp: bindE_eq_Inr)
  qed
  then show "q_failed q' = q_failed q" "q_job q' = q_job q" by simp_all
qed

lemma cur_same: "q_job q' = q_job q \<Longrightarrow> cur q' = cur q"
  by (simp add: cur_def fun_eq_iff)

lemma Submit_frame:
  assumes "Submit gid e p s q = Inr (q', a)"
  shows "q_failed q' = q_failed q" "q_job q' = q_job q"
  using assms by (auto simp: Submit_def bindE_eq_Inr split: sum.splits)

lemma next_attempts_id: "next_attempts n i q = Inr (q', Some j) \<Longrightarrow> job_id j = i"
proof (induction n arbitrary: q)
  case (Suc n)
  obtain gid rest where a: "q_active q = gid # rest" using Suc.prems by (cases "q_active q") auto
  then obtain g g' jo where g: "gen_NextJob i g = Inr (g', jo)"
    and loop: "(case jo of None \<Rightarrow> next_attempts n i (q\<lparr>q_generators := (q_generators q)(gid \<mapsto> g'), q_active := rest,
        q_active_ids := q_active_ids q - {gid}\<rparr>) = Inr (q', Some j) | Some x \<Rightarrow> x = j)"
    using Suc.prems by (auto simp: bindE_eq_Inr Let_def split: option.splits)
  then show ?case using Suc.IH gen_next_gives [OF g] by (cases jo) auto
qed simp

text \<open>A job that is handed out is no invoker's, and has a fresh id or one that no invoker saw.\<close>

lemma NextJob_new:
  assumes ok: "run_ok W c" and i: "i \<notin> t_used c" and step: "NextJob i (t_queue c) = Inr (q', jo)"
  shows "set (q_failed q') \<subseteq> set (q_failed (t_queue c))" "k \<in> set (q_failed q') \<Longrightarrow> cur q' k = cur (t_queue c) k"
    "jo = Some j \<Longrightarrow> job_id j \<notin> dom (t_held c) \<and> (job_id j = i \<or> (\<exists>k \<in> set (q_failed (t_queue c)). job_id j = cur (t_queue c) k))"
proof -
  note d = run_okD [OF ok] and xd = run_idsD [OF run_okD(4) [OF ok]]
  have "set (q_failed q') \<subseteq> set (q_failed (t_queue c)) \<and> (k \<in> set (q_failed q') \<longrightarrow> cur q' k = cur (t_queue c) k) \<and>
    (jo = Some j \<longrightarrow> job_id j \<notin> dom (t_held c) \<and> (job_id j = i \<or> (\<exists>k \<in> set (q_failed (t_queue c)). job_id j = cur (t_queue c) k)))"
  proof (cases "q_failed (t_queue c)")
    case Nil
    then have a: "next_attempts (length (q_active (t_queue c))) i (t_queue c) = Inr (q', jo)" using step by (simp add: NextJob_def)
    then have "q_failed q' = []" using next_attempts_ok [OF ok i refl] Nil by auto
    moreover have "i \<notin> dom (t_held c)"
    proof
      assume "i \<in> dom (t_held c)"
      then obtain x where "t_held c i = Some x" by blast
      then obtain k where "k \<in> q_known (t_queue c)" "cur (t_queue c) k = i" by (rule held_job [OF ok])
      then show False using xd(10) i by blast
    qed
    ultimately show ?thesis using next_attempts_id a by auto
  next
    case (Cons y ys)
    then have q': "q' = (t_queue c)\<lparr>q_failed := ys\<rparr>" and jo: "jo = q_job (t_queue c) y"
      using step by (auto simp: NextJob_def deref_def bindE_def split: option.splits)
    have y: "y \<in> q_known (t_queue c)" using xd(5) Cons by simp
    obtain x where x: "q_job (t_queue c) y = Some x" "job_id x = cur (t_queue c) y" by (rule known_job [OF d(3) y])
    have "cur (t_queue c) y \<notin> dom (t_held c)"
    proof
      assume "cur (t_queue c) y \<in> dom (t_held c)"
      then obtain z where "t_held c (cur (t_queue c) y) = Some z" by blast
      then obtain k where k: "k \<in> q_known (t_queue c)" "k \<notin> set (q_failed (t_queue c))" "cur (t_queue c) k = cur (t_queue c) y"
        by (rule held_job [OF ok])
      then have "k = y" using inj_onD [OF xd(1) k(3)] y by simp
      then show False using k(2) Cons by simp
    qed
    moreover have "cur q' = cur (t_queue c)" by (rule cur_same) (simp add: q')
    ultimately show ?thesis using Cons q' jo x by auto
  qed
  then show "set (q_failed q') \<subseteq> set (q_failed (t_queue c))" "k \<in> set (q_failed q') \<Longrightarrow> cur q' k = cur (t_queue c) k"
    "jo = Some j \<Longrightarrow> job_id j \<notin> dom (t_held c) \<and> (job_id j = i \<or> (\<exists>k \<in> set (q_failed (t_queue c)). job_id j = cur (t_queue c) k))"
    by blast+
qed

lemma RescheduleJob_new:
  assumes ok: "run_ok W c" and held: "t_held c i = Some j" and n: "n \<notin> t_used c" and step: "RescheduleJob n i (t_queue c) = Inr (q', a)"
    and k: "k \<in> set (q_failed q')"
  shows "cur q' k = n \<or> k \<in> set (q_failed (t_queue c)) \<and> cur q' k = cur (t_queue c) k"
proof -
  obtain y where y: "y \<in> q_known (t_queue c)" "y \<notin> set (q_failed (t_queue c))" "q_job (t_queue c) y = Some j" "first_id (t_queue c) i = y"
    by (rule held_job [OF ok held])
  then have "q' = (t_queue c)\<lparr>q_original := (q_original (t_queue c))(i := None, n \<mapsto> y),
      q_job := (q_job (t_queue c))(y \<mapsto> j\<lparr>job_id := n\<rparr>), q_failed := q_failed (t_queue c) @ [y]\<rparr>"
    using RescheduleJob_eq [OF y(4,1,3), of n] step by simp
  then show ?thesis using k y(2) by (auto simp: cur_def)
qed

lemma held_id: "run_ok W c \<Longrightarrow> t_held c i = Some j \<Longrightarrow> job_id j = i"
  using run_idsD(6) [OF run_okD(4)] by blast

section \<open>Steps of one invoker\<close>

lemma changed_ok:
  assumes ok: "master_ok W m" and p: "m_invokers m p = Some iv" and same: "same_jobs X iv iv' f"
    and S: "S \<subseteq> m_sends m" "\<And>j. (p, j) \<in> S \<Longrightarrow> job_id j \<notin> X"
  shows "master_ok W (changed p iv' f (m\<lparr>m_sends := S\<rparr>))"
proof -
  note d = master_okD [OF ok] and s = same_jobsD [OF same]
  note id = ivs_okD [OF d(3)] and sd = sends_okD [OF d(4)] and fd = fails_okD [OF d(5)]
  let ?m = "changed p iv' f (m\<lparr>m_sends := S\<rparr>)"
  have f: "m_tests ?m = m_tests m" "m_registry ?m = m_registry m" "m_invokers ?m = (m_invokers m)(p \<mapsto> iv')" "m_sends ?m = S"
    "m_failing ?m = (if f then insert p (m_failing m) else m_failing m)" "m_extracted ?m = m_extracted m" "m_results ?m = m_results m"
    "m_sent ?m = m_sent m" "m_lost ?m = m_lost m" by (simp_all add: changed_def)
  have reg: "reg_ok ?m" using d(2) by (simp add: reg_ok_def f)
  have none: "iv_jobs iv' i = None \<longleftrightarrow> iv_jobs iv i = None" for i
    using s(2) [of i] by (cases "iv_jobs iv' i"; cases "iv_jobs iv i") simp_all
  then have jobs: "dom (iv_jobs iv') = dom (iv_jobs iv)" "iv_jobs iv' = Map.empty \<longleftrightarrow> iv_jobs iv = Map.empty"
    by (simp_all add: dom_def fun_eq_iff)
  have ivs: "ivs_ok ?m"
    unfolding ivs_ok_def f
  proof (intro conjI allI impI)
    show "set (r_invokers (m_registry m)) \<subseteq> dom ((m_invokers m)(p \<mapsto> iv'))" "ran (r_by_job (m_registry m)) \<subseteq> dom ((m_invokers m)(p \<mapsto> iv'))"
      using id(1,2) by auto
    fix y h assume h: "((m_invokers m)(p \<mapsto> iv')) y = Some h"
    then show "invoker_ok h" using id(3) s(1) by (auto split: if_splits)
    fix i j t assume j: "iv_jobs h i = Some (j, t)"
    show "r_by_job (m_registry m) i = Some y" "r_testing (m_registry m) i = Some j"
    proof (atomize (full), cases "y = p")
      case True
      then have "map_option fst (iv_jobs iv i) = Some j" using h j s(2) [of i] by simp
      then obtain t' where "iv_jobs iv i = Some (j, t')" by auto
      then show "r_by_job (m_registry m) i = Some y \<and> r_testing (m_registry m) i = Some j" using id(4) [OF p] True by simp
    next
      case False
      then show "r_by_job (m_registry m) i = Some y \<and> r_testing (m_registry m) i = Some j" using id(4) [of y h i j t] h j by simp
    qed
  qed
  have sends: "sends_ok ?m"
    unfolding sends_ok_def f
  proof (intro conjI allI impI)
    fix y j assume yj: "(y, j) \<in> S"
    show "job_id j \<in> m_sent m" using sd(1) S(1) yj by blast
    obtain h where h: "m_invokers m y = Some h" "getJobType_of (job_id j) h \<in> {SendingJob, NotKnown}" using sd(2) S(1) yj by blast
    show "\<exists>iv. ((m_invokers m)(p \<mapsto> iv')) y = Some iv \<and> getJobType_of (job_id j) iv \<in> {SendingJob, NotKnown}"
    proof (cases "y = p")
      case True
      then show ?thesis using same_jobs_types [OF same S(2) _ id(3) [OF p]] h p yj by simp
    next
      case False
      then show ?thesis using h by simp
    qed
  next
    fix y j y' j' assume "(y, j) \<in> S \<and> (y', j') \<in> S \<and> job_id j = job_id j'"
    then show "y = y'" "j = j'" using sd(3) S(1) by blast+
  qed
  have fails: "fails_ok ?m"
    unfolding fails_ok_def f
  proof (intro conjI allI impI ballI)
    show "i \<in> dom (iv_jobs (the (((m_invokers m)(p \<mapsto> iv')) y))) \<or> (\<exists>is. m_extracted m y = Some is \<and> i \<in> set is)"
      if "r_by_job (m_registry m) i = Some y" for i y using fd(1) [OF that] jobs(1) p by (cases "y = p") simp_all
    show "y \<notin> (if f then insert p (m_failing m) else m_failing m)" if "m_extracted m y = Some is" for y "is"
      using fd(2) [OF that] s(4) p by (auto split: if_splits)
    show "\<exists>iv. ((m_invokers m)(p \<mapsto> iv')) y = Some iv \<and> iv_failed iv \<and> iv_jobs iv = Map.empty" if "m_extracted m y = Some is" for y "is"
      using fd(2) [OF that] s(5) p jobs(2) by auto
    show "y \<in> (if f then insert p (m_failing m) else m_failing m)"
      if "((m_invokers m)(p \<mapsto> iv')) y = Some h \<and> iv_failed h \<and> iv_jobs h \<noteq> Map.empty" for y h
      using that fd(3) [of y] s(4) p jobs(2) by (cases "y = p") auto
    show "\<exists>iv. ((m_invokers m)(p \<mapsto> iv')) y = Some iv \<and> iv_failed iv" if "y \<in> (if f then insert p (m_failing m) else m_failing m)" for y
      using that fd(4) [of y] s(4,5) p by (auto split: if_splits)
    show "i \<in> m_sent m" "r_by_job (m_registry m) i \<in> {None, Some y}" if "m_extracted m y = Some is \<and> i \<in> set is" for y "is" i
      using that fd(5) by blast+
  qed
  show ?thesis unfolding master_ok_def using d(1) reg ivs sends fails by (simp add: f)
qed

section \<open>Jobs that are sent\<close>

text \<open>The queue changes and gives jobs back or out, while the registry's other parts stay.\<close>

lemma master_frame:
  assumes "ivs_ok m" and "sends_ok m" and "fails_ok m"
    and "r_invokers (m_registry m') = r_invokers (m_registry m)" "r_by_job (m_registry m') = r_by_job (m_registry m)"
    "r_testing (m_registry m') = r_testing (m_registry m)" "m_invokers m' = m_invokers m" "m_sends m' = m_sends m"
    "m_failing m' = m_failing m" "m_extracted m' = m_extracted m" "m_sent m' = m_sent m"
  shows "ivs_ok m' \<and> sends_ok m' \<and> fails_ok m'"
proof -
  have "ivs_ok m' = ivs_ok m" by (simp add: ivs_ok_def assms(4-))
  moreover have "sends_ok m' = sends_ok m" by (simp add: sends_ok_def assms(4-))
  moreover have "fails_ok m' = fails_ok m" by (simp add: fails_ok_def assms(4-))
  ultimately show ?thesis using assms(1-3) by simp
qed

lemma take_ok:
  assumes ok: "master_ok W m" and none: "r_next (m_registry m) = None" and n: "n \<notin> t_used (m_tests m)"
    and step: "NextJob n (t_queue (m_tests m)) = Inr (q, jo)"
  shows "master_ok W (m\<lparr>m_registry := (m_registry m)\<lparr>r_next := jo\<rparr>, m_tests := handed n q jo (m_tests m)\<rparr>)"
proof -
  note d = master_okD [OF ok] and rd = reg_okD [OF master_okD(2) [OF ok]]
  note new = NextJob_new [OF d(1) n step]
  let ?m = "m\<lparr>m_registry := (m_registry m)\<lparr>r_next := jo\<rparr>, m_tests := handed n q jo (m_tests m)\<rparr>"
  have f: "t_queue (m_tests ?m) = q" "t_used (m_tests ?m) = insert n (t_used (m_tests m))"
    "t_held (m_tests ?m) = (case jo of None \<Rightarrow> t_held (m_tests m) | Some j \<Rightarrow> (t_held (m_tests m))(job_id j \<mapsto> j))"
    "r_by_job (m_registry ?m) = r_by_job (m_registry m)" "r_testing (m_registry ?m) = r_testing (m_registry m)"
    "r_next (m_registry ?m) = jo" "m_results ?m = m_results m" "m_sent ?m = m_sent m" "m_lost ?m = m_lost m"
    by (simp_all add: handed_def)
  have held: "t_held (m_tests ?m) i = Some j" if "t_held (m_tests m) i = Some j" for i j
    unfolding f(3) using that new(3) by (cases jo) auto
  have run: "run_ok W (m_tests ?m)" using NextJob_ok [OF d(1) n] step by auto
  have reg: "reg_ok ?m"
  proof (rule reg_okI, unfold f(4-9))
    show "t_held (m_tests ?m) (job_id j) = Some j \<and> job_id j \<notin> m_sent m" if "jo = Some j" for j
    proof -
      have "n \<notin> m_sent m" using rd(7) n by blast
      then have "job_id j \<notin> m_sent m" using new(3) [OF that] rd(8) by metis
      then show ?thesis unfolding f(3) using that by simp
    qed
    show "cur (t_queue (m_tests ?m)) k \<notin> m_sent m" if "k \<in> set (q_failed (t_queue (m_tests ?m)))" for k
      using that new(1,2) rd(8) unfolding f(1) by (metis subsetD)
    show "dom (t_held (m_tests ?m)) \<subseteq> dom (r_by_job (m_registry m)) \<union> dom (m_results m) \<union> m_lost m \<union> job_id ` set_option jo"
      unfolding f(3) using rd(9) none by (cases jo) auto
    show "m_sent m \<subseteq> t_used (m_tests ?m)" unfolding f(2) using rd(7) by auto
  qed (use rd(1-6) held in blast)+
  moreover have "ivs_ok ?m \<and> sends_ok ?m \<and> fails_ok ?m" by (rule master_frame [OF d(3-5)]) simp_all
  ultimately show ?thesis using run unfolding master_ok_def by blast
qed

lemma try_ok:
  assumes ok: "master_ok W m" and p: "p \<in> set (r_invokers (m_registry m))" "m_invokers m p = Some iv"
    and j: "r_next (m_registry m) = Some j" and sent: "TrySendJob j iv = (iv', True)"
  shows "master_ok W (sent_off p (Sent j) (changed p iv' False (m\<lparr>m_registry := (m_registry m)\<lparr>
    r_by_job := (r_by_job (m_registry m))(job_id j \<mapsto> p), r_testing := (r_testing (m_registry m))(job_id j \<mapsto> j), r_next := None\<rparr>\<rparr>)))"
proof -
  note d = master_okD [OF ok] and rd = reg_okD [OF master_okD(2) [OF ok]]
  note id = ivs_okD [OF d(3)] and sd = sends_okD [OF d(4)] and fd = fails_okD [OF d(5)]
  let ?i = "job_id j"
  let ?m = "sent_off p (Sent j) (changed p iv' False (m\<lparr>m_registry := (m_registry m)\<lparr>
    r_by_job := (r_by_job (m_registry m))(job_id j \<mapsto> p), r_testing := (r_testing (m_registry m))(job_id j \<mapsto> j), r_next := None\<rparr>\<rparr>))"
  have f: "m_tests ?m = m_tests m" "r_by_job (m_registry ?m) = (r_by_job (m_registry m))(?i \<mapsto> p)"
    "r_testing (m_registry ?m) = (r_testing (m_registry m))(?i \<mapsto> j)" "r_next (m_registry ?m) = None"
    "r_invokers (m_registry ?m) = r_invokers (m_registry m)" "m_invokers ?m = (m_invokers m)(p \<mapsto> iv')"
    "m_sends ?m = insert (p, j) (m_sends m)" "m_failing ?m = m_failing m" "m_extracted ?m = m_extracted m" "m_results ?m = m_results m"
    "m_sent ?m = insert ?i (m_sent m)" "m_lost ?m = m_lost m" by (simp_all add: sent_off_def changed_def)
  have new: "?i \<notin> m_sent m" "t_held (m_tests m) ?i = Some j" using rd(3) [OF j] by blast+
  have free: "?i \<notin> dom (r_by_job (m_registry m))" "?i \<notin> dom (m_results m)" using new(1) rd(5,6) by blast+
  have empty: "iv_jobs iv ?i = None" using id(4) [OF p(2)] free(1) by (cases "iv_jobs iv ?i") auto
  note t = TrySendJob_ok [OF id(3) [OF p(2)] sent empty]
  have known: "?i \<in> t_used (m_tests m)"
  proof -
    obtain k where k: "k \<in> q_known (t_queue (m_tests m))" "cur (t_queue (m_tests m)) k = ?i" by (rule held_job [OF d(1) new(2)])
    show ?thesis using run_idsD(10) [OF run_okD(4) [OF d(1)] k(1)] k(2) by simp
  qed
  have unfailed: "cur (t_queue (m_tests m)) k \<noteq> ?i" if "k \<in> set (q_failed (t_queue (m_tests m)))" for k
  proof
    assume a: "cur (t_queue (m_tests m)) k = ?i"
    note xd = run_idsD [OF run_okD(4) [OF d(1)]]
    obtain y where y: "y \<in> q_known (t_queue (m_tests m))" "y \<notin> set (q_failed (t_queue (m_tests m)))" "cur (t_queue (m_tests m)) y = ?i"
      by (rule held_job [OF d(1) new(2)])
    have "k = y" using inj_onD [OF xd(1), of k y] a y xd(5) that by auto
    then show False using that y(2) by simp
  qed
  have reg: "reg_ok ?m"
  proof (rule reg_okI, unfold f)
    show "dom ((r_testing (m_registry m))(?i \<mapsto> j)) = dom ((r_by_job (m_registry m))(?i \<mapsto> p))" using rd(1) by simp
    show "t_held (m_tests m) i = Some x" if "((r_testing (m_registry m))(?i \<mapsto> j)) i = Some x" for i x
      using that rd(2) new(2) by (auto split: if_splits)
    show "t_held (m_tests m) i = Some x \<and> i \<notin> dom ((r_by_job (m_registry m))(?i \<mapsto> p))" if "m_results m i = Some x" for i x
      using that rd(4) free(2) by auto
    show "dom ((r_by_job (m_registry m))(?i \<mapsto> p)) \<subseteq> insert ?i (m_sent m)" using rd(5) by auto
    show "dom (m_results m) \<subseteq> insert ?i (m_sent m)" using rd(6) by auto
    show "insert ?i (m_sent m) \<subseteq> t_used (m_tests m)" using rd(7) known by auto
    show "cur (t_queue (m_tests m)) k \<notin> insert ?i (m_sent m)" if "k \<in> set (q_failed (t_queue (m_tests m)))" for k
      using rd(8) [OF that] unfailed [OF that] by simp
    show "dom (t_held (m_tests m)) \<subseteq> dom ((r_by_job (m_registry m))(?i \<mapsto> p)) \<union> dom (m_results m) \<union> m_lost m \<union> job_id ` set_option None"
      using rd(9) j by auto
  qed simp
  have ivs: "ivs_ok ?m"
    unfolding ivs_ok_def f
  proof (intro conjI allI impI)
    show "set (r_invokers (m_registry m)) \<subseteq> dom ((m_invokers m)(p \<mapsto> iv'))"
      "ran ((r_by_job (m_registry m))(?i \<mapsto> p)) \<subseteq> dom ((m_invokers m)(p \<mapsto> iv'))"
      using id(1,2) free(1) by auto
    fix y h assume h: "((m_invokers m)(p \<mapsto> iv')) y = Some h"
    then show "invoker_ok h" using id(3) t(1) by (auto split: if_splits)
    fix i x u assume x: "iv_jobs h i = Some (x, u)"
    show "((r_by_job (m_registry m))(?i \<mapsto> p)) i = Some y" "((r_testing (m_registry m))(?i \<mapsto> j)) i = Some x"
    proof (atomize (full), cases "y = p")
      case True
      then show "((r_by_job (m_registry m))(?i \<mapsto> p)) i = Some y \<and> ((r_testing (m_registry m))(?i \<mapsto> j)) i = Some x"
        using h x t(2) id(4) [OF p(2), of i x u] by (auto split: if_splits)
    next
      case False
      then have "r_by_job (m_registry m) i = Some y \<and> r_testing (m_registry m) i = Some x" using id(4) [of y h i x u] h x by simp
      then show "((r_by_job (m_registry m))(?i \<mapsto> p)) i = Some y \<and> ((r_testing (m_registry m))(?i \<mapsto> j)) i = Some x"
        using free(1) by auto
    qed
  qed
  have sends: "sends_ok ?m"
    unfolding sends_ok_def f
  proof (intro conjI allI impI)
    fix y x assume yx: "(y, x) \<in> insert (p, j) (m_sends m)"
    show "job_id x \<in> insert ?i (m_sent m)" using yx sd(1) by auto
    show "\<exists>iv. ((m_invokers m)(p \<mapsto> iv')) y = Some iv \<and> getJobType_of (job_id x) iv \<in> {SendingJob, NotKnown}"
    proof (cases "(y, x) = (p, j)")
      case True
      then show ?thesis using t(2) by (simp add: getJobType_of_def)
    next
      case False
      then have old: "(y, x) \<in> m_sends m" using yx by blast
      then have "job_id x \<noteq> ?i" using sd(1) new(1) by metis
      moreover obtain h where "m_invokers m y = Some h" "getJobType_of (job_id x) h \<in> {SendingJob, NotKnown}" using sd(2) [OF old] by blast
      ultimately show ?thesis using p(2) t(2) by (cases "y = p") (simp_all add: getJobType_of_def)
    qed
  next
    fix y x y' x' assume a: "(y, x) \<in> insert (p, j) (m_sends m) \<and> (y', x') \<in> insert (p, j) (m_sends m) \<and> job_id x = job_id x'"
    have "z = p \<and> w = j" if "(z, w) \<in> insert (p, j) (m_sends m)" "job_id w = ?i" for z w
      using that sd(1) [of z w] new(1) by auto
    then show "y = y'" "x = x'" using a sd(3) by (metis insert_iff prod.inject)+
  qed
  have fails: "fails_ok ?m"
    unfolding fails_ok_def f
  proof (intro conjI allI impI ballI)
    show "i \<in> dom (iv_jobs (the (((m_invokers m)(p \<mapsto> iv')) y))) \<or> (\<exists>is. m_extracted m y = Some is \<and> i \<in> set is)"
      if "((r_by_job (m_registry m))(?i \<mapsto> p)) i = Some y" for i y
      using that fd(1) [of i y] p(2) t(2) by (cases "i = ?i"; cases "y = p") auto
    show "y \<notin> m_failing m" if "m_extracted m y = Some is" for y "is" using fd(2) [OF that] by blast
    show "\<exists>iv. ((m_invokers m)(p \<mapsto> iv')) y = Some iv \<and> iv_failed iv \<and> iv_jobs iv = Map.empty" if "m_extracted m y = Some is" for y "is"
      using fd(2) [OF that] p(2) t(3) by auto
    show "y \<in> m_failing m" if "((m_invokers m)(p \<mapsto> iv')) y = Some h \<and> iv_failed h \<and> iv_jobs h \<noteq> Map.empty" for y h
      using that fd(3) [of y h] t(3,4) by (cases "y = p") auto
    show "\<exists>iv. ((m_invokers m)(p \<mapsto> iv')) y = Some iv \<and> iv_failed iv" if "y \<in> m_failing m" for y
      using fd(4) [OF that] p(2) t(3) by auto
    fix y "is" i assume a: "m_extracted m y = Some is \<and> i \<in> set is"
    then have "i \<in> m_sent m \<and> r_by_job (m_registry m) i \<in> {None, Some y}" using fd(5) by blast
    then show "i \<in> insert ?i (m_sent m)" "((r_by_job (m_registry m))(?i \<mapsto> p)) i \<in> {None, Some y}" using new(1) by auto
  qed
  show ?thesis unfolding master_ok_def using d(1) reg ivs sends fails by (simp add: f)
qed

section \<open>Failures of invokers\<close>

lemma extracting_ok:
  assumes ok: "master_ok W m" and p: "p \<in> m_failing m" "m_invokers m p = Some iv" and order: "set order = dom (iv_jobs iv)"
    and step: "ExtractJobs order iv = (iv', is)"
  shows "master_ok W (m\<lparr>m_invokers := (m_invokers m)(p \<mapsto> iv'), m_failing := m_failing m - {p}, m_extracted := (m_extracted m)(p \<mapsto> is)\<rparr>)"
proof -
  note d = master_okD [OF ok]
  note id = ivs_okD [OF d(3)] and sd = sends_okD [OF d(4)] and fd = fails_okD [OF d(5)]
  let ?m = "m\<lparr>m_invokers := (m_invokers m)(p \<mapsto> iv'), m_failing := m_failing m - {p}, m_extracted := (m_extracted m)(p \<mapsto> is)\<rparr>"
  have e: "invoker_ok iv'" "iv_jobs iv' = Map.empty" "iv_failed iv' = iv_failed iv" "is = order"
    using ExtractJobs_ok [OF step] by blast+
  have failed: "iv_failed iv" using fd(4) [OF p(1)] p(2) by auto
  have f: "m_tests ?m = m_tests m" "m_registry ?m = m_registry m" "m_invokers ?m = (m_invokers m)(p \<mapsto> iv')" "m_sends ?m = m_sends m"
    "m_failing ?m = m_failing m - {p}" "m_extracted ?m = (m_extracted m)(p \<mapsto> is)" "m_results ?m = m_results m" "m_sent ?m = m_sent m"
    "m_lost ?m = m_lost m" by simp_all
  have reg: "reg_ok ?m" using d(2) by (simp add: reg_ok_def)
  have ivs: "ivs_ok ?m"
    unfolding ivs_ok_def f
  proof (intro conjI allI impI)
    show "set (r_invokers (m_registry m)) \<subseteq> dom ((m_invokers m)(p \<mapsto> iv'))" "ran (r_by_job (m_registry m)) \<subseteq> dom ((m_invokers m)(p \<mapsto> iv'))"
      using id(1,2) by auto
    fix y h assume h: "((m_invokers m)(p \<mapsto> iv')) y = Some h"
    then show "invoker_ok h" using id(3) e(1) by (auto split: if_splits)
    fix i x u assume "iv_jobs h i = Some (x, u)"
    then show "r_by_job (m_registry m) i = Some y" "r_testing (m_registry m) i = Some x"
      using h e(2) id(4) [of y h i x u] by (auto split: if_splits)
  qed
  have sends: "sends_ok ?m"
    unfolding sends_ok_def f
  proof (intro conjI allI impI)
    fix y x assume yx: "(y, x) \<in> m_sends m"
    show "job_id x \<in> m_sent m" by (rule sd(1) [OF yx])
    show "\<exists>iv. ((m_invokers m)(p \<mapsto> iv')) y = Some iv \<and> getJobType_of (job_id x) iv \<in> {SendingJob, NotKnown}"
      using sd(2) [OF yx] e(2) by (cases "y = p") (simp_all add: getJobType_of_def)
  next
    fix y x y' x' assume "(y, x) \<in> m_sends m \<and> (y', x') \<in> m_sends m \<and> job_id x = job_id x'"
    then show "y = y'" "x = x'" using sd(3) by blast+
  qed
  have fails: "fails_ok ?m"
    unfolding fails_ok_def f
  proof (intro conjI allI impI ballI)
    show "i \<in> dom (iv_jobs (the (((m_invokers m)(p \<mapsto> iv')) y))) \<or> (\<exists>js. ((m_extracted m)(p \<mapsto> is)) y = Some js \<and> i \<in> set js)"
      if "r_by_job (m_registry m) i = Some y" for i y
    proof (cases "y = p")
      case True
      have "m_extracted m p = None" using fd(2) [of p] p(1) by (cases "m_extracted m p") auto
      then have "i \<in> dom (iv_jobs iv)" using fd(1) [OF that] p(2) True by simp
      then show ?thesis using True e(4) order by simp
    next
      case False
      then show ?thesis using fd(1) [OF that] by simp
    qed
    fix y assume "y \<in> m_failing m - {p}"
    then show "\<exists>iv. ((m_invokers m)(p \<mapsto> iv')) y = Some iv \<and> iv_failed iv" using fd(4) [of y] by simp
  next
    fix y js assume js: "((m_extracted m)(p \<mapsto> is)) y = Some js"
    show "y \<notin> m_failing m - {p}" using js fd(2) [of y js] by (auto split: if_splits)
    show "\<exists>iv. ((m_invokers m)(p \<mapsto> iv')) y = Some iv \<and> iv_failed iv \<and> iv_jobs iv = Map.empty"
      using js fd(2) [of y js] e(2,3) failed by (cases "y = p") simp_all
  next
    fix y h assume "((m_invokers m)(p \<mapsto> iv')) y = Some h \<and> iv_failed h \<and> iv_jobs h \<noteq> Map.empty"
    then show "y \<in> m_failing m - {p}" using e(2) fd(3) [of y h] by (cases "y = p") auto
  next
    fix y js i assume a: "((m_extracted m)(p \<mapsto> is)) y = Some js \<and> i \<in> set js"
    have "i \<in> m_sent m \<and> r_by_job (m_registry m) i \<in> {None, Some y}"
    proof (cases "y = p")
      case True
      then obtain x t where "iv_jobs iv i = Some (x, t)" using a e(4) order by auto
      then show ?thesis using id(4) [OF p(2)] True reg_okD(5) [OF d(2)] by blast
    next
      case False
      then show ?thesis using a fd(5) [of y js i] by simp
    qed
    then show "i \<in> m_sent m" "r_by_job (m_registry m) i \<in> {None, Some y}" by blast+
  qed
  show ?thesis unfolding master_ok_def using d(1) reg ivs sends fails by simp
qed

text \<open>A job that leaves the registry leaves the table of its invoker before.\<close>

lemma removed_ok:
  assumes ok: "master_ok W m" and p: "m_extracted m p = Some []"
  shows "master_ok W (m\<lparr>m_registry := (m_registry m)\<lparr>r_invokers := removeAll p (r_invokers (m_registry m))\<rparr>, m_extracted := (m_extracted m)(p := None)\<rparr>)"
proof -
  note d = master_okD [OF ok]
  note id = ivs_okD [OF d(3)] and fd = fails_okD [OF d(5)]
  let ?m = "m\<lparr>m_registry := (m_registry m)\<lparr>r_invokers := removeAll p (r_invokers (m_registry m))\<rparr>, m_extracted := (m_extracted m)(p := None)\<rparr>"
  have "reg_ok ?m = reg_ok m" by (simp add: reg_ok_def Let_def)
  moreover have "ivs_ok ?m" using d(3) unfolding ivs_ok_def by auto
  moreover have "sends_ok ?m = sends_ok m" by (simp add: sends_ok_def)
  moreover have "fails_ok ?m"
    unfolding fails_ok_def
  proof (intro conjI allI impI ballI)
    show "i \<in> dom (iv_jobs (the (m_invokers ?m y))) \<or> (\<exists>is. m_extracted ?m y = Some is \<and> i \<in> set is)"
      if "r_by_job (m_registry ?m) i = Some y" for i y using fd(1) [of i y] that p by auto
    show "y \<notin> m_failing ?m" "\<exists>iv. m_invokers ?m y = Some iv \<and> iv_failed iv \<and> iv_jobs iv = Map.empty"
      if "m_extracted ?m y = Some is" for y "is" using that fd(2) [of y "is"] by (auto split: if_splits)
    show "y \<in> m_failing ?m" if "m_invokers ?m y = Some h \<and> iv_failed h \<and> iv_jobs h \<noteq> Map.empty" for y h using that fd(3) by simp
    show "\<exists>iv. m_invokers ?m y = Some iv \<and> iv_failed iv" if "y \<in> m_failing ?m" for y using that fd(4) by simp
    show "i \<in> m_sent ?m" "r_by_job (m_registry ?m) i \<in> {None, Some y}" if "m_extracted ?m y = Some is \<and> i \<in> set is" for y "is" i
      using that fd(5) [of y "is" i] by (auto split: if_splits)
  qed
  ultimately show ?thesis using d unfolding master_ok_def by simp
qed

lemma registered_ok:
  assumes ok: "master_ok W m" and p: "p \<notin> dom (m_invokers m)"
  shows "master_ok W (m\<lparr>m_registry := (m_registry m)\<lparr>r_invokers := r_invokers (m_registry m) @ [p]\<rparr>,
    m_invokers := (m_invokers m)(p \<mapsto> newInvoker now st)\<rparr>)"
proof -
  note d = master_okD [OF ok]
  note id = ivs_okD [OF d(3)] and sd = sends_okD [OF d(4)] and fd = fails_okD [OF d(5)]
  let ?m = "m\<lparr>m_registry := (m_registry m)\<lparr>r_invokers := r_invokers (m_registry m) @ [p]\<rparr>, m_invokers := (m_invokers m)(p \<mapsto> newInvoker now st)\<rparr>"
  have new: "iv_jobs (newInvoker now st) = Map.empty" "\<not> iv_failed (newInvoker now st)" by (simp_all add: newInvoker_def)
  have none: "m_invokers m p = None" using p by blast
  have "reg_ok ?m = reg_ok m" by (simp add: reg_ok_def Let_def)
  moreover have "ivs_ok ?m"
    unfolding ivs_ok_def
  proof (intro conjI allI impI)
    show "set (r_invokers (m_registry ?m)) \<subseteq> dom (m_invokers ?m)" "ran (r_by_job (m_registry ?m)) \<subseteq> dom (m_invokers ?m)"
      using id(1,2) by auto
    fix y h assume h: "m_invokers ?m y = Some h"
    then show "invoker_ok h" using id(3) newInvoker_ok by (auto split: if_splits)
    fix i x u assume "iv_jobs h i = Some (x, u)"
    then show "r_by_job (m_registry ?m) i = Some y" "r_testing (m_registry ?m) i = Some x"
      using h new(1) id(4) [of y h i x u] by (auto split: if_splits)
  qed
  moreover have "sends_ok ?m"
    unfolding sends_ok_def
  proof (intro conjI allI impI)
    fix y x assume yx: "(y, x) \<in> m_sends ?m"
    show "job_id x \<in> m_sent ?m" using sd(1) yx by simp
    show "\<exists>iv. m_invokers ?m y = Some iv \<and> getJobType_of (job_id x) iv \<in> {SendingJob, NotKnown}" using sd(2) [of y x] yx none by auto
  next
    fix y x y' x' assume "(y, x) \<in> m_sends ?m \<and> (y', x') \<in> m_sends ?m \<and> job_id x = job_id x'"
    then show "y = y'" "x = x'" using sd(3) [of y x y' x'] by simp_all
  qed
  moreover have "fails_ok ?m"
    unfolding fails_ok_def
  proof (intro conjI allI impI ballI)
    show "i \<in> dom (iv_jobs (the (m_invokers ?m y))) \<or> (\<exists>is. m_extracted ?m y = Some is \<and> i \<in> set is)"
      if "r_by_job (m_registry ?m) i = Some y" for i y
    proof -
      have "y \<in> dom (m_invokers m)" using id(2) that by (auto intro: ranI)
      then have "y \<noteq> p" using p by blast
      then show ?thesis using fd(1) [of i y] that by simp
    qed
    show "y \<notin> m_failing ?m" "\<exists>iv. m_invokers ?m y = Some iv \<and> iv_failed iv \<and> iv_jobs iv = Map.empty"
      if "m_extracted ?m y = Some is" for y "is" using that fd(2) [of y "is"] none by auto
    show "y \<in> m_failing ?m" if "m_invokers ?m y = Some h \<and> iv_failed h \<and> iv_jobs h \<noteq> Map.empty" for y h
      using that fd(3) [of y h] new by (auto split: if_splits)
    show "\<exists>iv. m_invokers ?m y = Some iv \<and> iv_failed iv" if "y \<in> m_failing ?m" for y using that fd(4) [of y] none by auto
    show "i \<in> m_sent ?m" "r_by_job (m_registry ?m) i \<in> {None, Some y}" if "m_extracted ?m y = Some is \<and> i \<in> set is" for y "is" i
      using that fd(5) [of y "is" i] by auto
  qed
  ultimately show ?thesis using d unfolding master_ok_def by simp
qed

section \<open>Jobs that come back\<close>

text \<open>A job leaves the registry when it is in no table any more.\<close>

lemma leaves_ok:
  assumes ok: "master_ok W m" and gone: "\<And>p iv. m_invokers m p = Some iv \<Longrightarrow> iv_jobs iv i = None"
    and r: "r_by_job (m_registry m') = (r_by_job (m_registry m))(i := None)" "r_testing (m_registry m') = (r_testing (m_registry m))(i := None)"
      "r_invokers (m_registry m') = r_invokers (m_registry m)"
    and same: "m_invokers m' = m_invokers m" "m_sends m' = m_sends m" "m_failing m' = m_failing m" "m_extracted m' = m_extracted m"
      "m_sent m' = m_sent m"
  shows "ivs_ok m' \<and> sends_ok m' \<and> fails_ok m'"
proof (intro conjI)
  note d = master_okD [OF ok]
  note id = ivs_okD [OF d(3)] and fd = fails_okD [OF d(5)]
  show "ivs_ok m'"
    unfolding ivs_ok_def r same
  proof (intro conjI allI impI)
    show "ran ((r_by_job (m_registry m))(i := None)) \<subseteq> dom (m_invokers m)" using id(2) by (auto simp: ran_def)
    fix p iv k x t assume a: "m_invokers m p = Some iv" "iv_jobs iv k = Some (x, t)"
    then have "k \<noteq> i" using gone by fastforce
    then show "((r_by_job (m_registry m))(i := None)) k = Some p" "((r_testing (m_registry m))(i := None)) k = Some x"
      using id(4) [OF a] by simp_all
  qed (use id(1,3) in auto)
  have "sends_ok m' = sends_ok m" by (simp add: sends_ok_def same)
  then show "sends_ok m'" using d(4) by simp
  show "fails_ok m'"
    unfolding fails_ok_def r same
  proof (intro conjI allI impI ballI)
    show "k \<in> dom (iv_jobs (the (m_invokers m p))) \<or> (\<exists>is. m_extracted m p = Some is \<and> k \<in> set is)"
      if "((r_by_job (m_registry m))(i := None)) k = Some p" for k p using that fd(1) [of k p] by (auto split: if_splits)
    show "k \<in> m_sent m" "((r_by_job (m_registry m))(i := None)) k \<in> {None, Some p}" if "m_extracted m p = Some is \<and> k \<in> set is" for p "is" k
      using that fd(5) [of p "is" k] by auto
  qed (use fd(2-4) in blast)+
qed

text \<open>The failed invoker's jobs that are still to be handed in.\<close>

lemma extracted_ok:
  assumes "fails_ok m" and "m_extracted m p = Some (i # is)" and "i \<notin> dom (r_by_job (m_registry m))"
  shows "fails_ok (m\<lparr>m_extracted := (m_extracted m)(p \<mapsto> is)\<rparr>)"
proof -
  note fd = fails_okD [OF assms(1)]
  let ?m = "m\<lparr>m_extracted := (m_extracted m)(p \<mapsto> is)\<rparr>"
  show ?thesis
    unfolding fails_ok_def
  proof (intro conjI allI impI ballI)
    show "k \<in> dom (iv_jobs (the (m_invokers ?m y))) \<or> (\<exists>js. m_extracted ?m y = Some js \<and> k \<in> set js)"
      if "r_by_job (m_registry ?m) k = Some y" for k y
      using that fd(1) [of k y] assms(2,3) by (cases "y = p") auto
    show "y \<notin> m_failing ?m" "\<exists>iv. m_invokers ?m y = Some iv \<and> iv_failed iv \<and> iv_jobs iv = Map.empty"
      if "m_extracted ?m y = Some js" for y js using that fd(2) [of y] assms(2) by (auto split: if_splits)
    show "y \<in> m_failing ?m" if "m_invokers ?m y = Some h \<and> iv_failed h \<and> iv_jobs h \<noteq> Map.empty" for y h using that fd(3) by simp
    show "\<exists>iv. m_invokers ?m y = Some iv \<and> iv_failed iv" if "y \<in> m_failing ?m" for y using that fd(4) by simp
    show "k \<in> m_sent ?m" "r_by_job (m_registry ?m) k \<in> {None, Some y}" if "m_extracted ?m y = Some js \<and> k \<in> set js" for y js k
      using that fd(5) [of y _ k] assms(2) by (auto split: if_splits)
  qed
qed

text \<open>The tables of a failed invoker are empty, so a job taken from it is in none.\<close>

lemma taken_gone:
  assumes ok: "master_ok W m" and "m_extracted m p = Some (i # is)" and "r_by_job (m_registry m) i = Some p'"
    and y: "m_invokers m y = Some iv"
  shows "iv_jobs iv i = None"
proof -
  note id = ivs_okD [OF master_okD(3) [OF ok]] and fd = fails_okD [OF master_okD(5) [OF ok]]
  have p: "p' = p" using fd(5) [OF assms(2), of i] assms(3) by simp
  show "iv_jobs iv i = None"
  proof (cases "iv_jobs iv i")
    case (Some x)
    then have "y = p" using id(4) [OF y, of i "fst x" "snd x"] assms(3) p by simp
    then show ?thesis using fd(2) [OF assms(2)] y Some by auto
  qed
qed

lemma rescheduling_ok:
  assumes ok: "master_ok W m" and p: "m_extracted m p = Some (i # is)" and n: "n \<notin> t_used (m_tests m)"
  shows "\<exists>r q. reschedule_one n i (m_registry m) (t_queue (m_tests m)) = Inr (r, q) \<and>
    (let c = (if i \<in> dom (r_by_job (m_registry m)) then returned n i q (m_tests m) else m_tests m) in
     master_ok W (m\<lparr>m_registry := r, m_extracted := (m_extracted m)(p \<mapsto> is), m_tests := c\<rparr>) \<and> testing_runs W (m_tests m) c)"
proof (cases "r_by_job (m_registry m) i")
  case None
  note d = master_okD [OF ok]
  let ?m = "m\<lparr>m_registry := m_registry m, m_extracted := (m_extracted m)(p \<mapsto> is), m_tests := m_tests m\<rparr>"
  have eq: "?m = m\<lparr>m_extracted := (m_extracted m)(p \<mapsto> is)\<rparr>" by simp
  have "reg_ok ?m = reg_ok m" "ivs_ok ?m = ivs_ok m" "sends_ok ?m = sends_ok m"
    by (simp_all add: reg_ok_def ivs_ok_def sends_ok_def Let_def)
  moreover have "fails_ok ?m" unfolding eq by (rule extracted_ok [OF d(5) p]) (simp add: None domIff)
  ultimately have "master_ok W ?m" using d unfolding master_ok_def by simp
  then show ?thesis using None by (intro exI [of _ "m_registry m"] exI [of _ "t_queue (m_tests m)"]) (simp add: reschedule_one_def dom_def)
next
  case (Some p')
  note d = master_okD [OF ok] and rd = reg_okD [OF master_okD(2) [OF ok]]
  obtain j where "r_testing (m_registry m) i = Some j" using rd(1) Some by blast
  then have held: "t_held (m_tests m) i = Some j" by (rule rd(2))
  obtain q where q: "RescheduleJob n i (t_queue (m_tests m)) = Inr (q, None)" and run: "run_ok W (returned n i q (m_tests m))"
    using RescheduleJob_ok [OF d(1) held n] by (auto simp: returned_def Let_def)
  let ?r = "(m_registry m)\<lparr>r_by_job := (r_by_job (m_registry m))(i := None), r_testing := (r_testing (m_registry m))(i := None)\<rparr>"
  let ?m1 = "m\<lparr>m_registry := ?r, m_tests := returned n i q (m_tests m)\<rparr>"
  let ?m = "m\<lparr>m_registry := ?r, m_extracted := (m_extracted m)(p \<mapsto> is), m_tests := returned n i q (m_tests m)\<rparr>"
  have keep: "ivs_ok ?m1 \<and> sends_ok ?m1 \<and> fails_ok ?m1"
    by (rule leaves_ok [OF ok taken_gone [OF ok p Some]]) simp_all
  have "ivs_ok ?m = ivs_ok ?m1" "sends_ok ?m = sends_ok ?m1" by (simp_all add: ivs_ok_def sends_ok_def)
  moreover have "fails_ok (?m1\<lparr>m_extracted := (m_extracted ?m1)(p \<mapsto> is)\<rparr>)"
  proof (rule extracted_ok)
    show "fails_ok ?m1" using keep by blast
    show "m_extracted ?m1 p = Some (i # is)" by (simp add: p)
  qed simp
  moreover have "fails_ok ?m = fails_ok (?m1\<lparr>m_extracted := (m_extracted ?m1)(p \<mapsto> is)\<rparr>)" by (simp add: fails_ok_def)
  moreover have "reg_ok ?m"
  proof (rule reg_okI)
    have f: "t_held (m_tests ?m) = (t_held (m_tests m))(i := None)" "t_used (m_tests ?m) = insert n (t_used (m_tests m))"
      "t_queue (m_tests ?m) = q" by (simp_all add: returned_def)
    have sent: "i \<in> m_sent m" using rd(5) Some by blast
    show "t_held (m_tests ?m) k = Some x" if "r_testing (m_registry ?m) k = Some x" for k x
      unfolding f using that rd(2) [of k x] by (auto split: if_splits)
    show "t_held (m_tests ?m) (job_id x) = Some x \<and> job_id x \<notin> m_sent ?m" if "r_next (m_registry ?m) = Some x" for x
      unfolding f using that rd(3) [of x] sent by auto
    show "t_held (m_tests ?m) k = Some x \<and> k \<notin> dom (r_by_job (m_registry ?m))" if "m_results ?m k = Some x" for k x
      unfolding f using that rd(4) [of k x] Some by auto
    show "m_sent ?m \<subseteq> t_used (m_tests ?m)" unfolding f using rd(7) by auto
    show "cur (t_queue (m_tests ?m)) k \<notin> m_sent ?m" if "k \<in> set (q_failed (t_queue (m_tests ?m)))" for k
      using RescheduleJob_new [OF d(1) held n q, of k] that rd(7) rd(8) [of k] n unfolding f by auto
    show "dom (t_held (m_tests ?m)) \<subseteq>
        dom (r_by_job (m_registry ?m)) \<union> dom (m_results ?m) \<union> m_lost ?m \<union> job_id ` set_option (r_next (m_registry ?m))"
      unfolding f using rd(9) by auto
  qed (use rd(1,5,6) in auto)
  ultimately have "ivs_ok ?m" "sends_ok ?m" "fails_ok ?m" "reg_ok ?m" using keep by blast+
  then have "master_ok W ?m" using run unfolding master_ok_def by simp
  moreover have "testing_runs W (m_tests m) (returned n i q (m_tests m))"
    unfolding returned_def by (rule r_into_rtranclp, rule lost [OF held n q])
  ultimately show ?thesis using q Some by (intro exI [of _ ?r] exI [of _ q]) (simp add: reschedule_one_def domI)
qed

section \<open>Results\<close>

lemma stop_loop_ok:
  assumes "set order \<subseteq> dom (r_testing r)" and "dom (r_testing r) = dom (r_by_job r)"
  shows "\<exists>stops. stop_loop order i r = Inr stops"
  using assms(1)
proof (induction order)
  case (Cons k ks)
  then obtain stops where s: "stop_loop ks i r = Inr stops" by auto
  have "k \<in> dom (r_testing r)" "k \<in> dom (r_by_job r)" using Cons.prems assms(2) by auto
  then obtain j p where "r_testing r k = Some j" "r_by_job r k = Some p" by blast
  then show ?case using s by (simp add: deref_def)
qed simp

lemma answered_ok:
  assumes ok: "master_ok W m" and j: "r_testing (m_registry m) i = Some j" and order: "set order \<subseteq> dom (r_testing (m_registry m))"
  shows "\<exists>r ivs stops known. HandleInvokerJobResult order v i (m_registry m) (m_invokers m) = Inr (r, ivs, stops, known) \<and>
    master_ok W (m\<lparr>m_registry := r, m_invokers := ivs, m_results := (if known then (m_results m)(i \<mapsto> j) else m_results m),
      m_lost := (if known then m_lost m else insert i (m_lost m))\<rparr>)"
proof -
  note d = master_okD [OF ok] and rd = reg_okD [OF master_okD(2) [OF ok]]
  note id = ivs_okD [OF d(3)] and sd = sends_okD [OF d(4)] and fd = fails_okD [OF d(5)]
  obtain p where p: "r_by_job (m_registry m) i = Some p" using rd(1) j by blast
  then obtain iv where iv: "m_invokers m p = Some iv" using id(2) by (meson domD ranI subsetD)
  obtain stops where stops: "(if v \<noteq> V_OK \<and> v \<noteq> V_PT then stop_loop order i (m_registry m) else Inr []) = Inr stops"
    using stop_loop_ok [OF order rd(1)] by (cases "v \<noteq> V_OK \<and> v \<noteq> V_PT") auto
  obtain iv' where t: "JobTested i iv = Inr (iv', i \<in> dom (iv_jobs iv))" "invoker_ok iv'" "iv_jobs iv' = (iv_jobs iv)(i := None)"
    "iv_failed iv' = iv_failed iv" using JobTested_ok [OF id(3) [OF iv]] by blast
  define known where "known = (i \<in> dom (iv_jobs iv))"
  let ?r = "(m_registry m)\<lparr>r_by_job := (r_by_job (m_registry m))(i := None), r_testing := (r_testing (m_registry m))(i := None)\<rparr>"
  let ?m = "m\<lparr>m_registry := ?r, m_invokers := (m_invokers m)(p \<mapsto> iv'), m_results := (if known then (m_results m)(i \<mapsto> j) else m_results m),
    m_lost := (if known then m_lost m else insert i (m_lost m))\<rparr>"
  have step: "HandleInvokerJobResult order v i (m_registry m) (m_invokers m) = Inr (?r, (m_invokers m)(p \<mapsto> iv'), stops, known)"
    using p iv stops t(1) by (simp add: HandleInvokerJobResult_def deref_def known_def)
  have sent: "i \<in> m_sent m" using rd(5) p by blast
  have held: "t_held (m_tests m) i = Some j" by (rule rd(2) [OF j])
  have reg: "reg_ok ?m"
  proof (rule reg_okI)
    show "t_held (m_tests ?m) k = Some x" if "r_testing (m_registry ?m) k = Some x" for k x using that rd(2) [of k x] by (auto split: if_splits)
    show "t_held (m_tests ?m) (job_id x) = Some x \<and> job_id x \<notin> m_sent ?m" if "r_next (m_registry ?m) = Some x" for x
      using that rd(3) [of x] by simp
    show "t_held (m_tests ?m) k = Some x \<and> k \<notin> dom (r_by_job (m_registry ?m))" if "m_results ?m k = Some x" for k x
      using that rd(4) [of k x] held by (auto split: if_splits)
    show "dom (m_results ?m) \<subseteq> m_sent ?m" using rd(6) sent by auto
    show "dom (t_held (m_tests ?m)) \<subseteq>
        dom (r_by_job (m_registry ?m)) \<union> dom (m_results ?m) \<union> m_lost ?m \<union> job_id ` set_option (r_next (m_registry ?m))"
      using rd(9) by auto
  qed (use rd(1,5,7,8) in auto)
  have ivs: "ivs_ok ?m"
    unfolding ivs_ok_def
  proof (intro conjI allI impI)
    show "set (r_invokers (m_registry ?m)) \<subseteq> dom (m_invokers ?m)" using id(1) by auto
    show "ran (r_by_job (m_registry ?m)) \<subseteq> dom (m_invokers ?m)" using id(2) by (auto simp: ran_def)
    fix y h assume h: "m_invokers ?m y = Some h"
    then show "invoker_ok h" using id(3) t(2) by (auto split: if_splits)
    fix k x u assume x: "iv_jobs h k = Some (x, u)"
    have "r_by_job (m_registry m) k = Some y \<and> r_testing (m_registry m) k = Some x \<and> k \<noteq> i"
    proof (cases "y = p")
      case True
      then have "iv_jobs iv k = Some (x, u)" "k \<noteq> i" using h x t(3) by (auto split: if_splits)
      then show ?thesis using id(4) [OF iv] True by simp
    next
      case False
      then have "m_invokers m y = Some h" using h by simp
      from id(4) [OF this x] show ?thesis using p False by auto
    qed
    then show "r_by_job (m_registry ?m) k = Some y" "r_testing (m_registry ?m) k = Some x" by simp_all
  qed
  have sends: "sends_ok ?m"
    unfolding sends_ok_def
  proof (intro conjI allI impI)
    fix y x assume yx: "(y, x) \<in> m_sends ?m"
    show "job_id x \<in> m_sent ?m" using sd(1) [of y x] yx by simp
    obtain h where h: "m_invokers m y = Some h" "getJobType_of (job_id x) h \<in> {SendingJob, NotKnown}" using sd(2) [of y x] yx by auto
    then show "\<exists>iv. m_invokers ?m y = Some iv \<and> getJobType_of (job_id x) iv \<in> {SendingJob, NotKnown}"
      using iv t(3) by (cases "y = p") (simp_all add: getJobType_of_def)
  next
    fix y x y' x' assume "(y, x) \<in> m_sends ?m \<and> (y', x') \<in> m_sends ?m \<and> job_id x = job_id x'"
    then show "y = y'" "x = x'" using sd(3) [of y x y' x'] by simp_all
  qed
  have fails: "fails_ok ?m"
    unfolding fails_ok_def
  proof (intro conjI allI impI ballI)
    show "k \<in> dom (iv_jobs (the (m_invokers ?m y))) \<or> (\<exists>is. m_extracted ?m y = Some is \<and> k \<in> set is)"
      if "r_by_job (m_registry ?m) k = Some y" for k y
    proof -
      have "r_by_job (m_registry m) k = Some y" "k \<noteq> i" using that by (auto split: if_splits)
      then show ?thesis using fd(1) [of k y] iv t(3) by (cases "y = p") auto
    qed
    fix y "is" assume e: "m_extracted ?m y = Some is"
    show "y \<notin> m_failing ?m" using e fd(2) [of y "is"] by simp
    show "\<exists>iv. m_invokers ?m y = Some iv \<and> iv_failed iv \<and> iv_jobs iv = Map.empty"
      using e fd(2) [of y "is"] iv t(3,4) by (cases "y = p") auto
  next
    fix y h assume "m_invokers ?m y = Some h \<and> iv_failed h \<and> iv_jobs h \<noteq> Map.empty"
    moreover have "(iv_jobs iv)(i := None) \<noteq> Map.empty \<Longrightarrow> iv_jobs iv \<noteq> Map.empty" by auto
    ultimately show "y \<in> m_failing ?m" using fd(3) [of y] iv t(3,4) by (cases "y = p") simp_all
  next
    fix y assume "y \<in> m_failing ?m"
    then show "\<exists>iv. m_invokers ?m y = Some iv \<and> iv_failed iv" using fd(4) [of y] iv t(4) by auto
  next
    fix y "is" k assume "m_extracted ?m y = Some is \<and> k \<in> set is"
    then show "k \<in> m_sent ?m" "r_by_job (m_registry ?m) k \<in> {None, Some y}" using fd(5) [of y "is" k] by auto
  qed
  have "master_ok W ?m" using d(1) reg ivs sends fails unfolding master_ok_def by simp
  then show ?thesis using step by blast
qed

lemma completing_ok:
  assumes ok: "master_ok W m" and j: "m_results m i = Some j"
  shows "\<exists>q out. JobCompleted e (queue_report W j) (t_queue (m_tests m)) = Inr (q, QueueAnswer out) \<and>
    master_ok W (m\<lparr>m_results := (m_results m)(i := None), m_tests := finished i j q out (m_tests m)\<rparr>) \<and>
    testing_runs W (m_tests m) (finished i j q out (m_tests m))"
proof -
  note d = master_okD [OF ok] and rd = reg_okD [OF master_okD(2) [OF ok]]
  have held: "t_held (m_tests m) i = Some j" and away: "i \<notin> dom (r_by_job (m_registry m))" using rd(4) [OF j] by blast+
  obtain q out where q: "JobCompleted e (queue_report W j) (t_queue (m_tests m)) = Inr (q, QueueAnswer out)"
    and run: "run_ok W (finished i j q out (m_tests m))"
    using JobCompleted_ok [OF d(1) held, of e] by (auto simp: finished_def Let_def)
  let ?m = "m\<lparr>m_results := (m_results m)(i := None), m_tests := finished i j q out (m_tests m)\<rparr>"
  have f: "t_held (m_tests ?m) = (t_held (m_tests m))(i := None)" "t_used (m_tests ?m) = t_used (m_tests m)"
    "t_queue (m_tests ?m) = q" by (simp_all add: finished_def)
  note same = JobCompleted_frame [OF q]
  have "i \<in> m_sent m" using rd(6) j by blast
  then have "reg_ok ?m"
  proof (intro reg_okI)
    show "t_held (m_tests ?m) k = Some x" if "r_testing (m_registry ?m) k = Some x" for k x
      unfolding f using that rd(1) rd(2) [of k x] away by auto
    show "t_held (m_tests ?m) (job_id x) = Some x \<and> job_id x \<notin> m_sent ?m" if "r_next (m_registry ?m) = Some x" for x
      unfolding f using that rd(3) [of x] \<open>i \<in> m_sent m\<close> by auto
    show "t_held (m_tests ?m) k = Some x \<and> k \<notin> dom (r_by_job (m_registry ?m))" if "m_results ?m k = Some x" for k x
      unfolding f using that rd(4) [of k x] by (auto split: if_splits)
    show "cur (t_queue (m_tests ?m)) k \<notin> m_sent ?m" if "k \<in> set (q_failed (t_queue (m_tests ?m)))" for k
      using that rd(8) [of k] same(1) cur_same [OF same(2)] unfolding f by simp
    show "dom (t_held (m_tests ?m)) \<subseteq>
        dom (r_by_job (m_registry ?m)) \<union> dom (m_results ?m) \<union> m_lost ?m \<union> job_id ` set_option (r_next (m_registry ?m))"
      unfolding f using rd(9) by auto
    show "m_sent ?m \<subseteq> t_used (m_tests ?m)" unfolding f using rd(7) by simp
  qed (use rd(1,5,6) in auto)
  moreover have "ivs_ok ?m \<and> sends_ok ?m \<and> fails_ok ?m" by (rule master_frame [OF d(3-5)]) simp_all
  ultimately have "master_ok W ?m" using run unfolding master_ok_def by simp
  moreover have "testing_runs W (m_tests m) (finished i j q out (m_tests m))"
    unfolding finished_def by (rule r_into_rtranclp, rule reported [OF held q])
  ultimately show ?thesis using q by blast
qed

section \<open>All steps\<close>

lemma client_ok:
  assumes ok: "master_ok W m" and run: "run_ok W c" and same: "t_held c = t_held (m_tests m)" "t_used (m_tests m) \<subseteq> t_used c"
    "q_failed (t_queue c) = q_failed (t_queue (m_tests m))" "q_job (t_queue c) = q_job (t_queue (m_tests m))"
  shows "master_ok W (m\<lparr>m_tests := c\<rparr>)"
proof -
  note d = master_okD [OF ok] and rd = reg_okD [OF master_okD(2) [OF ok]]
  have "reg_ok (m\<lparr>m_tests := c\<rparr>)"
  proof (rule reg_okI)
    show "t_held (m_tests (m\<lparr>m_tests := c\<rparr>)) i = Some j" if "r_testing (m_registry (m\<lparr>m_tests := c\<rparr>)) i = Some j" for i j
      using that rd(2) same(1) by simp
    show "m_sent (m\<lparr>m_tests := c\<rparr>) \<subseteq> t_used (m_tests (m\<lparr>m_tests := c\<rparr>))" using rd(7) same(2) by auto
    show "cur (t_queue (m_tests (m\<lparr>m_tests := c\<rparr>))) k \<notin> m_sent (m\<lparr>m_tests := c\<rparr>)"
      if "k \<in> set (q_failed (t_queue (m_tests (m\<lparr>m_tests := c\<rparr>))))" for k
      using that rd(8) [of k] same(3) cur_same [OF same(4)] by simp
    show "dom (t_held (m_tests (m\<lparr>m_tests := c\<rparr>))) \<subseteq> dom (r_by_job (m_registry (m\<lparr>m_tests := c\<rparr>))) \<union>
        dom (m_results (m\<lparr>m_tests := c\<rparr>)) \<union> m_lost (m\<lparr>m_tests := c\<rparr>) \<union> job_id ` set_option (r_next (m_registry (m\<lparr>m_tests := c\<rparr>)))"
      using rd(9) same(1) by simp
  qed (use rd(1,3-6) same(1) in simp_all)
  moreover have "ivs_ok (m\<lparr>m_tests := c\<rparr>) \<and> sends_ok (m\<lparr>m_tests := c\<rparr>) \<and> fails_ok (m\<lparr>m_tests := c\<rparr>)"
    by (rule master_frame [OF d(3-5)]) simp_all
  ultimately show ?thesis using run unfolding master_ok_def by simp
qed

text \<open>One iteration of \<open>SendJobs\<close>: the job is taken first, then it is tried.\<close>

lemma send_one_ok:
  assumes ok: "master_ok W m" and p: "p \<in> set (r_invokers (m_registry m))" "m_invokers m p = Some iv" and n: "n \<notin> t_used (m_tests m)"
  shows "\<exists>r q iv' e. send_one n p (m_registry m) (t_queue (m_tests m)) iv = Inr (r, q, iv', e) \<and>
    (let c = (case r_next (m_registry m) of None \<Rightarrow> handed n q (took r e) (m_tests m) | Some j \<Rightarrow> m_tests m) in
     master_ok W (sent_off p e (changed p iv' False (m\<lparr>m_registry := r, m_tests := c\<rparr>))) \<and> testing_runs W (m_tests m) c \<and>
     t_queue c = q \<and> t_used c \<subseteq> insert n (t_used (m_tests m)))"
proof -
  note d = master_okD [OF ok]
  obtain q jo where take: "(case r_next (m_registry m) of None \<Rightarrow> NextJob n (t_queue (m_tests m)) | Some j \<Rightarrow> Inr (t_queue (m_tests m), Some j)) = Inr (q, jo)"
    using NextJob_ok [OF d(1) n] by (cases "r_next (m_registry m)") auto
  define c where "c = (case r_next (m_registry m) of None \<Rightarrow> handed n q jo (m_tests m) | Some j \<Rightarrow> m_tests m)"
  let ?m = "m\<lparr>m_registry := (m_registry m)\<lparr>r_next := jo\<rparr>, m_tests := c\<rparr>"
  have m1: "master_ok W ?m"
  proof (cases "r_next (m_registry m)")
    case None
    then show ?thesis using take_ok [OF ok None n, of q jo] take by (simp add: c_def)
  next
    case (Some j)
    then have "?m = m" using take by (cases m; cases "m_registry m") (auto simp: c_def)
    then show ?thesis using ok by simp
  qed
  have c: "testing_runs W (m_tests m) c" "t_queue c = q" "t_used c \<subseteq> insert n (t_used (m_tests m))"
    using take asked [OF n, of q jo W] by (auto simp: c_def handed_def split: option.splits)
  have fin: ?thesis if s: "send_one n p (m_registry m) (t_queue (m_tests m)) iv = Inr (r, q, iv', e)" and t: "took r e = jo"
    and mo: "master_ok W (sent_off p e (changed p iv' False (m\<lparr>m_registry := r, m_tests := c\<rparr>)))" for r iv' e
  proof -
    have eq: "(case r_next (m_registry m) of None \<Rightarrow> handed n q (took r e) (m_tests m) | Some j \<Rightarrow> m_tests m) = c" unfolding t c_def ..
    show ?thesis
      by (rule exI [of _ r], rule exI [of _ q], rule exI [of _ iv'], rule exI [of _ e], unfold Let_def eq) (use s mo c in blast)
  qed
  show ?thesis
  proof (cases jo)
    case None
    then have "r_next (m_registry m) = None" using take by (cases "r_next (m_registry m)") auto
    moreover have "send_one n p (m_registry m) (t_queue (m_tests m)) iv = Inr ((m_registry m)\<lparr>r_next := None\<rparr>, q, iv, NoJobs)"
      using take None by (simp add: send_one_def)
    moreover have "changed p iv False ?m = ?m" using p(2) by (simp add: changed_def fun_upd_idem)
    ultimately show ?thesis using m1 None by (intro fin [of "(m_registry m)\<lparr>r_next := None\<rparr>" iv NoJobs]) (simp_all add: took_def sent_off_def)
  next
    case (Some j)
    obtain iv' sent where t: "TrySendJob j iv = (iv', sent)" by (cases "TrySendJob j iv")
    show ?thesis
    proof (cases sent)
      case False
      then have iv: "iv' = iv" using t by (auto simp: TrySendJob_def split: if_splits)
      have "send_one n p (m_registry m) (t_queue (m_tests m)) iv = Inr ((m_registry m)\<lparr>r_next := Some j\<rparr>, q, iv, NotSent)"
        using take Some t False iv by (simp add: send_one_def)
      moreover have "changed p iv False ?m = ?m" using p(2) by (simp add: changed_def fun_upd_idem)
      ultimately show ?thesis
        using m1 Some by (intro fin [of "(m_registry m)\<lparr>r_next := Some j\<rparr>" iv NotSent]) (simp_all add: took_def sent_off_def)
    next
      case True
      let ?r = "(m_registry m)\<lparr>r_by_job := (r_by_job (m_registry m))(job_id j \<mapsto> p),
        r_testing := (r_testing (m_registry m))(job_id j \<mapsto> j), r_next := None\<rparr>"
      have "send_one n p (m_registry m) (t_queue (m_tests m)) iv = Inr (?r, q, iv', Sent j)"
        using take Some t True by (simp add: send_one_def)
      moreover have "master_ok W (sent_off p (Sent j) (changed p iv' False (m\<lparr>m_registry := ?r, m_tests := c\<rparr>)))"
      proof -
        have "master_ok W (sent_off p (Sent j) (changed p iv' False (?m\<lparr>m_registry := (m_registry ?m)\<lparr>
            r_by_job := (r_by_job (m_registry ?m))(job_id j \<mapsto> p), r_testing := (r_testing (m_registry ?m))(job_id j \<mapsto> j), r_next := None\<rparr>\<rparr>)))"
          by (rule try_ok [OF m1]) (use p t True Some in simp_all)
        moreover have "?m\<lparr>m_registry := (m_registry ?m)\<lparr>r_by_job := (r_by_job (m_registry ?m))(job_id j \<mapsto> p),
            r_testing := (r_testing (m_registry ?m))(job_id j \<mapsto> j), r_next := None\<rparr>\<rparr> = m\<lparr>m_registry := ?r, m_tests := c\<rparr>" by (cases m) simp
        ultimately show ?thesis by (simp only:)
      qed
      ultimately show ?thesis using Some by (intro fin [of ?r iv' "Sent j"]) (simp_all add: took_def)
    qed
  qed
qed

lemma sent_ok:
  assumes ok: "master_ok W m" and pj: "(p, j) \<in> m_sends m" and iv: "m_invokers m p = Some iv"
  shows "\<exists>iv' timers failure. completeSendJob order answer j iv = Inr (iv', timers, failure) \<and>
    master_ok W (changed p iv' failure (m\<lparr>m_sends := m_sends m - {(p, j)}\<rparr>))"
proof -
  note d = master_okD [OF ok]
  have type: "getJobType_of (job_id j) iv \<in> {SendingJob, NotKnown}" using sends_okD(2) [OF d(4) pj] iv by auto
  obtain iv' timers failure where c: "completeSendJob order answer j iv = Inr (iv', timers, failure)" "same_jobs {job_id j} iv iv' failure"
    using completeSendJob_same [OF ivs_okD(3) [OF d(3) iv] type] by blast
  have "master_ok W (changed p iv' failure (m\<lparr>m_sends := m_sends m - {(p, j)}\<rparr>))"
  proof (rule changed_ok [OF ok iv c(2)])
    show "job_id x \<notin> {job_id j}" if "(p, x) \<in> m_sends m - {(p, j)}" for x
      using that sends_okD(3) [OF d(4) _ pj] by blast
  qed blast
  then show ?thesis using c(1) by blast
qed

lemma moved_ok:
  assumes ok: "master_ok W m" and iv: "m_invokers m p = Some iv" and same: "same_jobs {} iv iv' failure"
  shows "master_ok W (changed p iv' failure m)"
  using changed_ok [OF ok iv same, of "m_sends m"] by simp

lemma master_step_ok:
  assumes step: "master_step W m m'" and ok: "master_ok W m"
  shows "master_ok W m' \<and> testing_runs W (m_tests m) (m_tests m')"
  using step
proof cases
  note d = master_okD [OF ok]
  case (submitting gid p s e q)
  have run: "run_ok W ((m_tests m)\<lparr>t_queue := q, t_world := (t_world (m_tests m))(gid \<mapsto> (p, s)), t_used := insert gid (t_used (m_tests m))\<rparr>)"
    using Submit_ok [OF d(1) submitting(2-4), of e] submitting(5) by auto
  have "testing_step W (m_tests m) (m_tests m')"
    unfolding submitting(1) using testing_step.submitted [OF submitting(2-5)] by simp
  then show ?thesis unfolding submitting(1)
    using client_ok [OF ok run] Submit_frame [OF submitting(5)] by auto
next
  note d = master_okD [OF ok]
  case (saving k st)
  have run: "run_ok W ((m_tests m)\<lparr>t_queue := (t_queue (m_tests m))\<lparr>q_status := st\<rparr>, t_saved := insert k (t_saved (m_tests m))\<rparr>)"
    using saved_ok [OF d(1) saving(2)] saving(3) by auto
  have "testing_step W (m_tests m) (m_tests m')" unfolding saving(1) using testing_step.saved [OF saving(2,3)] by simp
  then show ?thesis unfolding saving(1) using client_ok [OF ok run] by auto
next
  case (sending p iv n r q iv' e)
  have "m_tests m' = (case r_next (m_registry m) of None \<Rightarrow> handed n q (took r e) (m_tests m) | Some j \<Rightarrow> m_tests m)"
    unfolding sending(1) by (cases e) (simp_all add: sent_off_def changed_def)
  then show ?thesis using send_one_ok [OF ok sending(2-4)] sending(1,5) by (auto simp: Let_def)
next
  case (sent p j iv order answer iv' timers failure)
  have "m_tests m' = m_tests m" unfolding sent(1) by (simp add: changed_def)
  then show ?thesis using sent_ok [OF ok sent(2,3), of order answer] sent(1,4) by auto
next
  case (pinged p iv order answer iv' timers failure)
  have "same_jobs {} iv iv' failure" using ping_same [OF ivs_okD(3) [OF master_okD(3) [OF ok] pinged(2)], of order answer] pinged(3) by auto
  then show ?thesis unfolding pinged(1) using moved_ok [OF ok pinged(2)] by (simp add: changed_def)
next
  case (timed_out p iv i iv' failure)
  have "same_jobs {} iv iv' failure" by (rule ensureJobIsNotLost_same [OF ivs_okD(3) [OF master_okD(3) [OF ok] timed_out(2)] timed_out(3)])
  then show ?thesis unfolding timed_out(1) using moved_ok [OF ok timed_out(2)] by (simp add: changed_def)
next
  case (requested p iv failed iv' failure)
  have "same_jobs {} iv iv' failure" by (rule request_failed_same [OF ivs_okD(3) [OF master_okD(3) [OF ok] requested(2)] requested(3)])
  then show ?thesis unfolding requested(1) using moved_ok [OF ok requested(2)] by (simp add: changed_def)
next
  case (registered p now st)
  then show ?thesis using registered_ok [OF ok] by simp
next
  case (extracting p iv order iv' "is")
  then show ?thesis using extracting_ok [OF ok] by simp
next
  case (rescheduling p i "is" n r q)
  then show ?thesis using rescheduling_ok [OF ok rescheduling(2,3)] by (auto simp: Let_def)
next
  case (removed p)
  then show ?thesis using removed_ok [OF ok] by simp
next
  case (ignored i)
  then show ?thesis using ok by simp
next
  case (answered i j order r ivs stops known)
  have "set order \<subseteq> dom (r_testing (m_registry m))" using answered(3) by simp
  from answered_ok [OF ok answered(2) this, of "jres_verdict (queue_report W j)"] show ?thesis using answered(1,4) by auto
next
  case (completing i j e q out)
  then show ?thesis using completing_ok [OF ok completing(2), of e] by auto
qed

lemma master_ok_start: "master_ok W master_start"
  using run_ok_start [of W]
  by (simp add: master_ok_def reg_ok_def ivs_ok_def sends_ok_def fails_ok_def master_start_def NewInvokerRegistry_def
    testing_start_def NewQueue_def Let_def)

lemma master_run_ok:
  assumes "master_runs W m m'" and "master_ok W m"
  shows "master_ok W m' \<and> testing_runs W (m_tests m) (m_tests m')"
  using assms
proof (induction rule: rtranclp_induct)
  case (step y z)
  then show ?case using master_step_ok [OF step(2)] by (meson rtranclp_trans)
qed simp

section \<open>Loops\<close>

text \<open>The loop that sends jobs to an invoker is made of steps.\<close>

definition fresh_ids :: "(nat \<Rightarrow> string) \<Rightarrow> nat \<Rightarrow> testing_run \<Rightarrow> bool" where
  "fresh_ids ids n c \<longleftrightarrow> inj ids \<and> (\<forall>k \<ge> n. ids k \<notin> t_used c)"

lemma fresh_ids_later:
  assumes "fresh_ids ids n c" and "t_used c' \<subseteq> t_used c \<union> ids ` {n..<n'}" and "n \<le> n'"
  shows "fresh_ids ids n' c'"
proof -
  have "ids k \<notin> t_used c'" if "n' \<le> k" for k
  proof -
    have "ids k \<notin> ids ` {n..<n'}" using that assms(1) by (simp add: fresh_ids_def inj_image_mem_iff)
    moreover have "ids k \<notin> t_used c" using that assms(1,3) by (simp add: fresh_ids_def)
    ultimately show ?thesis using assms(2) by blast
  qed
  then show ?thesis using assms(1) by (simp add: fresh_ids_def)
qed

lemma send_one_invokers:
  assumes "send_one i p r q iv = Inr (r', q', iv', e)"
  shows "r_invokers r' = r_invokers r"
proof -
  obtain x where x: "(case r_next r of None \<Rightarrow> NextJob i q | Some j \<Rightarrow> Inr (q, Some j)) = Inr x"
    using assms unfolding send_one_def bindE_eq_Inr by blast
  show ?thesis
  proof (cases "snd x")
    case None
    then show ?thesis using assms x by (auto simp: send_one_def case_prod_beta)
  next
    case (Some j)
    then show ?thesis using assms x by (cases "snd (TrySendJob j iv)") (auto simp: send_one_def case_prod_beta Let_def)
  qed
qed

lemma send_invoker_steps:
  assumes "master_ok W m" and "p \<in> set (r_invokers (m_registry m))" and "m_invokers m p = Some iv" and "fresh_ids ids n (m_tests m)"
  shows "\<exists>n' r q iv' more js m'. send_invoker ids n p (m_registry m) (t_queue (m_tests m)) iv = Inr (n', r, q, iv', more, js) \<and>
    n \<le> n' \<and> master_runs W m m' \<and> m_registry m' = r \<and> t_queue (m_tests m') = q \<and> m_invokers m' = (m_invokers m)(p \<mapsto> iv') \<and>
    t_used (m_tests m') \<subseteq> t_used (m_tests m) \<union> ids ` {n..<n'} \<and> m_sends m' = m_sends m \<union> {p} \<times> set js \<and>
    r_invokers r = r_invokers (m_registry m)"
  using assms
proof (induction "free_places iv" arbitrary: m iv n rule: less_induct)
  case less
  have fresh: "ids n \<notin> t_used (m_tests m)" using less.prems(4) by (simp add: fresh_ids_def)
  obtain r q iv' e where one: "send_one (ids n) p (m_registry m) (t_queue (m_tests m)) iv = Inr (r, q, iv', e)"
    and c: "t_queue (case r_next (m_registry m) of None \<Rightarrow> handed (ids n) q (took r e) (m_tests m) | Some j \<Rightarrow> m_tests m) = q"
      "t_used (case r_next (m_registry m) of None \<Rightarrow> handed (ids n) q (took r e) (m_tests m) | Some j \<Rightarrow> m_tests m) \<subseteq> insert (ids n) (t_used (m_tests m))"
    using send_one_ok [OF less.prems(1-3) fresh] unfolding Let_def by - (elim exE conjE, rule that)
  define m1 where "m1 = sent_off p e (changed p iv' False (m\<lparr>m_registry := r,
      m_tests := (case r_next (m_registry m) of None \<Rightarrow> handed (ids n) q (took r e) (m_tests m) | Some j \<Rightarrow> m_tests m)\<rparr>))"
  have step: "master_step W m m1" unfolding m1_def by (rule sending [OF less.prems(2,3) fresh one])
  have ok1: "master_ok W m1" using master_step_ok [OF step less.prems(1)] by blast
  have f: "m_registry m1 = r" "m_invokers m1 = (m_invokers m)(p \<mapsto> iv')" "t_queue (m_tests m1) = q"
    "t_used (m_tests m1) \<subseteq> insert (ids n) (t_used (m_tests m))"
    "m_sends m1 = (case e of Sent j \<Rightarrow> insert (p, j) (m_sends m) | _ \<Rightarrow> m_sends m)"
    using c by (cases e; simp add: m1_def sent_off_def changed_def)+
  note inv = send_one_invokers [OF one]
  have used: "t_used (m_tests m1) \<subseteq> t_used (m_tests m) \<union> ids ` {n..<Suc n}" using f(4) by auto
  show ?case
  proof (cases e)
    case NoJobs
    then have "send_invoker ids n p (m_registry m) (t_queue (m_tests m)) iv = Inr (Suc n, r, q, iv', False, [])"
      using one by (subst send_invoker.simps) simp
    then show ?thesis using r_into_rtranclp [of "master_step W", OF step] f used inv NoJobs
      by (intro exI [of _ "Suc n"] exI [of _ r] exI [of _ q] exI [of _ iv'] exI [of _ False] exI [of _ "[]"] exI [of _ m1]) simp
  next
    case NotSent
    then have "send_invoker ids n p (m_registry m) (t_queue (m_tests m)) iv = Inr (Suc n, r, q, iv', True, [])"
      using one by (subst send_invoker.simps) simp
    then show ?thesis using r_into_rtranclp [of "master_step W", OF step] f used inv NotSent
      by (intro exI [of _ "Suc n"] exI [of _ r] exI [of _ q] exI [of _ iv'] exI [of _ True] exI [of _ "[]"] exI [of _ m1]) simp
  next
    case (Sent j)
    have fewer: "free_places iv' < free_places iv" using send_one_places one Sent by simp
    have ids: "fresh_ids ids (Suc n) (m_tests m1)" by (rule fresh_ids_later [OF less.prems(4) used]) simp
    have p: "p \<in> set (r_invokers (m_registry m1))" "m_invokers m1 p = Some iv'" using less.prems(2) inv f(1,2) by simp_all
    obtain n' r' q' iv2 more js m' where rest: "send_invoker ids (Suc n) p r q iv' = Inr (n', r', q', iv2, more, js)"
      "Suc n \<le> n'" "master_runs W m1 m'" "m_registry m' = r'" "t_queue (m_tests m') = q'" "m_invokers m' = (m_invokers m1)(p \<mapsto> iv2)"
      "t_used (m_tests m') \<subseteq> t_used (m_tests m1) \<union> ids ` {Suc n..<n'}" "m_sends m' = m_sends m1 \<union> {p} \<times> set js"
      "r_invokers r' = r_invokers r"
      using less.hyps [OF fewer ok1 p ids, unfolded f(1,3)] by - (elim exE conjE, rule that)
    have "send_invoker ids n p (m_registry m) (t_queue (m_tests m)) iv = Inr (n', r', q', iv2, more, j # js)"
      using one Sent rest(1) by (subst send_invoker.simps) simp
    moreover have "master_runs W m m'" by (rule converse_rtranclp_into_rtranclp [of "master_step W", OF step rest(3)])
    moreover have "t_used (m_tests m') \<subseteq> t_used (m_tests m) \<union> ids ` {n..<n'}"
    proof -
      have "ids n \<in> ids ` {n..<n'}" "ids ` {Suc n..<n'} \<subseteq> ids ` {n..<n'}" using rest(2) by (auto intro: image_mono)
      then show ?thesis using rest(7) f(4) by blast
    qed
    moreover have "m_sends m' = m_sends m \<union> {p} \<times> set (j # js)" using rest(8) f(5) Sent by auto
    ultimately show ?thesis using rest(2,4-6,9) f(2) inv
      by (intro exI [of _ n'] exI [of _ r'] exI [of _ q'] exI [of _ iv2] exI [of _ more] exI [of _ "j # js"] exI [of _ m']) simp
  qed
qed


lemma send_loop_steps:
  assumes "master_ok W m" and "set ps \<subseteq> set (r_invokers (m_registry m))" and "fresh_ids ids n (m_tests m)"
  shows "\<exists>r q ivs js m'. send_loop ids n ps (m_registry m) (t_queue (m_tests m)) (m_invokers m) = Inr (r, q, ivs, js) \<and>
    master_runs W m m' \<and> m_registry m' = r \<and> t_queue (m_tests m') = q \<and> m_invokers m' = ivs \<and> m_sends m' = m_sends m \<union> set js"
  using assms
proof (induction ps arbitrary: m n)
  case Nil
  then show ?case by (intro exI [of _ "m_registry m"] exI [of _ "t_queue (m_tests m)"] exI [of _ "m_invokers m"] exI [of _ "[]"] exI [of _ m]) simp
next
  case (Cons p ps)
  note d = master_okD [OF Cons.prems(1)]
  have p: "p \<in> set (r_invokers (m_registry m))" using Cons.prems(2) by simp
  obtain iv where iv: "m_invokers m p = Some iv" using ivs_okD(1) [OF d(3)] p by blast
  obtain n' r q iv' more js m1 where one: "send_invoker ids n p (m_registry m) (t_queue (m_tests m)) iv = Inr (n', r, q, iv', more, js)"
    "n \<le> n'" "master_runs W m m1" "m_registry m1 = r" "t_queue (m_tests m1) = q" "m_invokers m1 = (m_invokers m)(p \<mapsto> iv')"
    "t_used (m_tests m1) \<subseteq> t_used (m_tests m) \<union> ids ` {n..<n'}" "m_sends m1 = m_sends m \<union> {p} \<times> set js"
    "r_invokers r = r_invokers (m_registry m)"
    using send_invoker_steps [OF Cons.prems(1) p iv Cons.prems(3)] by - (elim exE conjE, rule that)
  have sent: "set (map (Pair p) js) = {p} \<times> set js" by auto
  show ?case
  proof (cases more)
    case False
    then show ?thesis using one iv sent
      by (intro exI [of _ r] exI [of _ q] exI [of _ "(m_invokers m)(p \<mapsto> iv')"] exI [of _ "map (Pair p) js"] exI [of _ m1]) (simp add: Let_def bindE_def deref_def fun_upd_def)
  next
    case True
    have ok1: "master_ok W m1" using master_run_ok [OF one(3) Cons.prems(1)] by blast
    have ps: "set ps \<subseteq> set (r_invokers (m_registry m1))" using Cons.prems(2) one(4,9) by simp
    have ids: "fresh_ids ids n' (m_tests m1)" by (rule fresh_ids_later [OF Cons.prems(3) one(7,2)])
    obtain r2 q2 ivs js2 m' where rest: "send_loop ids n' ps r q ((m_invokers m)(p \<mapsto> iv')) = Inr (r2, q2, ivs, js2)"
      "master_runs W m1 m'" "m_registry m' = r2" "t_queue (m_tests m') = q2" "m_invokers m' = ivs" "m_sends m' = m_sends m1 \<union> set js2"
      using Cons.IH [OF ok1 ps ids, unfolded one(4-6)] by - (elim exE conjE, rule that)
    have "send_loop ids n (p # ps) (m_registry m) (t_queue (m_tests m)) (m_invokers m) = Inr (r2, q2, ivs, map (Pair p) js @ js2)"
      using one(1) iv True rest(1) by (simp add: Let_def bindE_def deref_def)
    moreover have "master_runs W m m'" by (rule rtranclp_trans [OF one(3) rest(2)])
    moreover have "m_sends m' = m_sends m \<union> set (map (Pair p) js @ js2)" using rest(6) one(8) sent by auto
    ultimately show ?thesis using rest(3-5) by blast
  qed
qed

lemma SendJobs_steps:
  assumes "master_ok W m" and "inj ids" and "range ids \<inter> t_used (m_tests m) = {}"
  obtains r q ivs js m' where "SendJobs ids (m_registry m) (t_queue (m_tests m)) (m_invokers m) = Inr (r, q, ivs, js)"
    "master_runs W m m'" "m_registry m' = r" "t_queue (m_tests m') = q" "m_invokers m' = ivs" "m_sends m' = m_sends m \<union> set js"
proof -
  have "fresh_ids ids 0 (m_tests m)" using assms(2,3) by (auto simp: fresh_ids_def)
  from send_loop_steps [OF assms(1) subset_refl this, folded SendJobs_def] show thesis by - (elim exE conjE, rule that)
qed

text \<open>So are the walk that takes a status, and the handling of a failure.\<close>

lemma UpsertInvoker_pinged:
  assumes ok: "master_ok W m" and iv: "m_invokers m p = Some iv"
  shows "\<exists>iv' timers failure taken m'. VerifyAndUpdateStatus order st iv = Inr (iv', timers, failure, taken) \<and> master_runs W m m' \<and>
    m_tests m' = m_tests m \<and> m_registry m' = m_registry m \<and> m_invokers m' = (m_invokers m)(p \<mapsto> iv') \<and>
    m_failing m' = m_failing m \<union> (if failure then {p} else {})"
proof (cases "is_address (iv_status iv) = is_address st")
  case False
  then show ?thesis using iv by (intro exI [of _ iv] exI [of _ "[]"] exI [of _ False] exI [of _ False] exI [of _ m]) (simp add: VerifyAndUpdateStatus_def fun_upd_idem)
next
  case True
  obtain iv' timers failure where p: "ping order (Some st) iv = Inr (iv', timers, failure)"
    using ping_same [OF ivs_okD(3) [OF master_okD(3) [OF ok] iv], of order "Some st"] by blast
  have "master_runs W m (changed p iv' failure m)" by (rule r_into_rtranclp) (rule pinged [OF iv p])
  then show ?thesis using p True
    by (intro exI [of _ iv'] exI [of _ timers] exI [of _ failure] exI [of _ "\<not> iv_failed iv'"] exI [of _ "changed p iv' failure m"])
      (simp add: VerifyAndUpdateStatus_def ping_def changed_def)
qed

lemma upsert_loop_steps:
  assumes "master_ok W m" and "set ps \<subseteq> dom (m_invokers m)"
  shows "\<exists>ivs started taken m'. upsert_loop order st ps (m_invokers m) = Inr (ivs, started, taken) \<and> master_runs W m m' \<and>
    m_tests m' = m_tests m \<and> m_registry m' = m_registry m \<and> m_invokers m' = ivs \<and> dom ivs = dom (m_invokers m) \<and>
    m_failing m' = m_failing m \<union> {p. \<exists>timers. (p, timers, True) \<in> set started}"
  using assms
proof (induction ps arbitrary: m)
  case Nil
  then show ?case by (intro exI [of _ "m_invokers m"] exI [of _ "[]"] exI [of _ False] exI [of _ m]) simp
next
  case (Cons p ps)
  obtain iv where iv: "m_invokers m p = Some iv" using Cons.prems(2) by auto
  obtain iv' timers failure taken m1 where one: "VerifyAndUpdateStatus (order p) st iv = Inr (iv', timers, failure, taken)"
    "master_runs W m m1" "m_tests m1 = m_tests m" "m_registry m1 = m_registry m" "m_invokers m1 = (m_invokers m)(p \<mapsto> iv')"
    "m_failing m1 = m_failing m \<union> (if failure then {p} else {})"
    using UpsertInvoker_pinged [OF Cons.prems(1) iv, of "order p" st] by - (elim exE conjE, rule that)
  have same: "dom (m_invokers m1) = dom (m_invokers m)" using one(5) iv by auto
  show ?case
  proof (cases taken)
    case True
    then show ?thesis using one iv same
      by (intro exI [of _ "(m_invokers m)(p \<mapsto> iv')"] exI [of _ "[(p, timers, failure)]"] exI [of _ True] exI [of _ m1]) (auto simp: bindE_def deref_def)
  next
    case False
    have ok1: "master_ok W m1" using master_run_ok [OF one(2) Cons.prems(1)] by blast
    have ps: "set ps \<subseteq> dom (m_invokers m1)" using Cons.prems(2) same by simp
    obtain ivs started taken2 m' where rest: "upsert_loop order st ps ((m_invokers m)(p \<mapsto> iv')) = Inr (ivs, started, taken2)"
      "master_runs W m1 m'" "m_tests m' = m_tests m1" "m_registry m' = m_registry m1" "m_invokers m' = ivs"
      "dom ivs = dom ((m_invokers m)(p \<mapsto> iv'))" "m_failing m' = m_failing m1 \<union> {p. \<exists>timers. (p, timers, True) \<in> set started}"
      using Cons.IH [OF ok1 ps, unfolded one(5)] unfolding one(5) by - (elim exE conjE, rule that)
    have "upsert_loop order st (p # ps) (m_invokers m) = Inr (ivs, (p, timers, failure) # started, taken2)"
      using one(1) iv False rest(1) by (simp add: bindE_def deref_def)
    moreover have "master_runs W m m'" by (rule rtranclp_trans [OF one(2) rest(2)])
    moreover have "m_failing m' = m_failing m \<union> {k. \<exists>ts. (k, ts, True) \<in> set ((p, timers, failure) # started)}"
      using rest(7) one(6) by (cases failure) auto
    moreover have "dom ivs = dom (m_invokers m)" using rest(6) iv by auto
    moreover have "m_tests m' = m_tests m" "m_registry m' = m_registry m" using rest(3,4) one(3,4) by simp_all
    ultimately show ?thesis using rest(5)
      by (intro exI [of _ ivs] exI [of _ "(p, timers, failure) # started"] exI [of _ taken2] exI [of _ m'] conjI)
  qed
qed

lemma UpsertInvoker_steps:
  assumes ok: "master_ok W m" and new: "new \<notin> dom (m_invokers m)"
  obtains r ivs started m' where "UpsertInvoker order new now st (m_registry m) (m_invokers m) = Inr (r, ivs, started)"
    "master_runs W m m'" "m_registry m' = r" "m_invokers m' = ivs" "m_tests m' = m_tests m"
    "m_failing m' = m_failing m \<union> {p. \<exists>timers. (p, timers, True) \<in> set started}"
proof -
  obtain ivs started taken m1 where loop: "upsert_loop order st (r_invokers (m_registry m)) (m_invokers m) = Inr (ivs, started, taken)"
    "master_runs W m m1" "m_tests m1 = m_tests m" "m_registry m1 = m_registry m" "m_invokers m1 = ivs" "dom ivs = dom (m_invokers m)"
    "m_failing m1 = m_failing m \<union> {p. \<exists>timers. (p, timers, True) \<in> set started}"
    using upsert_loop_steps [OF ok ivs_okD(1) [OF master_okD(3) [OF ok]], of order st] by - (elim exE conjE, rule that)
  show thesis
  proof (cases taken)
    case True
    then have "UpsertInvoker order new now st (m_registry m) (m_invokers m) = Inr (m_registry m, ivs, started)"
      using loop(1) by (simp add: UpsertInvoker_def bindE_def)
    from that [OF this] loop(2-5,7) show thesis by simp
  next
    case False
    let ?m = "m1\<lparr>m_registry := (m_registry m1)\<lparr>r_invokers := r_invokers (m_registry m1) @ [new]\<rparr>, m_invokers := (m_invokers m1)(new \<mapsto> newInvoker now st)\<rparr>"
    have "UpsertInvoker order new now st (m_registry m) (m_invokers m) = Inr (m_registry ?m, m_invokers ?m, started)"
      using loop(1,4,5) False by (simp add: UpsertInvoker_def bindE_def)
    moreover have "master_step W m1 ?m" by (rule registered) (use new loop(5,6) in simp)
    ultimately show thesis using rtranclp.rtrancl_into_rtrancl [OF loop(2)] loop(3,7) by (intro that [of _ _ _ ?m]) simp_all
  qed
qed

lemma reschedule_loop_steps:
  assumes "master_ok W m" and "m_extracted m p = Some (map snd is)" and "distinct (map fst is)"
    and "set (map fst is) \<inter> t_used (m_tests m) = {}"
  shows "\<exists>r q m'. reschedule_loop is (m_registry m) (t_queue (m_tests m)) = Inr (r, q) \<and> master_runs W m m' \<and>
    m_registry m' = r \<and> t_queue (m_tests m') = q \<and> m_extracted m' = (m_extracted m)(p \<mapsto> [])"
  using assms
proof (induction "is" arbitrary: m)
  case Nil
  then show ?case by (intro exI [of _ "m_registry m"] exI [of _ "t_queue (m_tests m)"] exI [of _ m]) (simp add: fun_upd_idem)
next
  case (Cons ni "is")
  obtain n i where ni: "ni = (n, i)" by (cases ni)
  have ex: "m_extracted m p = Some (i # map snd is)" and fresh: "n \<notin> t_used (m_tests m)" using Cons.prems(2,4) ni by auto
  obtain r q where one: "reschedule_one n i (m_registry m) (t_queue (m_tests m)) = Inr (r, q)"
    using rescheduling_ok [OF Cons.prems(1) ex fresh] unfolding Let_def by blast
  define m1 where "m1 = m\<lparr>m_registry := r, m_extracted := (m_extracted m)(p \<mapsto> map snd is),
      m_tests := (if i \<in> dom (r_by_job (m_registry m)) then returned n i q (m_tests m) else m_tests m)\<rparr>"
  have step: "master_step W m m1" unfolding m1_def by (rule rescheduling [OF ex fresh one])
  have ok1: "master_ok W m1" using master_step_ok [OF step Cons.prems(1)] by blast
  have q: "q = t_queue (m_tests m)" if "i \<notin> dom (r_by_job (m_registry m))" using one that by (simp add: reschedule_one_def)
  have f: "m_registry m1 = r" "t_queue (m_tests m1) = q" "m_extracted m1 = (m_extracted m)(p \<mapsto> map snd is)"
    "t_used (m_tests m1) \<subseteq> insert n (t_used (m_tests m))"
    using q by (auto simp: m1_def returned_def)
  have "m_extracted m1 p = Some (map snd is)" "distinct (map fst is)" "set (map fst is) \<inter> t_used (m_tests m1) = {}"
    using f(3,4) Cons.prems(3,4) ni by auto
  from Cons.IH [OF ok1 this, unfolded f(1,2)] obtain r' q' m' where rest: "reschedule_loop is r q = Inr (r', q')"
    "master_runs W m1 m'" "m_registry m' = r'" "t_queue (m_tests m') = q'" "m_extracted m' = (m_extracted m1)(p \<mapsto> [])"
    by - (elim exE conjE, rule that)
  have "reschedule_loop (ni # is) (m_registry m) (t_queue (m_tests m)) = Inr (r', q')" using one rest(1) ni by (simp add: bindE_def)
  moreover have "master_runs W m m'" by (rule converse_rtranclp_into_rtranclp [of "master_step W", OF step rest(2)])
  ultimately show ?case using rest(3-5) f(3) by (intro exI [of _ r'] exI [of _ q'] exI [of _ m']) simp
qed

lemma OnInvokerFailure_steps:
  assumes "master_ok W m" and "m_extracted m p = Some (map snd is)" and "distinct (map fst is)"
    and "set (map fst is) \<inter> t_used (m_tests m) = {}"
  obtains r q m' where "OnInvokerFailure p is (m_registry m) (t_queue (m_tests m)) = Inr (r, q)"
    "master_runs W m m'" "m_registry m' = r" "t_queue (m_tests m') = q" "m_extracted m' p = None" "p \<notin> set (r_invokers r)"
proof -
  obtain r q m1 where loop: "reschedule_loop is (m_registry m) (t_queue (m_tests m)) = Inr (r, q)" "master_runs W m m1"
    "m_registry m1 = r" "t_queue (m_tests m1) = q" "m_extracted m1 = (m_extracted m)(p \<mapsto> [])"
    using reschedule_loop_steps [OF assms] by - (elim exE conjE, rule that)
  let ?m = "m1\<lparr>m_registry := (m_registry m1)\<lparr>r_invokers := removeAll p (r_invokers (m_registry m1))\<rparr>, m_extracted := (m_extracted m1)(p := None)\<rparr>"
  have "OnInvokerFailure p is (m_registry m) (t_queue (m_tests m)) = Inr (m_registry ?m, q)"
    using loop(1,3) by (simp add: OnInvokerFailure_def bindE_def)
  moreover have "master_step W m1 ?m" by (rule removed) (simp add: loop(5))
  ultimately show thesis using rtranclp.rtrancl_into_rtrancl [OF loop(2)] loop(4) by (intro that [of "m_registry ?m" q ?m]) simp_all
qed


section \<open>Jobs that nobody has\<close>

text \<open>
  A job whose generator waits for it, which the registry has forgotten and whose result was dropped, stays so: ids are
  never used again, so the queue will not hear of it any more.
\<close>

definition orphan :: "string \<Rightarrow> job \<Rightarrow> master_run \<Rightarrow> bool" where
  "orphan i j m \<longleftrightarrow> t_held (m_tests m) i = Some j \<and> r_by_job (m_registry m) i = None \<and> m_results m i = None \<and>
     (\<forall>j'. r_next (m_registry m) = Some j' \<longrightarrow> job_id j' \<noteq> i)"

lemma send_one_effect:
  assumes "send_one n p r q iv = Inr (r', q', iv', e)"
  shows "case r_next r of None \<Rightarrow> NextJob n q = Inr (q', took r' e) | Some j \<Rightarrow> took r' e = Some j"
    "r_by_job r' = (case e of Sent j \<Rightarrow> (r_by_job r)(job_id j \<mapsto> p) | _ \<Rightarrow> r_by_job r)"
    "r_next r' = (case e of NotSent \<Rightarrow> took r' e | _ \<Rightarrow> None)"
proof -
  obtain q2 jo where take: "(case r_next r of None \<Rightarrow> NextJob n q | Some j \<Rightarrow> Inr (q, Some j)) = Inr (q2, jo)"
    using assms unfolding send_one_def bindE_eq_Inr by fastforce
  have "q2 = q' \<and> took r' e = jo \<and> r_by_job r' = (case e of Sent j \<Rightarrow> (r_by_job r)(job_id j \<mapsto> p) | _ \<Rightarrow> r_by_job r) \<and>
      r_next r' = (case e of NotSent \<Rightarrow> took r' e | _ \<Rightarrow> None)"
  proof (cases jo)
    case None
    then show ?thesis using assms take by (auto simp: send_one_def took_def)
  next
    case (Some j)
    then show ?thesis using assms take by (cases "snd (TrySendJob j iv)") (auto simp: send_one_def took_def case_prod_beta Let_def)
  qed
  then show "case r_next r of None \<Rightarrow> NextJob n q = Inr (q', took r' e) | Some j \<Rightarrow> took r' e = Some j"
    "r_by_job r' = (case e of Sent j \<Rightarrow> (r_by_job r)(job_id j \<mapsto> p) | _ \<Rightarrow> r_by_job r)"
    "r_next r' = (case e of NotSent \<Rightarrow> took r' e | _ \<Rightarrow> None)"
    using take by (auto split: option.splits)
qed

lemma sending_orphan:
  assumes ok: "master_ok W m" and n: "n \<notin> t_used (m_tests m)" and orphan: "orphan i j m"
    and step: "send_one n p (m_registry m) (t_queue (m_tests m)) iv = Inr (r, q, iv', e)"
  shows "orphan i j (sent_off p e (changed p iv' False (m\<lparr>m_registry := r,
      m_tests := (case r_next (m_registry m) of None \<Rightarrow> handed n q (took r e) (m_tests m) | Some j \<Rightarrow> m_tests m)\<rparr>)))"
proof -
  note s = send_one_effect [OF step] and o = orphan [unfolded orphan_def]
  let ?c = "case r_next (m_registry m) of None \<Rightarrow> handed n q (took r e) (m_tests m) | Some j \<Rightarrow> m_tests m"
  have new: "job_id x \<noteq> i" if "took r e = Some x" for x
  proof (cases "r_next (m_registry m)")
    case None
    then have "job_id x \<notin> dom (t_held (m_tests m))" using NextJob_new(3) [OF master_okD(1) [OF ok] n] s(1) that by simp
    then show ?thesis using o by auto
  next
    case (Some y)
    then show ?thesis using s(1) o that by simp
  qed
  have "t_held ?c i = Some j"
    using o new by (auto simp: handed_def split: option.splits)
  moreover have "r_by_job r i = None" using s(2) o new by (cases e) (auto simp: took_def)
  moreover have "job_id x \<noteq> i" if "r_next r = Some x" for x using s(3) new that by (cases e) auto
  ultimately show ?thesis using o by (cases e) (simp_all add: orphan_def sent_off_def changed_def)
qed

lemma reschedule_one_effect:
  assumes "reschedule_one n i r q = Inr (r', q')"
  shows "r_next r' = r_next r" "r_by_job r' = (r_by_job r)(i := None)"
  using assms by (auto simp: reschedule_one_def bindE_eq_Inr domIff fun_upd_idem split: if_splits prod.splits)

lemma HandleInvokerJobResult_effect:
  assumes "HandleInvokerJobResult order v i r ivs = Inr (r', ivs', stops, known)"
  shows "r_next r' = r_next r" "r_by_job r' = (r_by_job r)(i := None)"
  using assms by (auto simp: HandleInvokerJobResult_def bindE_eq_Inr fun_upd_idem split: option.splits prod.splits)

lemma orphan_step:
  assumes step: "master_step W m m'" and ok: "master_ok W m" and orphan: "orphan i j m"
  shows "orphan i j m'"
proof -
  note o = orphan [unfolded orphan_def]
  from step show ?thesis
  proof cases
    case (sending p iv n r q iv' e)
    then show ?thesis using sending_orphan [OF ok _ orphan] by simp
  next
    case (rescheduling p k "is" n r q)
    then show ?thesis using o reschedule_one_effect [OF rescheduling(4)] by (auto simp: orphan_def returned_def)
  next
    case (answered k x order r ivs stops known)
    moreover have "k \<noteq> i" using answered(2) o reg_okD(1) [OF master_okD(2) [OF ok]] by (metis domI domIff)
    ultimately show ?thesis using o HandleInvokerJobResult_effect [OF answered(4)] by (auto simp: orphan_def)
  next
    case (completing k x e q out)
    then show ?thesis using o by (auto simp: orphan_def finished_def)
  qed (use o in \<open>auto simp: orphan_def changed_def\<close>)
qed

lemma orphan_unanswered:
  assumes run: "master_runs W m m'" and ok: "master_ok W m" and orphan: "orphan i j m"
  shows "orphan i j m' \<and> t_done (m_tests m') (job_submission j) = None"
proof -
  have "orphan i j m' \<and> master_ok W m'" using run
  proof (induction rule: rtranclp_induct)
    case base
    then show ?case using ok orphan by simp
  next
    case (step y z)
    then show ?case using orphan_step master_step_ok by blast
  qed
  moreover from this have "t_done (m_tests m') (job_submission j) = None"
    using held_job [OF master_okD(1), of W m' i j] by (metis orphan_def)
  ultimately show ?thesis by blast
qed

text \<open>Which results are dropped: those of a failed invoker's jobs that were taken from it and not yet put back into the queue.\<close>

lemma HandleInvokerJobResult_known:
  assumes ok: "master_ok W m" and p: "r_by_job (m_registry m) i = Some p"
    and step: "HandleInvokerJobResult order v i (m_registry m) (m_invokers m) = Inr (r, ivs, stops, known)"
  shows "known \<longleftrightarrow> \<not> (\<exists>is. m_extracted m p = Some is \<and> i \<in> set is)"
proof -
  note d = master_okD [OF ok] and fd = fails_okD [OF master_okD(5) [OF ok]]
  obtain iv where iv: "m_invokers m p = Some iv" using ivs_okD(2) [OF d(3)] p by (meson domD ranI subsetD)
  obtain iv' where t: "JobTested i iv = Inr (iv', i \<in> dom (iv_jobs iv))" using JobTested_ok [OF ivs_okD(3) [OF d(3) iv]] by blast
  have "known = (i \<in> dom (iv_jobs iv))"
    using step p iv t by (auto simp: HandleInvokerJobResult_def bindE_eq_Inr deref_def split: if_splits)
  then show ?thesis using fd(1) [OF p] fd(2) [of p] iv by auto
qed

lemma dropped_orphan:
  assumes ok: "master_ok W m" and j: "r_testing (m_registry m) i = Some j"
    and step: "HandleInvokerJobResult order v i (m_registry m) (m_invokers m) = Inr (r, ivs, stops, False)"
  shows "orphan i j (m\<lparr>m_registry := r, m_invokers := ivs, m_lost := insert i (m_lost m)\<rparr>)"
proof -
  note rd = reg_okD [OF master_okD(2) [OF ok]]
  have in_table: "i \<in> dom (r_by_job (m_registry m))" using rd(1) j by blast
  have "m_results m i = None" using rd(4) in_table by (cases "m_results m i") auto
  moreover have "job_id x \<noteq> i" if "r_next (m_registry m) = Some x" for x using rd(3) [OF that] rd(5) in_table by auto
  ultimately show ?thesis using rd(2) [OF j] HandleInvokerJobResult_effect [OF step] by (auto simp: orphan_def)
qed


section \<open>Handlers\<close>

text \<open>The handlers of the master, each a sequence of steps.\<close>

abbreviation master_of :: "master_run \<Rightarrow> master" where
  "master_of m \<equiv> \<lparr>mr_queue = t_queue (m_tests m), mr_registry = m_registry m, mr_invokers = m_invokers m\<rparr>"

lemma sendingJobsTick_steps:
  assumes "master_ok W m" and "inj ids" and "range ids \<inter> t_used (m_tests m) = {}"
  obtains m' sent where "sendingJobsTick ids (master_of m) = Inr (master_of m', sent)" "master_runs W m m'"
proof -
  obtain r q ivs js m' where "SendJobs ids (m_registry m) (t_queue (m_tests m)) (m_invokers m) = Inr (r, q, ivs, js)"
    "master_runs W m m'" "m_registry m' = r" "t_queue (m_tests m') = q" "m_invokers m' = ivs"
    by (rule SendJobs_steps [OF assms])
  then show thesis by (intro that [of m' js]) (simp_all add: sendingJobsTick_def bindE_def)
qed

lemma HandleInvokerJobResult_invokers:
  assumes "HandleInvokerJobResult order v i r ivs = Inr (r', ivs', stops, known)"
  shows "dom ivs' = dom ivs"
  using assms by (auto simp: HandleInvokerJobResult_def bindE_eq_Inr deref_def split: option.splits prod.splits if_splits)

lemma handleInvokerStatus_steps:
  assumes "master_ok W m" and "new \<notin> dom (m_invokers m)"
  obtains m' started where "handleInvokerStatus order new now (Inr st) (master_of m) = Inr (master_of m', RespOK, started)" "master_runs W m m'"
    "m_tests m' = m_tests m"
proof -
  obtain r ivs started m' where "UpsertInvoker order new now st (m_registry m) (m_invokers m) = Inr (r, ivs, started)"
    "master_runs W m m'" "m_registry m' = r" "m_invokers m' = ivs" "m_tests m' = m_tests m"
    by (rule UpsertInvoker_steps [OF assms])
  then show thesis by (intro that [of m' started]) (simp_all add: handleInvokerStatus_def bindE_def)
qed

lemma handleInvokerJobResult_steps:
  assumes ok: "master_ok W m" and j: "r_testing (m_registry m) (job_id j) = Some j" and order: "set order = dom (r_testing (m_registry m))"
    and new: "new \<notin> dom (m_invokers m)" and ids: "inj ids" "range ids \<inter> t_used (m_tests m) = {}"
  obtains m' w where "handleInvokerJobResult order orders new now ids e (Inr (queue_report W j, st)) (master_of m) = Inr (master_of m', RespOK, w)"
    "master_runs W m m'"
proof -
  let ?i = "job_id j" and ?v = "jres_verdict (queue_report W j)"
  have rep: "jres_job (queue_report W j) = ?i" by (simp add: queue_report_def job_report_def)
  obtain r ivs stops known where h: "HandleInvokerJobResult order ?v ?i (m_registry m) (m_invokers m) = Inr (r, ivs, stops, known)"
    using answered_ok [OF ok j, of order ?v] order by auto
  let ?m1 = "m\<lparr>m_registry := r, m_invokers := ivs, m_results := (if known then (m_results m)(?i \<mapsto> j) else m_results m),
    m_lost := (if known then m_lost m else insert ?i (m_lost m))\<rparr>"
  have s1: "master_step W m ?m1" by (rule answered [OF j order h])
  have ok1: "master_ok W ?m1" using master_step_ok [OF s1 ok] by blast
  have new1: "new \<notin> dom ivs" using new HandleInvokerJobResult_invokers [OF h] by simp
  show thesis
  proof (cases known)
    case False
    obtain r2 ivs2 started m' where u: "UpsertInvoker orders new now st r ivs = Inr (r2, ivs2, started)" "master_runs W ?m1 m'"
      "m_registry m' = r2" "m_invokers m' = ivs2" "m_tests m' = m_tests m"
      by (rule UpsertInvoker_steps [OF ok1, of new orders now st]) (use new1 in simp_all)
    have "handleInvokerJobResult order orders new now ids e (Inr (queue_report W j, st)) (master_of m)
        = Inr (master_of m', RespOK, \<lparr>rw_stops = stops, rw_started = started, rw_sent = [], rw_tested = None\<rparr>)"
      using h u(1,3-5) False by (simp add: handleInvokerJobResult_def bindE_def rep Let_def)
    then show thesis using converse_rtranclp_into_rtranclp [of "master_step W", OF s1 u(2)] that by blast
  next
    case True
    have res: "m_results ?m1 ?i = Some j" using True by simp
    obtain q out where q: "JobCompleted e (queue_report W j) (t_queue (m_tests m)) = Inr (q, QueueAnswer out)"
      using completing_ok [OF ok1 res, of e] by auto
    let ?m2 = "?m1\<lparr>m_results := (m_results ?m1)(?i := None), m_tests := finished ?i j q out (m_tests m)\<rparr>"
    have s2: "master_step W ?m1 ?m2" using completing [OF res, of e W q out] q by simp
    have ok2: "master_ok W ?m2" using master_step_ok [OF s2 ok1] by blast
    obtain r2 ivs2 started m3 where u: "UpsertInvoker orders new now st r ivs = Inr (r2, ivs2, started)" "master_runs W ?m2 m3"
      "m_registry m3 = r2" "m_invokers m3 = ivs2" "m_tests m3 = finished ?i j q out (m_tests m)"
      by (rule UpsertInvoker_steps [OF ok2, of new orders now st]) (use new1 in simp_all)
    have ok3: "master_ok W m3" using master_run_ok [OF u(2) ok2] by blast
    have used: "range ids \<inter> t_used (m_tests m3) = {}" using ids(2) u(5) by (simp add: finished_def)
    obtain m' sent where t: "sendingJobsTick ids (master_of m3) = Inr (master_of m', sent)" "master_runs W m3 m'"
      by (rule sendingJobsTick_steps [OF ok3 ids(1) used])
    have "handleInvokerJobResult order orders new now ids e (Inr (queue_report W j, st)) (master_of m)
        = Inr (master_of m', RespOK, \<lparr>rw_stops = stops, rw_started = started, rw_sent = sent, rw_tested = out\<rparr>)"
      using h u(1,3-5) q t(1) True by (simp add: handleInvokerJobResult_def bindE_def rep Let_def finished_def)
    moreover have "master_runs W m m'"
      by (rule converse_rtranclp_into_rtranclp [of "master_step W", OF s1], rule converse_rtranclp_into_rtranclp [of "master_step W", OF s2],
        rule rtranclp_trans [OF u(2) t(2)])
    ultimately show thesis using that by blast
  qed
qed

lemma dropped_ok:
  assumes ok: "master_ok W m" and j: "r_testing (m_registry m) i = Some j"
    and step: "HandleInvokerJobResult order v i (m_registry m) (m_invokers m) = Inr (r, ivs, stops, False)"
  shows "master_ok W (m\<lparr>m_registry := r, m_invokers := ivs, m_lost := insert i (m_lost m)\<rparr>)"
proof -
  have "HandleInvokerJobResult [] v i (m_registry m) (m_invokers m) = Inr (r, ivs, [], False)"
    using step by (auto simp: HandleInvokerJobResult_def bindE_eq_Inr split: option.splits)
  then show ?thesis using answered_ok [OF ok j, of "[]" v] by auto
qed

lemma world_grows: "testing_runs W c c' \<Longrightarrow> dom (t_world c) \<subseteq> dom (t_world c')"
proof (induction rule: rtranclp_induct)
  case (step y z)
  from step(2) have "dom (t_world y) \<subseteq> dom (t_world z)" by cases (auto simp: handed_def split: option.splits)
  then show ?case using step(3) by blast
qed simp

lemma master_submitted:
  assumes "master_runs W m m'" and "master_ok W m" and "gid \<in> dom (t_world (m_tests m))"
  shows "gid \<in> dom (q_generators (t_queue (m_tests m')))"
proof -
  have m: "master_ok W m'" "testing_runs W (m_tests m) (m_tests m')" using master_run_ok [OF assms(1,2)] by blast+
  have "dom (q_generators (t_queue (m_tests m'))) = dom (t_world (m_tests m'))"
    by (rule run_gensD(2) [OF run_okD(1) [OF master_okD(1) [OF m(1)]]])
  then show ?thesis using world_grows [OF m(2)] assms(3) by blast
qed

lemma Submit_refused: "Submit gid e p s q = Inr (q', Some err) \<Longrightarrow> q' = q"
  by (auto simp: Submit_def bindE_eq_Inr split: sum.splits)

text \<open>What a request leaves in the database and in the storage.\<close>

definition stored :: "submit_request \<Rightarrow> cleanup list" where
  "stored req = (case ParseUint (sr_problem req) of
     Inl err \<Rightarrow> []
   | Inr n \<Rightarrow> if sr_file req \<and> (case sr_lookup req (unat n) of Found p \<Rightarrow> True | _ \<Rightarrow> False) then
       (case sr_saved req of
          None \<Rightarrow> []
        | Some k \<Rightarrow> RemoveFromDB k # (if sr_opened req \<and> sr_uploaded req then [RemoveFromStorage k] else []))
     else [])"

lemma handleNewSubmission_steps:
  assumes ok: "master_ok W m" and gid: "gid \<notin> t_used (m_tests m)"
    and ids: "inj ids" "range ids \<inter> insert gid (t_used (m_tests m)) = {}"
    and good: "\<And>p k s. sr_lookup req k = Found p \<Longrightarrow> saveSubmissionInDB (sr_saved req) = Inr s \<Longrightarrow>
      admissible W p s \<and> new_submission s (m_tests m)"
  shows "\<exists>m' reply cleanups sent. handleNewSubmission ids gid e req (master_of m) = Inr (master_of m', reply, cleanups, sent) \<and>
    master_runs W m m' \<and>
    ((\<exists>k. reply = SubmissionResponse k \<and> sr_saved req = Some k \<and> cleanups = [] \<and> gid \<in> dom (q_generators (t_queue (m_tests m')))) \<or>
     m' = m \<and> sent = [] \<and> cleanups = stored req \<and> (\<exists>code msg. reply = Plain code msg \<and> code \<in> {400, 404, 500}))"
proof -
  let ?h = "handleNewSubmission ids gid e req (master_of m)"
  have refused: ?thesis if "?h = Inr (master_of m, Plain code msg, stored req, [])" "code \<in> {400, 404, 500}" for code msg
    using that by (intro exI [of _ m] exI [of _ "Plain code msg"] exI [of _ "stored req"] exI [of _ "[]"]) simp
  consider (number) err where "ParseUint (sr_problem req) = Inl err"
    | (nofile) k where "ParseUint (sr_problem req) = Inr k" "\<not> sr_file req"
    | (problem) k rep where "ParseUint (sr_problem req) = Inr k" "sr_file req" "loadProblem (sr_lookup req (unat k)) = Inl rep"
    | (save) k p where "ParseUint (sr_problem req) = Inr k" "sr_file req" "loadProblem (sr_lookup req (unat k)) = Inr p" "sr_saved req = None"
    | (go) k p x where "ParseUint (sr_problem req) = Inr k" "sr_file req" "loadProblem (sr_lookup req (unat k)) = Inr p" "sr_saved req = Some x"
    by (metis option.exhaust sumE)
  then show ?thesis
  proof cases
    case number
    then show ?thesis by (intro refused [of 400]) (simp_all add: handleNewSubmission_def stored_def)
  next
    case nofile
    then show ?thesis by (intro refused [of 400]) (simp_all add: handleNewSubmission_def stored_def)
  next
    case problem
    then consider "rep = internal_error" | "rep = Plain 404 ''Problem not found''"
      by (auto simp: loadProblem_def split: lookup.splits)
    then show ?thesis
      using problem by cases (intro refused [of 500 "''internal server error''"] refused [of 404 "''Problem not found''"];
        auto simp: handleNewSubmission_def loadProblem_def stored_def split: lookup.splits)+
  next
    case save
    then show ?thesis by (intro refused [of 500]) (auto simp: handleNewSubmission_def saveSubmissionInDB_def stored_def split: option.splits)
  next
    case go
    obtain s where s: "saveSubmissionInDB (sr_saved req) = Inr s" "gs_id s = x" using go(4) by (simp add: saveSubmissionInDB_def)
    have p: "sr_lookup req (unat k) = Found p" using go(3) by (auto simp: loadProblem_def split: lookup.splits)
    have adm: "admissible W p s" "new_submission s (m_tests m)" using good [OF p s(1)] by blast+
    show ?thesis
    proof (cases "saveSubmissionInStorage (sr_opened req) (sr_uploaded req)")
      case (Some rep)
      then show ?thesis using go s
        by (intro refused [of "if sr_opened req then 500 else 400" "if sr_opened req then ''internal server error'' else ''failed to read source code''"])
          (auto simp: handleNewSubmission_def saveSubmissionInStorage_def stored_def p split: if_splits)
    next
      case None
      then have up: "sr_opened req" "sr_uploaded req" by (auto simp: saveSubmissionInStorage_def split: if_splits)
      from Submit_ok [OF master_okD(1) [OF ok] gid adm, of e]
      consider (added) q where "Submit gid e p s (t_queue (m_tests m)) = Inr (q, None)"
        | (rejected) err where "Submit gid e p s (t_queue (m_tests m)) = Inr (t_queue (m_tests m), Some err)" by blast
      then show ?thesis
      proof cases
        case rejected
        then show ?thesis using go s None up
          by (intro refused [of 500]) (auto simp: handleNewSubmission_def stored_def bindE_def p)
      next
        case added
        let ?m = "m\<lparr>m_tests := (m_tests m)\<lparr>t_queue := q, t_world := (t_world (m_tests m))(gid \<mapsto> (p, s)), t_used := insert gid (t_used (m_tests m))\<rparr>\<rparr>"
        have step: "master_step W m ?m" by (rule submitting [OF gid adm added])
        have ok1: "master_ok W ?m" using master_step_ok [OF step ok] by blast
        obtain m' sent where t: "sendingJobsTick ids (master_of ?m) = Inr (master_of m', sent)" "master_runs W ?m m'"
          by (rule sendingJobsTick_steps [OF ok1 ids(1)]) (use ids(2) in auto)
        have "?h = Inr (master_of m', SubmissionResponse x, [], sent)"
          using go s None added t(1) by (simp add: handleNewSubmission_def bindE_def)
        moreover have "master_runs W m m'" by (rule converse_rtranclp_into_rtranclp [of "master_step W", OF step t(2)])
        moreover have "gid \<in> dom (q_generators (t_queue (m_tests m')))" by (rule master_submitted [OF t(2) ok1]) simp
        ultimately show ?thesis using go(4)
          by (intro exI [of _ m'] exI [of _ "SubmissionResponse x"] exI [of _ "[]"] exI [of _ sent]) blast
      qed
    qed
  qed
qed

end
