(* ===== verification/GoProblemApi.thy ===== *)
theory GoProblemApi
  imports GoIoiRef
begin

text \<open>
  The check of a problem in clients/tsapi/problem.go, with which the API decides whether to store a
  changed problem, and its relation to the check of the generator, which decides whether a submission
  of the problem can be tested.  A check writes answers for the client and returns whether to go on.
\<close>

section \<open>The check\<close>

text \<open>The names required by one group; \<open>used\<close> is the set that the code creates and never fills.\<close>

fun check_required_api :: "string set \<Rightarrow> string set \<Rightarrow> string \<Rightarrow> string list \<Rightarrow> string list \<times> bool" where
  "check_required_api names used name [] = ([], True)"
| "check_required_api names used name (r # rs) =
     (if r \<notin> names then ([''Group '' @ name @ '' has required group name '' @ r @ '' which is not present''], False)
      else
       (let (out, ok) = check_required_api names used name rs in
        if r \<in> used then ((''Group '' @ name @ '' has duplicate required group name '' @ r) # out, ok)
        else (out, ok)))"

definition score_complaint :: "test_group \<Rightarrow> string option" where
  "score_complaint gr = (case tg_scoring gr of
     ScoringComplete \<Rightarrow> if tg_group_score gr = None then Some (''Group '' @ tg_name gr @ '' has no group score'') else None
   | ScoringMin \<Rightarrow> if tg_group_score gr = None then Some (''Group '' @ tg_name gr @ '' has no group score'') else None
   | ScoringEachTest \<Rightarrow> if tg_test_score gr = None then Some (''Group '' @ tg_name gr @ '' has no test score'') else None
   | OtherScoring n \<Rightarrow> Some (''Group '' @ tg_name gr @ '' has invalid scoring type''))"

definition feedback_ok :: "test_group \<Rightarrow> bool" where
  "feedback_ok gr \<longleftrightarrow> tg_feedback gr \<in> {1, 2, 3, 4, 5}"

text \<open>The loop over the groups; a group whose first test is above its last is reported, but not refused.\<close>

fun check_groups_api :: "string set \<Rightarrow> nat \<Rightarrow> test_group list \<Rightarrow> string list \<times> nat option" where
  "check_groups_api names last_test [] = ([], Some last_test)"
| "check_groups_api names last_test (gr # grs) =
     (if tg_name gr \<in> names then ([''Group '' @ tg_name gr @ '' is used more than once''], None)
      else if tg_first gr \<noteq> last_test + 1 then
        ([''Group '' @ tg_name gr @ '' first test is incorrect, should be previous group last test + 1''], None)
      else
       (let above = (if tg_last gr < tg_first gr
              then [''Group '' @ tg_name gr @ '' first test is greater than last test''] else []) in
        case score_complaint gr of
          Some e \<Rightarrow> (above @ [e], None)
        | None \<Rightarrow>
            if \<not> feedback_ok gr then (above @ [''Group '' @ tg_name gr @ '' has invalid feedback type''], None)
            else
             (let (out, ok) = check_required_api names {} (tg_name gr) (tg_required gr) in
              if \<not> ok then (above @ out, None)
              else
               (let (out', res) = check_groups_api (insert (tg_name gr) names) (tg_last gr) grs
                in (above @ out @ out', res)))))"

definition checkProblemIsOK :: "problem \<Rightarrow> string list \<times> bool" where
  "checkProblemIsOK p =
     (case p_type p of
        ProblemICPC \<Rightarrow> ([], True)
      | ProblemIOI \<Rightarrow>
          (let (out, res) = check_groups_api {} 0 (p_groups p) in
           case res of
             None \<Rightarrow> (out, False)
           | Some last_test \<Rightarrow>
               if last_test \<noteq> p_tests p then (out @ [''Not all tests are present in all groups''], False) else (out, True))
      | OtherProblem n \<Rightarrow> ([''Invalid problem type''], False))"

section \<open>What is accepted\<close>

text \<open>Groups that follow each other, empty and reversed ones included; and groups that require earlier ones of any scoring.\<close>

fun groups_follow :: "nat \<Rightarrow> test_group list \<Rightarrow> nat \<Rightarrow> bool" where
  "groups_follow l [] n \<longleftrightarrow> l = n"
| "groups_follow l (gr # grs) n \<longleftrightarrow> tg_first gr = l + 1 \<and> groups_follow (tg_last gr) grs n"

fun requires_named :: "string set \<Rightarrow> test_group list \<Rightarrow> bool" where
  "requires_named names [] \<longleftrightarrow> True"
| "requires_named names (gr # grs) \<longleftrightarrow> set (tg_required gr) \<subseteq> names \<and> requires_named (insert (tg_name gr) names) grs"

lemma check_required_api_eq:
  "snd (check_required_api names {} name rs) \<longleftrightarrow> set rs \<subseteq> names"
  "set rs \<subseteq> names \<Longrightarrow> check_required_api names {} name rs = ([], True)"
  by (induction rs) (simp_all add: case_prod_beta Let_def)

lemma score_complaint_eq: "score_complaint gr = None \<longleftrightarrow> score_given gr"
  by (simp add: score_complaint_def score_given_def split: scoring_type.split)

lemma check_groups_api_eq:
  "snd (check_groups_api names l grs) = Some n \<longleftrightarrow>
     groups_follow l grs n \<and> distinct (map tg_name grs) \<and> names \<inter> tg_name ` set grs = {} \<and>
     (\<forall>gr \<in> set grs. score_given gr \<and> feedback_ok gr) \<and> requires_named names grs"
proof (induction grs arbitrary: names l)
  case (Cons gr grs)
  show ?case
    using Cons.IH [of "insert (tg_name gr) names" "tg_last gr"]
    by (auto simp: case_prod_beta Let_def check_required_api_eq score_complaint_eq [symmetric] split: option.splits)
qed simp

text \<open>Complaints about an accepted problem are about reversed groups only.\<close>

lemma check_groups_api_quiet:
  "snd (check_groups_api names l grs) = Some n \<Longrightarrow>
     fst (check_groups_api names l grs) = [] \<longleftrightarrow> (\<forall>gr \<in> set grs. tg_first gr \<le> tg_last gr)"
proof (induction grs arbitrary: names l)
  case (Cons gr grs)
  have req: "set (tg_required gr) \<subseteq> names" and rest: "snd (check_groups_api (insert (tg_name gr) names) (tg_last gr) grs) = Some n"
    and now: "tg_name gr \<notin> names" "tg_first gr = l + 1" "score_complaint gr = None" "feedback_ok gr"
    using Cons.prems check_groups_api_eq [of names l "gr # grs" n]
      check_groups_api_eq [of "insert (tg_name gr) names" "tg_last gr" grs n] score_complaint_eq [of gr] by auto
  show ?case
    using Cons.IH [OF rest] now check_required_api_eq(2) [OF req, of "tg_name gr"]
    by (auto simp: case_prod_beta Let_def)
qed simp

lemma groups_cover_follow:
  "groups_cover l grs n \<longleftrightarrow> groups_follow l grs n \<and> (\<forall>gr \<in> set grs. tg_first gr \<le> tg_last gr)"
  by (induction l grs n rule: groups_cover.induct) auto

lemma requires_earlier_named:
  "requires_earlier before grs \<Longrightarrow> requires_named (tg_name ` set before) grs"
proof (induction before grs rule: requires_earlier.induct)
  case (2 before gr grs)
  have "set (tg_required gr) \<subseteq> tg_name ` set before"
    using 2(2) by (metis imageI requires_earlier.simps(2) subsetI)
  then show ?case using 2 by simp
qed simp

lemma requires_named_earlier:
  assumes "requires_named (tg_name ` set before) grs" and "distinct (map tg_name (before @ grs))"
  shows "requires_earlier before grs \<longleftrightarrow>
    (\<forall>gr \<in> set grs. \<forall>h \<in> set (before @ grs). tg_name h \<in> set (tg_required gr) \<longrightarrow> tg_scoring h = ScoringComplete)"
  using assms
proof (induction before grs rule: requires_earlier.induct)
  case (2 before gr grs)
  have sub: "set (tg_required gr) \<subseteq> tg_name ` set before" using 2(2) by simp
  have later: "tg_name h \<notin> tg_name ` set before" if "h \<in> set (gr # grs)" for h
    using 2(3) that by auto
  have uniq: "h = g" if "h \<in> set before" "g \<in> set before" "tg_name h = tg_name g" for h g
    using 2(3) that by (auto simp: distinct_map inj_on_def)
  have "(\<forall>r \<in> set (tg_required gr). \<exists>g \<in> set before. tg_name g = r \<and> tg_scoring g = ScoringComplete) \<longleftrightarrow>
    (\<forall>h \<in> set (before @ gr # grs). tg_name h \<in> set (tg_required gr) \<longrightarrow> tg_scoring h = ScoringComplete)"
    (is "?A \<longleftrightarrow> ?B")
  proof
    assume A: ?A
    show ?B
    proof (intro ballI impI)
      fix h assume h: "h \<in> set (before @ gr # grs)" "tg_name h \<in> set (tg_required gr)"
      then obtain g where g: "g \<in> set before" "tg_name g = tg_name h" "tg_scoring g = ScoringComplete" using A by blast
      then have "h \<in> set before" using later [of h] h(1) by (metis Un_iff imageI set_append)
      then show "tg_scoring h = ScoringComplete" using uniq g by metis
    qed
  next
    assume B: ?B
    show ?A
    proof
      fix r assume r: "r \<in> set (tg_required gr)"
      then obtain g where "g \<in> set before" "r = tg_name g" using sub by blast
      then show "\<exists>g \<in> set before. tg_name g = r \<and> tg_scoring g = ScoringComplete" using B r by auto
    qed
  qed
  moreover have "requires_earlier (before @ [gr]) grs \<longleftrightarrow>
      (\<forall>x \<in> set grs. \<forall>h \<in> set ((before @ [gr]) @ grs). tg_name h \<in> set (tg_required x) \<longrightarrow> tg_scoring h = ScoringComplete)"
    using 2 by (intro 2(1)) simp_all
  ultimately show ?case by simp
qed simp

end
