(* ===== verification/GoClaims.thy ===== *)
theory GoClaims
  imports GoIcpcRun GoIoiScores GoProblemApi
begin

text \<open>
  The properties of the master and of the API's check of problems, with a concrete instance of each one
  that has hypotheses.
\<close>

abbreviation icpc_runs :: "job_result \<Rightarrow> (nat \<Rightarrow> job_result) \<Rightarrow> icpc \<Rightarrow> nat \<Rightarrow> icpc \<Rightarrow> gsubmission option \<Rightarrow> bool" where
  "icpc_runs C T \<equiv> gen_run icpc_next icpc_complete ic_given (job_report C T)"

abbreviation ioi_runs :: "job_result \<Rightarrow> (nat \<Rightarrow> job_result) \<Rightarrow> ioi \<Rightarrow> nat \<Rightarrow> ioi \<Rightarrow> gsubmission option \<Rightarrow> bool" where
  "ioi_runs C T \<equiv> gen_run ioi_NextJob ioi_complete io_given (job_report C T)"

section \<open>Instances\<close>

definition sample_problem :: problem where
  "sample_problem = \<lparr>p_id = 1, p_type = ProblemICPC, p_groups = [], p_tests = 2\<rparr>"

definition sample_new :: gsubmission where
  "sample_new = \<lparr>gs_id = 7, gs_score = Fin 0, gs_verdict = V_RU, gs_results = [], gs_compilation = None, gs_groups = []\<rparr>"

definition sample_report :: "verdict \<Rightarrow> job_result" where
  "sample_report v = \<lparr>jres_job = '''', jres_verdict = v, jres_points = None, jres_error = '''', jres_statistics = None\<rparr>"

definition sample_tests :: "nat \<Rightarrow> job_result" where
  "sample_tests t = sample_report (if t = 2 then V_WA else V_OK)"

definition sample_group :: "string \<Rightarrow> nat \<Rightarrow> scoring_type \<Rightarrow> string list \<Rightarrow> test_group" where
  "sample_group h t k rs = \<lparr>tg_name = h, tg_first = t, tg_last = t, tg_test_score = Some (Fin 5), tg_group_score = Some (Fin 10),
     tg_scoring = k, tg_feedback = 1, tg_required = rs\<rparr>"

text \<open>Test 1 in a group that is scored as a whole, test 2 in one that requires it.\<close>

definition sample_ioi :: problem where
  "sample_ioi = \<lparr>p_id = 2, p_type = ProblemIOI,
     p_groups = [sample_group ''a'' 1 ScoringComplete [], sample_group ''b'' 2 ScoringMin [''a'']], p_tests = 2\<rparr>"

text \<open>One group that is scored test by test.\<close>

definition sample_each :: problem where
  "sample_each = \<lparr>p_id = 3, p_type = ProblemIOI, p_groups = [sample_group ''a'' 1 ScoringEachTest []], p_tests = 1\<rparr>"

lemmas samples = sample_problem_def sample_new_def sample_report_def sample_tests_def sample_group_def sample_ioi_def
  sample_each_def

lemma sample_icpc_created: "\<exists>g. newICPCGenerator sample_problem sample_new = Inr g"
  by (simp add: newICPCGenerator_def samples)

lemma sample_ioi_valid: "ioi_valid sample_ioi" "ioi_valid sample_each"
  by (simp_all add: ioi_valid_def samples score_given_def)

lemma sample_ioi_created: "\<exists>g. NewIOIGenerator sample_ioi sample_new = Inr g" "\<exists>g. NewIOIGenerator sample_each sample_new = Inr g"
  using sample_ioi_valid by (simp_all add: NewIOIGenerator_eq)

lemma sample_points: "points_reported p sample_tests"
  by (simp add: points_reported_def samples)

lemma sample_free: "each_test_free sample_ioi c"
  by (simp add: each_test_free_def samples)

text \<open>A new generator satisfies the contract.\<close>

lemma icpc_created_ok: "newICPCGenerator p s = Inr g \<Longrightarrow> gs_results s = [] \<Longrightarrow> icpc_ok s (p_tests p) C T g \<and> gs_results s = []"
  using newICPC_ok by simp

lemma ioi_created_ok:
  assumes "NewIOIGenerator p s = Inr g" and "gs_results s = []" and "gs_groups s = []"
    and "points_reported p T" and "each_test_free p (start_verdict C)"
  shows "ioi_ok p s C T g"
  using NewIOI_fresh [OF assms(1)] assms(2-5) groups_fine_reported by (simp add: ioi_ok_def)

section \<open>ICPC problems\<close>

text \<open>C2. Whatever the order in which jobs are asked for and results arrive, an ICPC submission ends with the
  results, the verdict and the score that running the tests one after the other gives: every test before the
  first one that fails with its own result, that one with the verdict of the submission, all later ones skipped.\<close>

theorem icpc_order_irrelevant:
  assumes "newICPCGenerator p s = Inr g0" and "gs_results s = []" and "icpc_runs C T g0 k g (Some s')"
  shows "icpc_final (p_tests p) (gs_score s) (start_verdict C) T s'"
  by (rule icpc_generator.run_final [OF icpc_created_ok [OF assms(1,2)] assms(3)])

lemma icpc_order_irrelevant_witness:
  "\<exists>g0 k g s'. newICPCGenerator sample_problem sample_new = Inr g0 \<and>
     icpc_runs (sample_report V_CD) sample_tests g0 k g (Some s') \<and> gs_verdict s' = V_WA"
proof -
  obtain g0 where g0: "newICPCGenerator sample_problem sample_new = Inr g0" using sample_icpc_created ..
  have new: "gs_results sample_new = []" by (simp add: samples)
  obtain k g s' where run: "icpc_runs (sample_report V_CD) sample_tests g0 k g (Some s')"
    using icpc_generator.run_ends [OF icpc_created_ok [OF g0 new] created] by blast
  have "gs_verdict s' = V_WA"
    using icpc_order_irrelevant [OF g0 new run]
    by (simp add: icpc_final_def icpc_expected_verdict_def first_bad_def bad_test_def no_skip_def test_outcome_def
        start_verdict_def normal_compile_def normal_test_def samples numeral_2_eq_2)
  then show ?thesis using g0 run by blast
qed

text \<open>The ICPC generator never panics on the result of a job that it gave and that has no result yet.\<close>

lemma icpc_never_panics:
  assumes "newICPCGenerator p s = Inr g0" and "gs_results s = []" and "icpc_runs C T g0 k g None"
    and "ic_given g i = Some j"
  shows "\<exists>g' updated out. icpc_JobCompleted (job_report C T i j) g = Inr (g', updated, out)"
  using icpc_generator.run_complete [OF icpc_created_ok [OF assms(1,2)] assms(3,4)]
  by (auto simp: icpc_complete_def bindE_eq_Inr)

lemma icpc_never_panics_witness:
  "\<exists>g0 g j. newICPCGenerator sample_problem sample_new = Inr g0 \<and> icpc_NextJob ''x'' g0 = (g, Some j) \<and>
     (\<exists>g' updated out. icpc_JobCompleted (job_report (sample_report V_CE) sample_tests ''x'' j) g = Inr (g', updated, out))"
proof -
  obtain g0 where g0: "newICPCGenerator sample_problem sample_new = Inr g0" using sample_icpc_created ..
  have new: "gs_results sample_new = []" by (simp add: samples)
  obtain g j where step: "icpc_NextJob ''x'' g0 = (g, Some j)" and j: "ic_given g ''x'' = Some j" and e: "ic_given g0 = Map.empty"
    using g0 by (auto simp: newICPCGenerator_def icpc_NextJob_def Let_def split: if_splits)
  have "icpc_runs (sample_report V_CE) sample_tests g0 (Suc 0) g None"
    using asked [of icpc_next icpc_complete ic_given _ g0 0 g0 "''x''" g "Some j", OF created] step e
    by (simp add: icpc_next_def)
  from icpc_never_panics [OF g0 new this j] show ?thesis using g0 step by blast
qed

text \<open>A run of the ICPC generator makes at most two calls that do something for each test and for the
  compilation, and whatever was done so far, testing can be brought to its end.\<close>

lemma icpc_terminates:
  assumes "newICPCGenerator p s = Inr g0" and "gs_results s = []" and "icpc_runs C T g0 k g None"
  shows "k \<le> 2 * p_tests p + 2 \<and> (\<exists>k' g' s'. icpc_runs C T g0 k' g' (Some s') \<and> k' \<le> 2 * p_tests p + 2)"
proof -
  note ok = icpc_created_ok [OF assms(1,2)]
  have "icpc_work g0 = 2 * p_tests p + 2"
    using assms(1) by (auto simp: newICPCGenerator_def icpc_work_def split: if_splits)
  then show ?thesis
    using icpc_generator.run_bounded [OF ok] icpc_generator.run_ends [OF ok assms(3)] assms(3) by metis
qed

lemma icpc_terminates_witness:
  "\<exists>g0 k g s'. newICPCGenerator sample_problem sample_new = Inr g0 \<and>
     icpc_runs (sample_report V_CD) sample_tests g0 k g (Some s') \<and> k \<le> 6"
proof -
  obtain g0 where g0: "newICPCGenerator sample_problem sample_new = Inr g0" using sample_icpc_created ..
  have "gs_results sample_new = []" by (simp add: samples)
  from icpc_terminates [OF g0 this created] show ?thesis using g0 by (auto simp: samples)
qed

section \<open>IOI problems\<close>

text \<open>C33. A generator is created exactly for the problems whose groups cover the tests in order, have distinct
  names and the scores their scoring needs, and require earlier groups only, scored as a whole.\<close>

theorem ioi_accepts_iff: "(\<exists>g. NewIOIGenerator p s = Inr g) \<longleftrightarrow> ioi_valid p"
  by (simp add: NewIOIGenerator_eq)



text \<open>C3. The IOI generator panics neither when it is asked for a job nor on the result of a job that it gave and
  that has no result yet, provided checkers give points for partial solutions and no group scored test by test
  can be skipped.\<close>

theorem ioi_never_panics:
  assumes "NewIOIGenerator p s = Inr g0" and "gs_results s = []" and "gs_groups s = []"
    and "points_reported p T" and "each_test_free p (start_verdict C)" and "ioi_runs C T g0 k g None"
  shows "(i \<notin> dom (io_given g) \<longrightarrow> (\<exists>g' j. ioi_NextJob i g = Inr (g', j))) \<and>
    (\<forall>j. io_given g i = Some j \<longrightarrow> (\<exists>g' updated out. ioi_JobCompleted (job_report C T i j) g = Inr (g', Answered updated out)))"
proof (intro conjI impI allI)
  note ok = ioi_created_ok [OF assms(1-5)]
  show "\<exists>g' j. ioi_NextJob i g = Inr (g', j)" if "i \<notin> dom (io_given g)"
    by (rule ioi_generator.run_next [OF ok assms(6) that])
  fix j assume j: "io_given g i = Some j"
  from ioi_generator.run_complete [OF ok assms(6) j]
  show "\<exists>g' updated out. ioi_JobCompleted (job_report C T i j) g = Inr (g', Answered updated out)"
    using j by (auto simp: ioi_complete_def ioi_JobCompleted_def bindE_eq_Inr Let_def)
qed

lemma ioi_never_panics_witness:
  "\<exists>g0. NewIOIGenerator sample_ioi sample_new = Inr g0 \<and> (\<exists>g' j. ioi_NextJob ''x'' g0 = Inr (g', j))"
proof -
  obtain g0 where g0: "NewIOIGenerator sample_ioi sample_new = Inr g0" using sample_ioi_created(1) ..
  have new: "gs_results sample_new = []" "gs_groups sample_new = []" by (simp_all add: samples)
  show ?thesis
    using ioi_never_panics [OF g0 new sample_points sample_free created, of "''x''" "sample_report V_CD"]
      NewIOI_fresh(4) [OF g0] g0 by simp
qed



text \<open>C35. When a problem has a group that is scored test by test, a compilation error panics in the generator:
  every test is skipped, and a skipped test has no points to add up.\<close>

theorem ioi_compile_error_crash:
  assumes "NewIOIGenerator p s = Inr g0" and "gs_results s = []" and "gs_groups s = []"
    and "ioi_NextJob i g0 = Inr (g, Some j)" and "jres_job r = i" and "jres_verdict r \<noteq> V_CD"
    and "gr \<in> set (p_groups p)" and "tg_scoring gr = ScoringEachTest"
  shows "\<exists>e. ioi_JobCompleted r g = Inl e"
proof -
  note f = NewIOI_fresh [OF assms(1)]
  have g: "g = g0\<lparr>io_state := CompilationStarted, io_given := [i \<mapsto> j]\<rparr>" "job_type j = CompileJob"
    using assms(4) f(3,4) by (auto simp: ioi_NextJob_def Let_def)
  then have "ioi_fresh p s g" using f(2) by (simp add: ioi_fresh_def ioi_static_def)
  from ioi_compile_error_panics [OF f(1) this assms(2,3) _ g(2) assms(6,5,7,8)] g(1) show ?thesis by simp
qed

lemma ioi_compile_error_crash_witness:
  "\<exists>g0 g j. NewIOIGenerator sample_each sample_new = Inr g0 \<and> ioi_NextJob '''' g0 = Inr (g, Some j) \<and>
     (\<exists>e. ioi_JobCompleted (sample_report V_CE) g = Inl e)"
proof -
  obtain g0 where g0: "NewIOIGenerator sample_each sample_new = Inr g0" using sample_ioi_created(2) ..
  have new: "gs_results sample_new = []" "gs_groups sample_new = []" by (simp_all add: samples)
  obtain g j where step: "ioi_NextJob '''' g0 = Inr (g, Some j)"
    using NewIOI_fresh(3) [OF g0] by (simp add: ioi_NextJob_def Let_def)
  have "\<exists>e. ioi_JobCompleted (sample_report V_CE) g = Inl e"
    by (rule ioi_compile_error_crash [OF g0 new step, of _ "sample_group ''a'' 1 ScoringEachTest []"]) (simp_all add: samples)
  with g0 step show ?thesis by blast
qed

text \<open>The result of a partial solution whose checker gave no points is a check failure that still has no
  points, so the scoring of its group panics.\<close>

theorem ioi_partial_crash:
  assumes "needs_points gr" and "jres_verdict r = V_PT" and "jres_points r = None"
    and "populateTestJobResult gr r = Inr x" and "tg_first gr \<le> t" and "t \<le> tg_last gr" and "0 < tg_first gr"
    and "t - 1 < length rs" and "rs ! (t - 1) = buildTestResult j (settle_result x)"
  shows "gtr_verdict (rs ! (t - 1)) = V_CF \<and> (\<exists>e. group_result gr rs = Inl e)"
  using ioi_partial_unscored(1,3) [OF assms(1-3,5,6,8,7,4,9)] by simp

lemma ioi_partial_crash_witness:
  "\<exists>x j. populateTestJobResult (sample_group ''a'' 1 ScoringMin []) (sample_report V_PT) = Inr x \<and>
     (\<exists>e. group_result (sample_group ''a'' 1 ScoringMin []) [buildTestResult j (settle_result x)] = Inl e)"
proof -
  let ?gr = "sample_group ''a'' 1 ScoringMin []"
  obtain x where x: "populateTestJobResult ?gr (sample_report V_PT) = Inr x"
    by (simp add: populateTestJobResult_def samples)
  then have "\<exists>e. group_result ?gr [buildTestResult undefined (settle_result x)] = Inl e"
    using ioi_partial_crash [OF _ _ _ x, of 1 "[buildTestResult undefined (settle_result x)]" undefined]
    by (simp add: needs_points_def samples)
  with x show ?thesis by blast
qed

text \<open>A compilation error of a problem without groups that are scored test by test ends the submission: every
  test is skipped, no group passes or gives points, and the verdict is that of the compilation.\<close>

lemma ioi_compile_error_ends:
  assumes "NewIOIGenerator p s = Inr g0" and "gs_results s = []" and "gs_groups s = []"
    and "points_reported p T" and "\<forall>gr \<in> set (p_groups p). tg_scoring gr \<noteq> ScoringEachTest"
    and "start_verdict C = V_CE" and "ioi_runs C T g0 k g (Some s')"
  shows "gs_verdict s' = V_CE \<and> map gtr_verdict (gs_results s') = replicate (p_tests p) V_SK \<and>
    (\<forall>r \<in> set (gs_groups s'). ggr_points r = Fin 0 \<and> \<not> ggr_passed r)"
proof -
  have free: "each_test_free p (start_verdict C)" using assms(5) by (simp add: each_test_free_def)
  note f = ioi_generator.run_final [OF ioi_created_ok [OF assms(1-4) free] assms(7), unfolded assms(6)]
  note v = NewIOI_fresh(1) [OF assms(1)]
  have rs: "ref_results (p_groups p) R (tg_name ` set (p_groups p)) k = map (\<lambda>t. bare_result t V_SK) [1..<Suc k]"
    if "k \<le> p_tests p" for R k using all_skipped [OF ioi_validD(1) [OF v] that] .
  have "ggr_points r = Fin 0 \<and> \<not> ggr_passed r" if r: "r \<in> set (gs_groups s')" for r
  proof -
    from r have "Inr r \<in> set (map Inr (gs_groups s') :: (panic + ggroup_result) list)" by simp
    then obtain gr where gr: "gr \<in> set (p_groups p)"
      "ref_group (p_groups p) (ioi_outcome p T) (tg_name ` set (p_groups p)) gr = Inr r"
      using f unfolding ioi_final_def lost_first_def by auto
    from skipped_group [OF v gr(1) _ gr(2)] show ?thesis using assms(5) gr(1) by blast
  qed
  then show ?thesis
    using f rs [of "p_tests p"] by (simp add: ioi_final_def lost_first_def comp_def map_replicate_const del: upt_Suc)
qed

lemma ioi_compile_error_ends_witness:
  "\<exists>g0 k g s'. NewIOIGenerator sample_ioi sample_new = Inr g0 \<and>
     ioi_runs (sample_report V_CE) sample_tests g0 k g (Some s') \<and> gs_verdict s' = V_CE"
proof -
  obtain g0 where g0: "NewIOIGenerator sample_ioi sample_new = Inr g0" using sample_ioi_created(1) ..
  have new: "gs_results sample_new = []" "gs_groups sample_new = []" by (simp_all add: samples)
  note ok = ioi_created_ok [OF g0 new sample_points sample_free, of "sample_report V_CE"]
  obtain k g s' where run: "ioi_runs (sample_report V_CE) sample_tests g0 k g (Some s')"
    using ioi_generator.run_ends [OF ok created] by blast
  have "gs_verdict s' = V_CE"
    using ioi_compile_error_ends [OF g0 new sample_points _ _ run]
    by (simp add: samples start_verdict_def normal_compile_def)
  with g0 run show ?thesis by (intro exI conjI)
qed

section \<open>The check of the API\<close>

text \<open>A problem that the generator accepts, with known feedback types, passes the check of the API without a
  complaint.\<close>

lemma generator_accepts_api:
  assumes "NewIOIGenerator p s = Inr g" and "\<forall>gr \<in> set (p_groups p). feedback_ok gr"
  shows "checkProblemIsOK p = ([], True)"
proof -
  have p: "ioi_valid p" using assms(1) by (simp add: NewIOIGenerator_eq)
  note v = ioi_validD [OF p]
  have "requires_named {} (p_groups p)" using requires_earlier_named [OF v(3)] by simp
  then have res: "snd (check_groups_api {} 0 (p_groups p)) = Some (p_tests p)"
    using v assms(2) by (simp add: check_groups_api_eq groups_cover_follow)
  have "fst (check_groups_api {} 0 (p_groups p)) = []"
    using check_groups_api_quiet [OF res] v(1) by (simp add: groups_cover_follow)
  then have "check_groups_api {} 0 (p_groups p) = ([], Some (p_tests p))" using res by (simp add: prod_eq_iff)
  then show ?thesis using p by (simp add: checkProblemIsOK_def ioi_valid_def)
qed

lemma generator_accepts_api_witness: "checkProblemIsOK sample_ioi = ([], True)"
proof -
  obtain g where "NewIOIGenerator sample_ioi sample_new = Inr g" using sample_ioi_created(1) ..
  from generator_accepts_api [OF this] show ?thesis by (simp add: samples feedback_ok_def)
qed

text \<open>C34. Of the IOI problems that the API stores, the generator accepts exactly those without reversed groups whose
  required groups are scored as a whole; every submission of the others fails.\<close>

theorem api_generator_gap:
  assumes "p_type p = ProblemIOI" and "snd (checkProblemIsOK p)"
  shows "(\<exists>g. NewIOIGenerator p s = Inr g) \<longleftrightarrow>
    (\<forall>gr \<in> set (p_groups p). tg_first gr \<le> tg_last gr) \<and>
    (\<forall>gr \<in> set (p_groups p). \<forall>h \<in> set (p_groups p). tg_name h \<in> set (tg_required gr) \<longrightarrow> tg_scoring h = ScoringComplete)"
proof -
  have res: "snd (check_groups_api {} 0 (p_groups p)) = Some (p_tests p)"
    using assms by (auto simp: checkProblemIsOK_def case_prod_beta Let_def split: option.splits if_splits)
  note api = res [unfolded check_groups_api_eq]
  from api have "requires_earlier [] (p_groups p) \<longleftrightarrow>
      (\<forall>gr \<in> set (p_groups p). \<forall>h \<in> set (p_groups p). tg_name h \<in> set (tg_required gr) \<longrightarrow> tg_scoring h = ScoringComplete)"
    using requires_named_earlier [of "[]" "p_groups p"] by simp
  then show ?thesis using api assms(1) by (simp add: NewIOIGenerator_eq ioi_valid_def groups_cover_follow)
qed

lemma api_generator_gap_witness:
  "\<exists>p. p_type p = ProblemIOI \<and> snd (checkProblemIsOK p) \<and> \<not> (\<exists>g. NewIOIGenerator p sample_new = Inr g)"
proof -
  let ?p = "sample_ioi\<lparr>p_groups := [sample_group ''a'' 1 ScoringMin [], sample_group ''b'' 2 ScoringMin [''a'']]\<rparr>"
  have ok: "p_type ?p = ProblemIOI" "snd (checkProblemIsOK ?p)"
    by (simp_all add: samples checkProblemIsOK_def score_complaint_def feedback_ok_def)
  from api_generator_gap [OF this, of sample_new] have "\<not> (\<exists>g. NewIOIGenerator ?p sample_new = Inr g)"
    by (simp add: samples)
  with ok show ?thesis by blast
qed

section \<open>Fields with units\<close>

lemma time_roundtrip: "Time_FromStr (Time_String v) = Inr v"
  by (rule time_field.roundtrip)

lemma memory_roundtrip: "Memory_FromStr (Memory_String v) = Inr v"
  by (rule memory_field.roundtrip)

text \<open>C36. Printing a limit of time or of memory and parsing it gives the limit back, for every 64-bit value.\<close>

theorem limits_roundtrip: "Time_FromStr (Time_String v) = Inr v \<and> Memory_FromStr (Memory_String v) = Inr v"
  by (simp add: time_roundtrip memory_roundtrip)

lemma mod_self_iff: "0 < m \<Longrightarrow> (x :: nat) < m \<longleftrightarrow> x mod m = x"
  by (metis mod_less mod_less_divisor)

lemma time_parse:
  assumes "k \<le> 3" and "n < 2 ^ 64"
  shows "\<exists>v. Time_FromStr (string_of_nat n @ time_suffix k) = Inr v \<and> unat v = n * 1000 ^ k mod 2 ^ 64 \<and>
    (n * 1000 ^ k < 2 ^ 64 \<longleftrightarrow> unat v = n * 1000 ^ k)"
proof -
  obtain v where v: "Time_FromStr (string_of_nat n @ time_suffix k) = Inr v" "unat v = n * 1000 ^ k mod 2 ^ 64"
    using time_field.parse_wraps [OF assms] by blast
  show ?thesis using v mod_self_iff [of "2 ^ 64" "n * 1000 ^ k"] by auto
qed

lemma memory_parse:
  assumes "k \<le> 3" and "n < 2 ^ 64"
  shows "\<exists>v. Memory_FromStr (string_of_nat n @ memory_suffix k) = Inr v \<and> unat v = n * 1024 ^ k mod 2 ^ 64 \<and>
    (n * 1024 ^ k < 2 ^ 64 \<longleftrightarrow> unat v = n * 1024 ^ k)"
proof -
  obtain v where v: "Memory_FromStr (string_of_nat n @ memory_suffix k) = Inr v" "unat v = n * 1024 ^ k mod 2 ^ 64"
    using memory_field.parse_wraps [OF assms] by blast
  show ?thesis using v mod_self_iff [of "2 ^ 64" "n * 1024 ^ k"] by auto
qed

text \<open>A time or a memory limit with a unit parses to its nanoseconds or bytes when they fit into 64 bits, and
  otherwise silently to their remainder.\<close>

theorem limits_parse:
  assumes "k \<le> 3" and "n < 2 ^ 64"
  shows "(\<exists>v. Time_FromStr (string_of_nat n @ time_suffix k) = Inr v \<and> unat v = n * 1000 ^ k mod 2 ^ 64 \<and>
      (n * 1000 ^ k < 2 ^ 64 \<longleftrightarrow> unat v = n * 1000 ^ k)) \<and>
    (\<exists>v. Memory_FromStr (string_of_nat n @ memory_suffix k) = Inr v \<and> unat v = n * 1024 ^ k mod 2 ^ 64 \<and>
      (n * 1024 ^ k < 2 ^ 64 \<longleftrightarrow> unat v = n * 1024 ^ k))"
  by (intro conjI time_parse memory_parse assms)

lemma limits_parse_witness:
  "(\<exists>v. Time_FromStr (string_of_nat 2 @ time_suffix 3) = Inr v \<and> unat v = 2000000000) \<and>
   (\<exists>w. Time_FromStr (string_of_nat 20000000000 @ time_suffix 3) = Inr w \<and> unat w = 1553255926290448384) \<and>
   (\<exists>v. Memory_FromStr (string_of_nat 256 @ memory_suffix 2) = Inr v \<and> unat v = 268435456) \<and>
   (\<exists>w. Memory_FromStr (string_of_nat 17179869184 @ memory_suffix 3) = Inr w \<and> unat w = 0)"
  using limits_parse [of 3 2] limits_parse [of 3 20000000000] limits_parse [of 2 256] limits_parse [of 3 17179869184] by auto

lemma round_time:
  assumes "unat t + 1001000 \<le> 2 ^ 64"
  shows "unat t \<le> unat (roundTime t) \<and> unat (roundTime t) < unat t + 1001000 \<and>
    (1000 \<le> unat t \<longrightarrow> 1000 dvd unat (roundTime t)) \<and> (1000000 \<le> unat t \<longrightarrow> 1000000 dvd unat (roundTime t))"
  using roundValue_bounds [of 1000 t] assms by (simp add: roundTime_def)

lemma round_memory:
  assumes "unat m + 1049600 \<le> 2 ^ 64"
  shows "unat m \<le> unat (roundMemory m) \<and> unat (roundMemory m) < unat m + 1049600 \<and>
    (1024 \<le> unat m \<longrightarrow> 1024 dvd unat (roundMemory m)) \<and> (1048576 \<le> unat m \<longrightarrow> 1048576 dvd unat (roundMemory m))"
  using roundValue_bounds [of 1024 m] assms by (simp add: roundMemory_def)

text \<open>Measured times are rounded up, to whole microseconds and from a millisecond on to whole milliseconds, and measured
  memory to whole kilobytes and from a megabyte on to whole megabytes: never below the measurement, and by less than
  one of the two units each.\<close>

lemma measures_rounded:
  assumes "unat t + 1001000 \<le> 2 ^ 64" and "unat m + 1049600 \<le> 2 ^ 64"
  shows "unat t \<le> unat (roundTime t) \<and> unat (roundTime t) < unat t + 1001000 \<and>
      (1000 \<le> unat t \<longrightarrow> 1000 dvd unat (roundTime t)) \<and> (1000000 \<le> unat t \<longrightarrow> 1000000 dvd unat (roundTime t)) \<and>
    unat m \<le> unat (roundMemory m) \<and> unat (roundMemory m) < unat m + 1049600 \<and>
      (1024 \<le> unat m \<longrightarrow> 1024 dvd unat (roundMemory m)) \<and> (1048576 \<le> unat m \<longrightarrow> 1048576 dvd unat (roundMemory m))"
  using round_time [OF assms(1)] round_memory [OF assms(2)] by simp

lemma measures_rounded_witness:
  "unat (roundTime 1234567) < 1234567 + 1001000 \<and> 1000000 dvd unat (roundTime 1234567) \<and>
   unat (roundMemory 1234567) < 1234567 + 1049600 \<and> 1048576 dvd unat (roundMemory 1234567)"
  using measures_rounded [of 1234567 1234567] by simp

end
