(* ===== verification/GoQueueClaims.thy ===== *)
theory GoQueueClaims
  imports GoQueueSteps GoClaims
begin

text \<open>
  The properties of the queue with its clients and of the status that the API shows, with a concrete
  instance of each one.
\<close>

section \<open>An instance\<close>

text \<open>A submission for the problem with two tests, the second of which fails.\<close>

definition sample_world :: reports where
  "sample_world = ((\<lambda>k. sample_report V_CD), (\<lambda>k. sample_tests))"

definition sample_given :: testing_run where
  "sample_given = testing_start\<lparr>t_queue := fst (projr (Submit ''g'' ''e'' sample_problem sample_new NewQueue)),
     t_world := [''g'' \<mapsto> (sample_problem, sample_new)], t_used := {''g''}\<rparr>"

lemma sample_given_run: "testing_runs sample_world testing_start sample_given"
proof -
  obtain g where g: "newICPCGenerator sample_problem sample_new = Inr g" using sample_icpc_created ..
  have "NewGenerator sample_problem sample_new = Inr (ICPC g)" using g by (simp add: NewGenerator_def sample_problem_def)
  then obtain q where q: "Submit ''g'' ''e'' sample_problem sample_new NewQueue = Inr (q, None)"
    by (auto simp: Submit_def AddSubmission_def bindE_def NewQueue_def NewQueueStatus_def)
  have "admissible sample_world sample_problem sample_new" by (simp add: admissible_def samples)
  moreover have "new_submission sample_new testing_start" by (simp add: new_submission_def testing_start_def)
  ultimately have "testing_step sample_world testing_start (testing_start\<lparr>t_queue := q,
      t_world := (t_world testing_start)(''g'' \<mapsto> (sample_problem, sample_new)), t_used := insert ''g'' (t_used testing_start)\<rparr>)"
    using q by (intro submitted) (simp_all add: testing_start_def)
  then show ?thesis using q by (simp add: sample_given_def testing_start_def)
qed

lemma sample_given_queue: "q_failed (t_queue sample_given) = []" "q_active (t_queue sample_given) = [''g'']"
  "\<exists>g. newICPCGenerator sample_problem sample_new = Inr g \<and> q_generators (t_queue sample_given) = [''g'' \<mapsto> ICPC g]"
  "t_world sample_given = [''g'' \<mapsto> (sample_problem, sample_new)]" "t_used sample_given = {''g''}" "t_held sample_given = Map.empty"
  by (simp_all add: sample_given_def Submit_def NewGenerator_def newICPCGenerator_def AddSubmission_def bindE_def
      NewQueue_def NewQueueStatus_def testing_start_def samples)

lemma sample_given_ok: "run_ok sample_world sample_given"
  by (rule run_ok_run [OF sample_given_run run_ok_start])

lemma sample_given_done: "\<exists>c s'. testing_runs sample_world testing_start c \<and> t_world c ''g'' = Some (sample_problem, sample_new) \<and>
  t_done c (gs_id sample_new) = Some s' \<and> t_saved c = {}"
proof -
  obtain c where c: "testing_runs sample_world sample_given c" "t_world c = t_world sample_given" "t_saved c = t_saved sample_given" "all_tested c"
    using drains [OF sample_given_ok] by blast
  have "t_world c ''g'' = Some (sample_problem, sample_new)" using c(2) sample_given_queue by simp
  moreover have "t_saved c = {}" using c(3) by (simp add: sample_given_def testing_start_def)
  moreover obtain s' where "t_done c (gs_id sample_new) = Some s'" using c(4) calculation(1) unfolding all_tested_def by blast
  ultimately show ?thesis using rtranclp_trans [OF sample_given_run c(1)] by blast
qed

text \<open>Its compilation, handed out.\<close>

lemma sample_given_compiles:
  "\<exists>q j. NextJob ''i'' (t_queue sample_given) = Inr (q, Some j) \<and> job_id j = ''i'' \<and>
     (\<exists>g. q_generators q ''g'' = Some g \<and> gen_given g ''i'' = Some j)"
proof -
  obtain g where g: "newICPCGenerator sample_problem sample_new = Inr g" "q_generators (t_queue sample_given) = [''g'' \<mapsto> ICPC g]"
    using sample_given_queue(3) by blast
  then show ?thesis using sample_given_queue(1,2)
    by (auto simp: NextJob_def gen_NextJob_def icpc_NextJob_def newICPCGenerator_def bindE_def deref_def Let_def
        split: if_splits)
qed

lemma sample_given_asked:
  "\<exists>c g j. testing_runs sample_world testing_start c \<and> t_held c ''i'' = Some j \<and> t_used c = {''i'', ''g''} \<and>
     q_generators (t_queue c) ''g'' = Some g \<and> gen_given g ''i'' = Some j"
proof -
  obtain q j g where q: "NextJob ''i'' (t_queue sample_given) = Inr (q, Some j)" "job_id j = ''i''"
    "q_generators q ''g'' = Some g" "gen_given g ''i'' = Some j" using sample_given_compiles by blast
  have "''i'' \<notin> t_used sample_given" by (simp add: sample_given_queue)
  then have "testing_step sample_world sample_given (handed ''i'' q (Some j) sample_given)" by (rule asked [OF _ q(1)])
  from rtranclp.rtrancl_into_rtrancl [OF sample_given_run this] q show ?thesis
    by (intro exI [of _ "handed ''i'' q (Some j) sample_given"]) (simp add: handed_def sample_given_queue)
qed

section \<open>Queue\<close>

text \<open>C4. Whatever the order in which submissions arrive, jobs are asked for, results come and invokers are lost,
  every submission that the queue answers has the results, the verdict and the score of its own problem and its
  own reports: those of testing it alone.\<close>

theorem queue_results:
  assumes "testing_runs W testing_start c" and "t_world c gid = Some (p, s)" and "t_done c (gs_id s) = Some s'"
  shows "gen_final p s (fst W (gs_id s)) (snd W (gs_id s)) s'"
  by (rule answers_final [OF run_ok_run [OF assms(1) run_ok_start] assms(2,3)])

lemma queue_results_witness:
  "\<exists>c s'. testing_runs sample_world testing_start c \<and> t_world c ''g'' = Some (sample_problem, sample_new) \<and>
     t_done c 7 = Some s' \<and> gs_verdict s' = V_WA"
proof -
  obtain c s' where c: "testing_runs sample_world testing_start c" "t_world c ''g'' = Some (sample_problem, sample_new)"
    "t_done c (gs_id sample_new) = Some s'" using sample_given_done by blast
  have "gs_verdict s' = V_WA"
    using queue_results [OF c]
    by (simp add: gen_final_def sample_world_def icpc_final_def icpc_expected_verdict_def first_bad_def bad_test_def no_skip_def
        test_outcome_def start_verdict_def normal_compile_def normal_test_def samples numeral_2_eq_2)
  then show ?thesis using c by (auto simp: sample_new_def)
qed



lemma count_once: "distinct xs \<Longrightarrow> count_list xs k = (if k \<in> set xs then 1 else 0)"
  by (induction xs) auto

text \<open>C7. No job is lost or handed out twice: a job that a generator waits for is with exactly one invoker, under the id it was
  handed out with last, or waits exactly once to be handed out again; and that invoker has the very job.\<close>

theorem queue_keeps_jobs:
  assumes "testing_runs W testing_start c" and "q_generators (t_queue c) gid = Some g" and "gen_given g k = Some j"
  shows "card (holders k c) + count_list (q_failed (t_queue c)) k = 1 \<and>
    (\<forall>i \<in> holders k c. t_held c i = Some (j\<lparr>job_id := i\<rparr>))"
proof (intro conjI ballI)
  note ok = run_ok_run [OF assms(1) run_ok_start]
  note d = run_okD [OF ok]
  have k: "q_generator (t_queue c) k = Some gid" using run_jobsD(3) [OF d(3) assms(2)] assms(3) by blast
  then have known: "k \<in> q_known (t_queue c)" using run_jobsD(1) [OF d(3)] by blast
  have count: "count_list (q_failed (t_queue c)) k = (if k \<in> set (q_failed (t_queue c)) then 1 else 0)"
    by (rule count_once [OF run_idsD(4) [OF d(4)]])
  show "card (holders k c) + count_list (q_failed (t_queue c)) k = 1" using holders_eq [OF ok known] count by simp
  fix i assume i: "i \<in> holders k c"
  then have "i = cur (t_queue c) k" "k \<notin> set (q_failed (t_queue c))" using holders_eq [OF ok known] by (auto split: if_splits)
  moreover have "q_job (t_queue c) k = Some (j\<lparr>job_id := cur (t_queue c) k\<rparr>)" using run_jobsD(2) [OF d(3) k] assms(2,3) by auto
  ultimately show "t_held c i = Some (j\<lparr>job_id := i\<rparr>)" using run_idsD(6) [OF d(4)] known by auto
qed

lemma queue_keeps_jobs_witness:
  "\<exists>c g j. testing_runs sample_world testing_start c \<and> q_generators (t_queue c) ''g'' = Some g \<and> gen_given g ''i'' = Some j \<and>
     card (holders ''i'' c) + count_list (q_failed (t_queue c)) ''i'' = 1"
proof -
  obtain c g j where c: "testing_runs sample_world testing_start c" "q_generators (t_queue c) ''g'' = Some g" "gen_given g ''i'' = Some j"
    using sample_given_asked by - (elim exE conjE, rule that)
  show ?thesis by (intro exI conjI) (rule c queue_keeps_jobs [OF c, THEN conjunct1])+
qed



section \<open>Status that the API shows\<close>

text \<open>C25. Whatever requests of the API failed or crossed with updates, once an answer of the master arrives that was asked
  for now, the API shows, of every submission under testing that was updated, the very last update, and as its current
  test the number of results it has: nothing that changed between two answers is missed.\<close>

theorem api_shows_progress:
  assumes "view_start v0" and "view_runs v0 v" and "\<forall>k. gs_id (live k) = k"
    and "qs_active (v_queue v) k = Some h" and "h_submission h = Copied y" and "gs_id x = k" and "gs_verdict x = V_RU"
  shows "let m = updateStatus now (Some (GetStatus live e (asked_epoch (v_api v)) (v_queue v))) (v_api v)
    in GetSubmission (Some x) m = Some y \<and> current_test m x = length (gs_results y)"
proof -
  have "view_ok v" by (rule view_ok_run [OF assms(2) view_ok_start [OF assms(1)]])
  from view_current [OF this assms(3,4), of now e] assms(5-7) show ?thesis
    by (simp add: seen_def GetSubmission_def current_test_def Let_def)
qed

definition sample_view :: view where
  "sample_view = \<lparr>v_queue = NewQueueStatus False, v_answer = None, v_api = NewMasterStatus, v_epoch = ''''\<rparr>"

lemma api_shows_progress_witness:
  "\<exists>v. view_runs sample_view v \<and>
     (let m = updateStatus 5 (Some (GetStatus (\<lambda>k. sample_new\<lparr>gs_id := k\<rparr>) ''c'' (asked_epoch (v_api v)) (v_queue v))) (v_api v)
      in GetSubmission (Some sample_new) m = Some (sample_new\<lparr>gs_results := [bare_result 1 V_OK]\<rparr>) \<and> current_test m sample_new = 1)"
proof -
  let ?y = "sample_new\<lparr>gs_results := [bare_result 1 V_OK]\<rparr>"
  let ?q = "\<lparr>qs_active = [7 \<mapsto> \<lparr>h_submission = Live, h_epoch = ''a''\<rparr>], qs_order = [7], qs_testing = False\<rparr>"
  let ?q' = "\<lparr>qs_active = [7 \<mapsto> \<lparr>h_submission = Copied ?y, h_epoch = ''b''\<rparr>], qs_order = [7], qs_testing = False\<rparr>"
  let ?v = "\<lparr>v_queue = ?q', v_answer = None, v_api = NewMasterStatus, v_epoch = ''b''\<rparr>"
  have le: "'''' \<le> ''a''" "''a'' \<le> ''b''" by (simp_all add: less_eq_char_def)
  have "AddSubmission ''a'' 7 (v_queue sample_view) = Inr ?q" by (simp add: AddSubmission_def sample_view_def NewQueueStatus_def)
  from view_step.submitted [OF this] have s1: "view_step sample_view (sample_view\<lparr>v_queue := ?q, v_epoch := ''a''\<rparr>)"
    using le by (simp add: sample_view_def)
  have "UpdateSubmission ''b'' ?y (v_queue (sample_view\<lparr>v_queue := ?q, v_epoch := ''a''\<rparr>)) = Inr ?q'"
    by (simp add: UpdateSubmission_def sample_new_def)
  from view_step.progressed [OF this] have "view_step (sample_view\<lparr>v_queue := ?q, v_epoch := ''a''\<rparr>) ?v"
    using le by (simp add: sample_view_def)
  with s1 have run: "view_runs sample_view ?v" by (rule converse_rtranclp_into_rtranclp [OF _ r_into_rtranclp])
  have "view_start sample_view" by (simp add: view_start_def sample_view_def)
  from api_shows_progress [OF this run, of "\<lambda>k. sample_new\<lparr>gs_id := k\<rparr>" 7 _ ?y sample_new 5 "''c''"] run show ?thesis
    by (intro exI [of _ ?v]) (simp add: sample_new_def)
qed

end
