(* ===== verification/GoMasterClaims.thy ===== *)
theory GoMasterClaims
  imports GoMasterSteps GoQueueClaims
begin

text \<open>The properties of the master with its invokers, with a concrete instance of each one.\<close>

section \<open>An instance\<close>

text \<open>The submission of the queue's instance, with one invoker.\<close>

definition sample_status :: invoker_status where
  "sample_status = \<lparr>is_address = ''a'', is_epoch = ''e'', is_max_new = 1, is_active = []\<rparr>"

definition sample_ready :: master_run where
  "sample_ready = master_start\<lparr>m_tests := sample_given, m_registry := NewInvokerRegistry\<lparr>r_invokers := [0]\<rparr>,
     m_invokers := [0 \<mapsto> newInvoker 0 sample_status]\<rparr>"

lemma sample_ready_run: "master_runs sample_world master_start sample_ready"
proof -
  obtain g where g: "newICPCGenerator sample_problem sample_new = Inr g" using sample_icpc_created ..
  have "NewGenerator sample_problem sample_new = Inr (ICPC g)" using g by (simp add: NewGenerator_def sample_problem_def)
  then obtain q where q: "Submit ''g'' ''e'' sample_problem sample_new NewQueue = Inr (q, None)"
    by (auto simp: Submit_def AddSubmission_def bindE_def NewQueue_def NewQueueStatus_def)
  have new: "admissible sample_world sample_problem sample_new" "new_submission sample_new (m_tests master_start)"
    by (simp_all add: admissible_def samples new_submission_def master_start_def testing_start_def)
  have s1: "master_step sample_world master_start (master_start\<lparr>m_tests := sample_given\<rparr>)"
    using submitting [OF _ new, of "''g''" "''e''" q] q
    by (simp add: master_start_def testing_start_def sample_given_def)
  have s2: "master_step sample_world (master_start\<lparr>m_tests := sample_given\<rparr>) sample_ready"
    using registered [of 0 "master_start\<lparr>m_tests := sample_given\<rparr>" sample_world 0 sample_status]
    by (simp add: sample_ready_def master_start_def NewInvokerRegistry_def)
  show ?thesis using s1 s2 by (meson converse_rtranclp_into_rtranclp r_into_rtranclp)
qed

lemma sample_ready_ok: "master_ok sample_world sample_ready"
  using master_run_ok [OF sample_ready_run master_ok_start] by blast

text \<open>The compilation is sent to the invoker.\<close>

definition sample_sending :: "master_run \<Rightarrow> job \<Rightarrow> bool" where
  "sample_sending m j \<longleftrightarrow> master_runs sample_world master_start m \<and> job_id j = ''i'' \<and> job_submission j = 7 \<and>
     m_registry m = \<lparr>r_invokers = [0], r_by_job = [''i'' \<mapsto> 0], r_testing = [''i'' \<mapsto> j], r_next = None\<rparr> \<and>
     m_invokers m = [0 \<mapsto> addJob j SendingJob (newInvoker 0 sample_status)] \<and> m_sends m = {(0, j)} \<and>
     m_failing m = {} \<and> m_extracted m = Map.empty \<and> m_results m = Map.empty \<and> m_lost m = {} \<and>
     t_world (m_tests m) = [''g'' \<mapsto> (sample_problem, sample_new)] \<and> t_used (m_tests m) = {''i'', ''g''}"

lemma sample_sent: "\<exists>m j. sample_sending m j"
proof -
  obtain q j g where q: "NextJob ''i'' (t_queue sample_given) = Inr (q, Some j)" "job_id j = ''i''"
    "q_generators q ''g'' = Some g" "gen_given g ''i'' = Some j" using sample_given_compiles by blast
  let ?iv = "newInvoker 0 sample_status"
  let ?r = "\<lparr>r_invokers = [0], r_by_job = [''i'' \<mapsto> 0], r_testing = [''i'' \<mapsto> j], r_next = None\<rparr>"
  have one: "send_one ''i'' 0 (m_registry sample_ready) (t_queue (m_tests sample_ready)) ?iv = Inr (?r, q, addJob j SendingJob ?iv, Sent j)"
    using q(1,2) by (simp add: send_one_def sample_ready_def bindE_def TrySendJob_def newInvoker_def sample_status_def NewInvokerRegistry_def)
  define m where "m = sent_off 0 (Sent j) (changed 0 (addJob j SendingJob ?iv) False (sample_ready\<lparr>m_registry := ?r,
      m_tests := (case r_next (m_registry sample_ready) of None \<Rightarrow> handed ''i'' q (took ?r (Sent j)) (m_tests sample_ready) | Some j \<Rightarrow> m_tests sample_ready)\<rparr>))"
  have step: "master_step sample_world sample_ready m"
    unfolding m_def by (rule sending [OF _ _ _ one]) (simp_all add: sample_ready_def sample_given_queue)
  have runs: "master_runs sample_world master_start m" by (rule rtranclp.rtrancl_into_rtrancl [OF sample_ready_run step])
  have f: "m_registry m = ?r" "m_invokers m = [0 \<mapsto> addJob j SendingJob ?iv]" "m_sends m = {(0, j)}" "m_failing m = {}"
    "m_extracted m = Map.empty" "m_results m = Map.empty" "m_lost m = {}" "m_tests m = handed ''i'' q (Some j) sample_given"
    by (simp_all add: m_def sent_off_def changed_def sample_ready_def master_start_def NewInvokerRegistry_def took_def)
  have ok: "master_ok sample_world m" using master_run_ok [OF runs master_ok_start] by blast
  have held: "t_held (m_tests m) ''i'' = Some j" using q(2) f(8) by (simp add: handed_def)
  obtain gid p s where w: "job_submission j = gs_id s" "t_world (m_tests m) gid = Some (p, s)"
    by (rule held_job [OF master_okD(1) [OF ok] held])
  have world: "t_world (m_tests m) = [''g'' \<mapsto> (sample_problem, sample_new)]" using f(8) by (simp add: handed_def sample_given_queue)
  then have "job_submission j = 7" using w by (auto simp: sample_new_def split: if_splits)
  moreover have "t_used (m_tests m) = {''i'', ''g''}" using f(8) by (simp add: handed_def sample_given_queue)
  ultimately have "sample_sending m j" using runs q(2) f world by (simp add: sample_sending_def)
  then show ?thesis by blast
qed

text \<open>A ping fails, and the failed invoker's job is taken from it.\<close>

lemma sample_taken:
  "\<exists>m j. master_runs sample_world master_start m \<and> job_id j = ''i'' \<and> job_submission j = 7 \<and> r_by_job (m_registry m) = [''i'' \<mapsto> 0] \<and>
     r_testing (m_registry m) = [''i'' \<mapsto> j] \<and> m_extracted m = [0 \<mapsto> [''i'']] \<and> m_lost m = {} \<and> t_used (m_tests m) = {''i'', ''g''} \<and>
     dom (m_invokers m) = {0} \<and> t_world (m_tests m) ''g'' = Some (sample_problem, sample_new)"
proof -
  obtain m j where m: "sample_sending m j" using sample_sent by blast
  note mf = m [unfolded sample_sending_def]
  let ?iv = "addJob j SendingJob (newInvoker 0 sample_status)"
  let ?m1 = "changed 0 (?iv\<lparr>iv_failed := True\<rparr>) True m"
  have iv: "m_invokers m 0 = Some ?iv" using mf by simp
  have p: "ping [] None ?iv = Inr (?iv\<lparr>iv_failed := True\<rparr>, [], True)"
    by (simp add: ping_def markFailed_def addJob_def newInvoker_def)
  have s1: "master_step sample_world m ?m1" by (rule pinged [OF iv p])
  obtain iv' where x: "ExtractJobs [''i''] (?iv\<lparr>iv_failed := True\<rparr>) = (iv', [''i''])" by (simp add: ExtractJobs_def)
  let ?m2 = "?m1\<lparr>m_invokers := (m_invokers ?m1)(0 \<mapsto> iv'), m_failing := m_failing ?m1 - {0}, m_extracted := (m_extracted ?m1)(0 \<mapsto> [''i''])\<rparr>"
  have s2: "master_step sample_world ?m1 ?m2"
    by (rule extracting [OF _ _ _ x]) (use mf in \<open>simp_all add: changed_def addJob_def newInvoker_def\<close>)
  have "master_runs sample_world master_start ?m2"
    using mf s1 s2 by (meson rtranclp.rtrancl_into_rtrancl)
  then show ?thesis using mf by (intro exI [of _ ?m2] exI [of _ j]) (simp add: changed_def)
qed

section \<open>The master\<close>

text \<open>C8. Whatever invokers, timers, pings, failures and handlers do, and in whatever order, the master uses its queue by the
  queue's protocol; so every submission that it answers has the results of its own problem and reports.\<close>

theorem master_refines_queue:
  assumes "master_runs W master_start m"
  shows "testing_runs W testing_start (m_tests m) \<and>
    (\<forall>gid p s s'. t_world (m_tests m) gid = Some (p, s) \<and> t_done (m_tests m) (gs_id s) = Some s' \<longrightarrow>
       gen_final p s (fst W (gs_id s)) (snd W (gs_id s)) s')"
proof -
  have ok: "master_ok W m" and run: "testing_runs W (m_tests master_start) (m_tests m)"
    using master_run_ok [OF assms master_ok_start] by blast+
  have "gen_final p s (fst W (gs_id s)) (snd W (gs_id s)) s'"
    if "t_world (m_tests m) gid = Some (p, s) \<and> t_done (m_tests m) (gs_id s) = Some s'" for gid p s s'
    using answers_final [OF master_okD(1) [OF ok]] that by blast
  then show ?thesis using run unfolding master_start_def by (simp only: master_run.simps) blast
qed

lemma master_refines_queue_witness:
  "\<exists>m j. master_runs sample_world master_start m \<and> m_sends m = {(0, j)} \<and> testing_runs sample_world testing_start (m_tests m)"
proof -
  obtain m j where "sample_sending m j" using sample_sent by blast
  then have m: "master_runs sample_world master_start m" "m_sends m = {(0, j)}" by (simp_all add: sample_sending_def)
  then show ?thesis using master_refines_queue [OF m(1)] by blast
qed


text \<open>Ids that were not used.\<close>

definition sample_ids :: "nat \<Rightarrow> string" where
  "sample_ids n = replicate n CHR ''x'' @ ''new''"

lemma sample_ids_fresh: "inj sample_ids" "''i'' \<notin> range sample_ids" "''g'' \<notin> range sample_ids"
proof -
  have len: "length (sample_ids n) = n + 3" for n by (simp add: sample_ids_def)
  then show "inj sample_ids" by (metis add_right_cancel injI)
  have "length (sample_ids n) \<noteq> 1" for n unfolding len by simp
  then show "''i'' \<notin> range sample_ids" "''g'' \<notin> range sample_ids" by (metis One_nat_def length_Cons list.size(3) rangeE)+
qed




text \<open>C11. A result is dropped exactly when its job was already taken from the failed invoker it came from and the handling of the
  failure has not put it back yet; the job is then lost, and its submission never gets an answer, whatever
  happens later.\<close>

theorem master_drops_result:
  assumes "master_runs W master_start m" and "r_by_job (m_registry m) i = Some p" and "r_testing (m_registry m) i = Some j"
    and "HandleInvokerJobResult order v i (m_registry m) (m_invokers m) = Inr (r, ivs, stops, known)"
  shows "(\<not> known \<longleftrightarrow> (\<exists>is. m_extracted m p = Some is \<and> i \<in> set is)) \<and>
    (\<not> known \<longrightarrow> (\<forall>m'. master_runs W (m\<lparr>m_registry := r, m_invokers := ivs, m_lost := insert i (m_lost m)\<rparr>) m' \<longrightarrow>
       t_done (m_tests m') (job_submission j) = None))"
proof (intro conjI impI allI)
  have ok: "master_ok W m" using master_run_ok [OF assms(1) master_ok_start] by blast
  show "\<not> known \<longleftrightarrow> (\<exists>is. m_extracted m p = Some is \<and> i \<in> set is)" using HandleInvokerJobResult_known [OF ok assms(2,4)] by blast
  fix m'
  let ?m = "m\<lparr>m_registry := r, m_invokers := ivs, m_lost := insert i (m_lost m)\<rparr>"
  assume lost: "\<not> known" and run: "master_runs W ?m m'"
  have "master_ok W ?m" using dropped_ok [OF ok assms(3)] assms(4) lost by simp
  moreover have "orphan i j ?m" by (rule dropped_orphan [OF ok assms(3)]) (use assms(4) lost in simp)
  ultimately show "t_done (m_tests m') (job_submission j) = None" using orphan_unanswered [OF run] by blast
qed

lemma master_drops_result_witness:
  "\<exists>m m1. master_runs sample_world master_start m \<and> t_world (m_tests m) ''g'' = Some (sample_problem, sample_new) \<and>
     master_step sample_world m m1 \<and> (\<forall>m'. master_runs sample_world m1 m' \<longrightarrow> t_done (m_tests m') 7 = None)"
proof -
  obtain m j where m: "master_runs sample_world master_start m" "job_id j = ''i''" "job_submission j = 7" "r_by_job (m_registry m) = [''i'' \<mapsto> 0]"
    "r_testing (m_registry m) = [''i'' \<mapsto> j]" "m_extracted m = [0 \<mapsto> [''i'']]" "t_world (m_tests m) ''g'' = Some (sample_problem, sample_new)"
    using sample_taken by - (elim exE conjE, rule that)
  have ok: "master_ok sample_world m" using master_run_ok [OF m(1) master_ok_start] by blast
  have j: "r_testing (m_registry m) ''i'' = Some j" "r_by_job (m_registry m) ''i'' = Some 0" using m(4,5) by simp_all
  have order: "set [''i''] = dom (r_testing (m_registry m))" using m(5) by auto
  obtain r ivs stops known where h: "HandleInvokerJobResult [''i''] (jres_verdict (queue_report sample_world j)) ''i'' (m_registry m) (m_invokers m)
      = Inr (r, ivs, stops, known)"
    using answered_ok [OF ok j(1) eq_refl [OF order], of "jres_verdict (queue_report sample_world j)"] by - (elim exE conjE, rule that)
  note drops = master_drops_result [OF m(1) j(2,1) h]
  have lost: "\<not> known" using drops m(6) by simp
  let ?m1 = "m\<lparr>m_registry := r, m_invokers := ivs, m_lost := insert ''i'' (m_lost m)\<rparr>"
  have "master_step sample_world m ?m1" using answered [OF j(1) order h] lost by simp
  moreover have "\<forall>m'. master_runs sample_world ?m1 m' \<longrightarrow> t_done (m_tests m') 7 = None" using drops lost m(3) by simp
  ultimately show ?thesis using m(1,7) by blast
qed

text \<open>C12. A request to submit a solution does all or nothing: it is answered with the id that the database gave and the submission is
  with the queue, or the master stays as it was, the client gets an error and exactly what was stored meanwhile is to be
  removed again.\<close>

theorem submit_all_or_nothing:
  assumes "master_runs W master_start m" and "gid \<notin> t_used (m_tests m)"
    and "inj ids" and "range ids \<inter> insert gid (t_used (m_tests m)) = {}"
    and "\<forall>p k s. sr_lookup req k = Found p \<and> saveSubmissionInDB (sr_saved req) = Inr s \<longrightarrow>
      admissible W p s \<and> new_submission s (m_tests m)"
  shows "\<exists>m' reply cleanups sent. handleNewSubmission ids gid e req (master_of m) = Inr (master_of m', reply, cleanups, sent) \<and>
    master_runs W m m' \<and>
    ((\<exists>k. reply = SubmissionResponse k \<and> sr_saved req = Some k \<and> cleanups = [] \<and> gid \<in> dom (q_generators (t_queue (m_tests m')))) \<or>
     m' = m \<and> sent = [] \<and> cleanups = stored req \<and> (\<exists>code msg. reply = Plain code msg \<and> code \<in> {400, 404, 500}))"
proof (rule handleNewSubmission_steps [OF master_run_ok [OF assms(1) master_ok_start, THEN conjunct1] assms(2-4)])
  show "admissible W p s \<and> new_submission s (m_tests m)"
    if "sr_lookup req k = Found p" "saveSubmissionInDB (sr_saved req) = Inr s" for p k s using assms(5) that by blast
qed

definition sample_request :: submit_request where
  "sample_request = \<lparr>sr_problem = ''5'', sr_file = True, sr_lookup = (\<lambda>k. if k = 5 then Found sample_problem else NotFound),
     sr_saved = Some 7, sr_opened = True, sr_uploaded = False\<rparr>"

lemma submit_all_or_nothing_witness:
  "\<exists>m' reply cleanups sent. handleNewSubmission sample_ids ''g'' ''e'' sample_request (master_of master_start) = Inr (master_of m', reply, cleanups, sent) \<and>
     ((\<exists>k. reply = SubmissionResponse k \<and> cleanups = []) \<or> m' = master_start \<and> cleanups = [RemoveFromDB 7])"
proof -
  have start: "t_used (m_tests master_start) = {}" by (simp add: master_start_def testing_start_def)
  have good: "\<forall>p k s. sr_lookup sample_request k = Found p \<and> saveSubmissionInDB (sr_saved sample_request) = Inr s \<longrightarrow>
      admissible sample_world p s \<and> new_submission s (m_tests master_start)"
    by (auto simp: sample_request_def saveSubmissionInDB_def admissible_def new_submission_def master_start_def
        testing_start_def samples split: if_splits)
  have fresh: "''g'' \<notin> t_used (m_tests master_start)" "range sample_ids \<inter> insert ''g'' (t_used (m_tests master_start)) = {}"
    unfolding start using sample_ids_fresh(3) by simp_all
  have "ParseUint ''5'' = Inr 5" by (simp add: ParseUint_def nat_of_string_def is_digit_def digit_val_def)
  then have stored: "stored sample_request = [RemoveFromDB 7]" by (simp add: stored_def sample_request_def)
  show ?thesis
    using submit_all_or_nothing [where req = sample_request and e = "''e''", OF rtranclp.rtrancl_refl fresh(1) sample_ids_fresh(1) fresh(2) good]
    unfolding stored by - (elim exE conjE disjE; blast)
qed

text \<open>C13. A job that an invoker was testing and that a newer status of it does not name is waited for, and no other job changes its
  state; a timer is started for exactly these jobs, and if such a job is still without a result when its timer ends, the invoker
  counts as failed.\<close>

theorem lost_jobs_noticed:
  assumes "updateInvoker order st iv = Inr (iv', timers, failure)" and "\<not> iv_failed iv'"
    and "is_epoch (iv_status iv) < is_epoch st" and "distinct order" and "set order = dom (iv_jobs iv)"
  shows "iv_status iv' = st \<and> set timers = gone st iv \<and>
    (\<forall>i j t. iv_jobs iv i = Some (j, t) \<longrightarrow> iv_jobs iv' i = Some (j, if i \<in> gone st iv then NoReplyJob else t)) \<and>
    (\<forall>i \<in> set timers. ensureJobIsNotLost i iv' = (iv'\<lparr>iv_failed := True\<rparr>, True))"
proof -
  note m = updateInvoker_marks [OF assms]
  have jobs: "iv_jobs iv' i = Some (j, if i \<in> gone st iv then NoReplyJob else t)" if "iv_jobs iv i = Some (j, t)" for i j t
    using m that by (simp add: after_status_def gone_def)
  moreover have "ensureJobIsNotLost i iv' = (iv'\<lparr>iv_failed := True\<rparr>, True)" if g: "i \<in> gone st iv" for i
  proof -
    obtain j where "iv_jobs iv i = Some (j, TestingJob)" using g by (auto simp: gone_def)
    from jobs [OF this] g assms(2) show ?thesis by (simp add: ensureJobIsNotLost_def getJobType_of_def markFailed_def)
  qed
  ultimately show ?thesis using m by simp
qed

definition sample_job :: job where
  "sample_job = \<lparr>job_id = ''i'', job_submission = 7, job_type = TestJob, job_test = 1, job_required = {}\<rparr>"

lemma lost_jobs_noticed_witness:
  "\<exists>iv'. updateInvoker [''i''] (sample_status\<lparr>is_epoch := ''f''\<rparr>) (addJob sample_job TestingJob (newInvoker 0 sample_status)) = Inr (iv', [''i''], False) \<and>
     ensureJobIsNotLost ''i'' iv' = (iv'\<lparr>iv_failed := True\<rparr>, True)"
proof -
  let ?iv = "addJob sample_job TestingJob (newInvoker 0 sample_status)" and ?st = "sample_status\<lparr>is_epoch := ''f''\<rparr>"
  let ?iv1 = "?iv\<lparr>iv_status := ?st\<rparr>"
  obtain iv2 where s: "setJobType ''i'' NoReplyJob ?iv1 = Inr iv2" by (simp add: setJobType_def addJob_def sample_job_def newInvoker_def Let_def)
  have less: "is_epoch (iv_status ?iv) < is_epoch ?st" by (simp add: addJob_def newInvoker_def sample_status_def) 
  have u: "updateInvoker [''i''] ?st ?iv = Inr (iv2, [''i''], False)"
    using s less [folded not_le] by (simp add: updateInvoker_def addJob_def sample_job_def newInvoker_def sample_status_def bindE_def)
  have nf: "\<not> iv_failed iv2" using s by (auto simp: setJobType_def addJob_def sample_job_def newInvoker_def Let_def)
  have dom: "set [''i''] = dom (iv_jobs ?iv)" by (simp add: addJob_def newInvoker_def sample_job_def)
  show ?thesis using lost_jobs_noticed [OF u nf less _ dom] u by simp
qed

end
