(* ===== verification/GoCache.thy ===== *)
theory GoCache
  imports GoIoi "HOL-Library.Word"
begin

text \<open>
  lib/cache/cache.go: the cache of files on an invoker, bounded by the size of its values, which removes the least recently
  used ones.  A call that holds the mutex is one function; a load runs in the background and its result is an argument;
  the second half of a \<open>Get\<close> that had to wait is a function of its own.  The functions return the calls of the
  remover.  Sizes and counts of locks are 64-bit words.
\<close>

section \<open>The cache\<close>

text \<open>A holder that is loading has a wait group, and one that was used has a place in the list.\<close>

record ('v, 'e) val_holder =
  vh_value :: "'v option"
  vh_error :: "'e option"
  vh_locks :: "64 word"
  vh_size :: "64 word"
  vh_loading :: bool
  vh_listed :: bool

record ('k, 'v, 'e) lru_cache =
  lc_holders :: "'k \<rightharpoonup> ('v, 'e) val_holder"
  lc_remover :: bool
  lc_bound :: "64 word"
  lc_total :: "64 word"
  lc_rank :: "'k list"

type_synonym ('k, 'v) removals = "('k \<times> 'v option) list"

definition NewLRUSizeCache :: "64 word \<Rightarrow> bool \<Rightarrow> ('k, 'v, 'e) lru_cache" where
  "NewLRUSizeCache bound remover =
     \<lparr>lc_holders = Map.empty, lc_remover = remover, lc_bound = bound, lc_total = 0, lc_rank = []\<rparr>"

abbreviation set_holder :: "'k \<Rightarrow> ('v, 'e) val_holder \<Rightarrow> ('k, 'v, 'e) lru_cache \<Rightarrow> ('k, 'v, 'e) lru_cache" where
  "set_holder k h c \<equiv> c\<lparr>lc_holders := (lc_holders c)(k \<mapsto> h)\<rparr>"

definition itemUsed :: "'k \<Rightarrow> ('k, 'v, 'e) lru_cache \<Rightarrow> panic + ('k, 'v, 'e) lru_cache" where
  "itemUsed k c = bindE (deref (lc_holders c k)) (\<lambda>h.
     if vh_listed h then Inr (c\<lparr>lc_rank := remove1 k (lc_rank c) @ [k]\<rparr>)
     else Inr (set_holder k (h\<lparr>vh_listed := True\<rparr>) c\<lparr>lc_rank := lc_rank c @ [k]\<rparr>))"

text \<open>A holder without a place in the list makes the removal from the list dereference nil.\<close>

definition removeSingleItem :: "'k \<Rightarrow> ('k, 'v, 'e) lru_cache \<Rightarrow> panic + ('k, 'v, 'e) lru_cache \<times> ('k, 'v) removals" where
  "removeSingleItem k c = bindE (deref (lc_holders c k)) (\<lambda>h.
     if vh_locks h \<noteq> 0 then Inl (Panic ''Error in LRUSizeCache. Removing key with non zero lock count'')
     else if \<not> vh_listed h then Inl (Panic ''invalid memory address or nil pointer dereference'')
     else Inr (c\<lparr>lc_holders := (lc_holders c)(k := None), lc_total := lc_total c - vh_size h, lc_rank := remove1 k (lc_rank c)\<rparr>,
               if lc_remover c \<and> vh_error h = None then [(k, vh_value h)] else []))"

text \<open>The walk over the list, where the next element is read before the current one is removed.\<close>

fun remove_loop :: "'k list \<Rightarrow> ('k, 'v, 'e) lru_cache \<Rightarrow> panic + ('k, 'v, 'e) lru_cache \<times> ('k, 'v) removals" where
  "remove_loop [] c = Inr (c, [])"
| "remove_loop (k # ks) c =
     (if lc_total c > lc_bound c then
        bindE (deref (lc_holders c k)) (\<lambda>h.
          if vh_locks h = 0 then
            bindE (removeSingleItem k c) (\<lambda>(c, gone). bindE (remove_loop ks c) (\<lambda>(c, rest). Inr (c, gone @ rest)))
          else remove_loop ks c)
      else Inr (c, []))"

definition removeItemsIfNeeded :: "('k, 'v, 'e) lru_cache \<Rightarrow> panic + ('k, 'v, 'e) lru_cache \<times> ('k, 'v) removals" where
  "removeItemsIfNeeded c = remove_loop (lc_rank c) c"

text \<open>The holder, and whether a load is started.\<close>

definition lockAndGetHolder :: "'k \<Rightarrow> ('k, 'v, 'e) lru_cache \<Rightarrow> ('k, 'v, 'e) lru_cache \<times> ('v, 'e) val_holder \<times> bool" where
  "lockAndGetHolder k c =
     (case lc_holders c k of
        Some h \<Rightarrow> (let h = h\<lparr>vh_locks := vh_locks h + 1\<rparr> in (set_holder k h c, h, False))
      | None \<Rightarrow>
          (let h = \<lparr>vh_value = None, vh_error = None, vh_locks = 1, vh_size = 0, vh_loading = True, vh_listed = False\<rparr> in
           (set_holder k h c, h, True)))"

text \<open>\<open>Get\<close> has the value, or waits for it.\<close>

datatype ('v, 'e) got = Got "'v option" "'e option" | Waiting bool

definition Get :: "'k \<Rightarrow> ('k, 'v, 'e) lru_cache \<Rightarrow> panic + ('k, 'v, 'e) lru_cache \<times> ('v, 'e) got" where
  "Get k c =
     (let (c, h, started) = lockAndGetHolder k c in
      if \<not> vh_loading h then
        bindE (itemUsed k (set_holder k (h\<lparr>vh_locks := vh_locks h - 1\<rparr>) c)) (\<lambda>c. Inr (c, Got (vh_value h) (vh_error h)))
      else Inr (c, Waiting started))"

definition Get_waited :: "'k \<Rightarrow> ('k, 'v, 'e) lru_cache \<Rightarrow> panic + ('k, 'v, 'e) lru_cache \<times> 'v option \<times> 'e option" where
  "Get_waited k c = bindE (deref (lc_holders c k)) (\<lambda>h.
     bindE (itemUsed k (set_holder k (h\<lparr>vh_locks := vh_locks h - 1\<rparr>) c)) (\<lambda>c. Inr (c, vh_value h, vh_error h)))"

definition Lock :: "'k \<Rightarrow> ('k, 'v, 'e) lru_cache \<Rightarrow> panic + ('k, 'v, 'e) lru_cache \<times> bool" where
  "Lock k c =
     (let (c, h, started) = lockAndGetHolder k c in
      if \<not> vh_loading h then bindE (itemUsed k c) (\<lambda>c. Inr (c, started)) else Inr (c, started))"

datatype cache_error = ErrItemNotLocked | ErrItemNotFound | ErrItemLocked | ErrItemAlreadyExists

definition Unlock :: "'k \<Rightarrow> ('k, 'v, 'e) lru_cache \<Rightarrow> panic + ('k, 'v, 'e) lru_cache \<times> ('k, 'v) removals \<times> cache_error option" where
  "Unlock k c =
     (case lc_holders c k of
        None \<Rightarrow> Inr (c, [], Some ErrItemNotFound)
      | Some h \<Rightarrow>
          if vh_locks h > 0 then
            bindE (removeItemsIfNeeded (set_holder k (h\<lparr>vh_locks := vh_locks h - 1\<rparr>) c)) (\<lambda>(c, gone). Inr (c, gone, None))
          else Inr (c, [], Some ErrItemNotLocked))"

definition Remove :: "'k \<Rightarrow> ('k, 'v, 'e) lru_cache \<Rightarrow> panic + ('k, 'v, 'e) lru_cache \<times> ('k, 'v) removals \<times> cache_error option" where
  "Remove k c =
     (case lc_holders c k of
        None \<Rightarrow> Inr (c, [], None)
      | Some h \<Rightarrow>
          if vh_locks h > 0 then Inr (c, [], Some ErrItemLocked)
          else bindE (removeSingleItem k c) (\<lambda>(c, gone). Inr (c, gone, None)))"

definition Insert :: "'k \<Rightarrow> 'v \<Rightarrow> 64 word \<Rightarrow> ('k, 'v, 'e) lru_cache \<Rightarrow> panic + ('k, 'v, 'e) lru_cache \<times> cache_error option" where
  "Insert k v bytes c =
     (case lc_holders c k of
        Some h \<Rightarrow> Inr (c, Some ErrItemAlreadyExists)
      | None \<Rightarrow>
          bindE (itemUsed k (set_holder k \<lparr>vh_value = Some v, vh_error = None, vh_locks = 0, vh_size = bytes, vh_loading = False,
            vh_listed = False\<rparr> c)) (\<lambda>c. Inr (c, None)))"

text \<open>The end of a load, with what the getter returned.\<close>

definition loadAbsentValue :: "'k \<Rightarrow> 'v option \<times> 'e option \<times> 64 word \<Rightarrow> ('k, 'v, 'e) lru_cache \<Rightarrow>
    panic + ('k, 'v, 'e) lru_cache \<times> ('k, 'v) removals" where
  "loadAbsentValue k got c = (case got of (v, e, bytes) \<Rightarrow>
     bindE (deref (lc_holders c k)) (\<lambda>h.
       if vh_value h \<noteq> None \<or> vh_error h \<noteq> None then Inl (Panic ''loadAbsentValue is called for already loaded key'')
       else if \<not> vh_loading h then Inl (Panic ''invalid memory address or nil pointer dereference'')
       else bindE (itemUsed k (set_holder k (h\<lparr>vh_value := v, vh_error := e, vh_size := bytes, vh_loading := False\<rparr>)
           (c\<lparr>lc_total := lc_total c + bytes\<rparr>))) removeItemsIfNeeded))"



section \<open>What a state of the cache is\<close>

definition size_of :: "('k, 'v, 'e) lru_cache \<Rightarrow> 'k \<Rightarrow> 64 word" where
  "size_of c k = vh_size (the (lc_holders c k))"

definition is_loading :: "('k, 'v, 'e) lru_cache \<Rightarrow> 'k \<Rightarrow> bool" where
  "is_loading c k \<longleftrightarrow> (\<exists>h. lc_holders c k = Some h \<and> vh_loading h)"

definition locks_of :: "('k, 'v, 'e) lru_cache \<Rightarrow> 'k \<Rightarrow> nat" where
  "locks_of c k = (case lc_holders c k of None \<Rightarrow> 0 | Some h \<Rightarrow> unat (vh_locks h))"

text \<open>The list holds the keys that are loaded, and the total is that of their sizes.\<close>

definition cache_ok :: "('k, 'v, 'e) lru_cache \<Rightarrow> bool" where
  "cache_ok c \<longleftrightarrow> distinct (lc_rank c) \<and> set (lc_rank c) = dom (lc_holders c) - Collect (is_loading c) \<and>
     (\<forall>k h. lc_holders c k = Some h \<longrightarrow> vh_listed h = (\<not> vh_loading h) \<and>
        (vh_loading h \<longrightarrow> vh_value h = None \<and> vh_error h = None)) \<and>
     lc_total c = sum_list (map (size_of c) (lc_rank c))"

lemma cache_okD:
  assumes "cache_ok c"
  shows "distinct (lc_rank c)" "set (lc_rank c) = dom (lc_holders c) - Collect (is_loading c)"
    "lc_holders c k = Some h \<Longrightarrow> vh_listed h = (\<not> vh_loading h)"
    "lc_holders c k = Some h \<Longrightarrow> vh_loading h \<Longrightarrow> vh_value h = None \<and> vh_error h = None"
    "lc_total c = sum_list (map (size_of c) (lc_rank c))"
  using assms unfolding cache_ok_def by blast+

lemma cache_ok_new: "cache_ok (NewLRUSizeCache bound remover)"
  by (simp add: cache_ok_def NewLRUSizeCache_def)

lemma ranked: "cache_ok c \<Longrightarrow> lc_holders c k = Some h \<Longrightarrow> k \<in> set (lc_rank c) \<longleftrightarrow> \<not> vh_loading h"
  using cache_okD(2) [of c] by (auto simp: is_loading_def)

text \<open>A holder whose count of locks changes.\<close>

lemma set_locks_ok:
  assumes ok: "cache_ok c" and h: "lc_holders c k = Some h"
  shows "cache_ok (set_holder k (h\<lparr>vh_locks := n\<rparr>) c)"
proof -
  let ?c = "set_holder k (h\<lparr>vh_locks := n\<rparr>) c"
  have "size_of ?c = size_of c" using h by (auto simp: size_of_def)
  moreover have "is_loading ?c = is_loading c" using h by (auto simp: is_loading_def fun_eq_iff)
  moreover have "dom (lc_holders ?c) = dom (lc_holders c)" using h by auto
  moreover have "vh_listed x = (\<not> vh_loading x) \<and> (vh_loading x \<longrightarrow> vh_value x = None \<and> vh_error x = None)"
    if "lc_holders ?c i = Some x" for i x
    using that cache_okD(3,4) [OF ok] h by (auto split: if_splits)
  ultimately show ?thesis using cache_okD(1,2,5) [OF ok] unfolding cache_ok_def by simp
qed

lemma sum_remove1: "k \<in> set ks \<Longrightarrow> sum_list (map f (remove1 k ks)) = sum_list (map f ks) - (f k :: 'a :: ab_group_add)"
  by (induction ks) (auto simp: algebra_simps)

text \<open>A loaded holder is used.\<close>

lemma itemUsed_loaded:
  assumes ok: "cache_ok c" and h: "lc_holders c k = Some h" "\<not> vh_loading h"
  shows "itemUsed k c = Inr (c\<lparr>lc_rank := remove1 k (lc_rank c) @ [k]\<rparr>)" "cache_ok (c\<lparr>lc_rank := remove1 k (lc_rank c) @ [k]\<rparr>)"
proof -
  show "itemUsed k c = Inr (c\<lparr>lc_rank := remove1 k (lc_rank c) @ [k]\<rparr>)"
    using h cache_okD(3) [OF ok h(1)] by (simp add: itemUsed_def deref_def)
  let ?c = "c\<lparr>lc_rank := remove1 k (lc_rank c) @ [k]\<rparr>"
  have k: "k \<in> set (lc_rank c)" using ranked [OF ok h(1)] h(2) by simp
  have "size_of ?c = size_of c" "is_loading ?c = is_loading c" by (auto simp: size_of_def is_loading_def fun_eq_iff)
  then show "cache_ok ?c" using cache_okD [OF ok] k sum_remove1 [OF k, of "size_of c"] unfolding cache_ok_def by auto
qed

section \<open>Removal\<close>

text \<open>
  What the cache is when the unlocked ones among its \<open>n\<close> least recently used keys are gone; the cache removes as few as
  it needs, in that order.
\<close>

definition victims :: "nat \<Rightarrow> ('k, 'v, 'e) lru_cache \<Rightarrow> 'k list" where
  "victims n c = filter (\<lambda>k. locks_of c k = 0) (take n (lc_rank c))"

definition evicted :: "nat \<Rightarrow> ('k, 'v, 'e) lru_cache \<Rightarrow> ('k, 'v, 'e) lru_cache" where
  "evicted n c = c\<lparr>lc_holders := lc_holders c |` (- set (victims n c)), lc_total := lc_total c - sum_list (map (size_of c) (victims n c)),
     lc_rank := filter (\<lambda>k. k \<notin> set (victims n c)) (lc_rank c)\<rparr>"

definition removals :: "nat \<Rightarrow> ('k, 'v, 'e) lru_cache \<Rightarrow> ('k, 'v) removals" where
  "removals n c = concat (map (\<lambda>k. let h = the (lc_holders c k) in if lc_remover c \<and> vh_error h = None then [(k, vh_value h)] else []) (victims n c))"

lemma evicted_0: "evicted 0 c = c"
  by (simp add: evicted_def victims_def restrict_map_def)

lemma victims_Suc:
  "n < length (lc_rank c) \<Longrightarrow> victims (Suc n) c = victims n c @ (if locks_of c (lc_rank c ! n) = 0 then [lc_rank c ! n] else [])"
  by (simp add: victims_def take_Suc_conv_app_nth)

lemma evicted_Suc:
  assumes ok: "cache_ok c" and n: "n < length (lc_rank c)" and h: "lc_holders c (lc_rank c ! n) = Some h"
  shows "lc_holders (evicted n c) (lc_rank c ! n) = Some h"
    "vh_locks h \<noteq> 0 \<Longrightarrow> evicted (Suc n) c = evicted n c \<and> removals (Suc n) c = removals n c"
    "vh_locks h = 0 \<Longrightarrow> \<exists>gone. removeSingleItem (lc_rank c ! n) (evicted n c) = Inr (evicted (Suc n) c, gone) \<and>
       removals (Suc n) c = removals n c @ gone"
proof -
  let ?k = "lc_rank c ! n"
  have "distinct (take n (lc_rank c) @ ?k # drop (Suc n) (lc_rank c))" using cache_okD(1) [OF ok] id_take_nth_drop [OF n] by simp
  then have new: "?k \<notin> set (victims n c)" by (auto simp: victims_def)
  show h': "lc_holders (evicted n c) ?k = Some h" using new h by (simp add: evicted_def)
  show "evicted (Suc n) c = evicted n c \<and> removals (Suc n) c = removals n c" if "vh_locks h \<noteq> 0"
  proof -
    have "victims (Suc n) c = victims n c" using victims_Suc [OF n] h that by (simp add: locks_of_def unat_eq_0)
    then show ?thesis by (simp add: evicted_def removals_def)
  qed
  show "\<exists>gone. removeSingleItem ?k (evicted n c) = Inr (evicted (Suc n) c, gone) \<and> removals (Suc n) c = removals n c @ gone"
    if zero: "vh_locks h = 0"
  proof -
    have v: "victims (Suc n) c = victims n c @ [?k]" using victims_Suc [OF n] h zero by (simp add: locks_of_def)
    have "\<not> vh_loading h" using ranked [OF ok h] n by simp
    then have listed: "vh_listed h" using cache_okD(3) [OF ok h] by simp
    let ?gone = "if lc_remover c \<and> vh_error h = None then [(?k, vh_value h)] else []"
    have holders: "(lc_holders c |` (- set (victims n c)))(?k := None) = lc_holders c |` (- set (victims (Suc n) c))"
      unfolding v by (auto simp: restrict_map_def fun_eq_iff)
    have "distinct (filter (\<lambda>k. k \<notin> set (victims n c)) (lc_rank c))" using cache_okD(1) [OF ok] by simp
    then have rank: "remove1 ?k (filter (\<lambda>k. k \<notin> set (victims n c)) (lc_rank c)) = filter (\<lambda>k. k \<notin> set (victims (Suc n) c)) (lc_rank c)"
      unfolding v by (subst distinct_remove1_removeAll) (auto simp: removeAll_filter_not_eq intro: filter_cong)
    have total: "lc_total c - sum_list (map (size_of c) (victims n c)) - vh_size h = lc_total c - sum_list (map (size_of c) (victims (Suc n) c))"
      unfolding v using h by (simp add: size_of_def)
    have "removeSingleItem ?k (evicted n c) = Inr (evicted (Suc n) c, ?gone)"
      using h' listed zero holders rank total by (simp add: removeSingleItem_def deref_def evicted_def)
    moreover have "removals (Suc n) c = removals n c @ ?gone" unfolding removals_def v using h by simp
    ultimately show ?thesis by blast
  qed
qed

lemma remove_loop_evicts:
  assumes ok: "cache_ok c" and n: "n \<le> length (lc_rank c)"
  shows "\<exists>m. n \<le> m \<and> m \<le> length (lc_rank c) \<and> (\<forall>i. n \<le> i \<and> i < m \<longrightarrow> lc_bound c < lc_total (evicted i c)) \<and>
    (lc_total (evicted m c) \<le> lc_bound c \<or> m = length (lc_rank c)) \<and>
    (\<exists>rest. remove_loop (drop n (lc_rank c)) (evicted n c) = Inr (evicted m c, rest) \<and> removals m c = removals n c @ rest)"
  using n
proof (induction "length (lc_rank c) - n" arbitrary: n)
  case 0
  then have "n = length (lc_rank c)" by simp
  then show ?case by (intro exI [of _ n]) auto
next
  case (Suc d)
  then have n: "n < length (lc_rank c)" by simp
  have bound: "lc_bound (evicted n c) = lc_bound c" by (simp add: evicted_def)
  have drop: "drop n (lc_rank c) = lc_rank c ! n # drop (Suc n) (lc_rank c)" using n by (rule Cons_nth_drop_Suc [symmetric])
  show ?case
  proof (cases "lc_total (evicted n c) > lc_bound c")
    case False
    then show ?thesis using n drop bound by (intro exI [of _ n]) (auto simp: not_less)
  next
    case True
    have "lc_rank c ! n \<in> set (lc_rank c)" using n by simp
    then obtain h where h: "lc_holders c (lc_rank c ! n) = Some h" using cache_okD(2) [OF ok] by auto
    note e = evicted_Suc [OF ok n h]
    have IH: "d = length (lc_rank c) - Suc n" "Suc n \<le> length (lc_rank c)" using Suc.hyps(2) n by simp_all
    obtain m rest where m: "Suc n \<le> m" "m \<le> length (lc_rank c)" "\<forall>i. Suc n \<le> i \<and> i < m \<longrightarrow> lc_bound c < lc_total (evicted i c)"
      "lc_total (evicted m c) \<le> lc_bound c \<or> m = length (lc_rank c)"
      "remove_loop (drop (Suc n) (lc_rank c)) (evicted (Suc n) c) = Inr (evicted m c, rest)" "removals m c = removals (Suc n) c @ rest"
      using Suc.hyps(1) [OF IH] by - (elim exE conjE, rule that)
    have over: "\<forall>i. n \<le> i \<and> i < m \<longrightarrow> lc_bound c < lc_total (evicted i c)"
      using m(3) True by (metis le_eq_less_or_eq Suc_le_eq)
    have "\<exists>rest. remove_loop (drop n (lc_rank c)) (evicted n c) = Inr (evicted m c, rest) \<and> removals m c = removals n c @ rest"
    proof (cases "vh_locks h = 0")
      case True
      then show ?thesis using e(1,3) m(5,6) drop bound \<open>lc_total (evicted n c) > lc_bound c\<close> by (auto simp: deref_def)
    next
      case False
      then show ?thesis using e(1,2) m(5,6) drop bound \<open>lc_total (evicted n c) > lc_bound c\<close> by (auto simp: deref_def)
    qed
    then show ?thesis using m(1,2,4) over by (intro exI [of _ m]) auto
  qed
qed

lemma removeItemsIfNeeded_evicts:
  assumes "cache_ok c"
  obtains n where "removeItemsIfNeeded c = Inr (evicted n c, removals n c)" "n \<le> length (lc_rank c)"
    "\<And>i. i < n \<Longrightarrow> lc_bound c < lc_total (evicted i c)" "lc_total (evicted n c) \<le> lc_bound c \<or> n = length (lc_rank c)"
  using remove_loop_evicts [OF assms, of 0] that
  by (auto simp: evicted_0 removeItemsIfNeeded_def removals_def victims_def)

lemma evicted_ok:
  assumes ok: "cache_ok c"
  shows "cache_ok (evicted n c)"
proof -
  let ?c = "evicted n c" and ?V = "set (victims n c)"
  have V: "?V \<subseteq> set (lc_rank c)" by (auto simp: victims_def dest: in_set_takeD)
  have holders: "lc_holders ?c k = (if k \<in> ?V then None else lc_holders c k)" for k by (simp add: evicted_def)
  have load: "is_loading ?c k \<longleftrightarrow> k \<notin> ?V \<and> is_loading c k" for k by (simp add: is_loading_def holders)
  have rank: "lc_rank ?c = filter (\<lambda>k. k \<notin> ?V) (lc_rank c)" by (simp add: evicted_def)
  have "set (lc_rank ?c) = dom (lc_holders ?c) - Collect (is_loading ?c)"
    unfolding rank using cache_okD(2) [OF ok] by (auto simp: load holders split: if_splits)
  moreover have "lc_total ?c = sum_list (map (size_of ?c) (lc_rank ?c))"
  proof -
    have "distinct (victims n c)" using cache_okD(1) [OF ok] by (simp add: victims_def)
    then have sv: "sum_list (map (size_of c) (victims n c)) = sum (size_of c) ?V" by (simp add: sum_list_distinct_conv_sum_set)
    have "sum_list (map (size_of ?c) (lc_rank ?c)) = sum (size_of ?c) (set (lc_rank c) - ?V)"
      unfolding rank using cache_okD(1) [OF ok] by (subst sum_list_distinct_conv_sum_set) (auto intro: sum.cong)
    also have "\<dots> = sum (size_of c) (set (lc_rank c) - ?V)" by (rule sum.cong) (auto simp: size_of_def holders)
    also have "\<dots> = sum (size_of c) (set (lc_rank c)) - sum (size_of c) ?V" by (rule sum_diff) (simp_all add: V)
    also have "sum (size_of c) (set (lc_rank c)) = lc_total c"
      using cache_okD(1,5) [OF ok] by (simp add: sum_list_distinct_conv_sum_set)
    finally show ?thesis by (simp add: evicted_def sv)
  qed
  ultimately show ?thesis unfolding cache_ok_def using cache_okD(1,3,4) [OF ok] holders by (auto simp: rank split: if_splits)
qed

lemma evicted_holders:
  assumes "lc_holders c k = Some h" and "vh_locks h \<noteq> 0 \<or> vh_loading h" and "cache_ok c"
  shows "lc_holders (evicted n c) k = Some h"
proof -
  have "k \<notin> set (victims n c)"
    using assms ranked [OF assms(3,1)] by (auto simp: victims_def locks_of_def unat_eq_0 dest: in_set_takeD)
  then show ?thesis using assms(1) by (simp add: evicted_def)
qed

lemma locks_evicted: "locks_of (evicted n c) k = locks_of c k"
  by (auto simp: evicted_def locks_of_def victims_def restrict_map_def)

lemma loading_evicted: "cache_ok c \<Longrightarrow> is_loading (evicted n c) k \<longleftrightarrow> is_loading c k"
  using cache_okD(2) [of c] by (auto simp: is_loading_def evicted_def restrict_map_def victims_def dest!: in_set_takeD split: if_splits)


section \<open>Calls\<close>

text \<open>What the calls do to a cache in a good state.\<close>

lemma lockAndGetHolder_present:
  "lc_holders c k = Some h \<Longrightarrow> lockAndGetHolder k c = (set_holder k (h\<lparr>vh_locks := vh_locks h + 1\<rparr>) c, h\<lparr>vh_locks := vh_locks h + 1\<rparr>, False)"
  by (simp add: lockAndGetHolder_def Let_def)

abbreviation fresh_holder :: "('v, 'e) val_holder" where
  "fresh_holder \<equiv> \<lparr>vh_value = None, vh_error = None, vh_locks = 1, vh_size = 0, vh_loading = True, vh_listed = False\<rparr>"

lemma lockAndGetHolder_absent:
  "lc_holders c k = None \<Longrightarrow> lockAndGetHolder k c = (set_holder k fresh_holder c, fresh_holder, True)"
  by (simp add: lockAndGetHolder_def Let_def)

lemma cache_okI:
  assumes "distinct (lc_rank c)" "set (lc_rank c) = dom (lc_holders c) - Collect (is_loading c)"
    "\<And>k h. lc_holders c k = Some h \<Longrightarrow> vh_listed h = (\<not> vh_loading h) \<and> (vh_loading h \<longrightarrow> vh_value h = None \<and> vh_error h = None)"
    "lc_total c = sum_list (map (size_of c) (lc_rank c))"
  shows "cache_ok c"
  unfolding cache_ok_def using assms by blast

lemma fresh_ok:
  assumes ok: "cache_ok c" and none: "lc_holders c k = None"
  shows "cache_ok (set_holder k fresh_holder c)"
proof -
  let ?c = "set_holder k fresh_holder c"
  have k: "k \<notin> set (lc_rank c)" using cache_okD(2) [OF ok] none by auto
  have sizes: "map (size_of ?c) (lc_rank c) = map (size_of c) (lc_rank c)" using k by (auto simp: size_of_def)
  have "lc_total ?c = sum_list (map (size_of c) (lc_rank c))" using cache_okD(5) [OF ok] by simp
  also have "\<dots> = sum_list (map (size_of ?c) (lc_rank ?c))" unfolding sizes [symmetric] by simp
  finally have "lc_total ?c = sum_list (map (size_of ?c) (lc_rank ?c))" .
  moreover have "set (lc_rank ?c) = dom (lc_holders ?c) - Collect (is_loading ?c)"
    using cache_okD(2) [OF ok] none by (auto simp: is_loading_def split: if_splits)
  ultimately show ?thesis using cache_okD(1,3,4) [OF ok] by (intro cache_okI) (auto split: if_splits)
qed

definition locks_moved :: "'k \<Rightarrow> (nat \<Rightarrow> nat) \<Rightarrow> ('k, 'v, 'e) lru_cache \<Rightarrow> ('k, 'v, 'e) lru_cache \<Rightarrow> bool" where
  "locks_moved k f c c' \<longleftrightarrow> (\<forall>i. locks_of c' i = (if i = k then f (locks_of c i) else locks_of c i))"

text \<open>Holders that are locked, or loading, stay but for their locks and their place in the list.\<close>

definition kept :: "('v, 'e) val_holder \<Rightarrow> ('v, 'e) val_holder \<Rightarrow> bool" where
  "kept h h' \<longleftrightarrow> vh_value h' = vh_value h \<and> vh_error h' = vh_error h \<and> vh_size h' = vh_size h \<and> vh_loading h' = vh_loading h"

lemma unat_Suc: "unat (n :: 64 word) + 1 < 2 ^ 64 \<Longrightarrow> unat (n + 1) = unat n + 1"
  by (simp add: unat_word_ariths)

lemma unat_pred: "n \<noteq> (0 :: 64 word) \<Longrightarrow> unat (n - 1) = unat n - 1"
  by (simp add: unat_minus_one)

lemma Get_ok:
  assumes ok: "cache_ok c" and room: "locks_of c k + 1 < 2 ^ 64"
  shows "\<exists>c' g. Get k c = Inr (c', g) \<and> cache_ok c' \<and> is_loading c' = (is_loading c)(k := is_loading c k \<or> lc_holders c k = None) \<and>
    (case g of
       Got v e \<Rightarrow> locks_moved k id c c' \<and> lc_holders c' = lc_holders c \<and> (\<exists>h. lc_holders c k = Some h \<and> \<not> vh_loading h \<and> v = vh_value h \<and> e = vh_error h)
     | Waiting started \<Rightarrow> locks_moved k Suc c c' \<and> started = (lc_holders c k = None) \<and>
         (\<forall>i h. lc_holders c i = Some h \<longrightarrow> (\<exists>h'. lc_holders c' i = Some h' \<and> kept h h')))"
proof (cases "lc_holders c k")
  case None
  let ?c = "set_holder k fresh_holder c"
  have "Get k c = Inr (?c, Waiting True)" using None by (simp add: Get_def lockAndGetHolder_absent)
  moreover have "locks_moved k Suc c ?c" using None by (simp add: locks_moved_def locks_of_def)
  moreover have "is_loading ?c = (is_loading c)(k := True)" by (auto simp: is_loading_def fun_eq_iff)
  moreover have "\<exists>h'. lc_holders ?c i = Some h' \<and> kept h h'" if "lc_holders c i = Some h" for i h
    using that None by (auto simp: kept_def)
  ultimately show ?thesis using fresh_ok [OF ok None] None by (intro exI [of _ ?c] exI [of _ "Waiting True"]) simp
next
  case (Some h)
  have load: "is_loading c k = vh_loading h" using Some by (simp add: is_loading_def)
  show ?thesis
  proof (cases "vh_loading h")
    case True
    let ?c = "set_holder k (h\<lparr>vh_locks := vh_locks h + 1\<rparr>) c"
    have "Get k c = Inr (?c, Waiting False)" using Some True by (simp add: Get_def lockAndGetHolder_present)
    moreover have "unat (vh_locks h + 1) = Suc (unat (vh_locks h))" using room Some unat_Suc [of "vh_locks h"] by (simp add: locks_of_def)
    then have "locks_moved k Suc c ?c" using Some by (simp add: locks_moved_def locks_of_def)
    moreover have "is_loading ?c = (is_loading c)(k := True)" using Some True by (auto simp: is_loading_def fun_eq_iff)
    moreover have "\<exists>h'. lc_holders ?c i = Some h' \<and> kept x h'" if "lc_holders c i = Some x" for i x
      using that Some by (auto simp: kept_def)
    ultimately show ?thesis using set_locks_ok [OF ok Some] Some load True
      by (intro exI [of _ ?c] exI [of _ "Waiting False"]) simp
  next
    case False
    have same: "set_holder k (h\<lparr>vh_locks := vh_locks h + 1\<rparr>\<lparr>vh_locks := vh_locks (h\<lparr>vh_locks := vh_locks h + 1\<rparr>) - 1\<rparr>)
        (set_holder k (h\<lparr>vh_locks := vh_locks h + 1\<rparr>) c) = c"
      using Some by (simp add: fun_upd_idem)
    let ?c = "c\<lparr>lc_rank := remove1 k (lc_rank c) @ [k]\<rparr>"
    have "Get k c = Inr (?c, Got (vh_value h) (vh_error h))"
      using itemUsed_loaded(1) [OF ok Some False] False unfolding Get_def lockAndGetHolder_present [OF Some] Let_def prod.case same by simp
    moreover have "locks_moved k id c ?c" by (simp add: locks_moved_def locks_of_def)
    moreover have "is_loading ?c = (is_loading c)(k := is_loading c k)" by (auto simp: is_loading_def fun_eq_iff)
    ultimately show ?thesis using itemUsed_loaded(2) [OF ok Some False] Some False load
      by (intro exI [of _ ?c] exI [of _ "Got (vh_value h) (vh_error h)"]) simp
  qed
qed

lemma Lock_ok:
  assumes ok: "cache_ok c" and room: "locks_of c k + 1 < 2 ^ 64"
  shows "\<exists>c'. Lock k c = Inr (c', lc_holders c k = None) \<and> cache_ok c' \<and> is_loading c' = (is_loading c)(k := is_loading c k \<or> lc_holders c k = None) \<and>
    locks_moved k Suc c c' \<and> (\<forall>i h. lc_holders c i = Some h \<longrightarrow> (\<exists>h'. lc_holders c' i = Some h' \<and> kept h h')) \<and> lc_total c' = lc_total c"
proof (cases "lc_holders c k")
  case None
  let ?c = "set_holder k fresh_holder c"
  have "Lock k c = Inr (?c, True)" using None by (simp add: Lock_def lockAndGetHolder_absent)
  moreover have "locks_moved k Suc c ?c" using None by (simp add: locks_moved_def locks_of_def)
  moreover have "is_loading ?c = (is_loading c)(k := True)" by (auto simp: is_loading_def fun_eq_iff)
  moreover have "\<exists>h'. lc_holders ?c i = Some h' \<and> kept h h'" if "lc_holders c i = Some h" for i h
    using that None by (auto simp: kept_def)
  ultimately show ?thesis using fresh_ok [OF ok None] None by (intro exI [of _ ?c]) simp
next
  case (Some h)
  let ?h = "h\<lparr>vh_locks := vh_locks h + 1\<rparr>"
  let ?c = "set_holder k ?h c"
  have load: "is_loading c k = vh_loading h" using Some by (simp add: is_loading_def)
  have "unat (vh_locks h + 1) = Suc (unat (vh_locks h))" using room Some unat_Suc [of "vh_locks h"] by (simp add: locks_of_def)
  then have moved: "locks_moved k Suc c ?c" using Some by (simp add: locks_moved_def locks_of_def)
  have loads: "is_loading ?c = is_loading c" using Some by (auto simp: is_loading_def fun_eq_iff)
  have keep: "\<exists>h'. lc_holders ?c i = Some h' \<and> kept x h'" if "lc_holders c i = Some x" for i x
    using that Some by (auto simp: kept_def)
  note ok1 = set_locks_ok [OF ok Some, of "vh_locks h + 1"]
  show ?thesis
  proof (cases "vh_loading h")
    case True
    then have "Lock k c = Inr (?c, False)" using Some by (simp add: Lock_def lockAndGetHolder_present)
    then show ?thesis using ok1 moved loads keep Some by (intro exI [of _ ?c]) (simp add: fun_upd_idem load True)
  next
    case False
    have hk: "lc_holders ?c k = Some ?h" "\<not> vh_loading ?h" using False by simp_all
    let ?d = "?c\<lparr>lc_rank := remove1 k (lc_rank ?c) @ [k]\<rparr>"
    have "Lock k c = Inr (?d, False)"
      using itemUsed_loaded(1) [OF ok1 hk] False unfolding Lock_def lockAndGetHolder_present [OF Some] Let_def prod.case by simp
    moreover have "locks_moved k Suc c ?d" using moved by (simp add: locks_moved_def locks_of_def)
    moreover have "is_loading ?d = is_loading c" using loads by (simp add: is_loading_def fun_eq_iff)
    ultimately show ?thesis using itemUsed_loaded(2) [OF ok1 hk] keep Some by (intro exI [of _ ?d]) (simp add: fun_upd_idem load)
  qed
qed

lemma Get_waited_ok:
  assumes ok: "cache_ok c" and h: "lc_holders c k = Some h" "\<not> vh_loading h" "vh_locks h \<noteq> 0"
  shows "\<exists>c'. Get_waited k c = Inr (c', vh_value h, vh_error h) \<and> cache_ok c' \<and> is_loading c' = is_loading c \<and>
    locks_moved k (\<lambda>n. n - 1) c c' \<and> (\<forall>i x. lc_holders c i = Some x \<longrightarrow> (\<exists>h'. lc_holders c' i = Some h' \<and> kept x h')) \<and> lc_total c' = lc_total c"
proof -
  let ?h = "h\<lparr>vh_locks := vh_locks h - 1\<rparr>"
  let ?c = "set_holder k ?h c"
  let ?d = "?c\<lparr>lc_rank := remove1 k (lc_rank ?c) @ [k]\<rparr>"
  note ok1 = set_locks_ok [OF ok h(1), of "vh_locks h - 1"]
  have hk: "lc_holders ?c k = Some ?h" "\<not> vh_loading ?h" using h(2) by simp_all
  have "Get_waited k c = Inr (?d, vh_value h, vh_error h)"
    using itemUsed_loaded(1) [OF ok1 hk] h(1) by (simp add: Get_waited_def deref_def)
  moreover have "locks_moved k (\<lambda>n. n - 1) c ?d" using h(1,3) unat_pred by (simp add: locks_moved_def locks_of_def)
  moreover have "is_loading ?d = is_loading c" using h(1) by (auto simp: is_loading_def fun_eq_iff)
  moreover have "\<exists>h'. lc_holders ?d i = Some h' \<and> kept x h'" if "lc_holders c i = Some x" for i x
    using that h(1) by (auto simp: kept_def)
  ultimately show ?thesis using itemUsed_loaded(2) [OF ok1 hk] by (intro exI [of _ ?d]) simp
qed

text \<open>After these two the cache is within its bound, or everything in it is locked.\<close>

definition tidy :: "('k, 'v, 'e) lru_cache \<Rightarrow> bool" where
  "tidy c \<longleftrightarrow> lc_total c \<le> lc_bound c \<or> (\<forall>k \<in> set (lc_rank c). locks_of c k \<noteq> 0)"

lemma removeItemsIfNeeded_ok:
  assumes ok: "cache_ok c"
  obtains n where "removeItemsIfNeeded c = Inr (evicted n c, removals n c)" "cache_ok (evicted n c)" "tidy (evicted n c)"
proof -
  obtain n where n: "removeItemsIfNeeded c = Inr (evicted n c, removals n c)" "lc_total (evicted n c) \<le> lc_bound c \<or> n = length (lc_rank c)"
    by (rule removeItemsIfNeeded_evicts [OF ok])
  have "tidy (evicted n c)"
  proof (cases "lc_total (evicted n c) \<le> lc_bound c")
    case True
    then show ?thesis by (simp add: tidy_def evicted_def)
  next
    case False
    then have all: "set (victims n c) = {k \<in> set (lc_rank c). locks_of c k = 0}" using n(2) by (simp add: victims_def)
    have "lc_rank (evicted n c) = filter (\<lambda>k. k \<notin> set (victims n c)) (lc_rank c)" by (simp add: evicted_def)
    then have "locks_of c k \<noteq> 0" if "k \<in> set (lc_rank (evicted n c))" for k using that unfolding all by auto
    then show ?thesis unfolding tidy_def locks_evicted by blast
  qed
  then show thesis using n(1) evicted_ok [OF ok] that by blast
qed

lemma Unlock_ok:
  assumes ok: "cache_ok c" and h: "lc_holders c k = Some h" "vh_locks h \<noteq> 0"
  shows "\<exists>c' gone. Unlock k c = Inr (c', gone, None) \<and> cache_ok c' \<and> tidy c' \<and> is_loading c' = is_loading c \<and>
    locks_moved k (\<lambda>n. n - 1) c c' \<and>
    (\<forall>i x. lc_holders c i = Some x \<and> locks_of c i - (if i = k then 1 else 0) \<noteq> 0 \<longrightarrow> (\<exists>h'. lc_holders c' i = Some h' \<and> kept x h'))"
proof -
  let ?c = "set_holder k (h\<lparr>vh_locks := vh_locks h - 1\<rparr>) c"
  have ok1: "cache_ok ?c" by (rule set_locks_ok [OF ok h(1)])
  obtain n where n: "removeItemsIfNeeded ?c = Inr (evicted n ?c, removals n ?c)" "cache_ok (evicted n ?c)" "tidy (evicted n ?c)"
    by (rule removeItemsIfNeeded_ok [OF ok1])
  have "Unlock k c = Inr (evicted n ?c, removals n ?c, None)"
    using h n(1) by (simp add: Unlock_def word_gt_0)
  moreover have moved: "locks_moved k (\<lambda>n. n - 1) c ?c" using h unat_pred by (simp add: locks_moved_def locks_of_def)
  then have "locks_moved k (\<lambda>n. n - 1) c (evicted n ?c)" by (simp add: locks_moved_def locks_evicted)
  moreover have "is_loading ?c = is_loading c" using h(1) by (auto simp: is_loading_def fun_eq_iff)
  then have "is_loading (evicted n ?c) = is_loading c" using loading_evicted [OF ok1] by (simp add: fun_eq_iff)
  moreover have "\<exists>h'. lc_holders (evicted n ?c) i = Some h' \<and> kept x h'"
    if x: "lc_holders c i = Some x" "locks_of c i - (if i = k then 1 else 0) \<noteq> 0" for i x
  proof -
    obtain y where y: "lc_holders ?c i = Some y" "kept x y" using x(1) h(1) by (cases "i = k") (auto simp: kept_def)
    have "locks_of ?c i \<noteq> 0" using moved x(2) by (auto simp: locks_moved_def split: if_splits)
    then have "vh_locks y \<noteq> 0" using y(1) by (auto simp: locks_of_def)
    then show ?thesis using evicted_holders [OF y(1) _ ok1] y(2) by blast
  qed
  ultimately show ?thesis using n(2,3) by (intro exI [of _ "evicted n ?c"] exI [of _ "removals n ?c"]) blast
qed

lemma load_done_ok:
  assumes ok: "cache_ok c" and h: "lc_holders c k = Some h" "vh_loading h"
  shows "\<exists>c' gone. loadAbsentValue k (v, e, bytes) c = Inr (c', gone) \<and> cache_ok c' \<and> tidy c' \<and>
    is_loading c' = (is_loading c)(k := False) \<and> locks_moved k id c c' \<and>
    (locks_of c k \<noteq> 0 \<longrightarrow> (\<exists>h'. lc_holders c' k = Some h' \<and> vh_value h' = v \<and> vh_error h' = e \<and> vh_size h' = bytes)) \<and>
    (\<forall>i x. lc_holders c i = Some x \<and> i \<noteq> k \<and> locks_of c i \<noteq> 0 \<longrightarrow> lc_holders c' i = Some x)"
proof -
  let ?h = "h\<lparr>vh_value := v, vh_error := e, vh_size := bytes, vh_loading := False, vh_listed := True\<rparr>"
  let ?c = "c\<lparr>lc_total := lc_total c + bytes, lc_holders := (lc_holders c)(k \<mapsto> ?h), lc_rank := lc_rank c @ [k]\<rparr>"
  have empty: "vh_value h = None" "vh_error h = None" "\<not> vh_listed h" using cache_okD(3,4) [OF ok h(1)] h(2) by auto
  have k: "k \<notin> set (lc_rank c)" using ranked [OF ok h(1)] h(2) by simp
  have load: "is_loading ?c = (is_loading c)(k := False)" by (auto simp: is_loading_def fun_eq_iff)
  have ok1: "cache_ok ?c"
  proof -
    have sizes: "map (size_of ?c) (lc_rank c) = map (size_of c) (lc_rank c)" "size_of ?c k = bytes" using k by (auto simp: size_of_def)
    have "sum_list (map (size_of ?c) (lc_rank ?c)) = sum_list (map (size_of ?c) (lc_rank c)) + size_of ?c k" by simp
    also have "\<dots> = sum_list (map (size_of c) (lc_rank c)) + bytes" unfolding sizes ..
    also have "\<dots> = lc_total ?c" using cache_okD(5) [OF ok] by simp
    finally have total: "lc_total ?c = sum_list (map (size_of ?c) (lc_rank ?c))" by (rule sym)
    have "set (lc_rank ?c) = dom (lc_holders ?c) - Collect (is_loading ?c)"
      unfolding load using cache_okD(2) [OF ok] h by (auto split: if_splits)
    moreover have "vh_listed x = (\<not> vh_loading x) \<and> (vh_loading x \<longrightarrow> vh_value x = None \<and> vh_error x = None)"
      if "lc_holders ?c i = Some x" for i x
      using that cache_okD(3,4) [OF ok] by (auto split: if_splits)
    ultimately show ?thesis using total cache_okD(1) [OF ok] k by (intro cache_okI) simp_all
  qed
  obtain n where n: "removeItemsIfNeeded ?c = Inr (evicted n ?c, removals n ?c)" "cache_ok (evicted n ?c)" "tidy (evicted n ?c)"
    by (rule removeItemsIfNeeded_ok [OF ok1])
  have "loadAbsentValue k (v, e, bytes) c = Inr (evicted n ?c, removals n ?c)"
    using h empty n(1) by (simp add: loadAbsentValue_def deref_def itemUsed_def)
  moreover have locks: "locks_of ?c i = locks_of c i" for i using h(1) by (simp add: locks_of_def)
  then have "locks_moved k id c (evicted n ?c)" by (simp add: locks_moved_def locks_evicted)
  moreover have "is_loading (evicted n ?c) = (is_loading c)(k := False)" using loading_evicted [OF ok1] load by (simp add: fun_eq_iff)
  moreover have "lc_holders (evicted n ?c) k = Some ?h" if "locks_of c k \<noteq> 0"
    by (rule evicted_holders [OF _ _ ok1]) (use that h(1) in \<open>auto simp: locks_of_def\<close>)
  moreover have "lc_holders (evicted n ?c) i = Some x" if "lc_holders c i = Some x \<and> i \<noteq> k \<and> locks_of c i \<noteq> 0" for i x
    by (rule evicted_holders [OF _ _ ok1]) (use that in \<open>auto simp: locks_of_def\<close>)
  ultimately show ?thesis using n(2,3) by (intro exI [of _ "evicted n ?c"] exI [of _ "removals n ?c"]) auto
qed

lemma Remove_ok:
  assumes ok: "cache_ok c" and idle: "\<not> is_loading c k"
  shows "\<exists>c' gone err. Remove k c = Inr (c', gone, err) \<and> cache_ok c' \<and> is_loading c' = is_loading c \<and> locks_moved k id c c' \<and>
    (\<forall>i x. lc_holders c i = Some x \<and> locks_of c i \<noteq> 0 \<longrightarrow> lc_holders c' i = Some x)"
proof (cases "lc_holders c k")
  case None
  then show ?thesis using ok by (intro exI [of _ c]) (simp add: Remove_def locks_moved_def)
next
  case (Some h)
  show ?thesis
  proof (cases "vh_locks h = 0")
    case False
    then show ?thesis using ok Some by (intro exI [of _ c]) (simp add: Remove_def locks_moved_def word_gt_0)
  next
    case True
    have load: "\<not> vh_loading h" using idle Some by (simp add: is_loading_def)
    then have k: "k \<in> set (lc_rank c)" and listed: "vh_listed h" using ranked [OF ok Some] cache_okD(3) [OF ok Some] by auto
    let ?c = "c\<lparr>lc_holders := (lc_holders c)(k := None), lc_total := lc_total c - vh_size h, lc_rank := remove1 k (lc_rank c)\<rparr>"
    have "\<exists>gone. Remove k c = Inr (?c, gone, None)"
      using Some True listed by (simp add: Remove_def removeSingleItem_def deref_def)
    moreover have loads: "is_loading ?c = is_loading c" using Some load by (auto simp: is_loading_def fun_eq_iff)
    moreover have "locks_moved k id c ?c" using Some True by (simp add: locks_moved_def locks_of_def)
    moreover have "cache_ok ?c"
    proof -
      have vh: "vh_listed x = (\<not> vh_loading x) \<and> (vh_loading x \<longrightarrow> vh_value x = None \<and> vh_error x = None)"
        if "lc_holders ?c i = Some x" for i x
        using that cache_okD(3,4) [OF ok] by (auto split: if_splits)
      have rank: "set (remove1 k (lc_rank c)) = set (lc_rank c) - {k}" using cache_okD(1) [OF ok] by simp
      have dom: "set (lc_rank ?c) = dom (lc_holders ?c) - Collect (is_loading ?c)"
        unfolding loads using cache_okD(2) [OF ok] rank by auto
      have sizes: "map (size_of ?c) (remove1 k (lc_rank c)) = map (size_of c) (remove1 k (lc_rank c))"
        using rank by (auto simp: size_of_def)
      have "size_of c k = vh_size h" using Some by (simp add: size_of_def)
      then have "lc_total ?c = sum_list (map (size_of c) (remove1 k (lc_rank c)))"
        using cache_okD(5) [OF ok] sum_remove1 [OF k, of "size_of c"] by simp
      also have "\<dots> = sum_list (map (size_of ?c) (lc_rank ?c))" unfolding sizes [symmetric] by simp
      finally show ?thesis using dom cache_okD(1) [OF ok] vh by (intro cache_okI) simp_all
    qed
    moreover have "lc_holders ?c i = Some x" if "lc_holders c i = Some x \<and> locks_of c i \<noteq> 0" for i x
      using that Some True by (auto simp: locks_of_def)
    ultimately show ?thesis by blast
  qed
qed

end
