(* ===== verification/GoCacheRun.thy ===== *)
theory GoCacheRun
  imports GoCache
begin

text \<open>
  Runs of the cache with its users and the loads that go on in the background, one call under the mutex per step; the
  invariant relates the counts of locks to the users.
\<close>

section \<open>Runs\<close>

text \<open>
  The cache with its users: the loads that go on, how many calls of \<open>Get\<close> wait for a key, and how often
  users hold a lock of it.  Users unlock what they locked, keys are not removed while they load, and counts of
  locks stay below their word.
\<close>

record ('k, 'v, 'e) cache_run =
  cr_cache :: "('k, 'v, 'e) lru_cache"
  cr_loads :: "'k set"
  cr_gets :: "'k \<Rightarrow> nat"
  cr_held :: "'k \<Rightarrow> nat"

definition cache_start :: "64 word \<Rightarrow> bool \<Rightarrow> ('k, 'v, 'e) cache_run" where
  "cache_start bound remover =
     \<lparr>cr_cache = NewLRUSizeCache bound remover, cr_loads = {}, cr_gets = (\<lambda>k. 0), cr_held = (\<lambda>k. 0)\<rparr>"

definition room :: "('k, 'v, 'e) cache_run \<Rightarrow> 'k \<Rightarrow> bool" where
  "room R k \<longleftrightarrow> cr_held R k + cr_gets R k + 1 < 2 ^ 64"

definition starts :: "'k \<Rightarrow> bool \<Rightarrow> 'k set \<Rightarrow> 'k set" where
  "starts k started ks = (if started then insert k ks else ks)"

inductive cache_step :: "('k, 'v, 'e) cache_run \<Rightarrow> ('k, 'v, 'e) cache_run \<Rightarrow> bool" where
  got: "room R k \<Longrightarrow> Get k (cr_cache R) = Inr (c, Got v e) \<Longrightarrow> cache_step R (R\<lparr>cr_cache := c\<rparr>)"
| waits: "room R k \<Longrightarrow> Get k (cr_cache R) = Inr (c, Waiting started) \<Longrightarrow>
    cache_step R (R\<lparr>cr_cache := c, cr_loads := starts k started (cr_loads R), cr_gets := (cr_gets R)(k := cr_gets R k + 1)\<rparr>)"
| waited: "cr_gets R k > 0 \<Longrightarrow> k \<notin> cr_loads R \<Longrightarrow> Get_waited k (cr_cache R) = Inr (c, v, e) \<Longrightarrow>
    cache_step R (R\<lparr>cr_cache := c, cr_gets := (cr_gets R)(k := cr_gets R k - 1)\<rparr>)"
| locked: "room R k \<Longrightarrow> Lock k (cr_cache R) = Inr (c, started) \<Longrightarrow>
    cache_step R (R\<lparr>cr_cache := c, cr_loads := starts k started (cr_loads R), cr_held := (cr_held R)(k := cr_held R k + 1)\<rparr>)"
| unlocked: "cr_held R k > 0 \<Longrightarrow> Unlock k (cr_cache R) = Inr (c, gone, err) \<Longrightarrow>
    cache_step R (R\<lparr>cr_cache := c, cr_held := (cr_held R)(k := cr_held R k - 1)\<rparr>)"
| loaded: "k \<in> cr_loads R \<Longrightarrow> loadAbsentValue k got (cr_cache R) = Inr (c, gone) \<Longrightarrow>
    cache_step R (R\<lparr>cr_cache := c, cr_loads := cr_loads R - {k}\<rparr>)"
| removed: "k \<notin> cr_loads R \<Longrightarrow> Remove k (cr_cache R) = Inr (c, gone, err) \<Longrightarrow> cache_step R (R\<lparr>cr_cache := c\<rparr>)"

abbreviation cache_runs :: "('k, 'v, 'e) cache_run \<Rightarrow> ('k, 'v, 'e) cache_run \<Rightarrow> bool" where
  "cache_runs \<equiv> rtranclp cache_step"

definition users_ok :: "('k, 'v, 'e) cache_run \<Rightarrow> bool" where
  "users_ok R \<longleftrightarrow> cache_ok (cr_cache R) \<and> cr_loads R = Collect (is_loading (cr_cache R)) \<and>
     (\<forall>k. locks_of (cr_cache R) k = cr_held R k + cr_gets R k)"

lemma users_okD:
  assumes "users_ok R"
  shows "cache_ok (cr_cache R)" "k \<in> cr_loads R \<longleftrightarrow> is_loading (cr_cache R) k" "locks_of (cr_cache R) k = cr_held R k + cr_gets R k"
  using assms unfolding users_ok_def by auto

lemma users_ok_start: "users_ok (cache_start bound remover)"
  using cache_ok_new [of bound remover] by (simp add: users_ok_def cache_start_def NewLRUSizeCache_def is_loading_def locks_of_def)

text \<open>A key with locks has a holder.\<close>

lemma held_holder:
  assumes "users_ok R" and "cr_held R k + cr_gets R k > 0"
  obtains h where "lc_holders (cr_cache R) k = Some h" "vh_locks h \<noteq> 0" "k \<in> cr_loads R \<longleftrightarrow> vh_loading h"
proof -
  have "locks_of (cr_cache R) k > 0" using users_okD(3) [OF assms(1)] assms(2) by simp
  then obtain h where h: "lc_holders (cr_cache R) k = Some h" "vh_locks h \<noteq> 0" by (auto simp: locks_of_def unat_gt_0 split: option.splits)
  then have "k \<in> cr_loads R \<longleftrightarrow> vh_loading h" using users_okD(2) [OF assms(1)] by (simp add: is_loading_def)
  with h show thesis by (rule that)
qed

lemma loading_holder:
  assumes "users_ok R" and "k \<in> cr_loads R"
  obtains h where "lc_holders (cr_cache R) k = Some h" "vh_loading h"
  using assms(2) users_okD(2) [OF assms(1)] that by (auto simp: is_loading_def)

definition stays :: "'k \<Rightarrow> ('k, 'v, 'e) lru_cache \<Rightarrow> ('k, 'v, 'e) lru_cache \<Rightarrow> bool" where
  "stays k c c' \<longleftrightarrow> (\<forall>h. lc_holders c k = Some h \<and> \<not> vh_loading h \<longrightarrow> (\<exists>h'. lc_holders c' k = Some h' \<and> kept h h'))"

lemma staysI: "(\<And>h. lc_holders c k = Some h \<Longrightarrow> \<not> vh_loading h \<Longrightarrow> \<exists>h'. lc_holders c' k = Some h' \<and> kept h h') \<Longrightarrow> stays k c c'"
  by (simp add: stays_def)

lemma kept_refl: "kept h h"
  by (simp add: kept_def)

lemma users_okI:
  assumes "cache_ok (cr_cache R)" and "\<And>k. k \<in> cr_loads R \<longleftrightarrow> is_loading (cr_cache R) k"
    and "\<And>k. locks_of (cr_cache R) k = cr_held R k + cr_gets R k"
  shows "users_ok R"
  unfolding users_ok_def using assms by blast

text \<open>Every step keeps the state good, and the values of the keys that are locked before and after it.\<close>

lemma cache_step_ok:
  assumes step: "cache_step R R'" and ok: "users_ok R"
  shows "users_ok R' \<and> (\<forall>i. cr_held R i + cr_gets R i > 0 \<and> cr_held R' i + cr_gets R' i > 0 \<longrightarrow> stays i (cr_cache R) (cr_cache R'))"
  using step
proof cases
  note d = users_okD [OF ok]
  case (got k c v e)
  have "locks_of (cr_cache R) k + 1 < 2 ^ 64" using got(2) d(3) by (simp add: room_def)
  from Get_ok [OF d(1) this] got(3) have g: "cache_ok c" "is_loading c = (is_loading (cr_cache R))(k := is_loading (cr_cache R) k \<or> lc_holders (cr_cache R) k = None)"
    "locks_moved k id (cr_cache R) c" "lc_holders c = lc_holders (cr_cache R)" "lc_holders (cr_cache R) k \<noteq> None" by auto
  have "users_ok R'" unfolding got(1)
    by (rule users_okI) (use g(1-3,5) d(2,3) in \<open>auto simp: locks_moved_def\<close>)
  moreover have "stays i (cr_cache R) (cr_cache R')" for i unfolding got(1) using g(4) kept_refl by (auto simp: stays_def)
  ultimately show ?thesis by blast
next
  note d = users_okD [OF ok]
  case (waits k c started)
  have "locks_of (cr_cache R) k + 1 < 2 ^ 64" using waits(2) d(3) by (simp add: room_def)
  from Get_ok [OF d(1) this] waits(3) have g: "cache_ok c" "is_loading c = (is_loading (cr_cache R))(k := is_loading (cr_cache R) k \<or> lc_holders (cr_cache R) k = None)"
    "locks_moved k Suc (cr_cache R) c" "started = (lc_holders (cr_cache R) k = None)"
    "\<And>i h. lc_holders (cr_cache R) i = Some h \<Longrightarrow> \<exists>h'. lc_holders c i = Some h' \<and> kept h h'" by auto
  have "users_ok R'" unfolding waits(1)
    by (rule users_okI) (use g(1-4) d(2,3) in \<open>auto simp: locks_moved_def starts_def\<close>)
  moreover have "stays i (cr_cache R) (cr_cache R')" for i unfolding waits(1) using g(5) by (simp add: stays_def)
  ultimately show ?thesis by blast
next
  note d = users_okD [OF ok]
  case (waited k c v e)
  obtain h where h: "lc_holders (cr_cache R) k = Some h" "vh_locks h \<noteq> 0" "k \<in> cr_loads R \<longleftrightarrow> vh_loading h"
    using held_holder [OF ok, of k] waited(2) by auto
  have idle: "\<not> vh_loading h" using h(3) waited(3) by simp
  from Get_waited_ok [OF d(1) h(1) idle h(2)] waited(4) have g: "cache_ok c" "is_loading c = is_loading (cr_cache R)"
    "locks_moved k (\<lambda>n. n - 1) (cr_cache R) c"
    "\<And>i h. lc_holders (cr_cache R) i = Some h \<Longrightarrow> \<exists>h'. lc_holders c i = Some h' \<and> kept h h'" by auto
  have "users_ok R'" unfolding waited(1)
    by (rule users_okI) (use g(1-3) d(2,3) waited(2) in \<open>auto simp: locks_moved_def\<close>)
  moreover have "stays i (cr_cache R) (cr_cache R')" for i unfolding waited(1) using g(4) by (simp add: stays_def)
  ultimately show ?thesis by blast
next
  note d = users_okD [OF ok]
  case (locked k c started)
  have "locks_of (cr_cache R) k + 1 < 2 ^ 64" using locked(2) d(3) by (simp add: room_def)
  from Lock_ok [OF d(1) this] locked(3) have g: "cache_ok c" "is_loading c = (is_loading (cr_cache R))(k := is_loading (cr_cache R) k \<or> lc_holders (cr_cache R) k = None)"
    "locks_moved k Suc (cr_cache R) c" "started = (lc_holders (cr_cache R) k = None)"
    "\<And>i h. lc_holders (cr_cache R) i = Some h \<Longrightarrow> \<exists>h'. lc_holders c i = Some h' \<and> kept h h'" by auto
  have "users_ok R'" unfolding locked(1)
    by (rule users_okI) (use g(1-4) d(2,3) in \<open>auto simp: locks_moved_def starts_def\<close>)
  moreover have "stays i (cr_cache R) (cr_cache R')" for i unfolding locked(1) using g(5) by (simp add: stays_def)
  ultimately show ?thesis by blast
next
  note d = users_okD [OF ok]
  case (unlocked k c gone err)
  obtain h where h: "lc_holders (cr_cache R) k = Some h" "vh_locks h \<noteq> 0" using held_holder [OF ok, of k] unlocked(2) by auto
  from Unlock_ok [OF d(1) h] unlocked(3) have g: "cache_ok c" "is_loading c = is_loading (cr_cache R)"
    "locks_moved k (\<lambda>n. n - 1) (cr_cache R) c"
    "\<And>i x. lc_holders (cr_cache R) i = Some x \<Longrightarrow> locks_of (cr_cache R) i - (if i = k then 1 else 0) \<noteq> 0 \<Longrightarrow> \<exists>h'. lc_holders c i = Some h' \<and> kept x h'"
    by auto
  have "users_ok R'" unfolding unlocked(1)
    by (rule users_okI) (use g(1-3) d(2,3) unlocked(2) in \<open>auto simp: locks_moved_def\<close>)
  moreover have "stays i (cr_cache R) (cr_cache R')" if "cr_held R' i + cr_gets R' i > 0" for i
    unfolding unlocked(1) using g(4) [of i] that d(3) [of i] unlocked(2) by (intro staysI) (cases "i = k"; auto simp: unlocked(1))
  ultimately show ?thesis by simp
next
  note d = users_okD [OF ok]
  case (loaded k got c gone)
  obtain v e b where vb: "got = (v, e, b)" by (cases got)
  obtain h where h: "lc_holders (cr_cache R) k = Some h" "vh_loading h" by (rule loading_holder [OF ok loaded(2)])
  from load_done_ok [OF d(1) h, of v e b] loaded(3) vb have g: "cache_ok c" "is_loading c = (is_loading (cr_cache R))(k := False)"
    "locks_moved k id (cr_cache R) c"
    "\<And>i x. lc_holders (cr_cache R) i = Some x \<Longrightarrow> i \<noteq> k \<Longrightarrow> locks_of (cr_cache R) i \<noteq> 0 \<Longrightarrow> lc_holders c i = Some x" by auto
  have "users_ok R'" unfolding loaded(1)
    by (rule users_okI) (use g(1-3) d(2,3) in \<open>auto simp: locks_moved_def\<close>)
  moreover have "stays i (cr_cache R) (cr_cache R')" if "cr_held R i + cr_gets R i > 0" for i
    unfolding loaded(1) using g(4) [of i] that d(3) [of i] h kept_refl by (intro staysI) (cases "i = k"; auto)
  ultimately show ?thesis by simp
next
  note d = users_okD [OF ok]
  case (removed k c gone err)
  have "\<not> is_loading (cr_cache R) k" using removed(2) d(2) by simp
  from Remove_ok [OF d(1) this] removed(3) have g: "cache_ok c" "is_loading c = is_loading (cr_cache R)" "locks_moved k id (cr_cache R) c"
    "\<And>i x. lc_holders (cr_cache R) i = Some x \<Longrightarrow> locks_of (cr_cache R) i \<noteq> 0 \<Longrightarrow> lc_holders c i = Some x" by auto
  have "users_ok R'" unfolding removed(1)
    by (rule users_okI) (use g(1-3) d(2,3) in \<open>auto simp: locks_moved_def\<close>)
  moreover have "stays i (cr_cache R) (cr_cache R')" if "cr_held R i + cr_gets R i > 0" for i
    unfolding removed(1) using g(4) [of i] that d(3) [of i] kept_refl by (intro staysI) auto
  ultimately show ?thesis by simp
qed

lemma cache_run_ok: "cache_runs R R' \<Longrightarrow> users_ok R \<Longrightarrow> users_ok R'"
  by (induction rule: rtranclp_induct) (use cache_step_ok in blast)+

definition released :: "'k \<Rightarrow> ('k, 'v, 'e) lru_cache \<Rightarrow> ('k, 'v, 'e) lru_cache" where
  "released k c = (case lc_holders c k of None \<Rightarrow> c | Some h \<Rightarrow> set_holder k (h\<lparr>vh_locks := vh_locks h - 1\<rparr>) c)"

end
