(* ===== verification/GoStorage.thy ===== *)
theory GoStorage
  imports GoIoi "HOL-Library.Word" "HOL-Library.Sublist"
begin

text \<open>
  invoker/storage: the keys of the files that an invoker caches, and the folders they are in.  A path is the list of the
  elements that are joined below the folder of the cache; the connector that downloads is a parameter, by its answer.
\<close>

section \<open>Keys\<close>

datatype resource_type = SourceCode | CompiledBinary | CompileOutput | TestInput | TestAnswer | TestOutput | TestStderr
  | Checker | CheckerOutput | Interactor

definition resource_text :: "resource_type \<Rightarrow> string" where
  "resource_text r = (case r of
     SourceCode \<Rightarrow> ''SourceCode'' | CompiledBinary \<Rightarrow> ''CompiledBinary'' | CompileOutput \<Rightarrow> ''CompileOutput''
   | TestInput \<Rightarrow> ''TestInput'' | TestAnswer \<Rightarrow> ''TestAnswer'' | TestOutput \<Rightarrow> ''TestOutput'' | TestStderr \<Rightarrow> ''TestStderr''
   | Checker \<Rightarrow> ''Checker'' | CheckerOutput \<Rightarrow> ''CheckerOutput'' | Interactor \<Rightarrow> ''Interactor'')"

record cache_key =
  ck_epoch :: int
  ck_resource :: resource_type
  ck_problem :: "64 word"
  ck_submit :: "64 word"
  ck_test :: "64 word"

definition problemIDKeyGen :: "int \<Rightarrow> resource_type \<Rightarrow> 64 word list \<Rightarrow> panic + cache_key" where
  "problemIDKeyGen epoch r vals = (case vals of
     [v] \<Rightarrow> Inr \<lparr>ck_epoch = epoch, ck_resource = r, ck_problem = v, ck_submit = 0, ck_test = 0\<rparr>
   | _ \<Rightarrow> Inl (Panic ''wrong usage of storage cache, too many ids passed''))"

definition submitKeyGen :: "int \<Rightarrow> resource_type \<Rightarrow> 64 word list \<Rightarrow> panic + cache_key" where
  "submitKeyGen epoch r vals = (case vals of
     [v] \<Rightarrow> Inr \<lparr>ck_epoch = epoch, ck_resource = r, ck_problem = 0, ck_submit = v, ck_test = 0\<rparr>
   | _ \<Rightarrow> Inl (Panic ''wrong usage of storage cache, too many ids passed''))"

definition testKeyGen :: "int \<Rightarrow> resource_type \<Rightarrow> 64 word list \<Rightarrow> panic + cache_key" where
  "testKeyGen epoch r vals = (case vals of
     [v, w] \<Rightarrow> Inr \<lparr>ck_epoch = epoch, ck_resource = r, ck_problem = v, ck_submit = 0, ck_test = w\<rparr>
   | _ \<Rightarrow> Inl (Panic ''wrong usage of storage cache, exactly 2 ids should be passed''))"

text \<open>The generators of the getters.\<close>

definition newSourceCache :: "int \<Rightarrow> 64 word list \<Rightarrow> panic + cache_key" where
  "newSourceCache epoch vals = submitKeyGen epoch SourceCode vals"

definition newBinaryCache :: "int \<Rightarrow> 64 word list \<Rightarrow> panic + cache_key" where
  "newBinaryCache epoch vals = submitKeyGen epoch CompiledBinary vals"

definition newCheckerCache :: "int \<Rightarrow> 64 word list \<Rightarrow> panic + cache_key" where
  "newCheckerCache epoch vals = problemIDKeyGen epoch Checker vals"

definition newInteractorCache :: "int \<Rightarrow> 64 word list \<Rightarrow> panic + cache_key" where
  "newInteractorCache epoch vals = submitKeyGen epoch Interactor vals"

definition newTestInputCache :: "int \<Rightarrow> 64 word list \<Rightarrow> panic + cache_key" where
  "newTestInputCache epoch vals = testKeyGen epoch TestInput vals"

definition newTestAnswerCache :: "int \<Rightarrow> 64 word list \<Rightarrow> panic + cache_key" where
  "newTestAnswerCache epoch vals = testKeyGen epoch TestAnswer vals"

section \<open>Folders\<close>

definition uint_text :: "64 word \<Rightarrow> string" where
  "uint_text v = string_of_nat (unat v)"

definition setRequestBaseFolder :: "cache_key \<Rightarrow> panic + string list" where
  "setRequestBaseFolder k = (let parent = [string_of_int (ck_epoch k), resource_text (ck_resource k)] in
     if ck_resource k \<in> {SourceCode, CompiledBinary, CompileOutput} then Inr (parent @ [uint_text (ck_submit k)])
     else if ck_resource k \<in> {Checker, Interactor} then Inr (parent @ [uint_text (ck_problem k)])
     else if ck_resource k \<in> {TestInput, TestAnswer} then Inr (parent @ [uint_text (ck_problem k) @ ''-'' @ uint_text (ck_test k)])
     else Inl (Panic ''Can not fill base folder for storageconn request''))"

text \<open>The download puts the file under its name into the folder of the request, or fails.\<close>

datatype download = Downloaded string "64 word" | FileNotFound | DownloadFailed string

definition getFiles :: "download \<Rightarrow> cache_key \<Rightarrow> panic + string list option \<times> string option \<times> 64 word" where
  "getFiles answer k = bindE (setRequestBaseFolder k) (\<lambda>folder.
     case answer of
       FileNotFound \<Rightarrow> Inr (None, Some ''file not exists'', 0)
     | DownloadFailed e \<Rightarrow> Inr (None, Some e, 0)
     | Downloaded name bytes \<Rightarrow> Inr (Some (folder @ [name]), None, bytes))"

text \<open>The folder that is removed with all it holds.\<close>

definition cleanUpFile :: "string list option \<Rightarrow> string list option" where
  "cleanUpFile file = map_option butlast file"

section \<open>Apart\<close>

lemma digits_no_dash: "CHR ''-'' \<notin> set (string_of_nat n)"
proof
  assume "CHR ''-'' \<in> set (string_of_nat n)"
  then have "is_digit CHR ''-''" using string_of_nat_digits by (auto simp: list_all_iff)
  then show False by (simp add: is_digit_def)
qed

lemma string_of_int_inj: "string_of_int m = string_of_int n \<longleftrightarrow> m = n"
proof -
  have "CHR ''-'' # s \<noteq> string_of_nat k" for s k using digits_no_dash by (metis list.set_intros(1))
  then show ?thesis by (auto simp: string_of_int_def eq_nat_nat_iff split: if_splits dest: sym)
qed

lemma uint_text_inj: "uint_text v = uint_text w \<longleftrightarrow> v = w"
  by (simp add: uint_text_def word_unat_eq_iff)

lemma dash_inj: "uint_text a @ ''-'' @ uint_text b = uint_text c @ ''-'' @ uint_text d \<longleftrightarrow> a = c \<and> b = d"
proof
  have split: "takeWhile (\<lambda>x. x \<noteq> CHR ''-'') (uint_text x @ ''-'' @ y) = uint_text x"
    "dropWhile (\<lambda>x. x \<noteq> CHR ''-'') (uint_text x @ ''-'' @ y) = ''-'' @ y" for x y
    using digits_no_dash [of "unat x"] by (auto simp: uint_text_def takeWhile_append2 dropWhile_append2 takeWhile_append dropWhile_append)
  assume eq: "uint_text a @ ''-'' @ uint_text b = uint_text c @ ''-'' @ uint_text d"
  have "uint_text a = uint_text c" "''-'' @ uint_text b = ''-'' @ uint_text d" using split [of a] split [of c] eq by metis+
  then show "a = c \<and> b = d" by (simp add: uint_text_inj)
qed simp

lemma resource_text_inj: "resource_text r = resource_text r' \<longleftrightarrow> r = r'"
  by (cases r; cases r'; simp add: resource_text_def)

text \<open>The getters that jobs use.\<close>

definition used_getters :: "(int \<Rightarrow> 64 word list \<Rightarrow> panic + cache_key) set" where
  "used_getters = {newSourceCache, newBinaryCache, newCheckerCache, newTestInputCache, newTestAnswerCache}"

lemma submitKeyGen_eq: "submitKeyGen e r vals = Inr k \<longleftrightarrow> (\<exists>v. vals = [v] \<and> k = \<lparr>ck_epoch = e, ck_resource = r, ck_problem = 0, ck_submit = v, ck_test = 0\<rparr>)"
  by (auto simp: submitKeyGen_def split: list.splits)

lemma problemIDKeyGen_eq: "problemIDKeyGen e r vals = Inr k \<longleftrightarrow> (\<exists>v. vals = [v] \<and> k = \<lparr>ck_epoch = e, ck_resource = r, ck_problem = v, ck_submit = 0, ck_test = 0\<rparr>)"
  by (auto simp: problemIDKeyGen_def split: list.splits)

lemma testKeyGen_eq: "testKeyGen e r vals = Inr k \<longleftrightarrow> (\<exists>v w. vals = [v, w] \<and> k = \<lparr>ck_epoch = e, ck_resource = r, ck_problem = v, ck_submit = 0, ck_test = w\<rparr>)"
  by (auto simp: testKeyGen_def split: list.splits)

lemmas key_gens = newSourceCache_def newBinaryCache_def newCheckerCache_def newTestInputCache_def newTestAnswerCache_def
  submitKeyGen_eq problemIDKeyGen_eq testKeyGen_eq

text \<open>Such a key has one of three shapes.\<close>

lemma used_key:
  assumes "g \<in> used_getters" and "g e vals = Inr k"
  obtains (submit) r v where "r \<in> {SourceCode, CompiledBinary}" "k = \<lparr>ck_epoch = e, ck_resource = r, ck_problem = 0, ck_submit = v, ck_test = 0\<rparr>"
  | (problem) v where "k = \<lparr>ck_epoch = e, ck_resource = Checker, ck_problem = v, ck_submit = 0, ck_test = 0\<rparr>"
  | (test) r v w where "r \<in> {TestInput, TestAnswer}" "k = \<lparr>ck_epoch = e, ck_resource = r, ck_problem = v, ck_submit = 0, ck_test = w\<rparr>"
  using assms by (auto simp: used_getters_def key_gens)

lemma used_folder:
  assumes "g \<in> used_getters" and "g e vals = Inr k"
  shows "\<exists>id. setRequestBaseFolder k = Inr [string_of_int e, resource_text (ck_resource k), id]"
  using used_key [OF assms] by cases (auto simp: setRequestBaseFolder_def Let_def)

lemma folders_apart:
  assumes g: "g \<in> used_getters" "g e vals = Inr k" and g': "g' \<in> used_getters" "g' e' vals' = Inr k'"
    and same: "setRequestBaseFolder k = setRequestBaseFolder k'"
  shows "k = k'"
proof -
  have "e = e'" "ck_resource k = ck_resource k'"
    using used_folder [OF g] used_folder [OF g'] same by (auto simp: string_of_int_inj resource_text_inj)
  with same show ?thesis
    by (cases rule: used_key [OF g]; cases rule: used_key [OF g'])
      (auto simp: setRequestBaseFolder_def Let_def uint_text_inj dash_inj [simplified])
qed

end
