(* ===== verification/GoCacheClaims.thy ===== *)
theory GoCacheClaims
  imports GoCacheRun GoStorage
begin

text \<open>The properties of the cache of files and of its folders, with a concrete instance of each one.\<close>

section \<open>Properties\<close>

text \<open>The cache never panics and never refuses users that unlock what they locked: in every state that its users can reach, getting
  and locking return, a waiting \<open>Get\<close> has its value once the load is over, an unlock of a held lock succeeds, a load
  delivers, and a key that is not loading can be removed.\<close>

theorem cache_never_panics:
  assumes "cache_runs (cache_start bound remover) R"
  shows "(room R k \<longrightarrow> (\<exists>c g. Get k (cr_cache R) = Inr (c, g)) \<and> (\<exists>c started. Lock k (cr_cache R) = Inr (c, started))) \<and>
    (cr_gets R k > 0 \<and> k \<notin> cr_loads R \<longrightarrow> (\<exists>c v e. Get_waited k (cr_cache R) = Inr (c, v, e))) \<and>
    (cr_held R k > 0 \<longrightarrow> (\<exists>c gone. Unlock k (cr_cache R) = Inr (c, gone, None))) \<and>
    (k \<in> cr_loads R \<longrightarrow> (\<exists>c gone. loadAbsentValue k (v, e, b) (cr_cache R) = Inr (c, gone))) \<and>
    (k \<notin> cr_loads R \<longrightarrow> (\<exists>c gone err. Remove k (cr_cache R) = Inr (c, gone, err)))"
proof -
  have ok: "users_ok R" by (rule cache_run_ok [OF assms users_ok_start])
  note d = users_okD [OF ok]
  have 1: "(\<exists>c g. Get k (cr_cache R) = Inr (c, g)) \<and> (\<exists>c started. Lock k (cr_cache R) = Inr (c, started))" if "room R k"
  proof -
    have "locks_of (cr_cache R) k + 1 < 2 ^ 64" using that d(3) by (simp add: room_def)
    then show ?thesis using Get_ok [OF d(1)] Lock_ok [OF d(1)] by blast
  qed
  have 2: "\<exists>c v e. Get_waited k (cr_cache R) = Inr (c, v, e)" if g: "cr_gets R k > 0" "k \<notin> cr_loads R"
  proof -
    obtain h where h: "lc_holders (cr_cache R) k = Some h" "vh_locks h \<noteq> 0" "k \<in> cr_loads R \<longleftrightarrow> vh_loading h"
      using held_holder [OF ok, of k] g(1) by auto
    then show ?thesis using Get_waited_ok [OF d(1) h(1) _ h(2)] g(2) by blast
  qed
  have 3: "\<exists>c gone. Unlock k (cr_cache R) = Inr (c, gone, None)" if held: "cr_held R k > 0"
  proof -
    obtain h where h: "lc_holders (cr_cache R) k = Some h" "vh_locks h \<noteq> 0" using held_holder [OF ok, of k] held by auto
    then show ?thesis using Unlock_ok [OF d(1) h] by blast
  qed
  have 4: "\<exists>c gone. loadAbsentValue k (v, e, b) (cr_cache R) = Inr (c, gone)" if load: "k \<in> cr_loads R"
  proof -
    obtain h where h: "lc_holders (cr_cache R) k = Some h" "vh_loading h" by (rule loading_holder [OF ok load])
    then show ?thesis using load_done_ok [OF d(1) h] by blast
  qed
  have 5: "\<exists>c gone err. Remove k (cr_cache R) = Inr (c, gone, err)" if "k \<notin> cr_loads R"
    using Remove_ok [OF d(1)] that d(2) by blast
  show ?thesis using 1 2 3 4 5 by blast
qed

text \<open>A key that is asked for and loads, for the instances.\<close>

definition sample_waiting :: "(nat, string, string) cache_run" where
  "sample_waiting = (cache_start 10 True)\<lparr>cr_cache := set_holder 5 fresh_holder (NewLRUSizeCache 10 True), cr_loads := {5},
     cr_gets := (\<lambda>k. 0)(5 := 1)\<rparr>"

lemma sample_waiting_run: "cache_runs (cache_start 10 True) sample_waiting"
proof -
  have "Get 5 (NewLRUSizeCache 10 True) = Inr (set_holder 5 fresh_holder (NewLRUSizeCache 10 True), Waiting True)"
    by (simp add: Get_def lockAndGetHolder_def NewLRUSizeCache_def Let_def)
  then have "cache_step (cache_start 10 True) sample_waiting"
    using waits [of "cache_start 10 True" 5 "set_holder 5 fresh_holder (NewLRUSizeCache 10 True)" True]
    by (simp add: room_def cache_start_def sample_waiting_def starts_def)
  then show ?thesis by (rule r_into_rtranclp)
qed

lemma cache_never_panics_witness:
  "\<exists>c gone. loadAbsentValue 5 (Some ''file'', None, 20) (cr_cache sample_waiting) = Inr (c, gone)"
  using cache_never_panics [OF sample_waiting_run, of 5 "Some ''file''" None 20] by (simp add: sample_waiting_def)

text \<open>C21. What is locked stays: as long as a user holds a lock of a loaded key, or waits for it, no step of the cache removes it or
  changes its value, error or size.\<close>

theorem cache_keeps_locked:
  assumes "cache_runs (cache_start bound remover) R" and "cache_step R R'"
    and "cr_held R k + cr_gets R k > 0" and "cr_held R' k + cr_gets R' k > 0"
    and "lc_holders (cr_cache R) k = Some h" and "\<not> vh_loading h"
  shows "\<exists>h'. lc_holders (cr_cache R') k = Some h' \<and> vh_value h' = vh_value h \<and> vh_error h' = vh_error h \<and> vh_size h' = vh_size h"
  using cache_step_ok [OF assms(2) cache_run_ok [OF assms(1) users_ok_start]] assms(3-6) by (auto simp: stays_def kept_def)

text \<open>The file arrived, and it is larger than the cache.\<close>

definition sample_loaded :: "(nat, string, string) cache_run" where
  "sample_loaded = sample_waiting\<lparr>cr_cache := \<lparr>lc_holders = [5 \<mapsto> \<lparr>vh_value = Some ''file'', vh_error = None, vh_locks = 1, vh_size = 20,
     vh_loading = False, vh_listed = True\<rparr>], lc_remover = True, lc_bound = 10, lc_total = 20, lc_rank = [5]\<rparr>, cr_loads := {}\<rparr>"

lemma sample_load: "loadAbsentValue 5 (Some ''file'', None, 20) (cr_cache sample_waiting) = Inr (cr_cache sample_loaded, [])"
  by (simp add: loadAbsentValue_def sample_waiting_def sample_loaded_def deref_def itemUsed_def removeItemsIfNeeded_def NewLRUSizeCache_def)

lemma sample_loaded_run: "cache_runs (cache_start 10 True) sample_loaded"
proof -
  have "cache_step sample_waiting (sample_waiting\<lparr>cr_cache := cr_cache sample_loaded, cr_loads := cr_loads sample_waiting - {5}\<rparr>)"
    using sample_load by (intro loaded) (simp_all add: sample_waiting_def)
  moreover have "sample_waiting\<lparr>cr_cache := cr_cache sample_loaded, cr_loads := cr_loads sample_waiting - {5}\<rparr> = sample_loaded"
    by (simp add: sample_waiting_def sample_loaded_def)
  ultimately show ?thesis using rtranclp.rtrancl_into_rtrancl [OF sample_waiting_run] by simp
qed

lemma cache_keeps_locked_witness:
  "\<exists>R'. cache_step sample_loaded R' \<and> (\<exists>h'. lc_holders (cr_cache R') 5 = Some h' \<and> vh_value h' = Some ''file'')"
proof -
  obtain c where c: "Lock 5 (cr_cache sample_loaded) = Inr (c, False)"
    by (simp add: Lock_def lockAndGetHolder_def sample_loaded_def itemUsed_def deref_def Let_def)
  let ?R = "sample_loaded\<lparr>cr_cache := c, cr_loads := starts 5 False (cr_loads sample_loaded),
    cr_held := (cr_held sample_loaded)(5 := cr_held sample_loaded 5 + 1)\<rparr>"
  have step: "cache_step sample_loaded ?R"
    by (rule locked [OF _ c]) (simp add: room_def sample_loaded_def sample_waiting_def cache_start_def)
  have "0 < cr_held sample_loaded 5 + cr_gets sample_loaded 5" "0 < cr_held ?R 5 + cr_gets ?R 5"
    by (simp_all add: sample_loaded_def sample_waiting_def cache_start_def)
  from cache_keeps_locked [OF sample_loaded_run step this] have "\<exists>h'. lc_holders (cr_cache ?R) 5 = Some h' \<and> vh_value h' = Some ''file''"
    by (auto simp: sample_loaded_def)
  with step show ?thesis by blast
qed

text \<open>The wait for the file is over, and a user locks it.\<close>

definition sample_idle :: "(nat, string, string) cache_run" where
  "sample_idle = sample_loaded\<lparr>cr_cache := \<lparr>lc_holders = [5 \<mapsto> \<lparr>vh_value = Some ''file'', vh_error = None, vh_locks = 0, vh_size = 20,
     vh_loading = False, vh_listed = True\<rparr>], lc_remover = True, lc_bound = 10, lc_total = 20, lc_rank = [5]\<rparr>, cr_gets := (\<lambda>k. 0)\<rparr>"

lemma sample_idle_run: "cache_runs (cache_start 10 True) sample_idle"
proof -
  have "Get_waited 5 (cr_cache sample_loaded) = Inr (cr_cache sample_idle, Some ''file'', None)"
    by (simp add: Get_waited_def sample_loaded_def sample_idle_def deref_def itemUsed_def)
  then have "cache_step sample_loaded (sample_loaded\<lparr>cr_cache := cr_cache sample_idle, cr_gets := (cr_gets sample_loaded)(5 := cr_gets sample_loaded 5 - 1)\<rparr>)"
    by (rule waited [rotated 2]) (simp_all add: sample_loaded_def sample_waiting_def)
  moreover have "sample_loaded\<lparr>cr_cache := cr_cache sample_idle, cr_gets := (cr_gets sample_loaded)(5 := cr_gets sample_loaded 5 - 1)\<rparr> = sample_idle"
    by (auto simp: sample_loaded_def sample_waiting_def sample_idle_def fun_eq_iff)
  ultimately show ?thesis using rtranclp.rtrancl_into_rtrancl [OF sample_loaded_run] by simp
qed

definition sample_held :: "(nat, string, string) cache_run" where
  "sample_held = sample_idle\<lparr>cr_cache := cr_cache sample_loaded, cr_held := (\<lambda>k. 0)(5 := 1)\<rparr>"

lemma sample_held_run: "cache_runs (cache_start 10 True) sample_held"
proof -
  have "Lock 5 (cr_cache sample_idle) = Inr (cr_cache sample_loaded, False)"
    by (simp add: Lock_def lockAndGetHolder_def sample_loaded_def sample_idle_def deref_def itemUsed_def Let_def)
  then have "cache_step sample_idle (sample_idle\<lparr>cr_cache := cr_cache sample_loaded, cr_loads := starts 5 False (cr_loads sample_idle),
      cr_held := (cr_held sample_idle)(5 := cr_held sample_idle 5 + 1)\<rparr>)"
    by (rule locked [rotated]) (simp add: room_def sample_loaded_def sample_waiting_def sample_idle_def cache_start_def)
  moreover have "sample_idle\<lparr>cr_cache := cr_cache sample_loaded, cr_loads := starts 5 False (cr_loads sample_idle),
      cr_held := (cr_held sample_idle)(5 := cr_held sample_idle 5 + 1)\<rparr> = sample_held"
    by (simp add: sample_held_def sample_loaded_def sample_waiting_def sample_idle_def cache_start_def starts_def)
  ultimately show ?thesis using rtranclp.rtrancl_into_rtrancl [OF sample_idle_run] by simp
qed

text \<open>C22. An unlock removes the least recently used values that nobody locks any more, and no more than it must: it goes through the
  keys from the one not used for longest, and removes the unlocked ones until the size is within the bound or none is left; the
  remover is called for exactly these, in that order.\<close>

theorem unlock_evicts_least_recent:
  assumes "cache_runs (cache_start bound remover) R" and "cr_held R k > 0"
  shows "\<exists>n \<le> length (lc_rank (cr_cache R)). let c = released k (cr_cache R) in
    Unlock k (cr_cache R) = Inr (evicted n c, removals n c, None) \<and>
    (\<forall>i < n. lc_bound c < lc_total (evicted i c)) \<and> (lc_total (evicted n c) \<le> lc_bound c \<or> n = length (lc_rank (cr_cache R)))"
proof -
  have ok: "users_ok R" by (rule cache_run_ok [OF assms(1) users_ok_start])
  obtain h where h: "lc_holders (cr_cache R) k = Some h" "vh_locks h \<noteq> 0" using held_holder [OF ok, of k] assms(2) by auto
  let ?c = "released k (cr_cache R)"
  have c: "?c = set_holder k (h\<lparr>vh_locks := vh_locks h - 1\<rparr>) (cr_cache R)" using h(1) by (simp add: released_def)
  have ok1: "cache_ok ?c" unfolding c by (rule set_locks_ok [OF users_okD(1) [OF ok] h(1)])
  have rank: "lc_rank ?c = lc_rank (cr_cache R)" by (simp add: c)
  obtain n where n: "removeItemsIfNeeded ?c = Inr (evicted n ?c, removals n ?c)" "n \<le> length (lc_rank ?c)"
    "\<forall>i < n. lc_bound ?c < lc_total (evicted i ?c)" "lc_total (evicted n ?c) \<le> lc_bound ?c \<or> n = length (lc_rank ?c)"
    using removeItemsIfNeeded_evicts [OF ok1] by metis
  have "Unlock k (cr_cache R) = Inr (evicted n ?c, removals n ?c, None)" using h n(1) by (simp add: Unlock_def word_gt_0 c [symmetric])
  then show ?thesis using n(2-4) unfolding rank Let_def by blast
qed

lemma unlock_evicts_least_recent_witness:
  "\<exists>c. Unlock 5 (cr_cache sample_held) = Inr (c, [(5, Some ''file'')], None) \<and> lc_rank c = []"
proof -
  let ?c = "released 5 (cr_cache sample_held)"
  have c: "?c = cr_cache sample_idle" by (simp add: released_def sample_held_def sample_idle_def sample_loaded_def)
  have "cr_held sample_held 5 > 0" by (simp add: sample_held_def)
  from unlock_evicts_least_recent [OF sample_held_run this] obtain n where n: "n \<le> length (lc_rank (cr_cache sample_held))"
    "Unlock 5 (cr_cache sample_held) = Inr (evicted n ?c, removals n ?c, None)"
    "lc_total (evicted n ?c) \<le> lc_bound ?c \<or> n = length (lc_rank (cr_cache sample_held))"
    unfolding Let_def by blast
  have len: "length (lc_rank (cr_cache sample_held)) = 1" by (simp add: sample_held_def sample_loaded_def)
  have "\<not> lc_total (evicted 0 ?c) \<le> lc_bound ?c" by (simp add: evicted_0 c sample_idle_def)
  then have "n \<noteq> 0" using n(3) unfolding len by (metis zero_neq_one)
  then have "n = 1" using n(1) unfolding len by simp
  moreover have "removals 1 ?c = [(5, Some ''file'')]" "lc_rank (evicted 1 ?c) = []"
    by (simp_all add: c sample_idle_def removals_def victims_def locks_of_def evicted_def)
  ultimately show ?thesis using n(2) by auto
qed

text \<open>C23. The size that the cache counts is that of its values, and it is within the bound after every load and every unlock unless
  all that is loaded is locked.  The end of a waiting \<open>Get\<close> does not look at the bound: the cache can stay above it
  with nothing locked, waited for or loading.\<close>

theorem cache_bound:
  "(\<forall>R :: ('k, 'v, 'e) cache_run. cache_runs (cache_start bound remover) R \<longrightarrow>
      lc_total (cr_cache R) = (\<Sum>k \<leftarrow> lc_rank (cr_cache R). size_of (cr_cache R) k) \<and>
      (\<forall>k got c gone. k \<in> cr_loads R \<and> loadAbsentValue k got (cr_cache R) = Inr (c, gone) \<longrightarrow> tidy c) \<and>
      (\<forall>k c gone. cr_held R k > 0 \<and> Unlock k (cr_cache R) = Inr (c, gone, None) \<longrightarrow> tidy c)) \<and>
    (\<exists>R :: (nat, string, string) cache_run. cache_runs (cache_start 10 True) R \<and> lc_bound (cr_cache R) < lc_total (cr_cache R) \<and>
      cr_loads R = {} \<and> cr_held R = (\<lambda>k. 0) \<and> cr_gets R = (\<lambda>k. 0))"
proof (intro conjI allI impI)
  fix R :: "('k, 'v, 'e) cache_run"
  assume run: "cache_runs (cache_start bound remover) R"
  have ok: "users_ok R" by (rule cache_run_ok [OF run users_ok_start])
  note d = users_okD [OF ok]
  show "lc_total (cr_cache R) = (\<Sum>k \<leftarrow> lc_rank (cr_cache R). size_of (cr_cache R) k)" by (rule cache_okD(5) [OF d(1)])
  show "tidy c" if l: "k \<in> cr_loads R \<and> loadAbsentValue k got (cr_cache R) = Inr (c, gone)" for k got c gone
  proof -
    obtain v e b where vb: "got = (v, e, b)" by (cases got)
    obtain h where h: "lc_holders (cr_cache R) k = Some h" "vh_loading h" using loading_holder [OF ok] l by blast
    then show ?thesis using load_done_ok [OF d(1) h, of v e b] l vb by auto
  qed
  show "tidy c" if u: "cr_held R k > 0 \<and> Unlock k (cr_cache R) = Inr (c, gone, None)" for k c gone
  proof -
    obtain h where h: "lc_holders (cr_cache R) k = Some h" "vh_locks h \<noteq> 0" using held_holder [OF ok, of k] u by auto
    then show ?thesis using Unlock_ok [OF d(1) h] u by auto
  qed
next
  show "\<exists>R :: (nat, string, string) cache_run. cache_runs (cache_start 10 True) R \<and> lc_bound (cr_cache R) < lc_total (cr_cache R) \<and>
      cr_loads R = {} \<and> cr_held R = (\<lambda>k. 0) \<and> cr_gets R = (\<lambda>k. 0)"
    using sample_idle_run
    by (intro exI [of _ sample_idle]) (simp add: sample_idle_def sample_loaded_def sample_waiting_def cache_start_def)
qed

lemma cache_bound_witness: "tidy (cr_cache sample_loaded)"
proof -
  have "5 \<in> cr_loads sample_waiting" by (simp add: sample_waiting_def)
  then show ?thesis
    using cache_bound [where bound = 10 and remover = True, THEN conjunct1, rule_format, OF sample_waiting_run] sample_load by blast
qed

text \<open>Two calls that only tests make break this: inserting does not count the size that removing subtracts, and removing a key that was
  locked and unlocked while it loads dereferences nil.\<close>

lemma insert_not_counted:
  "bindE (Insert 5 ''file'' 1 (NewLRUSizeCache 10 True)) (\<lambda>(c, err). bindE (Remove 5 c) (\<lambda>(c, gone, err). Inr (lc_total c)))
     = (Inr (2 ^ 64 - 1) :: panic + 64 word)"
  by (simp add: Insert_def Remove_def NewLRUSizeCache_def itemUsed_def removeSingleItem_def deref_def)

lemma remove_loading_panics:
  "bindE (Lock 5 (NewLRUSizeCache 10 True)) (\<lambda>(c, started). bindE (Unlock 5 c) (\<lambda>(c, gone, err). Remove 5 c))
     = Inl (Panic ''invalid memory address or nil pointer dereference'')"
  by (simp add: Lock_def Unlock_def Remove_def lockAndGetHolder_def NewLRUSizeCache_def itemUsed_def removeSingleItem_def
      removeItemsIfNeeded_def deref_def Let_def)

section \<open>Files\<close>

text \<open>C24. Removing a file from the cache never takes another one with it: the folder that is removed with a file holds that file and
  none of those of other keys, for all keys of the getters that jobs use.\<close>

theorem storage_keys_apart:
  assumes "g \<in> used_getters" and "g' \<in> used_getters" and "g e vals = Inr k" and "g' e' vals' = Inr k'" and "k \<noteq> k'"
    and "getFiles (Downloaded name b) k = Inr (Some file, err, n)" and "getFiles (Downloaded name' b') k' = Inr (Some file', err', n')"
  shows "\<exists>folder. cleanUpFile (Some file) = Some folder \<and> prefix folder file \<and> \<not> prefix folder file'"
proof -
  obtain f f' where f: "setRequestBaseFolder k = Inr f" "length f = 3" and f': "setRequestBaseFolder k' = Inr f'" "length f' = 3"
    using used_folder [OF assms(1,3)] used_folder [OF assms(2,4)] by auto
  have "f \<noteq> f'" using folders_apart [OF assms(1,3,2,4)] assms(5) f(1) f'(1) by auto
  have files: "file = f @ [name]" "file' = f' @ [name']"
    using assms(6,7) f(1) f'(1) by (simp_all add: getFiles_def)
  have "\<not> prefix f file'"
  proof
    assume "prefix f file'"
    then have "prefix f f'" using f(2) f'(2) unfolding files by (auto simp: prefix_snoc)
    then show False using \<open>f \<noteq> f'\<close> f(2) f'(2) by (auto simp: prefix_def)
  qed
  then show ?thesis by (intro exI [of _ f]) (simp add: cleanUpFile_def files)
qed

lemma storage_keys_apart_witness:
  "\<exists>folder. cleanUpFile (Some [''0'', ''Checker'', ''5'', ''check'']) = Some folder \<and>
     prefix folder [''0'', ''Checker'', ''5'', ''check''] \<and> \<not> prefix folder [''0'', ''TestInput'', ''5-1'', ''input'']"
proof -
  let ?k = "\<lparr>ck_epoch = 0, ck_resource = Checker, ck_problem = 5, ck_submit = 0, ck_test = 0\<rparr>"
  let ?k' = "\<lparr>ck_epoch = 0, ck_resource = TestInput, ck_problem = 5, ck_submit = 0, ck_test = 1\<rparr>"
  have num: "string_of_nat 0 = ''0''" "string_of_nat 1 = ''1''" "string_of_nat 5 = ''5''" by code_simp+
  have "newCheckerCache 0 [5] = Inr ?k" "newTestInputCache 0 [5, 1] = Inr ?k'" by (simp_all add: key_gens)
  moreover have "?k \<noteq> ?k'" by simp
  moreover have "getFiles (Downloaded ''check'' 1) ?k = Inr (Some [''0'', ''Checker'', ''5'', ''check''], None, 1)"
    "getFiles (Downloaded ''input'' 1) ?k' = Inr (Some [''0'', ''TestInput'', ''5-1'', ''input''], None, 1)"
    using num by (simp_all add: getFiles_def setRequestBaseFolder_def Let_def string_of_int_def resource_text_def uint_text_def)
  ultimately show ?thesis
    using storage_keys_apart [of newCheckerCache newTestInputCache 0 "[5]" ?k 0 "[5, 1]" ?k' "''check''" 1 _ None 1 "''input''" 1 _ None 1]
    by (simp add: used_getters_def)
qed

text \<open>The getter of interactors, which no job uses yet, asks for the interactor of problem 0 whatever its id, and puts all
  interactors into one folder, under different keys.\<close>

lemma interactors_share:
  assumes "newInteractorCache e [v] = Inr k" and "newInteractorCache e [w] = Inr k'" and "v \<noteq> w"
  shows "k \<noteq> k' \<and> ck_problem k = 0 \<and> setRequestBaseFolder k = setRequestBaseFolder k'"
  using assms by (auto simp: newInteractorCache_def submitKeyGen_def setRequestBaseFolder_def Let_def)

end
