(* ===== verification/GoSandbox.thy ===== *)
theory GoSandbox
  imports GoModels
begin

text \<open>
  invoker/sandbox: what the two sandboxes make of a run of a program.  The operating system is a parameter, by how the
  process ended: its state, errors, and for isolate the lines of the meta file it wrote.
  Messages leave out the number of the sandbox and why the meta file does not open.
\<close>

section \<open>Runs\<close>

record run_limits =
  rl_time :: "64 word"
  rl_memory :: "64 word"
  rl_wall :: "64 word"
  rl_threads :: int
  rl_open_files :: "64 word"
  rl_output :: "64 word"

text \<open>The verdict of a result is the empty string until it is set.\<close>

record run_result =
  rr_err :: "string option"
  rr_verdict :: verdict
  rr_stats :: statistics
  rr_points :: "jsnum option"

definition fresh_run :: run_result where
  "fresh_run = \<lparr>rr_err = None, rr_verdict = OtherVerdict '''',
     rr_stats = \<lparr>st_time = 0, st_memory = 0, st_wall_time = 0, st_exit_code = 0\<rparr>, rr_points = None\<rparr>"

section \<open>The simple sandbox\<close>

text \<open>
  The errors of the redirections, whether the context of the job was cancelled, whether the run took longer than its wall
  time, the error of the process (\<open>True\<close> for one that only tells its exit), and its exit code, user time and
  resident size in kilobytes.
\<close>

record process_end =
  pe_stdin :: "string option"
  pe_stdout :: "string option"
  pe_stderr :: "string option"
  pe_cancelled :: bool
  pe_timeout :: bool
  pe_error :: "(bool \<times> string) option"
  pe_state :: "(int \<times> 64 word \<times> 64 word) option"

definition failed_run :: "string \<Rightarrow> run_result" where
  "failed_run e = fresh_run\<lparr>rr_err := Some e\<rparr>"

definition simple_verdict :: "run_limits \<Rightarrow> bool \<Rightarrow> statistics \<Rightarrow> verdict" where
  "simple_verdict l timeout st =
     (if st_exit_code st \<noteq> 0 \<and> \<not> timeout then V_RT
      else if st_time st > rl_time l then V_TL
      else if timeout then V_WL
      else V_OK)"

definition simple_Run :: "run_limits \<Rightarrow> bool \<Rightarrow> process_end \<Rightarrow> run_result" where
  "simple_Run l joined p =
     (case pe_stdin p of Some e \<Rightarrow> failed_run (''can not parse stdin: '' @ e)
      | None \<Rightarrow>
      case pe_stdout p of Some e \<Rightarrow> failed_run (''can not parse stdout: '' @ e)
      | None \<Rightarrow>
      case (if joined then None else pe_stderr p) of Some e \<Rightarrow> failed_run (''can not parse stderr: '' @ e)
      | None \<Rightarrow>
        if pe_cancelled p then fresh_run\<lparr>rr_verdict := V_SK\<rparr>
        else
        case pe_state p of None \<Rightarrow> failed_run (''sandbox process state is nil, something wrong with sandbox, process error: '' @
          (case pe_error p of None \<Rightarrow> ''<nil>'' | Some (b, e) \<Rightarrow> e))
        | Some (code, time, rss) \<Rightarrow>
        case pe_error p of Some (False, e) \<Rightarrow> failed_run (''sandbox process exited with unknown error: '' @ e)
        | _ \<Rightarrow>
          (let st = \<lparr>st_time = time, st_memory = rss * 1024, st_wall_time = time, st_exit_code = code\<rparr> in
           fresh_run\<lparr>rr_stats := st, rr_verdict := simple_verdict l (pe_timeout p) st\<rparr>))"

section \<open>Numbers in the meta file\<close>

text \<open>\<^verbatim>\<open>strconv.Atoi\<close>: the value that is returned beside an error, and whether there is none.\<close>

definition Atoi :: "string \<Rightarrow> int \<times> bool" where
  "Atoi s =
     (let (sg, ds) = (case s of [] \<Rightarrow> (1, []) | c # r \<Rightarrow> if c = CHR ''-'' then (- 1, r) else if c = CHR ''+'' then (1, r) else (1, s));
          v = sg * int (nat_of_string ds)
      in if ds = [] \<or> \<not> list_all is_digit ds then (0, False)
         else if v \<ge> 2 ^ 63 then (2 ^ 63 - 1, False)
         else if v < - (2 ^ 63) then (- (2 ^ 63), False)
         else (v, True))"

text \<open>
  \<^verbatim>\<open>strconv.ParseFloat(s, 64)\<close> on decimal literals, infinities and not-a-number.  Hexadecimal literals, which
  isolate does not write, are refused here.
\<close>

definition ParseFloat :: "string \<Rightarrow> jsnum option" where
  "ParseFloat s =
     (let (sg, r) = sign_rest s; low = map lower_char r
      in if low = ''inf'' \<or> low = ''infinity'' then Some (if sg = 1 then PosInf else NegInf)
         else if map lower_char s = ''nan'' then Some NaN
         else
           (let ip = takeWhile is_digit r; r1 = dropWhile is_digit r;
                (fp, r2) = (case r1 of [] \<Rightarrow> ([], []) | c # q \<Rightarrow>
                   if c = CHR ''.'' then (takeWhile is_digit q, dropWhile is_digit q) else ([], r1));
                (ok, ex) = (case r2 of [] \<Rightarrow> (True, 0) | c # q \<Rightarrow>
                   if c = CHR ''e'' \<or> c = CHR ''E'' then
                     (let (sx, ds) = sign_rest q in (ds \<noteq> [] \<and> list_all is_digit ds, \<lfloor>sx\<rfloor> * int (nat_of_string ds)))
                   else (False, 0))
            in if ip @ fp = [] \<or> \<not> ok then None
               else
                 (let v = to_double (sg * of_nat (nat_of_string (ip @ fp)) * pow10 (ex - int (length fp)))
                  in if v = PosInf \<or> v = NegInf then None else Some v)))"

text \<open>
  Seconds as nanoseconds.  What the conversion of a number outside the range of the type gives is up to the
  implementation of Go: an argument.
\<close>

definition seconds :: "(jsnum \<Rightarrow> 64 word) \<Rightarrow> jsnum \<Rightarrow> 64 word" where
  "seconds wild v =
     (let w = (case v of Fin q \<Rightarrow> to_double (q * 1000000000) | _ \<Rightarrow> v) in
      case w of
        Fin q \<Rightarrow> if - 1 < q \<and> q < 2 ^ 64 then word_of_int (if q < 0 then 0 else \<lfloor>q\<rfloor>) else wild w
      | _ \<Rightarrow> wild w)"

section \<open>The sandbox of isolate\<close>

text \<open>\<^verbatim>\<open>strings.SplitN(s, ":", 2)\<close> when there are two parts, and \<^verbatim>\<open>strings.TrimSpace\<close> on ASCII.\<close>

definition split_colon :: "string \<Rightarrow> (string \<times> string) option" where
  "split_colon s = (if CHR '':'' \<in> set s then Some (takeWhile (\<lambda>c. c \<noteq> CHR '':'') s, tl (dropWhile (\<lambda>c. c \<noteq> CHR '':'') s)) else None)"

definition TrimSpace :: "string \<Rightarrow> string" where
  "TrimSpace s = rev (dropWhile is_space (rev (dropWhile is_space s)))"

definition bad_line :: "string \<Rightarrow> run_result \<Rightarrow> run_result" where
  "bad_line line r = r\<lparr>rr_err := Some (''can not parse meta file line '' @ line)\<rparr>"

definition set_stats :: "(statistics \<Rightarrow> statistics) \<Rightarrow> run_result \<Rightarrow> run_result" where
  "set_stats f r = r\<lparr>rr_stats := f (rr_stats r)\<rparr>"

definition runtime_error :: "run_result \<Rightarrow> run_result" where
  "runtime_error r = (if rr_verdict r = V_OK then r\<lparr>rr_verdict := V_RT\<rparr> else r)"

definition meta_line :: "(jsnum \<Rightarrow> 64 word) \<Rightarrow> string \<Rightarrow> run_result \<Rightarrow> run_result" where
  "meta_line wild line r =
     (case split_colon line of None \<Rightarrow> bad_line line r
      | Some (k, v) \<Rightarrow>
        (let key = TrimSpace k; val = TrimSpace v in
         if key = ''cg-mem'' then
           (case Memory_FromStr (val @ ''k'') of Inl e \<Rightarrow> bad_line line r | Inr m \<Rightarrow> set_stats (st_memory_update (\<lambda>_. m)) r)
         else if key = ''cg-oom-killed'' then (if val = ''1'' then r\<lparr>rr_verdict := V_ML\<rparr> else r)
         else if key = ''exitcode'' then
           (let (n, ok) = Atoi val; r = set_stats (st_exit_code_update (\<lambda>_. n)) r in if ok then r else bad_line line r)
         else if key = ''exitsig'' then
           (let (n, ok) = Atoi val; r = set_stats (st_exit_code_update (\<lambda>_. n)) r in
            if ok then runtime_error r else bad_line line r)
         else if key = ''status'' then
           (if val = ''RE'' \<or> val = ''SG'' then runtime_error r
            else if val = ''TO'' then r\<lparr>rr_verdict := V_WL\<rparr>
            else if val = ''XX'' then r\<lparr>rr_err := Some ''unknown error from isolate''\<rparr>
            else bad_line line r)
         else if key = ''time'' then
           (case ParseFloat val of None \<Rightarrow> bad_line line r | Some t \<Rightarrow> set_stats (st_time_update (\<lambda>_. seconds wild t)) r)
         else if key = ''time-wall'' then
           (case ParseFloat val of None \<Rightarrow> bad_line line r | Some t \<Rightarrow> set_stats (st_wall_time_update (\<lambda>_. seconds wild t)) r)
         else if key \<in> {''csw-forced'', ''csw-voluntary'', ''killed'', ''max-rss'', ''message''} then r
         else bad_line line r))"

fun meta_loop :: "(jsnum \<Rightarrow> 64 word) \<Rightarrow> string list \<Rightarrow> run_result \<Rightarrow> run_result" where
  "meta_loop wild [] r = r"
| "meta_loop wild (line # lines) r =
     (let r = meta_line wild line r in if rr_err r \<noteq> None then r else meta_loop wild lines r)"

definition setVerdict :: "verdict \<Rightarrow> bool \<Rightarrow> verdict list \<Rightarrow> run_result \<Rightarrow> run_result" where
  "setVerdict v cond from r = (if rr_verdict r \<in> set from \<and> cond then r\<lparr>rr_verdict := v\<rparr> else r)"

definition parseMeta :: "(jsnum \<Rightarrow> 64 word) \<Rightarrow> run_limits \<Rightarrow> string list option \<Rightarrow> run_result \<Rightarrow> run_result" where
  "parseMeta wild l meta r =
     (case meta of None \<Rightarrow> r\<lparr>rr_err := Some ''can not open meta file''\<rparr>
      | Some lines \<Rightarrow>
        (let r = meta_loop wild lines (r\<lparr>rr_verdict := V_OK\<rparr>) in
         if rr_err r \<noteq> None then r
         else
           (let r = setVerdict V_ML (st_memory (rr_stats r) > rl_memory l) [V_OK, V_RT] r;
                r = setVerdict V_TL (st_time (rr_stats r) > rl_time l) [V_OK, V_WL] r;
                r = setVerdict V_WL (st_wall_time (rr_stats r) > rl_wall l) [V_OK] r
            in setVerdict V_RT (st_exit_code (rr_stats r) \<noteq> 0) [V_OK] r)))"

text \<open>Whether the run was cancelled, the error of the command (\<open>True\<close> for one that only tells its exit), and the meta file.\<close>

definition isolate_Run :: "(jsnum \<Rightarrow> 64 word) \<Rightarrow> run_limits \<Rightarrow> bool \<Rightarrow> (bool \<times> string) option \<Rightarrow> string list option \<Rightarrow> run_result" where
  "isolate_Run wild l cancelled err meta =
     (if cancelled then fresh_run\<lparr>rr_verdict := V_SK\<rparr>
      else case err of
        Some (False, e) \<Rightarrow> failed_run (''error running isolate box, error: '' @ e)
      | _ \<Rightarrow> parseMeta wild l meta fresh_run)"

section \<open>What the verdicts say\<close>

definition sandbox_verdicts :: "verdict set" where
  "sandbox_verdicts = {V_OK, V_RT, V_ML, V_TL, V_WL, V_SK}"

text \<open>What the pipelines rely on: a run that did not fail has such a verdict, and no points.\<close>

locale sandbox =
  fixes run :: "'i \<Rightarrow> run_result"
  assumes verdicts: "rr_err (run i) = None \<Longrightarrow> rr_verdict (run i) \<in> sandbox_verdicts"
    and no_points: "rr_points (run i) = None"
begin

lemma not_checked: "rr_err (run i) = None \<Longrightarrow> rr_verdict (run i) \<notin> {V_PT, V_WA, V_WR, V_CE, V_CD, V_CF, V_RU}"
  using verdicts [of i] by (auto simp: sandbox_verdicts_def)

lemma points_verdict: "rr_err (run i) = None \<Longrightarrow> rr_verdict (run i) = V_PT \<longrightarrow> rr_points (run i) \<noteq> None"
  using not_checked by blast

end

lemma fresh_run_simps [simp]:
  "rr_err fresh_run = None" "rr_points fresh_run = None" "rr_err (failed_run e) = Some e" "rr_points (failed_run e) = None"
  by (simp_all add: fresh_run_def failed_run_def)

lemma simple_Run_cases:
  obtains (failed) "rr_err (simple_Run l joined p) \<noteq> None" "rr_points (simple_Run l joined p) = None"
  | (skipped) "simple_Run l joined p = fresh_run\<lparr>rr_verdict := V_SK\<rparr>" "pe_cancelled p"
  | (ran) code time rss st where "\<not> pe_cancelled p" "pe_state p = Some (code, time, rss)"
      "st = \<lparr>st_time = time, st_memory = rss * 1024, st_wall_time = time, st_exit_code = code\<rparr>"
      "simple_Run l joined p = fresh_run\<lparr>rr_stats := st, rr_verdict := simple_verdict l (pe_timeout p) st\<rparr>"
proof (cases "rr_err (simple_Run l joined p) = None")
  case True
  show thesis
  proof (cases "pe_cancelled p")
    case True
    with \<open>rr_err _ = None\<close> show thesis by (intro skipped) (auto simp: simple_Run_def split: option.splits if_splits)
  next
    case False
    with \<open>rr_err _ = None\<close> obtain code time rss where "pe_state p = Some (code, time, rss)"
      by (auto simp: simple_Run_def split: option.splits if_splits)
    with False \<open>rr_err _ = None\<close> show thesis
      by (intro ran [of code time rss]) (auto simp: simple_Run_def Let_def split: option.splits if_splits bool.splits)
  qed
next
  case False
  then show thesis by (intro failed) (auto simp: simple_Run_def Let_def split: option.split prod.split bool.split)
qed

interpretation simple_sandbox: sandbox "\<lambda>(l, joined, p). simple_Run l joined p"
proof
  fix i :: "run_limits \<times> bool \<times> process_end"
  obtain l joined p where i: "i = (l, joined, p)" by (cases i)
  show "rr_verdict (case i of (l, joined, p) \<Rightarrow> simple_Run l joined p) \<in> sandbox_verdicts"
    if "rr_err (case i of (l, joined, p) \<Rightarrow> simple_Run l joined p) = None"
    using that unfolding i prod.case
    by (cases l joined p rule: simple_Run_cases) (auto simp: sandbox_verdicts_def simple_verdict_def)
  show "rr_points (case i of (l, joined, p) \<Rightarrow> simple_Run l joined p) = None"
    unfolding i prod.case by (cases l joined p rule: simple_Run_cases) simp_all
qed

text \<open>A line of the meta file that tells of trouble.\<close>

definition trouble :: "string \<Rightarrow> bool" where
  "trouble line \<longleftrightarrow> (case split_colon line of None \<Rightarrow> False
     | Some (k, v) \<Rightarrow> TrimSpace k = ''exitsig'' \<or> TrimSpace k = ''status'' \<or>
         (TrimSpace k = ''cg-oom-killed'' \<and> TrimSpace v = ''1''))"

definition meta_verdicts :: "verdict set" where
  "meta_verdicts = {V_OK, V_RT, V_ML, V_WL}"

lemma set_stats_simps [simp]:
  "rr_err (set_stats f r) = rr_err r" "rr_verdict (set_stats f r) = rr_verdict r" "rr_points (set_stats f r) = rr_points r"
  by (simp_all add: set_stats_def)

lemma runtime_error_simps [simp]:
  "rr_err (runtime_error r) = rr_err r" "rr_points (runtime_error r) = rr_points r"
  "rr_verdict (runtime_error r) = (if rr_verdict r = V_OK then V_RT else rr_verdict r)"
  by (simp_all add: runtime_error_def)

lemma bad_line_simps [simp]:
  "rr_err (bad_line line r) = Some (''can not parse meta file line '' @ line)" "rr_points (bad_line line r) = rr_points r"
  by (simp_all add: bad_line_def)

text \<open>The outcomes of a line, for a key that is known.\<close>

lemma meta_line_cases:
  obtains (bad) "rr_err (meta_line wild line r) \<noteq> None" "rr_points (meta_line wild line r) = rr_points r"
  | (stats) f where "meta_line wild line r = set_stats f r" "\<not> trouble line"
  | (oom) "meta_line wild line r = r\<lparr>rr_verdict := V_ML\<rparr>" "trouble line"
  | (crash) f where "meta_line wild line r = runtime_error (set_stats f r)" "trouble line"
  | (timeout) "meta_line wild line r = r\<lparr>rr_verdict := V_WL\<rparr>" "trouble line"
proof (cases "split_colon line")
  case None
  then show thesis by (intro bad) (simp_all add: meta_line_def)
next
  case (Some kv)
  then obtain k v where kv: "split_colon line = Some (k, v)" by (cases kv) simp
  let ?val = "TrimSpace v"
  note m = meta_line_def [of wild line r, unfolded kv option.case prod.case Let_def]
  note t = trouble_def [of line, unfolded kv option.case prod.case]
  have id: "set_stats id r = r" by (simp add: set_stats_def)
  consider (mem) "TrimSpace k = ''cg-mem''" | (killed) "TrimSpace k = ''cg-oom-killed''" | (code) "TrimSpace k = ''exitcode''"
    | (sig) "TrimSpace k = ''exitsig''" | (status) "TrimSpace k = ''status''" | (time) "TrimSpace k = ''time''"
    | (wall) "TrimSpace k = ''time-wall''"
    | (other) "TrimSpace k \<notin> {''cg-mem'', ''cg-oom-killed'', ''exitcode'', ''exitsig'', ''status'', ''time'', ''time-wall''}"
    by blast
  then show thesis
  proof cases
    case mem
    then show thesis by (cases "Memory_FromStr (?val @ ''k'')") (use bad stats in \<open>simp_all add: m t\<close>)
  next
    case killed
    then show thesis by (cases "?val = ''1''") (use oom stats [of id] in \<open>simp_all add: m t id\<close>)
  next
    case code
    then show thesis by (cases "Atoi ?val"; cases "snd (Atoi ?val)") (use bad stats in \<open>simp_all add: m t\<close>)
  next
    case sig
    then show thesis by (cases "Atoi ?val"; cases "snd (Atoi ?val)") (use bad crash in \<open>simp_all add: m t\<close>)
  next
    case status
    consider "?val \<in> {''RE'', ''SG''}" | "?val = ''TO''" | "?val \<notin> {''RE'', ''SG'', ''TO''}" by blast
    then show thesis
    proof cases
      case 1
      with status show thesis by (intro crash [of id]) (auto simp: m t id)
    next
      case 2
      with status show thesis by (intro timeout) (simp_all add: m t)
    next
      case 3
      with status show thesis by (intro bad) (simp_all add: m)
    qed
  next
    case time
    then show thesis by (cases "ParseFloat ?val") (use bad stats in \<open>simp_all add: m t\<close>)
  next
    case wall
    then show thesis by (cases "ParseFloat ?val") (use bad stats in \<open>simp_all add: m t\<close>)
  next
    case other
    then show thesis
      by (cases "TrimSpace k \<in> {''csw-forced'', ''csw-voluntary'', ''killed'', ''max-rss'', ''message''}")
        (use bad stats [of id] in \<open>simp_all add: m t id\<close>)
  qed
qed

lemma meta_line_points [simp]: "rr_points (meta_line wild line r) = rr_points r"
  by (cases wild line r rule: meta_line_cases) simp_all

lemma meta_line_verdict:
  assumes "rr_err (meta_line wild line r) = None" and v: "rr_verdict r \<in> meta_verdicts"
  shows "rr_verdict (meta_line wild line r) \<in> meta_verdicts \<and>
    (rr_verdict (meta_line wild line r) = V_OK \<longleftrightarrow> rr_verdict r = V_OK \<and> \<not> trouble line)"
proof (cases wild line r rule: meta_line_cases)
  case bad
  with assms(1) show ?thesis by simp
next
  case (stats f)
  with v show ?thesis by simp
next
  case oom
  then show ?thesis by (simp add: meta_verdicts_def)
next
  case (crash f)
  with v show ?thesis by (auto simp: meta_verdicts_def)
next
  case timeout
  then show ?thesis by (simp add: meta_verdicts_def)
qed

lemma meta_loop_verdict:
  assumes "rr_err (meta_loop wild lines r) = None" and "rr_verdict r \<in> meta_verdicts"
  shows "rr_verdict (meta_loop wild lines r) \<in> meta_verdicts"
    and "rr_verdict (meta_loop wild lines r) = V_OK \<longleftrightarrow> rr_verdict r = V_OK \<and> (\<forall>line \<in> set lines. \<not> trouble line)"
  using assms
proof (induction lines arbitrary: r)
  case (Cons line lines)
  { case 1 then show ?case using Cons.IH(1) meta_line_verdict by (auto simp: Let_def split: if_splits) }
  { case 2 then show ?case using Cons.IH(2) meta_line_verdict by (auto simp: Let_def split: if_splits) }
qed simp_all

lemma meta_loop_points [simp]: "rr_points (meta_loop wild lines r) = rr_points r"
  by (induction lines arbitrary: r) (simp_all add: Let_def)

lemma setVerdict_simps [simp]:
  "rr_err (setVerdict v b vs r) = rr_err r" "rr_stats (setVerdict v b vs r) = rr_stats r" "rr_points (setVerdict v b vs r) = rr_points r"
  "rr_verdict (setVerdict v b vs r) = (if rr_verdict r \<in> set vs \<and> b then v else rr_verdict r)"
  by (simp_all add: setVerdict_def)

text \<open>A process is within its limits when the measured values are.\<close>

definition within_limits :: "run_limits \<Rightarrow> statistics \<Rightarrow> bool" where
  "within_limits l st \<longleftrightarrow> st_time st \<le> rl_time l \<and> st_memory st \<le> rl_memory l \<and> st_wall_time st \<le> rl_wall l"

lemma parseMeta_verdict:
  assumes "rr_err (parseMeta wild l meta r) = None"
  obtains lines where "meta = Some lines" "rr_verdict (parseMeta wild l meta r) \<in> sandbox_verdicts"
    "rr_verdict (parseMeta wild l meta r) = V_OK \<longleftrightarrow> (\<forall>line \<in> set lines. \<not> trouble line) \<and>
       within_limits l (rr_stats (parseMeta wild l meta r)) \<and> st_exit_code (rr_stats (parseMeta wild l meta r)) = 0"
proof -
  obtain lines where m: "meta = Some lines" using assms by (cases meta) (auto simp: parseMeta_def)
  let ?r = "meta_loop wild lines (r\<lparr>rr_verdict := V_OK\<rparr>)"
  have e: "rr_err ?r = None" using assms unfolding m parseMeta_def option.case Let_def by (simp split: if_splits)
  note v = meta_loop_verdict [OF e, simplified, unfolded meta_verdicts_def, simplified]
  show thesis
    by (rule that [OF m]) (use v e in \<open>auto simp: m parseMeta_def Let_def sandbox_verdicts_def within_limits_def not_less\<close>)
qed

lemma parseMeta_points [simp]: "rr_points (parseMeta wild l meta r) = rr_points r"
  by (simp add: parseMeta_def Let_def split: option.split)

interpretation isolate_sandbox: sandbox "\<lambda>(wild, l, cancelled, err, meta). isolate_Run wild l cancelled err meta"
proof
  fix i :: "(jsnum \<Rightarrow> 64 word) \<times> run_limits \<times> bool \<times> (bool \<times> string) option \<times> string list option"
  obtain wild l cancelled err meta where i: "i = (wild, l, cancelled, err, meta)" by (cases i)
  show "rr_verdict (case i of (wild, l, cancelled, err, meta) \<Rightarrow> isolate_Run wild l cancelled err meta) \<in> sandbox_verdicts"
    if "rr_err (case i of (wild, l, cancelled, err, meta) \<Rightarrow> isolate_Run wild l cancelled err meta) = None"
    using that unfolding i prod.case isolate_Run_def
    by (auto simp: sandbox_verdicts_def split: option.splits if_splits prod.splits bool.splits
        elim: parseMeta_verdict [unfolded sandbox_verdicts_def])
  show "rr_points (case i of (wild, l, cancelled, err, meta) \<Rightarrow> isolate_Run wild l cancelled err meta) = None"
    unfolding i prod.case isolate_Run_def by (simp split: option.split prod.split bool.split)
qed

end
