(* ===== verification/GoPipeline.thy ===== *)
theory GoPipeline
  imports GoSandbox GoStorage
begin

text \<open>
  invoker/pipeline.go, pipeline_files.go, compile_pipeline.go, test_run_pipeline.go and check_pipeline.go: what a sandbox
  thread does with a job.  The file system, the storage, the cache and the processes are a parameter, by what they
  answer; the state keeps what the job asked the cache for, the files it put into the sandbox and what it uploaded.
  Durations that are measured are not modelled.
\<close>

section \<open>Jobs of an invoker\<close>

text \<open>What the invoker uses of the row of a problem, and a job with the rows that were loaded for it.\<close>

record limits_row =
  pr_id :: "64 word"
  pr_tests :: "64 word"
  pr_time :: "64 word"
  pr_memory :: "64 word"
  pr_wall :: "64 word option"
  pr_open_files :: "64 word option"
  pr_threads :: "int option"
  pr_output :: "64 word option"

record invoker_job =
  wj_id :: string
  wj_type :: int
  wj_test :: "64 word"
  wj_submission :: "64 word"
  wj_language :: string
  wj_problem :: limits_row
  wj_epoch :: int

definition sourceKey :: "invoker_job \<Rightarrow> panic + cache_key" where
  "sourceKey j = newSourceCache (wj_epoch j) [wj_submission j]"

definition binaryKey :: "invoker_job \<Rightarrow> panic + cache_key" where
  "binaryKey j = newBinaryCache (wj_epoch j) [wj_submission j]"

definition inputKey :: "invoker_job \<Rightarrow> panic + cache_key" where
  "inputKey j = newTestInputCache (wj_epoch j) [pr_id (wj_problem j), wj_test j]"

definition answerKey :: "invoker_job \<Rightarrow> panic + cache_key" where
  "answerKey j = newTestAnswerCache (wj_epoch j) [pr_id (wj_problem j), wj_test j]"

definition checkerKey :: "invoker_job \<Rightarrow> panic + cache_key" where
  "checkerKey j = newCheckerCache (wj_epoch j) [pr_id (wj_problem j)]"

text \<open>The limits a solution runs with; a text that does not parse leaves the field.\<close>

definition or_old :: "field_error + 64 word \<Rightarrow> 64 word \<Rightarrow> 64 word" where
  "or_old parsed old = (case parsed of Inl e \<Rightarrow> old | Inr v \<Rightarrow> v)"

definition fillInTestRunConfigLimits :: "limits_row \<Rightarrow> run_limits" where
  "fillInTestRunConfigLimits p =
     (let wall = (case pr_wall p of Some w \<Rightarrow> w
            | None \<Rightarrow> (let w = or_old (Time_FromStr ''5s'') 0 in if w < pr_time p * 2 then pr_time p * 2 else w))
      in \<lparr>rl_time = pr_time p, rl_memory = pr_memory p, rl_wall = wall,
          rl_threads = (case pr_threads p of Some n \<Rightarrow> n | None \<Rightarrow> 0),
          rl_open_files = (case pr_open_files p of Some n \<Rightarrow> n | None \<Rightarrow> 64),
          rl_output = (case pr_output p of Some m \<Rightarrow> m | None \<Rightarrow> or_old (Memory_FromStr ''1g'') 0)\<rparr>)"

section \<open>The world of a job\<close>

text \<open>How a copy ends, and what the file of the checker's verdict holds.\<close>

datatype copied = OpenFailed string | CopyDone | CopyBroken string
datatype checker_report = NoReport | ReportStatFailed | ReportNotOpened | ReportNotParsed string
  | Report string "jsnum option" string

record language =
  la_limits :: run_limits
  la_script :: "string option"

record world =
  wo_init :: "string option"
  wo_get :: "cache_key \<Rightarrow> string + string list"
  wo_copy :: "string \<Rightarrow> copied"
  wo_write :: "string option"
  wo_threads :: "string \<Rightarrow> string option"
  wo_run :: "string \<Rightarrow> run_limits \<Rightarrow> run_result"
  wo_report :: checker_report
  wo_open :: "string \<Rightarrow> string + string"
  wo_upload :: "resource_type \<Rightarrow> string option"
  wo_languages :: "string \<Rightarrow> language option"
  wo_checker_limits :: run_limits
  wo_output_head :: "64 word option"

datatype deferred = StopClock | JobDefers | Cleanup | CloseFile string

record pipeline =
  pl_gets :: "cache_key list"
  pl_files :: "(string \<times> bool) list"
  pl_source :: string
  pl_run :: "run_result option"
  pl_check :: "run_result option"
  pl_reader :: string
  pl_has_resources :: bool
  pl_uploads :: "(resource_type \<times> string) list"
  pl_defers :: "deferred list"
  pl_deferred :: "deferred list"
  pl_finished :: bool

definition newPipelineState :: pipeline where
  "newPipelineState = \<lparr>pl_gets = [], pl_files = [], pl_source = '''', pl_run = None, pl_check = None, pl_reader = '''',
     pl_has_resources = False, pl_uploads = [], pl_defers = [StopClock, JobDefers], pl_deferred = [], pl_finished = False\<rparr>"

text \<open>A step fails with a message.\<close>

type_synonym pipe_step = "pipeline \<Rightarrow> panic + pipeline \<times> string option"

definition andThen :: "pipe_step \<Rightarrow> pipe_step \<Rightarrow> pipe_step" where
  "andThen f g s = bindE (f s) (\<lambda>(s, err). case err of None \<Rightarrow> g s | Some e \<Rightarrow> Inr (s, Some e))"

fun sequence :: "pipe_step list \<Rightarrow> pipe_step" where
  "sequence [] s = Inr (s, None)"
| "sequence (f # fs) s = andThen f (sequence fs) s"

section \<open>Files\<close>

definition initSandbox :: "world \<Rightarrow> pipe_step" where
  "initSandbox w s =
     (case wo_init w of Some e \<Rightarrow> Inr (s, Some (''can not initialize sandbox, error: '' @ e))
      | None \<Rightarrow> Inr (s\<lparr>pl_defers := pl_defers s @ [Cleanup]\<rparr>, None))"

text \<open>The error of the copy itself is dropped.\<close>

definition copyFileToSandbox :: "world \<Rightarrow> string \<Rightarrow> pipe_step" where
  "copyFileToSandbox w dst s =
     (case wo_copy w dst of
        OpenFailed e \<Rightarrow> Inr (s, Some e)
      | CopyDone \<Rightarrow> Inr (s\<lparr>pl_files := pl_files s @ [(dst, True)]\<rparr>, None)
      | CopyBroken e \<Rightarrow> Inr (s\<lparr>pl_files := pl_files s @ [(dst, False)]\<rparr>, None))"

definition loadResource :: "world \<Rightarrow> cache_key \<Rightarrow> pipeline \<Rightarrow> pipeline \<times> (string + string list)" where
  "loadResource w k s = (s\<lparr>pl_gets := pl_gets s @ [k]\<rparr>, wo_get w k)"

definition wrap :: "string \<Rightarrow> panic + pipeline \<times> string option \<Rightarrow> panic + pipeline \<times> string option" where
  "wrap msg r = bindE r (\<lambda>(s, err). Inr (s, map_option (\<lambda>e. msg @ e) err))"

definition loadSolutionBinary :: "world \<Rightarrow> invoker_job \<Rightarrow> pipe_step" where
  "loadSolutionBinary w j s = bindE (binaryKey j) (\<lambda>k.
     case loadResource w k s of
       (s, Inl e) \<Rightarrow> Inr (s, Some (''can not get solution binary, error: '' @ e))
     | (s, Inr path) \<Rightarrow> wrap ''can not copy solution binary to sandbox, error: '' (copyFileToSandbox w ''solution'' s))"

definition loadTestInput :: "world \<Rightarrow> invoker_job \<Rightarrow> pipe_step" where
  "loadTestInput w j s = bindE (inputKey j) (\<lambda>k.
     case loadResource w k s of
       (s, Inl e) \<Rightarrow> Inr (s, Some (''can not get test input, error: '' @ e))
     | (s, Inr path) \<Rightarrow> wrap ''can not copy test input to sandbox, error: '' (copyFileToSandbox w ''input.txt'' s))"

definition loadCheckerBinaryFile :: "world \<Rightarrow> invoker_job \<Rightarrow> pipe_step" where
  "loadCheckerBinaryFile w j s = bindE (checkerKey j) (\<lambda>k.
     case loadResource w k s of
       (s, Inl e) \<Rightarrow> Inr (s, Some (''can not get checker binary, error: '' @ e))
     | (s, Inr path) \<Rightarrow> wrap ''can not copy checker binary to sandbox, error: '' (copyFileToSandbox w ''check'' s))"

definition loadTestAnswerFile :: "world \<Rightarrow> invoker_job \<Rightarrow> pipe_step" where
  "loadTestAnswerFile w j s = bindE (answerKey j) (\<lambda>k.
     case loadResource w k s of
       (s, Inl e) \<Rightarrow> Inr (s, Some (''can not get test answer, error: '' @ e))
     | (s, Inr path) \<Rightarrow> wrap ''can not copy test answer to sandbox, error: '' (copyFileToSandbox w ''answer.txt'' s))"

text \<open>The name of the source keeps the last element of the path of the cached file.\<close>

definition loadSolutionSourceFile :: "world \<Rightarrow> invoker_job \<Rightarrow> pipe_step" where
  "loadSolutionSourceFile w j s = bindE (sourceKey j) (\<lambda>k.
     case loadResource w k s of
       (s, Inl e) \<Rightarrow> Inr (s, Some (''can not get submission source, error: '' @ e))
     | (s, Inr path) \<Rightarrow>
         (let name = ''source_'' @ (if path = [] then ''.'' else last path) in
          wrap ''can not copy submission source to sandbox, error: '' (copyFileToSandbox w name (s\<lparr>pl_source := name\<rparr>))))"

text \<open>The head of an output that is kept; the limit is read as a signed number.\<close>

definition limitedReader :: "world \<Rightarrow> string \<Rightarrow> string" where
  "limitedReader w text = (case wo_output_head w of None \<Rightarrow> text | Some n \<Rightarrow> take (nat (sint n)) text)"

definition openSandboxFile :: "world \<Rightarrow> string \<Rightarrow> bool \<Rightarrow> pipeline \<Rightarrow> pipeline \<times> (string + string)" where
  "openSandboxFile w name limit s =
     (case wo_open w name of
        Inl e \<Rightarrow> (s, Inl e)
      | Inr text \<Rightarrow> (s\<lparr>pl_defers := pl_defers s @ [CloseFile name]\<rparr>, Inr (if limit then limitedReader w text else text)))"

definition uploadResource :: "world \<Rightarrow> resource_type \<Rightarrow> string \<Rightarrow> pipe_step" where
  "uploadResource w r text s =
     (case wo_upload w r of Some e \<Rightarrow> Inr (s, Some e) | None \<Rightarrow> Inr (s\<lparr>pl_uploads := pl_uploads s @ [(r, text)]\<rparr>, None))"

definition uploadBinary :: "world \<Rightarrow> pipe_step" where
  "uploadBinary w s =
     (case openSandboxFile w ''solution'' False s of
        (s, Inl e) \<Rightarrow> Inr (s, Some (''can not open solution binary file, error: '' @ e))
      | (s, Inr text) \<Rightarrow> wrap ''can not send solution binary file to storage, error: '' (uploadResource w CompiledBinary text s))"

definition uploadOutput :: "world \<Rightarrow> string \<Rightarrow> resource_type \<Rightarrow> pipe_step" where
  "uploadOutput w name r s =
     (case openSandboxFile w name True s of
        (s, Inl e) \<Rightarrow> Inr (s, Some (''can not open '' @ resource_text r @ '' file, error: '' @ e))
      | (s, Inr text) \<Rightarrow> wrap (''can not upload '' @ resource_text r @ '' file to storage, error: '') (uploadResource w r text s))"

section \<open>Compilation\<close>

definition setupCompileScript :: "world \<Rightarrow> invoker_job \<Rightarrow> pipe_step" where
  "setupCompileScript w j s =
     (case wo_languages w (wj_language j) of
        None \<Rightarrow> Inr (s, Some (''submission language '' @ wj_language j @ '' does not exist''))
      | Some la \<Rightarrow>
          (case la_script la of
             Some e \<Rightarrow> Inr (s, Some (''can not generate compile script, error: '' @ e))
           | None \<Rightarrow>
               Inr (s, map_option (\<lambda>e. ''can not write compile script to sandbox, error: '' @ e) (wo_write w))))"

text \<open>A program runs when a runner thread takes it, and the pipeline waits for its result.\<close>

definition runProcess :: "world \<Rightarrow> string \<Rightarrow> run_limits \<Rightarrow> string + run_result" where
  "runProcess w command l = (case wo_threads w command of Some e \<Rightarrow> Inl e | None \<Rightarrow> Inr (wo_run w command l))"

definition executeCompilationCommand :: "world \<Rightarrow> invoker_job \<Rightarrow> pipe_step" where
  "executeCompilationCommand w j s = bindE (deref (wo_languages w (wj_language j))) (\<lambda>la.
     case runProcess w ''compile.sh'' (la_limits la) of
       Inl e \<Rightarrow> Inr (s, Some (''can not execute compile command, error: '' @ e))
     | Inr r \<Rightarrow> Inr (s\<lparr>pl_run := Some r\<rparr>, map_option (\<lambda>e. ''error while running compilation in sandbox, error: '' @ e) (rr_err r)))"

definition set_run_verdict :: "verdict \<Rightarrow> pipeline \<Rightarrow> pipeline" where
  "set_run_verdict v s = s\<lparr>pl_run := map_option (rr_verdict_update (\<lambda>_. v)) (pl_run s)\<rparr>"

definition openCompilationMessage :: "world \<Rightarrow> pipe_step" where
  "openCompilationMessage w s =
     (case openSandboxFile w ''compile_message.txt'' True s of
        (s, Inl e) \<Rightarrow> Inr (s, Some (''can not open compilation message file, error: '' @ e))
      | (s, Inr text) \<Rightarrow> Inr (s\<lparr>pl_reader := text\<rparr>, None))"

definition processCompilationResult :: "world \<Rightarrow> invoker_job \<Rightarrow> pipe_step" where
  "processCompilationResult w j s = bindE (deref (pl_run s)) (\<lambda>r. bindE (deref (wo_languages w (wj_language j))) (\<lambda>la.
     let more = (\<lambda>what. Inr (set_run_verdict V_CE s\<lparr>pl_reader := ''Compilation took more than '' @ what\<rparr>, None)) in
     case rr_verdict r of
       V_OK \<Rightarrow> openCompilationMessage w (set_run_verdict V_CD s)
     | V_RT \<Rightarrow> openCompilationMessage w (set_run_verdict V_CE s)
     | V_TL \<Rightarrow> more (Time_String (rl_time (la_limits la)) @ '' time'')
     | V_ML \<Rightarrow> more (Memory_String (rl_memory (la_limits la)) @ '' memory'')
     | V_WL \<Rightarrow> more (Time_String (rl_wall (la_limits la)) @ '' wall time'')
     | V_SE \<Rightarrow> Inr (set_run_verdict V_CE s\<lparr>pl_reader := ''Security violation''\<rparr>, None)
     | v \<Rightarrow> Inr (s, Some (''unknown sandbox verdict: '' @ verdict_text v))))"

definition compilationProcessPipeline :: "world \<Rightarrow> invoker_job \<Rightarrow> pipe_step" where
  "compilationProcessPipeline w j = sequence
     [initSandbox w, loadSolutionSourceFile w j, setupCompileScript w j, executeCompilationCommand w j, processCompilationResult w j]"

definition uploadCompileResult :: "world \<Rightarrow> pipe_step" where
  "uploadCompileResult w s = wrap ''can not upload compile output to storage, error: '' (uploadResource w CompileOutput (pl_reader s) s)"

definition uploadCompilationResources :: "world \<Rightarrow> pipe_step" where
  "uploadCompilationResources w = andThen (uploadCompileResult w) (\<lambda>s. bindE (deref (pl_run s)) (\<lambda>r.
     if rr_verdict r \<noteq> V_CD then Inr (s, None) else uploadBinary w s))"

section \<open>The end of a job\<close>

definition finish :: "pipeline \<Rightarrow> panic + pipeline" where
  "finish s = (if pl_finished s then Inl (Panic ''Job pipeline is finished twice'')
     else Inr (s\<lparr>pl_deferred := rev (pl_defers s), pl_finished := True\<rparr>))"

definition checkFinish :: "pipeline \<times> job_result \<Rightarrow> panic + pipeline \<times> job_result" where
  "checkFinish sr = (if \<not> pl_finished (fst sr) then Inl (Panic ''Job pipeline was not finished'') else Inr sr)"

definition failJob :: "invoker_job \<Rightarrow> string \<Rightarrow> pipeline \<Rightarrow> panic + pipeline \<times> job_result" where
  "failJob j e s = bindE (finish s) (\<lambda>s. Inr (s,
     \<lparr>jres_job = wj_id j, jres_verdict = V_CF, jres_points = None, jres_error = ''job '' @ wj_id j @ '' error: '' @ e,
      jres_statistics = None\<rparr>))"

definition successJob :: "invoker_job \<Rightarrow> run_result option \<Rightarrow> pipeline \<Rightarrow> panic + pipeline \<times> job_result" where
  "successJob j result s = bindE (finish s) (\<lambda>s. bindE (deref result) (\<lambda>r. Inr (s,
     \<lparr>jres_job = wj_id j, jres_verdict = rr_verdict r, jres_points = rr_points r, jres_error = '''',
      jres_statistics = Some (rr_stats r)\<rparr>)))"

definition fullCompilationPipeline :: "world \<Rightarrow> invoker_job \<Rightarrow> panic + pipeline \<times> job_result" where
  "fullCompilationPipeline w j =
     bindE (bindE (compilationProcessPipeline w j newPipelineState) (\<lambda>(s, err).
       case err of Some e \<Rightarrow> failJob j e s
       | None \<Rightarrow> bindE (uploadCompilationResources w s) (\<lambda>(s, err).
           case err of Some e \<Rightarrow> failJob j e s | None \<Rightarrow> successJob j (pl_run s) s))) checkFinish"

section \<open>A test\<close>

definition executeTestRunCommand :: "world \<Rightarrow> invoker_job \<Rightarrow> pipe_step" where
  "executeTestRunCommand w j s =
     (case runProcess w ''solution'' (fillInTestRunConfigLimits (wj_problem j)) of
        Inl e \<Rightarrow> Inr (s, Some (''can not execute sulution command, error: '' @ e))
      | Inr r \<Rightarrow> Inr (s\<lparr>pl_run := Some r\<rparr>, map_option (\<lambda>e. ''error while running solution in sandbox, error: '' @ e) (rr_err r)))"

definition executeCheckerRunCommand :: "world \<Rightarrow> pipe_step" where
  "executeCheckerRunCommand w s =
     (let l = wo_checker_limits w; fail = (\<lambda>s e. Inr (s, Some e)) in
      case runProcess w ''check'' l of
        Inl e \<Rightarrow> fail s (''can not execute checker command, error: '' @ e)
      | Inr r \<Rightarrow>
          (let s = s\<lparr>pl_check := Some r\<rparr> in
           case rr_err r of
             Some e \<Rightarrow> fail s (''error while running checker in sandbox, error: '' @ e)
           | None \<Rightarrow>
               (case rr_verdict r of
                  V_OK \<Rightarrow> Inr (s, None) | V_RT \<Rightarrow> Inr (s, None) | V_SK \<Rightarrow> Inr (s, None)
                | V_TL \<Rightarrow> fail s (''checker running took more than '' @ Time_String (rl_time l) @ '' time'')
                | V_ML \<Rightarrow> fail s (''checker running took more than '' @ Memory_String (rl_memory l) @ '' memory'')
                | V_WL \<Rightarrow> fail s (''checker running took more than '' @ Time_String (rl_wall l) @ '' wall time'')
                | V_SE \<Rightarrow> fail s ''checker security violation''
                | v \<Rightarrow> fail s (''unknown checker sandbox run verdict: '' @ verdict_text v))))"

definition parseTestlibCheckerResult :: "world \<Rightarrow> pipe_step" where
  "parseTestlibCheckerResult w s = bindE (deref (pl_check s)) (\<lambda>c. bindE (deref (pl_run s)) (\<lambda>r.
     let code = string_of_int (st_exit_code (rr_stats c)) in
     case wo_report w of
       Report outcome points text \<Rightarrow>
         (let s = s\<lparr>pl_reader := limitedReader w text\<rparr> in
          if outcome = ''accepted'' then Inr (set_run_verdict V_OK s, None)
          else if outcome \<in> {''wrong-answer'', ''presentation-error'', ''unexpected-eof''} then Inr (set_run_verdict V_WA s, None)
          else if outcome = ''fail'' then Inr (set_run_verdict V_CF s, None)
          else if outcome \<in> {''points'', ''relative-scoring''} then
            (case points of
               None \<Rightarrow> Inr (s, Some (''checker exited with exit code '' @ code @ '' and verdict '' @ outcome @ '', but no points specified''))
             | Some v \<Rightarrow> Inr (s\<lparr>pl_run := Some (r\<lparr>rr_verdict := V_PT, rr_points := Some v\<rparr>)\<rparr>, None))
          else Inr (s, Some (''unknown checker verdict '' @ outcome @ '', checker exited with exit code '' @ code)))
     | ReportNotParsed e \<Rightarrow> Inr (s, Some (''can not parse checker result xml file in appes mode: '' @ e))
     | _ \<Rightarrow> Inr (s, Some (''checker exited with exit code '' @ code @ '', can not parse checker result xml file in appes mode''))))"

definition parseCheckerResult :: "world \<Rightarrow> pipe_step" where
  "parseCheckerResult w s = bindE (deref (pl_check s)) (\<lambda>c.
     if rr_verdict c = V_SK then bindE (deref (pl_run s)) (\<lambda>_. Inr (set_run_verdict V_SK s, None))
     else case wo_report w of
       NoReport \<Rightarrow> Inr (s, Some ''no checker result file found, non testlib checkers are not supported'')
     | ReportStatFailed \<Rightarrow> Inr (s, Some ''can not stat checker result file'')
     | _ \<Rightarrow> parseTestlibCheckerResult w s)"

definition fullCheckPipeline :: "world \<Rightarrow> invoker_job \<Rightarrow> pipe_step" where
  "fullCheckPipeline w j = sequence
     [loadCheckerBinaryFile w j, loadTestAnswerFile w j, executeCheckerRunCommand w, parseCheckerResult w]"

definition testingProcessPipeline :: "world \<Rightarrow> invoker_job \<Rightarrow> pipe_step" where
  "testingProcessPipeline w j = andThen
     (sequence [initSandbox w, loadSolutionBinary w j, loadTestInput w j, executeTestRunCommand w j])
     (\<lambda>s. bindE (deref (pl_run s)) (\<lambda>r.
        if rr_verdict r \<noteq> V_OK then Inr (s\<lparr>pl_has_resources := False\<rparr>, None)
        else fullCheckPipeline w j (s\<lparr>pl_has_resources := True\<rparr>)))"

definition uploadCheckerOutput :: "world \<Rightarrow> pipe_step" where
  "uploadCheckerOutput w s = wrap ''can not upload checker output to storage, error: '' (uploadResource w CheckerOutput (pl_reader s) s)"

definition uploadTestRunResources :: "world \<Rightarrow> pipe_step" where
  "uploadTestRunResources w = sequence
     [uploadOutput w ''output.txt'' TestOutput, uploadOutput w ''stderr.txt'' TestStderr, uploadCheckerOutput w]"

definition fullTestingPipeline :: "world \<Rightarrow> invoker_job \<Rightarrow> panic + pipeline \<times> job_result" where
  "fullTestingPipeline w j =
     bindE (bindE (testingProcessPipeline w j newPipelineState) (\<lambda>(s, err).
       case err of Some e \<Rightarrow> failJob j e s
       | None \<Rightarrow> bindE (deref (pl_run s)) (\<lambda>r.
           if pl_has_resources s \<and> rr_verdict r \<noteq> V_SK then
             bindE (uploadTestRunResources w s) (\<lambda>(s, err).
               case err of Some e \<Rightarrow> failJob j e s | None \<Rightarrow> successJob j (pl_run s) s)
           else successJob j (pl_run s) s))) checkFinish"

end
