(* ===== verification/GoPipelineSteps.thy ===== *)
theory GoPipelineSteps
  imports GoPipeline
begin

text \<open>
  Triples for the steps of a job's pipeline: a step never panics, only extends what the job asked the cache for and what it
  put off, succeeds under an exact condition on the world, and then establishes its postcondition.
\<close>

section \<open>Triples\<close>

text \<open>The keys that are asked for are among \<open>K\<close>, and the job's own defers stay the only ones of the job.\<close>

definition keeps :: "cache_key set \<Rightarrow> pipeline \<Rightarrow> pipeline \<Rightarrow> bool" where
  "keeps K s t \<longleftrightarrow> pl_finished t = pl_finished s \<and> (\<exists>g. pl_gets t = pl_gets s @ g \<and> set g \<subseteq> K) \<and>
     (\<exists>d. pl_defers t = pl_defers s @ d \<and> JobDefers \<notin> set d)"

lemma keeps_refl [intro, simp]: "keeps K s s"
  by (simp add: keeps_def)

lemma keeps_trans: "keeps K s t \<Longrightarrow> keeps K t u \<Longrightarrow> keeps K s u"
  by (fastforce simp: keeps_def)

definition triple :: "cache_key set \<Rightarrow> (pipeline \<Rightarrow> bool) \<Rightarrow> pipe_step \<Rightarrow> bool \<Rightarrow> (pipeline \<Rightarrow> bool) \<Rightarrow> bool" where
  "triple K P f C Q \<longleftrightarrow> (\<forall>s. P s \<longrightarrow> (\<exists>t err. f s = Inr (t, err) \<and> keeps K s t \<and> (err = None \<longleftrightarrow> C) \<and> (err = None \<longrightarrow> Q t)))"

lemma tripleI:
  "(\<And>s. P s \<Longrightarrow> \<exists>t err. f s = Inr (t, err) \<and> keeps K s t \<and> (err = None \<longleftrightarrow> C) \<and> (err = None \<longrightarrow> Q t)) \<Longrightarrow> triple K P f C Q"
  by (simp add: triple_def)

lemma tripleE:
  assumes "triple K P f C Q" and "P s"
  obtains t err where "f s = Inr (t, err)" "keeps K s t" "err = None \<longleftrightarrow> C" "err = None \<longrightarrow> Q t"
  using assms unfolding triple_def by blast

lemma triple_then:
  assumes "triple K P f C Q" and "C \<Longrightarrow> triple K Q g D R"
  shows "triple K P (andThen f g) (C \<and> D) R"
proof (rule tripleI)
  fix s assume "P s"
  from assms(1) this obtain t err where t: "f s = Inr (t, err)" "keeps K s t" "err = None \<longleftrightarrow> C" "err = None \<longrightarrow> Q t" by (rule tripleE)
  show "\<exists>t err. andThen f g s = Inr (t, err) \<and> keeps K s t \<and> (err = None \<longleftrightarrow> C \<and> D) \<and> (err = None \<longrightarrow> R t)"
  proof (cases err)
    case (Some e)
    with t show ?thesis by (intro exI [of _ t] exI [of _ err]) (simp add: andThen_def)
  next
    case None
    with t assms(2) have "triple K Q g D R" "Q t" by auto
    then obtain u e where "g t = Inr (u, e)" "keeps K t u" "e = None \<longleftrightarrow> D" "e = None \<longrightarrow> R u" by (rule tripleE)
    with t None keeps_trans [OF t(2)] show ?thesis by (intro exI [of _ u] exI [of _ e]) (simp add: andThen_def)
  qed
qed

lemma triple_nil: "triple K P (sequence []) True P"
  by (rule tripleI) simp

lemma triple_cons:
  assumes "triple K P f C Q" and "C \<Longrightarrow> triple K Q (sequence fs) D R"
  shows "triple K P (sequence (f # fs)) (C \<and> D) R"
proof -
  have "sequence (f # fs) = andThen f (sequence fs)" by (rule ext) simp
  with triple_then [OF assms] show ?thesis by simp
qed

lemma keeps_mono: "keeps K s t \<Longrightarrow> K \<subseteq> K' \<Longrightarrow> keeps K' s t"
  unfolding keeps_def by blast

lemma keeps_get: "k \<in> K \<Longrightarrow> keeps K s (s\<lparr>pl_gets := pl_gets s @ [k]\<rparr>)"
  by (simp add: keeps_def)

lemma triple_conseq:
  "triple K P f C Q \<Longrightarrow> (\<And>s. P' s \<Longrightarrow> P s) \<Longrightarrow> (\<And>s. C \<Longrightarrow> Q s \<Longrightarrow> Q' s) \<Longrightarrow> C = C' \<Longrightarrow> K \<subseteq> K' \<Longrightarrow> triple K' P' f C' Q'"
  unfolding triple_def keeps_def by (meson order_trans)

lemma wrap_simps [simp]: "wrap msg (Inr (s, None)) = Inr (s, None)" "wrap msg (Inr (s, Some e)) = Inr (s, Some (msg @ e))"
  by (simp_all add: wrap_def)

section \<open>Keys\<close>

definition submit_key :: "resource_type \<Rightarrow> invoker_job \<Rightarrow> cache_key" where
  "submit_key r j = \<lparr>ck_epoch = wj_epoch j, ck_resource = r, ck_problem = 0, ck_submit = wj_submission j, ck_test = 0\<rparr>"

definition test_key :: "resource_type \<Rightarrow> invoker_job \<Rightarrow> cache_key" where
  "test_key r j = \<lparr>ck_epoch = wj_epoch j, ck_resource = r, ck_problem = pr_id (wj_problem j), ck_submit = 0, ck_test = wj_test j\<rparr>"

definition checker_key :: "invoker_job \<Rightarrow> cache_key" where
  "checker_key j = \<lparr>ck_epoch = wj_epoch j, ck_resource = Checker, ck_problem = pr_id (wj_problem j), ck_submit = 0, ck_test = 0\<rparr>"

lemma job_keys [simp]:
  "sourceKey j = Inr (submit_key SourceCode j)" "binaryKey j = Inr (submit_key CompiledBinary j)"
  "inputKey j = Inr (test_key TestInput j)" "answerKey j = Inr (test_key TestAnswer j)" "checkerKey j = Inr (checker_key j)"
  by (simp_all add: sourceKey_def binaryKey_def inputKey_def answerKey_def checkerKey_def key_gens submit_key_def test_key_def checker_key_def)

section \<open>The steps\<close>

definition got_file :: "world \<Rightarrow> cache_key \<Rightarrow> string \<Rightarrow> bool" where
  "got_file w k dst \<longleftrightarrow> (\<exists>path. wo_get w k = Inr path) \<and> (\<forall>e. wo_copy w dst \<noteq> OpenFailed e)"

text \<open>What a step of loading may change.\<close>

definition same_run :: "pipeline \<Rightarrow> pipeline \<Rightarrow> bool" where
  "same_run s t \<longleftrightarrow> pl_run t = pl_run s \<and> pl_check t = pl_check s \<and> pl_uploads t = pl_uploads s \<and> pl_has_resources t = pl_has_resources s"

definition run_only :: "(run_result option \<times> run_result option \<times> (resource_type \<times> string) list \<times> bool \<Rightarrow> bool) \<Rightarrow> pipeline \<Rightarrow> bool" where
  "run_only P s \<longleftrightarrow> P (pl_run s, pl_check s, pl_uploads s, pl_has_resources s)"

lemma copy_step:
  "\<exists>t err. wrap msg (copyFileToSandbox w dst s) = Inr (t, err) \<and> keeps {} s t \<and> (err = None \<longleftrightarrow> (\<forall>e. wo_copy w dst \<noteq> OpenFailed e)) \<and> same_run s t"
  by (cases "wo_copy w dst") (simp_all add: copyFileToSandbox_def keeps_def same_run_def)

text \<open>The four steps that load a file have one shape.\<close>

lemma load_step:
  assumes "k \<in> K"
    and f: "\<And>s. f s = (case loadResource w k s of (s, Inl e) \<Rightarrow> Inr (s, Some (m @ e)) | (s, Inr path) \<Rightarrow> wrap m' (copyFileToSandbox w dst s))"
  shows "triple K (run_only P) f (got_file w k dst) (run_only P)"
proof (rule tripleI)
  fix s assume P: "run_only P s"
  define u where "u = s\<lparr>pl_gets := pl_gets s @ [k]\<rparr>"
  have u: "keeps K s u" "run_only P u" using keeps_get [OF assms(1)] P by (simp_all add: u_def run_only_def)
  show "\<exists>t err. f s = Inr (t, err) \<and> keeps K s t \<and> (err = None \<longleftrightarrow> got_file w k dst) \<and> (err = None \<longrightarrow> run_only P t)"
  proof (cases "wo_get w k")
    case (Inl e)
    then have "f s = Inr (u, Some (m @ e))" "\<not> got_file w k dst" by (simp_all add: f loadResource_def u_def got_file_def)
    with u show ?thesis by blast
  next
    case (Inr path)
    obtain t err where t: "wrap m' (copyFileToSandbox w dst u) = Inr (t, err)" "keeps {} u t"
      "err = None \<longleftrightarrow> (\<forall>e. wo_copy w dst \<noteq> OpenFailed e)" "same_run u t" using copy_step [of m' w dst u] by blast
    have "keeps K s t" using keeps_trans [OF u(1) keeps_mono [OF t(2)]] by simp
    moreover have "run_only P t" using t(4) u(2) by (simp add: same_run_def run_only_def)
    moreover have "f s = Inr (t, err)" using t(1) Inr by (simp add: f loadResource_def u_def)
    moreover have "err = None \<longleftrightarrow> got_file w k dst" using t(3) Inr by (simp add: got_file_def)
    ultimately show ?thesis by blast
  qed
qed

lemma load_steps:
  "submit_key CompiledBinary j \<in> K \<Longrightarrow> triple K (run_only P) (loadSolutionBinary w j) (got_file w (submit_key CompiledBinary j) ''solution'') (run_only P)"
  "test_key TestInput j \<in> K \<Longrightarrow> triple K (run_only P) (loadTestInput w j) (got_file w (test_key TestInput j) ''input.txt'') (run_only P)"
  "checker_key j \<in> K \<Longrightarrow> triple K (run_only P) (loadCheckerBinaryFile w j) (got_file w (checker_key j) ''check'') (run_only P)"
  "test_key TestAnswer j \<in> K \<Longrightarrow> triple K (run_only P) (loadTestAnswerFile w j) (got_file w (test_key TestAnswer j) ''answer.txt'') (run_only P)"
  by (rule load_step, assumption,
    simp only: loadSolutionBinary_def loadTestInput_def loadCheckerBinaryFile_def loadTestAnswerFile_def job_keys bindE_Inr)+

lemma init_step: "triple K (run_only P) (initSandbox w) (wo_init w = None) (run_only P)"
  by (rule tripleI) (auto simp: initSandbox_def keeps_def run_only_def split: option.split)

section \<open>Running and checking a solution\<close>

definition solution_run :: "world \<Rightarrow> invoker_job \<Rightarrow> run_result" where
  "solution_run w j = wo_run w ''solution'' (fillInTestRunConfigLimits (wj_problem j))"

definition checker_run :: "world \<Rightarrow> run_result" where
  "checker_run w = wo_run w ''check'' (wo_checker_limits w)"

definition has_run :: "world \<Rightarrow> string \<Rightarrow> run_result \<Rightarrow> bool" where
  "has_run w command r \<longleftrightarrow> wo_threads w command = None \<and> rr_err r = None"

text \<open>What the file of a checker says, if it can be understood.\<close>

definition judgement :: "checker_report \<Rightarrow> (verdict \<times> jsnum option) option" where
  "judgement rep = (case rep of
     Report outcome points text \<Rightarrow>
       if outcome = ''accepted'' then Some (V_OK, None)
       else if outcome \<in> {''wrong-answer'', ''presentation-error'', ''unexpected-eof''} then Some (V_WA, None)
       else if outcome = ''fail'' then Some (V_CF, None)
       else if outcome \<in> {''points'', ''relative-scoring''} then map_option (\<lambda>v. (V_PT, Some v)) points
       else None
   | _ \<Rightarrow> None)"

definition judged :: "checker_report \<Rightarrow> run_result \<Rightarrow> run_result" where
  "judged rep r = (case judgement rep of None \<Rightarrow> r
     | Some (v, p) \<Rightarrow> r\<lparr>rr_verdict := v, rr_points := (case p of None \<Rightarrow> rr_points r | Some x \<Rightarrow> Some x)\<rparr>)"

definition report_text :: "checker_report \<Rightarrow> string" where
  "report_text rep = (case rep of Report outcome points text \<Rightarrow> text | _ \<Rightarrow> '''')"

abbreviation holding :: "run_result option \<Rightarrow> run_result option \<Rightarrow> (resource_type \<times> string) list \<Rightarrow> bool \<Rightarrow> pipeline \<Rightarrow> bool" where
  "holding r c u b \<equiv> run_only (\<lambda>x. x = (r, c, u, b))"

lemma solution_step:
  "triple K (holding r c u b) (executeTestRunCommand w j) (has_run w ''solution'' (solution_run w j)) (holding (Some (solution_run w j)) c u b)"
  by (rule tripleI) (auto simp: executeTestRunCommand_def runProcess_def solution_run_def has_run_def keeps_def run_only_def split: option.split)

lemma checker_step:
  "triple K (holding (Some r) c u b) (executeCheckerRunCommand w)
     (has_run w ''check'' (checker_run w) \<and> rr_verdict (checker_run w) \<in> {V_OK, V_RT, V_SK}) (holding (Some r) (Some (checker_run w)) u b)"
proof (rule tripleI)
  fix s assume P: "holding (Some r) c u b s"
  let ?c = "checker_run w"
  show "\<exists>t err. executeCheckerRunCommand w s = Inr (t, err) \<and> keeps K s t \<and>
      (err = None \<longleftrightarrow> has_run w ''check'' ?c \<and> rr_verdict ?c \<in> {V_OK, V_RT, V_SK}) \<and> (err = None \<longrightarrow> holding (Some r) (Some ?c) u b t)"
  proof (cases "has_run w ''check'' ?c")
    case False
    then show ?thesis
      by (cases "wo_threads w ''check''")
        (auto simp: executeCheckerRunCommand_def runProcess_def checker_run_def has_run_def keeps_def Let_def)
  next
    case True
    have "keeps K s (s\<lparr>pl_check := Some ?c\<rparr>)" "holding (Some r) (Some ?c) u b (s\<lparr>pl_check := Some ?c\<rparr>)"
      using P by (simp_all add: keeps_def run_only_def)
    with True show ?thesis
      by (cases "rr_verdict ?c") (simp_all add: executeCheckerRunCommand_def runProcess_def checker_run_def has_run_def Let_def)
  qed
qed

lemma set_run_verdict_simps [simp]:
  "pl_run (set_run_verdict v s) = map_option (rr_verdict_update (\<lambda>_. v)) (pl_run s)" "pl_check (set_run_verdict v s) = pl_check s"
  "pl_uploads (set_run_verdict v s) = pl_uploads s" "pl_has_resources (set_run_verdict v s) = pl_has_resources s"
  "pl_reader (set_run_verdict v s) = pl_reader s" "pl_finished (set_run_verdict v s) = pl_finished s"
  "pl_gets (set_run_verdict v s) = pl_gets s" "pl_defers (set_run_verdict v s) = pl_defers s"
  by (simp_all add: set_run_verdict_def)

text \<open>A checker that was stopped stops the test.\<close>

definition checked :: "run_result \<Rightarrow> checker_report \<Rightarrow> run_result \<Rightarrow> run_result" where
  "checked c rep r = (if rr_verdict c = V_SK then r\<lparr>rr_verdict := V_SK\<rparr> else judged rep r)"

lemma testlib_step:
  assumes "pl_run s = Some r" and "pl_check s = Some c" and rep: "wo_report w = Report outcome points text"
  shows "\<exists>t err. parseTestlibCheckerResult w s = Inr (t, err) \<and> keeps K s t \<and> (err = None \<longleftrightarrow> judgement (wo_report w) \<noteq> None) \<and>
    (err = None \<longrightarrow> holding (Some (judged (wo_report w) r)) (Some c) (pl_uploads s) (pl_has_resources s) t \<and> pl_reader t = limitedReader w text)"
proof -
  define A where "A \<longleftrightarrow> outcome = ''accepted''"
  define W where "W \<longleftrightarrow> outcome \<in> {''wrong-answer'', ''presentation-error'', ''unexpected-eof''}"
  define F where "F \<longleftrightarrow> outcome = ''fail''"
  define N where "N \<longleftrightarrow> outcome \<in> {''points'', ''relative-scoring''}"
  note abstract = A_def [symmetric] W_def [symmetric] F_def [symmetric] N_def [symmetric]
  note d = parseTestlibCheckerResult_def [of w s, unfolded assms deref_def option.case bindE_Inr checker_report.case Let_def abstract]
  have j: "judgement (wo_report w) = (if A then Some (V_OK, None) else if W then Some (V_WA, None) else if F then Some (V_CF, None)
      else if N then map_option (\<lambda>v. (V_PT, Some v)) points else None)"
    unfolding judgement_def rep checker_report.case abstract ..
  let ?s = "s\<lparr>pl_reader := limitedReader w text\<rparr>"
  let ?g = "\<lambda>t err. parseTestlibCheckerResult w s = Inr (t, err) \<and> keeps K s t \<and> (err = None \<longleftrightarrow> judgement (wo_report w) \<noteq> None) \<and>
    (err = None \<longrightarrow> holding (Some (judged (wo_report w) r)) (Some c) (pl_uploads s) (pl_has_resources s) t \<and> pl_reader t = limitedReader w text)"
  have verdict: "\<exists>t err. ?g t err" if "parseTestlibCheckerResult w s = Inr (set_run_verdict v ?s, None)" "judgement (wo_report w) = Some (v, None)" for v
  proof -
    have "?g (set_run_verdict v ?s) None" using that assms(1,2) by (simp add: judged_def keeps_def run_only_def)
    then show ?thesis by blast
  qed
  have failure: "\<exists>t err. ?g t err" if "parseTestlibCheckerResult w s = Inr (?s, Some e)" "judgement (wo_report w) = None" for e
  proof -
    have "?g ?s (Some e)" using that by (simp add: keeps_def)
    then show ?thesis by blast
  qed
  consider (verdict) v where "parseTestlibCheckerResult w s = Inr (set_run_verdict v ?s, None)" "judgement (wo_report w) = Some (v, None)"
    | (failure) e where "parseTestlibCheckerResult w s = Inr (?s, Some e)" "judgement (wo_report w) = None"
    | (points) v where "parseTestlibCheckerResult w s = Inr (?s\<lparr>pl_run := Some (r\<lparr>rr_verdict := V_PT, rr_points := Some v\<rparr>)\<rparr>, None)"
        "judgement (wo_report w) = Some (V_PT, Some v)"
    unfolding d j by (cases A; cases W; cases F; cases N; cases points) simp_all
  then show ?thesis
  proof cases
    case (points v)
    then have "?g (?s\<lparr>pl_run := Some (r\<lparr>rr_verdict := V_PT, rr_points := Some v\<rparr>)\<rparr>) None"
      using assms(1,2) by (simp add: judged_def keeps_def run_only_def)
    then show ?thesis by blast
  qed (use verdict failure in blast)+
qed

lemma parse_step:
  "triple K (holding (Some r) (Some c) u b) (parseCheckerResult w) (rr_verdict c = V_SK \<or> judgement (wo_report w) \<noteq> None)
     (\<lambda>s. holding (Some (checked c (wo_report w) r)) (Some c) u b s \<and>
       (rr_verdict c \<noteq> V_SK \<longrightarrow> pl_reader s = limitedReader w (report_text (wo_report w))))"
proof (rule tripleI)
  fix s assume "holding (Some r) (Some c) u b s"
  then have s: "pl_run s = Some r" "pl_check s = Some c" "pl_uploads s = u" "pl_has_resources s = b" by (simp_all add: run_only_def)
  note d = parseCheckerResult_def [of w s, unfolded s deref_def option.case bindE_Inr]
  let ?g = "\<lambda>t err. parseCheckerResult w s = Inr (t, err) \<and> keeps K s t \<and> (err = None \<longleftrightarrow> rr_verdict c = V_SK \<or> judgement (wo_report w) \<noteq> None) \<and>
    (err = None \<longrightarrow> holding (Some (checked c (wo_report w) r)) (Some c) u b t \<and>
       (rr_verdict c \<noteq> V_SK \<longrightarrow> pl_reader t = limitedReader w (report_text (wo_report w))))"
  show "\<exists>t err. ?g t err"
  proof (cases "rr_verdict c = V_SK")
    case True
    then have "?g (set_run_verdict V_SK s) None" using s by (simp add: d keeps_def run_only_def checked_def)
    then show ?thesis by blast
  next
    case skip: False
    show ?thesis
    proof (cases "wo_report w")
      case (Report outcome points msg)
      from testlib_step [OF s(1,2) this, of K] obtain t err where t: "parseTestlibCheckerResult w s = Inr (t, err)" "keeps K s t"
        "err = None \<longleftrightarrow> judgement (wo_report w) \<noteq> None"
        "err = None \<longrightarrow> holding (Some (judged (wo_report w) r)) (Some c) (pl_uploads s) (pl_has_resources s) t \<and> pl_reader t = limitedReader w msg"
        by blast
      then have "?g t err" using skip Report s by (simp add: d checked_def report_text_def)
      then show ?thesis by blast
    qed (use skip s in \<open>auto simp: d parseTestlibCheckerResult_def deref_def judgement_def\<close>)
  qed
qed

section \<open>Uploads\<close>

definition stored_file :: "world \<Rightarrow> string \<Rightarrow> resource_type \<Rightarrow> bool" where
  "stored_file w name r \<longleftrightarrow> (\<exists>text. wo_open w name = Inr text) \<and> wo_upload w r = None"

definition content :: "world \<Rightarrow> string \<Rightarrow> string" where
  "content w name = (case wo_open w name of Inl e \<Rightarrow> '''' | Inr text \<Rightarrow> text)"

definition with_reader :: "run_result \<Rightarrow> (resource_type \<times> string) list \<Rightarrow> string \<Rightarrow> pipeline \<Rightarrow> bool" where
  "with_reader r u t s \<longleftrightarrow> pl_run s = Some r \<and> pl_uploads s = u \<and> pl_reader s = t"

lemma output_step:
  "triple K (with_reader r u t) (uploadOutput w name res) (stored_file w name res)
     (with_reader r (u @ [(res, limitedReader w (content w name))]) t)"
  by (rule tripleI)
    (cases "wo_open w name"; cases "wo_upload w res";
      simp add: uploadOutput_def openSandboxFile_def uploadResource_def stored_file_def content_def with_reader_def keeps_def)

lemma checker_output_step:
  "triple K (with_reader r u t) (uploadCheckerOutput w) (wo_upload w CheckerOutput = None) (with_reader r (u @ [(CheckerOutput, t)]) t)"
  by (rule tripleI)
    (cases "wo_upload w CheckerOutput"; simp add: uploadCheckerOutput_def uploadResource_def with_reader_def keeps_def)

definition results_stored :: "world \<Rightarrow> bool" where
  "results_stored w \<longleftrightarrow> stored_file w ''output.txt'' TestOutput \<and> stored_file w ''stderr.txt'' TestStderr \<and> wo_upload w CheckerOutput = None"

lemma results_step:
  "triple K (with_reader r [] t) (uploadTestRunResources w) (results_stored w)
     (with_reader r [(TestOutput, limitedReader w (content w ''output.txt'')), (TestStderr, limitedReader w (content w ''stderr.txt'')),
        (CheckerOutput, t)] t)"
proof -
  note steps = triple_cons [OF output_step [of K r "[]" t w "''output.txt''" TestOutput]
      triple_cons [OF output_step [of K r _ t w "''stderr.txt''" TestStderr] triple_cons [OF checker_output_step [of K r _ t w] triple_nil]]]
  show ?thesis unfolding uploadTestRunResources_def
    by (rule triple_conseq [OF steps])
      (simp_all add: results_stored_def)
qed

lemma binary_step:
  "triple K (with_reader r u t) (uploadBinary w) (stored_file w ''solution'' CompiledBinary)
     (with_reader r (u @ [(CompiledBinary, content w ''solution'')]) t)"
  by (rule tripleI)
    (cases "wo_open w ''solution''"; cases "wo_upload w CompiledBinary";
      simp add: uploadBinary_def openSandboxFile_def uploadResource_def stored_file_def content_def with_reader_def keeps_def)

lemma compile_output_step:
  "triple K (with_reader r u t) (uploadCompileResult w) (wo_upload w CompileOutput = None) (with_reader r (u @ [(CompileOutput, t)]) t)"
  by (rule tripleI)
    (cases "wo_upload w CompileOutput"; simp add: uploadCompileResult_def uploadResource_def with_reader_def keeps_def)

section \<open>The steps of a test\<close>

definition test_keys :: "invoker_job \<Rightarrow> cache_key list" where
  "test_keys j = [submit_key CompiledBinary j, test_key TestInput j, test_key TestAnswer j, checker_key j]"

definition tested :: "world \<Rightarrow> invoker_job \<Rightarrow> bool" where
  "tested w j \<longleftrightarrow> wo_init w = None \<and> got_file w (submit_key CompiledBinary j) ''solution'' \<and> got_file w (test_key TestInput j) ''input.txt'' \<and>
     has_run w ''solution'' (solution_run w j)"

definition can_check :: "world \<Rightarrow> invoker_job \<Rightarrow> bool" where
  "can_check w j \<longleftrightarrow> got_file w (checker_key j) ''check'' \<and> got_file w (test_key TestAnswer j) ''answer.txt'' \<and>
     has_run w ''check'' (checker_run w) \<and> rr_verdict (checker_run w) \<in> {V_OK, V_RT, V_SK} \<and>
     (rr_verdict (checker_run w) = V_SK \<or> judgement (wo_report w) \<noteq> None)"

text \<open>The state of the pipeline of a test before the results are stored.\<close>

definition tested_state :: "world \<Rightarrow> invoker_job \<Rightarrow> pipeline \<Rightarrow> bool" where
  "tested_state w j s \<longleftrightarrow>
     (if rr_verdict (solution_run w j) \<noteq> V_OK
      then pl_run s = Some (solution_run w j) \<and> \<not> pl_has_resources s
      else pl_run s = Some (checked (checker_run w) (wo_report w) (solution_run w j)) \<and> pl_has_resources s \<and>
        (rr_verdict (checker_run w) \<noteq> V_SK \<longrightarrow> pl_reader s = limitedReader w (report_text (wo_report w)))) \<and>
     pl_uploads s = []"

lemma check_step:
  assumes "set (test_keys j) \<subseteq> K" and "rr_verdict (solution_run w j) = V_OK"
  shows "triple K (holding (Some (solution_run w j)) None [] True) (fullCheckPipeline w j) (can_check w j) (tested_state w j)"
proof -
  have K: "checker_key j \<in> K" "test_key TestAnswer j \<in> K" using assms(1) by (simp_all add: test_keys_def)
  note steps = triple_cons [OF load_steps(3) [OF K(1)] triple_cons [OF load_steps(4) [OF K(2)]
      triple_cons [OF checker_step triple_cons [OF parse_step triple_nil]]]]
  show ?thesis unfolding fullCheckPipeline_def
    by (rule triple_conseq [OF steps [of "solution_run w j" None "[]" True w]])
      (use assms(2) in \<open>auto simp: can_check_def tested_state_def run_only_def\<close>)
qed

lemma judged_step:
  assumes K: "set (test_keys j) \<subseteq> K"
  shows "triple K (holding None None [] False) (testingProcessPipeline w j)
    (tested w j \<and> (rr_verdict (solution_run w j) = V_OK \<longrightarrow> can_check w j)) (tested_state w j)"
proof -
  let ?r = "solution_run w j"
  have k: "submit_key CompiledBinary j \<in> K" "test_key TestInput j \<in> K" using K by (simp_all add: test_keys_def)
  note steps = triple_cons [OF init_step triple_cons [OF load_steps(1) [OF k(1)] triple_cons [OF load_steps(2) [OF k(2)]
      triple_cons [OF solution_step triple_nil]]]]
  let ?rest = "\<lambda>s. bindE (deref (pl_run s)) (\<lambda>r. if rr_verdict r \<noteq> V_OK then Inr (s\<lparr>pl_has_resources := False\<rparr>, None)
      else fullCheckPipeline w j (s\<lparr>pl_has_resources := True\<rparr>))"
  have first: "triple K (holding None None [] False)
      (sequence [initSandbox w, loadSolutionBinary w j, loadTestInput w j, executeTestRunCommand w j]) (tested w j)
      (holding (Some ?r) None [] False)"
    by (rule triple_conseq [OF steps [of None None "[]" False w]]) (simp_all add: tested_def)
  have rest: "triple K (holding (Some ?r) None [] False) ?rest (rr_verdict ?r = V_OK \<longrightarrow> can_check w j) (tested_state w j)"
  proof (rule tripleI)
    fix s assume s: "holding (Some ?r) None [] False s"
    let ?s = "s\<lparr>pl_has_resources := rr_verdict ?r = V_OK\<rparr>"
    let ?g = "\<lambda>t err. ?rest s = Inr (t, err) \<and> keeps K s t \<and> (err = None \<longleftrightarrow> (rr_verdict ?r = V_OK \<longrightarrow> can_check w j)) \<and>
      (err = None \<longrightarrow> tested_state w j t)"
    have run: "pl_run s = Some ?r" "pl_uploads s = []" "pl_check s = None" using s by (simp_all add: run_only_def)
    have keep: "keeps K s ?s" by (simp add: keeps_def)
    show "\<exists>t err. ?g t err"
    proof (cases "rr_verdict ?r = V_OK")
      case False
      then have "?g ?s None" using run keep by (simp add: deref_def tested_state_def)
      then show ?thesis by blast
    next
      case True
      then have "holding (Some ?r) None [] True ?s" using run by (simp add: run_only_def)
      with check_step [OF K True] obtain t err where t: "fullCheckPipeline w j ?s = Inr (t, err)" "keeps K ?s t"
        "err = None \<longleftrightarrow> can_check w j" "err = None \<longrightarrow> tested_state w j t" by (rule tripleE)
      then have "?g t err" using True run keeps_trans [OF keep t(2)] by (simp add: deref_def)
      then show ?thesis by blast
    qed
  qed
  show ?thesis unfolding testingProcessPipeline_def by (rule triple_then [OF first rest])
qed

section \<open>The steps of a compilation\<close>

definition source_fetched :: "world \<Rightarrow> invoker_job \<Rightarrow> bool" where
  "source_fetched w j \<longleftrightarrow> (\<exists>path. wo_get w (submit_key SourceCode j) = Inr path \<and>
     (\<forall>e. wo_copy w (''source_'' @ (if path = [] then ''.'' else last path)) \<noteq> OpenFailed e))"

lemma source_step:
  assumes "submit_key SourceCode j \<in> K"
  shows "triple K (run_only P) (loadSolutionSourceFile w j) (source_fetched w j) (run_only P)"
proof (rule tripleI)
  fix s assume P: "run_only P s"
  let ?k = "submit_key SourceCode j"
  define u where "u = s\<lparr>pl_gets := pl_gets s @ [?k]\<rparr>"
  have u: "keeps K s u" "run_only P u" using keeps_get [OF assms] P by (simp_all add: u_def run_only_def)
  let ?g = "\<lambda>t err. loadSolutionSourceFile w j s = Inr (t, err) \<and> keeps K s t \<and> (err = None \<longleftrightarrow> source_fetched w j) \<and> (err = None \<longrightarrow> run_only P t)"
  show "\<exists>t err. ?g t err"
  proof (cases "wo_get w ?k")
    case (Inl e)
    then have "?g u (Some (''can not get submission source, error: '' @ e))"
      using u by (simp add: loadSolutionSourceFile_def loadResource_def u_def source_fetched_def)
    then show ?thesis by blast
  next
    case (Inr path)
    let ?name = "''source_'' @ (if path = [] then ''.'' else last path)"
    let ?m = "''can not copy submission source to sandbox, error: ''"
    define v where "v = u\<lparr>pl_source := ?name\<rparr>"
    have v: "keeps K u v" "run_only P v" using u(2) by (simp_all add: v_def keeps_def run_only_def)
    obtain t err where t: "wrap ?m (copyFileToSandbox w ?name v) = Inr (t, err)" "keeps {} v t"
      "err = None \<longleftrightarrow> (\<forall>e. wo_copy w ?name \<noteq> OpenFailed e)" "same_run v t" using copy_step [of ?m w ?name v] by blast
    have "loadSolutionSourceFile w j s = wrap ?m (copyFileToSandbox w ?name v)"
      unfolding loadSolutionSourceFile_def job_keys bindE_Inr loadResource_def prod.case Inr sum.case Let_def v_def u_def ..
    moreover have "keeps K s t" using keeps_trans [OF u(1) keeps_trans [OF v(1) keeps_mono [OF t(2)]]] by simp
    moreover have "run_only P t" using t(4) v(2) by (simp add: same_run_def run_only_def)
    moreover have "err = None \<longleftrightarrow> source_fetched w j" using t(3) Inr by (simp add: source_fetched_def)
    ultimately have "?g t err" using t(1) by simp
    then show ?thesis by blast
  qed
qed

definition script_ready :: "world \<Rightarrow> invoker_job \<Rightarrow> bool" where
  "script_ready w j \<longleftrightarrow> (\<exists>la. wo_languages w (wj_language j) = Some la \<and> la_script la = None) \<and> wo_write w = None"

lemma script_step: "triple K (run_only P) (setupCompileScript w j) (script_ready w j) (run_only P)"
  by (rule tripleI) (auto simp: setupCompileScript_def script_ready_def split: option.split)

definition compiler_run :: "world \<Rightarrow> invoker_job \<Rightarrow> run_result" where
  "compiler_run w j = wo_run w ''compile.sh'' (la_limits (the (wo_languages w (wj_language j))))"

lemma compiler_step:
  assumes "script_ready w j"
  shows "triple K (holding r c u b) (executeCompilationCommand w j) (has_run w ''compile.sh'' (compiler_run w j))
    (holding (Some (compiler_run w j)) c u b)"
  using assms
  by (intro tripleI) (auto simp: script_ready_def executeCompilationCommand_def deref_def runProcess_def compiler_run_def has_run_def
      keeps_def run_only_def split: option.split)

text \<open>What a run of the compiler means, and the message that is kept.\<close>

definition compile_verdict :: "world \<Rightarrow> invoker_job \<Rightarrow> verdict option" where
  "compile_verdict w j =
     (let v = rr_verdict (compiler_run w j); opened = (\<exists>text. wo_open w ''compile_message.txt'' = Inr text) in
      if v = V_OK \<and> opened then Some V_CD
      else if v = V_RT \<and> opened \<or> v \<in> {V_TL, V_ML, V_WL, V_SE} then Some V_CE
      else None)"

definition compile_message :: "world \<Rightarrow> invoker_job \<Rightarrow> string" where
  "compile_message w j =
     (let l = la_limits (the (wo_languages w (wj_language j))) in
      case rr_verdict (compiler_run w j) of
        V_TL \<Rightarrow> ''Compilation took more than '' @ Time_String (rl_time l) @ '' time''
      | V_ML \<Rightarrow> ''Compilation took more than '' @ Memory_String (rl_memory l) @ '' memory''
      | V_WL \<Rightarrow> ''Compilation took more than '' @ Time_String (rl_wall l) @ '' wall time''
      | V_SE \<Rightarrow> ''Security violation''
      | _ \<Rightarrow> limitedReader w (content w ''compile_message.txt''))"

lemma message_step:
  "triple K (\<lambda>s. pl_run s = Some r \<and> pl_uploads s = u) (openCompilationMessage w) (\<exists>text. wo_open w ''compile_message.txt'' = Inr text)
     (with_reader r u (limitedReader w (content w ''compile_message.txt'')))"
  by (rule tripleI) (cases "wo_open w ''compile_message.txt''"; simp add: openCompilationMessage_def openSandboxFile_def content_def keeps_def with_reader_def)

lemma verdict_step:
  assumes "script_ready w j"
  shows "triple K (holding (Some (compiler_run w j)) c [] b) (processCompilationResult w j) (compile_verdict w j \<noteq> None)
    (with_reader ((compiler_run w j)\<lparr>rr_verdict := the (compile_verdict w j)\<rparr>) [] (compile_message w j))"
proof (rule tripleI)
  fix s assume "holding (Some (compiler_run w j)) c [] b s"
  then have s: "pl_run s = Some (compiler_run w j)" "pl_uploads s = []" by (simp_all add: run_only_def)
  obtain la where la: "wo_languages w (wj_language j) = Some la" using assms by (auto simp: script_ready_def)
  let ?r = "compiler_run w j"
  let ?f = "processCompilationResult w j s"
  let ?g = "\<lambda>t err. ?f = Inr (t, err) \<and> keeps K s t \<and> (err = None \<longleftrightarrow> compile_verdict w j \<noteq> None) \<and>
    (err = None \<longrightarrow> with_reader (?r\<lparr>rr_verdict := the (compile_verdict w j)\<rparr>) [] (compile_message w j) t)"
  note d = processCompilationResult_def [of w j s, unfolded s la deref_def option.case bindE_Inr Let_def]
  have message: "\<exists>t err. ?g t err" if "?f = openCompilationMessage w (set_run_verdict v s)"
    "compile_verdict w j = (if \<exists>text. wo_open w ''compile_message.txt'' = Inr text then Some v else None)"
    "compile_message w j = limitedReader w (content w ''compile_message.txt'')" for v
  proof -
    have "pl_run (set_run_verdict v s) = Some (?r\<lparr>rr_verdict := v\<rparr>) \<and> pl_uploads (set_run_verdict v s) = []" using s by simp
    from tripleE [OF message_step this, of w K] obtain t err where t: "openCompilationMessage w (set_run_verdict v s) = Inr (t, err)"
      "keeps K (set_run_verdict v s) t" "err = None \<longleftrightarrow> (\<exists>text. wo_open w ''compile_message.txt'' = Inr text)"
      "err = None \<longrightarrow> with_reader (?r\<lparr>rr_verdict := v\<rparr>) [] (limitedReader w (content w ''compile_message.txt'')) t" by blast
    moreover have "keeps K s t" using t(2) by (simp add: keeps_def)
    ultimately have "?g t err" using that by simp
    then show ?thesis by blast
  qed
  have given: "\<exists>t err. ?g t err" if "?f = Inr (set_run_verdict V_CE s\<lparr>pl_reader := msg\<rparr>, None)"
    "compile_verdict w j = Some V_CE" "compile_message w j = msg" for msg
  proof -
    have "?g (set_run_verdict V_CE s\<lparr>pl_reader := msg\<rparr>) None" using that s by (simp add: keeps_def with_reader_def)
    then show ?thesis by blast
  qed
  have unknown: "\<exists>t err. ?g t err" if "?f = Inr (s, Some e)" "compile_verdict w j = None" for e
  proof -
    have "?g s (Some e)" using that by simp
    then show ?thesis by blast
  qed
  show "\<exists>t err. ?g t err"
  proof (cases "rr_verdict ?r")
    case V_OK
    then show ?thesis by (intro message [of V_CD]) (simp_all add: d compile_verdict_def compile_message_def la)
  next
    case V_RT
    then show ?thesis by (intro message [of V_CE]) (simp_all add: d compile_verdict_def compile_message_def la)
  next
    case V_TL
    then show ?thesis by (intro given) (simp_all add: d compile_verdict_def compile_message_def la)
  next
    case V_ML
    then show ?thesis by (intro given) (simp_all add: d compile_verdict_def compile_message_def la)
  next
    case V_WL
    then show ?thesis by (intro given) (simp_all add: d compile_verdict_def compile_message_def la)
  next
    case V_SE
    then show ?thesis by (intro given) (simp_all add: d compile_verdict_def compile_message_def la)
  qed (rule unknown; simp add: d compile_verdict_def)+
qed

section \<open>Whole pipelines\<close>

text \<open>What a job ended with: it finished once, gave up its own locks once, and asked only for keys in \<open>K\<close>.\<close>

definition ended :: "cache_key set \<Rightarrow> pipeline \<Rightarrow> bool" where
  "ended K s \<longleftrightarrow> pl_finished s \<and> count_list (pl_deferred s) JobDefers = 1 \<and> set (pl_gets s) \<subseteq> K"

lemma finish_ended:
  assumes "keeps K newPipelineState s"
  obtains t where "finish s = Inr t" "ended K t" "pl_finished t" "pl_uploads t = pl_uploads s"
  using assms by (auto simp: keeps_def newPipelineState_def finish_def ended_def count_list_0_iff)

definition failed_report :: "invoker_job \<Rightarrow> string \<Rightarrow> job_result" where
  "failed_report j e = \<lparr>jres_job = wj_id j, jres_verdict = V_CF, jres_points = None, jres_error = ''job '' @ wj_id j @ '' error: '' @ e,
     jres_statistics = None\<rparr>"

definition run_report :: "invoker_job \<Rightarrow> run_result \<Rightarrow> job_result" where
  "run_report j r = \<lparr>jres_job = wj_id j, jres_verdict = rr_verdict r, jres_points = rr_points r, jres_error = '''',
     jres_statistics = Some (rr_stats r)\<rparr>"

lemma failJob_ended:
  assumes "keeps K newPipelineState s"
  shows "\<exists>t. bindE (failJob j e s) checkFinish = Inr (t, failed_report j e) \<and> ended K t"
proof -
  obtain t where "finish s = Inr t" "ended K t" "pl_finished t" using finish_ended [OF assms] by blast
  then show ?thesis by (simp add: failJob_def failed_report_def checkFinish_def)
qed

lemma successJob_ended:
  assumes "keeps K newPipelineState s"
  shows "\<exists>t. bindE (successJob j (Some r) s) checkFinish = Inr (t, run_report j r) \<and> ended K t \<and> pl_uploads t = pl_uploads s"
proof -
  obtain t where "finish s = Inr t" "ended K t" "pl_finished t" "pl_uploads t = pl_uploads s" using finish_ended [OF assms] by blast
  then show ?thesis by (simp add: successJob_def run_report_def checkFinish_def deref_def)
qed

text \<open>The result of the run of a test, if nothing around it fails.\<close>

definition tested_outcome :: "world \<Rightarrow> invoker_job \<Rightarrow> run_result option" where
  "tested_outcome w j =
     (let r = solution_run w j; c = checker_run w in
      if \<not> tested w j then None
      else if rr_verdict r \<noteq> V_OK then Some r
      else if \<not> can_check w j then None
      else if rr_verdict c = V_SK then Some (r\<lparr>rr_verdict := V_SK\<rparr>)
      else if results_stored w then Some (judged (wo_report w) r) else None)"

definition stored_results :: "world \<Rightarrow> (resource_type \<times> string) list" where
  "stored_results w = [(TestOutput, limitedReader w (content w ''output.txt'')), (TestStderr, limitedReader w (content w ''stderr.txt'')),
     (CheckerOutput, limitedReader w (report_text (wo_report w)))]"

lemma judgement_verdicts:
  assumes "judgement rep = Some (v, x)"
  shows "v \<in> {V_OK, V_WA, V_CF, V_PT} \<and> (v = V_PT \<longrightarrow> x \<noteq> None)"
proof -
  obtain outcome points msg where rep: "rep = Report outcome points msg" using assms by (cases rep) (simp_all add: judgement_def)
  define A where "A \<longleftrightarrow> outcome = ''accepted''"
  define W where "W \<longleftrightarrow> outcome \<in> {''wrong-answer'', ''presentation-error'', ''unexpected-eof''}"
  define F where "F \<longleftrightarrow> outcome = ''fail''"
  define N where "N \<longleftrightarrow> outcome \<in> {''points'', ''relative-scoring''}"
  note j = judgement_def [of rep, unfolded rep checker_report.case A_def [symmetric] W_def [symmetric] F_def [symmetric] N_def [symmetric]]
  show ?thesis using assms unfolding rep j by (cases A; cases W; cases F; cases N) auto
qed

text \<open>Who judges is never stopped.\<close>

lemma judged_not_skipped: "rr_verdict r = V_OK \<Longrightarrow> rr_verdict (judged rep r) \<noteq> V_SK"
  by (auto simp: judged_def judgement_def split: option.splits checker_report.splits if_splits)

lemma bindE_case_err: "bindE (case err of None \<Rightarrow> a | Some e \<Rightarrow> f e) g = (case err of None \<Rightarrow> bindE a g | Some e \<Rightarrow> bindE (f e) g)"
  by (cases err) simp_all

lemma testing_pipeline:
  "\<exists>s rep. fullTestingPipeline w j = Inr (s, rep) \<and> ended (set (test_keys j)) s \<and>
     (case tested_outcome w j of None \<Rightarrow> \<exists>e. rep = failed_report j e
      | Some r \<Rightarrow> rep = run_report j r \<and>
          pl_uploads s = (if rr_verdict (solution_run w j) = V_OK \<and> rr_verdict r \<noteq> V_SK then stored_results w else []))"
proof -
  let ?K = "set (test_keys j)" and ?r = "solution_run w j"
  have start: "holding None None [] False newPipelineState" by (simp add: newPipelineState_def run_only_def)
  from tripleE [OF judged_step [OF subset_refl, of j w] start] obtain t err where t: "testingProcessPipeline w j newPipelineState = Inr (t, err)"
    "keeps ?K newPipelineState t" "err = None \<longleftrightarrow> tested w j \<and> (rr_verdict ?r = V_OK \<longrightarrow> can_check w j)" "err = None \<longrightarrow> tested_state w j t"
    by blast
  note unfold = fullTestingPipeline_def [of w j, unfolded t(1) bindE_Inr prod.case bindE_case_err]
  show ?thesis
  proof (cases err)
    case (Some e)
    then have "tested_outcome w j = None" using t(3) by (auto simp: tested_outcome_def Let_def)
    with failJob_ended [OF t(2), of j e] Some show ?thesis by (auto simp: unfold)
  next
    case None
    then have c: "tested w j" "rr_verdict ?r = V_OK \<longrightarrow> can_check w j" "tested_state w j t" using t(3,4) by auto
    obtain r where r: "pl_run t = Some r" "r = (if rr_verdict ?r \<noteq> V_OK then ?r else checked (checker_run w) (wo_report w) ?r)"
      "pl_has_resources t \<longleftrightarrow> rr_verdict ?r = V_OK" "pl_uploads t = []"
      using c(3) by (auto simp: tested_state_def split: if_splits)
    show ?thesis
    proof (cases "rr_verdict ?r = V_OK \<and> rr_verdict r \<noteq> V_SK")
      case False
      then have "tested_outcome w j = Some r"
        using c r(2) judged_not_skipped [of ?r "wo_report w"] by (auto simp: tested_outcome_def checked_def Let_def)
      with successJob_ended [OF t(2), of j r] False None r show ?thesis by (auto simp: unfold deref_def)
    next
      case True
      then have skip: "rr_verdict (checker_run w) \<noteq> V_SK" using r(2) by (auto simp: checked_def)
      then have jr: "r = judged (wo_report w) ?r" using r(2) True by (simp add: checked_def)
      have "with_reader r [] (limitedReader w (report_text (wo_report w))) t"
        using c(3) True skip r by (simp add: with_reader_def tested_state_def)
      from tripleE [OF results_step this, of w ?K] obtain u err' where u: "uploadTestRunResources w t = Inr (u, err')" "keeps ?K t u"
        "err' = None \<longleftrightarrow> results_stored w" "err' = None \<longrightarrow> with_reader r (stored_results w) (limitedReader w (report_text (wo_report w))) u"
        unfolding stored_results_def by blast
      have ku: "keeps ?K newPipelineState u" by (rule keeps_trans [OF t(2) u(2)])
      have full: "fullTestingPipeline w j =
          (case err' of None \<Rightarrow> bindE (successJob j (pl_run u) u) checkFinish | Some e \<Rightarrow> bindE (failJob j e u) checkFinish)"
        using True r(1,3) None u(1) by (simp add: unfold deref_def bindE_case_err)
      show ?thesis
      proof (cases err')
        case (Some e)
        then have "tested_outcome w j = None" using u(3) c(1,2) True skip by (simp add: tested_outcome_def Let_def)
        with failJob_ended [OF ku, of j e] Some show ?thesis by (auto simp: full)
      next
        case None
        then have "tested_outcome w j = Some r" using u(3) c(1,2) True skip jr by (simp add: tested_outcome_def Let_def)
        with successJob_ended [OF ku, of j r] None u(4) True show ?thesis by (auto simp: full with_reader_def)
      qed
    qed
  qed
qed

definition compile_outcome :: "world \<Rightarrow> invoker_job \<Rightarrow> run_result option" where
  "compile_outcome w j =
     (if wo_init w = None \<and> source_fetched w j \<and> script_ready w j \<and> has_run w ''compile.sh'' (compiler_run w j) \<and>
         wo_upload w CompileOutput = None
      then case compile_verdict w j of
        None \<Rightarrow> None
      | Some v \<Rightarrow> if v = V_CD \<and> \<not> stored_file w ''solution'' CompiledBinary then None else Some ((compiler_run w j)\<lparr>rr_verdict := v\<rparr>)
      else None)"

definition compile_keys :: "invoker_job \<Rightarrow> cache_key list" where
  "compile_keys j = [submit_key SourceCode j]"

lemma compilation_step:
  "triple (set (compile_keys j)) (holding None None [] False) (compilationProcessPipeline w j)
    (wo_init w = None \<and> source_fetched w j \<and> script_ready w j \<and> has_run w ''compile.sh'' (compiler_run w j) \<and> compile_verdict w j \<noteq> None)
    (with_reader ((compiler_run w j)\<lparr>rr_verdict := the (compile_verdict w j)\<rparr>) [] (compile_message w j))"
proof -
  let ?K = "set (compile_keys j)"
  have k: "submit_key SourceCode j \<in> ?K" by (simp add: compile_keys_def)
  have run: "triple ?K (holding None None [] False) (sequence [executeCompilationCommand w j, processCompilationResult w j])
      (has_run w ''compile.sh'' (compiler_run w j) \<and> compile_verdict w j \<noteq> None)
      (with_reader ((compiler_run w j)\<lparr>rr_verdict := the (compile_verdict w j)\<rparr>) [] (compile_message w j))" if "script_ready w j"
    using triple_cons [OF compiler_step [OF that] triple_cons [OF verdict_step [OF that] triple_nil]] by simp
  show ?thesis unfolding compilationProcessPipeline_def
    by (intro triple_cons [OF init_step] triple_cons [OF source_step [OF k]] triple_cons [OF script_step] run)
qed

lemma compile_upload_step:
  "triple K (with_reader r [] t) (uploadCompilationResources w)
     (wo_upload w CompileOutput = None \<and> (rr_verdict r = V_CD \<longrightarrow> stored_file w ''solution'' CompiledBinary))
     (with_reader r ((CompileOutput, t) # (if rr_verdict r = V_CD then [(CompiledBinary, content w ''solution'')] else [])) t)"
proof -
  let ?rest = "\<lambda>s. bindE (deref (pl_run s)) (\<lambda>r. if rr_verdict r \<noteq> V_CD then Inr (s, None) else uploadBinary w s)"
  let ?Q = "with_reader r ((CompileOutput, t) # (if rr_verdict r = V_CD then [(CompiledBinary, content w ''solution'')] else [])) t"
  have rest: "triple K (with_reader r [(CompileOutput, t)] t) ?rest (rr_verdict r = V_CD \<longrightarrow> stored_file w ''solution'' CompiledBinary) ?Q"
  proof (cases "rr_verdict r = V_CD")
    case False
    then show ?thesis by (intro tripleI) (auto simp: with_reader_def deref_def)
  next
    case True
    have "?rest s = uploadBinary w s" if "with_reader r [(CompileOutput, t)] t s" for s
      using that True by (simp add: with_reader_def deref_def)
    then show ?thesis using binary_step [of K r "[(CompileOutput, t)]" t w] True unfolding triple_def by simp
  qed
  show ?thesis unfolding uploadCompilationResources_def
    using triple_then [OF compile_output_step [of K r "[]" t w]] rest by simp
qed

definition compile_uploads :: "world \<Rightarrow> invoker_job \<Rightarrow> verdict \<Rightarrow> (resource_type \<times> string) list" where
  "compile_uploads w j v = (CompileOutput, compile_message w j) # (if v = V_CD then [(CompiledBinary, content w ''solution'')] else [])"

lemma compilation_pipeline:
  "\<exists>s rep. fullCompilationPipeline w j = Inr (s, rep) \<and> ended (set (compile_keys j)) s \<and>
     (case compile_outcome w j of None \<Rightarrow> \<exists>e. rep = failed_report j e
      | Some r \<Rightarrow> rep = run_report j r \<and> pl_uploads s = compile_uploads w j (rr_verdict r))"
proof -
  let ?K = "set (compile_keys j)" and ?r = "(compiler_run w j)\<lparr>rr_verdict := the (compile_verdict w j)\<rparr>"
  let ?C = "wo_init w = None \<and> source_fetched w j \<and> script_ready w j \<and> has_run w ''compile.sh'' (compiler_run w j) \<and> compile_verdict w j \<noteq> None"
  have start: "holding None None [] False newPipelineState" by (simp add: newPipelineState_def run_only_def)
  from tripleE [OF compilation_step start] obtain t err where t: "compilationProcessPipeline w j newPipelineState = Inr (t, err)"
    "keeps ?K newPipelineState t" "err = None \<longleftrightarrow> ?C" "err = None \<longrightarrow> with_reader ?r [] (compile_message w j) t" by blast
  note unfold = fullCompilationPipeline_def [of w j, unfolded t(1) bindE_Inr prod.case bindE_case_err]
  show ?thesis
  proof (cases err)
    case (Some e)
    then have "\<not> ?C" using t(3) by blast
    then have "compile_outcome w j = None" by (auto simp: compile_outcome_def split: option.split)
    with failJob_ended [OF t(2), of j e] Some show ?thesis by (auto simp: unfold)
  next
    case None
    then have C: ?C and "with_reader ?r [] (compile_message w j) t" using t(3,4) by simp_all
    from tripleE [OF compile_upload_step this(2), of w ?K] obtain u err' where u: "uploadCompilationResources w t = Inr (u, err')" "keeps ?K t u"
      "err' = None \<longleftrightarrow> wo_upload w CompileOutput = None \<and> (rr_verdict ?r = V_CD \<longrightarrow> stored_file w ''solution'' CompiledBinary)"
      "err' = None \<longrightarrow> with_reader ?r (compile_uploads w j (rr_verdict ?r)) (compile_message w j) u"
      unfolding compile_uploads_def by blast
    have ku: "keeps ?K newPipelineState u" by (rule keeps_trans [OF t(2) u(2)])
    have full: "fullCompilationPipeline w j =
        (case err' of None \<Rightarrow> bindE (successJob j (pl_run u) u) checkFinish | Some e \<Rightarrow> bindE (failJob j e u) checkFinish)"
      using None u(1) by (simp add: unfold bindE_case_err)
    obtain v where v: "compile_verdict w j = Some v" using C by blast
    show ?thesis
    proof (cases err')
      case (Some e)
      then have "compile_outcome w j = None" using u(3) C v by (auto simp: compile_outcome_def)
      with failJob_ended [OF ku, of j e] Some show ?thesis by (auto simp: full)
    next
      case None
      then have "compile_outcome w j = Some ?r" using u(3) C v by (simp add: compile_outcome_def)
      with successJob_ended [OF ku, of j ?r] None u(4) show ?thesis by (auto simp: full with_reader_def)
    qed
  qed
qed

lemma compile_outcome_verdict: "compile_outcome w j = Some r \<Longrightarrow> rr_verdict r \<in> {V_CD, V_CE}"
  by (auto simp: compile_outcome_def compile_verdict_def Let_def split: if_splits option.splits)

end
