(* ===== verification/GoExecutor.thy ===== *)
theory GoExecutor
  imports GoModels
begin

text \<open>
  invoker/threads_executor.go: threads that take values from a queue.  A call that holds the mutex is one function;
  the loop of a thread is its step under the mutex before it processes a value, and the one after.  Times are
  integers, given by the caller.  The message of a stopped executor leaves out its name.
\<close>

section \<open>Executors\<close>

record thread_times =
  tt_waited :: int
  tt_since :: int
  tt_active :: bool

text \<open>The values that threads process are local to them: \<open>ex_busy\<close>; \<open>ex_left\<close> are the threads that ended.\<close>

record 'v executor =
  ex_values :: "'v list"
  ex_closed :: bool
  ex_times :: "thread_times list"
  ex_busy :: "nat \<rightharpoonup> 'v"
  ex_left :: "nat set"

definition newExecutor :: "nat \<Rightarrow> 'v executor" where
  "newExecutor n = \<lparr>ex_values = [], ex_closed = False, ex_times = replicate n \<lparr>tt_waited = 0, tt_since = 0, tt_active = False\<rparr>,
     ex_busy = Map.empty, ex_left = {}\<rparr>"

definition add_value :: "'v \<Rightarrow> 'v executor \<Rightarrow> 'v executor \<times> string option" where
  "add_value v e = (if ex_closed e then (e, Some ''threads are stopped'') else (e\<lparr>ex_values := ex_values e @ [v]\<rparr>, None))"

definition stop_executor :: "'v executor \<Rightarrow> 'v executor" where
  "stop_executor e = (if ex_closed e then e else e\<lparr>ex_closed := True\<rparr>)"

definition executor_metrics :: "int \<Rightarrow> 'v executor \<Rightarrow> int list" where
  "executor_metrics now e = map (\<lambda>t. if \<not> tt_active t then tt_waited t + (now - tt_since t) else tt_waited t) (ex_times e)"

definition start_thread :: "nat \<Rightarrow> int \<Rightarrow> 'v executor \<Rightarrow> 'v executor" where
  "start_thread n now e = e\<lparr>ex_times := (ex_times e)[n := (ex_times e ! n)\<lparr>tt_since := now\<rparr>]\<rparr>"

text \<open>Before a value: the thread takes it, waits, or leaves the loop.\<close>

datatype 'v received = Taken 'v | Sleeps | Leaves

definition receive :: "nat \<Rightarrow> int \<Rightarrow> 'v executor \<Rightarrow> 'v executor \<times> 'v received" where
  "receive n now e =
     (case ex_values e of
        [] \<Rightarrow> if ex_closed e then (e\<lparr>ex_left := insert n (ex_left e)\<rparr>, Leaves) else (e, Sleeps)
      | v # vs \<Rightarrow>
          (let t = ex_times e ! n in
           (e\<lparr>ex_values := vs, ex_times := (ex_times e)[n := t\<lparr>tt_waited := tt_waited t + (now - tt_since t), tt_active := True\<rparr>],
              ex_busy := (ex_busy e)(n \<mapsto> v)\<rparr>, Taken v)))"

definition processed :: "nat \<Rightarrow> int \<Rightarrow> 'v executor \<Rightarrow> 'v executor" where
  "processed n now e = e\<lparr>ex_times := (ex_times e)[n := (ex_times e ! n)\<lparr>tt_since := now, tt_active := False\<rparr>],
     ex_busy := (ex_busy e)(n := None)\<rparr>"

text \<open>A thread can receive when it has no value and has not ended.\<close>

definition idle_thread :: "nat \<Rightarrow> 'v executor \<Rightarrow> bool" where
  "idle_thread n e \<longleftrightarrow> n < length (ex_times e) \<and> ex_busy e n = None \<and> n \<notin> ex_left e"

section \<open>What the executor holds\<close>

text \<open>The values in the executor: those that wait, and those that threads have.\<close>

definition executor_ok :: "'v executor \<Rightarrow> bool" where
  "executor_ok e \<longleftrightarrow> distinct (ex_values e) \<and> (ex_left e \<noteq> {} \<longrightarrow> ex_closed e \<and> ex_values e = []) \<and>
     (\<forall>n v. ex_busy e n = Some v \<longrightarrow> v \<notin> set (ex_values e) \<and> n < length (ex_times e) \<and> n \<notin> ex_left e) \<and>
     (\<forall>m n v. ex_busy e m = Some v \<and> ex_busy e n = Some v \<longrightarrow> m = n)"

lemma executor_new: "executor_ok (newExecutor n)"
  by (simp add: executor_ok_def newExecutor_def)

lemma executor_add:
  assumes "executor_ok e" and "v \<notin> set (ex_values e)" and "\<forall>n. ex_busy e n \<noteq> Some v" and "add_value v e = (e', err)"
  shows "executor_ok e' \<and> (err = None \<longleftrightarrow> \<not> ex_closed e) \<and> ex_values e' = (if ex_closed e then ex_values e else ex_values e @ [v]) \<and>
    ex_busy e' = ex_busy e"
  using assms by (auto simp: executor_ok_def add_value_def split: if_splits)

lemma executor_stop: "executor_ok e \<Longrightarrow> executor_ok (stop_executor e)"
  by (auto simp: executor_ok_def stop_executor_def)

lemma executor_take:
  assumes ok: "executor_ok e" and idle: "idle_thread n e" and r: "receive n now e = (e', Taken v)"
  shows "executor_ok e' \<and> ex_values e = v # ex_values e' \<and> ex_busy e' = (ex_busy e)(n \<mapsto> v)"
proof -
  obtain vs where vs: "ex_values e = v # vs" "ex_values e' = vs" "ex_busy e' = (ex_busy e)(n \<mapsto> v)" "ex_left e' = ex_left e"
    "ex_closed e' = ex_closed e" "length (ex_times e') = length (ex_times e)"
    using r by (auto simp: receive_def Let_def split: list.splits if_splits)
  have n: "n < length (ex_times e)" "n \<notin> ex_left e" using idle by (auto simp: idle_thread_def)
  have "executor_ok e'" using ok n unfolding executor_ok_def vs by auto
  with vs show ?thesis by simp
qed

lemma executor_leave:
  assumes "executor_ok e" and "idle_thread n e" and "receive n now e = (e', Leaves)"
  shows "executor_ok e' \<and> ex_values e = [] \<and> ex_values e' = [] \<and> ex_closed e \<and> ex_busy e' = ex_busy e \<and> ex_left e' = insert n (ex_left e)"
  using assms by (auto simp: executor_ok_def receive_def idle_thread_def Let_def split: list.splits if_splits)

lemma executor_processed:
  "executor_ok e \<Longrightarrow> executor_ok (processed n now e)"
  by (auto simp: executor_ok_def processed_def)

text \<open>When every thread has left, nothing is left to do.\<close>

lemma executor_over:
  assumes "executor_ok e" and "ex_left e = {..<length (ex_times e)}" and "ex_times e \<noteq> []"
  shows "ex_values e = []" "ex_busy e n = None" "ex_closed e"
proof -
  have "ex_left e \<noteq> {}" using assms(2,3) by auto
  with assms(1) show "ex_values e = []" "ex_closed e" by (auto simp: executor_ok_def)
  show "ex_busy e n = None" using assms(1,2) by (cases "ex_busy e n") (auto simp: executor_ok_def)
qed

end
