(* ===== verification/GoInvokerRun.thy ===== *)
theory GoInvokerRun
  imports GoPipelineSteps GoCacheRun GoExecutor GoRegistry
begin

text \<open>
  invoker/job.go, handler.go and invoker.go: jobs arrive at the invoker, lock their files, wait for a sandbox thread, run
  their pipeline and leave.  Every call that holds a mutex is a step of its own, in any order with those of the
  other jobs, the loads of the cache, and the shutdown.
\<close>

section \<open>New jobs\<close>

text \<open>A row of the database, none, or an error.\<close>

datatype 'r looked_up = Row 'r | NoRow | LookupFailed

record source_row =
  sr_id :: "64 word"
  sr_problem :: "64 word"
  sr_language :: string

record job_request =
  jq_id :: string
  jq_type :: int
  jq_submit :: "64 word"
  jq_test :: "64 word"

definition no_submission :: source_row where
  "no_submission = \<lparr>sr_id = 0, sr_problem = 0, sr_language = ''''\<rparr>"

definition no_problem :: limits_row where
  "no_problem = \<lparr>pr_id = 0, pr_tests = 0, pr_time = 0, pr_memory = 0, pr_wall = None, pr_open_files = None, pr_threads = None,
     pr_output = None\<rparr>"

text \<open>The codes of the error responses, and the job.  A row that is not found is answered, and the job goes on without it.\<close>

definition initJob :: "int \<Rightarrow> source_row looked_up \<Rightarrow> limits_row looked_up \<Rightarrow> job_request \<Rightarrow> nat list \<times> invoker_job option" where
  "initJob epoch sub prob rq =
     (case sub of LookupFailed \<Rightarrow> ([500], None)
      | _ \<Rightarrow>
        (let (codes, s) = (case sub of Row s \<Rightarrow> ([], s) | _ \<Rightarrow> ([400], no_submission)) in
         case prob of LookupFailed \<Rightarrow> (codes @ [500], None)
         | _ \<Rightarrow>
           (let (codes', p) = (case prob of Row p \<Rightarrow> ([], p) | _ \<Rightarrow> ([400], no_problem)) in
            (codes @ codes', Some \<lparr>wj_id = jq_id rq, wj_type = jq_type rq, wj_test = jq_test rq, wj_submission = sr_id s,
               wj_language = sr_language s, wj_problem = p, wj_epoch = epoch\<rparr>))))"

text \<open>The keys that a job locks, in this order, or the message it is refused with.\<close>

definition newCompileJob :: "invoker_job \<Rightarrow> panic + string + cache_key list" where
  "newCompileJob j = bindE (sourceKey j) (\<lambda>k. Inr (Inr [k]))"

definition newTestJob :: "invoker_job \<Rightarrow> panic + string + cache_key list" where
  "newTestJob j =
     (if wj_test j \<le> 0 \<or> wj_test j > pr_tests (wj_problem j) then
        Inr (Inl (uint_text (wj_test j) @ '' test required, tests in problem '' @ uint_text (pr_id (wj_problem j)) @
          '' are numbered from 1 to '' @ uint_text (pr_tests (wj_problem j))))
      else bindE (binaryKey j) (\<lambda>b. bindE (inputKey j) (\<lambda>i. bindE (answerKey j) (\<lambda>a. bindE (checkerKey j) (\<lambda>c.
        Inr (Inr [b, i, a, c]))))))"

definition handleNewJob :: "invoker_job \<Rightarrow> panic + string + cache_key list" where
  "handleNewJob j =
     (if wj_type j = 1 then newCompileJob j
      else if wj_type j = 2 then newTestJob j
      else Inr (Inl (''Can not parse job type JobType('' @ string_of_int (wj_type j) @ '')'')))"

text \<open>What a sandbox thread does with a job.\<close>

definition sandboxThread :: "world \<Rightarrow> invoker_job \<Rightarrow> panic + pipeline \<times> job_result" where
  "sandboxThread w j =
     (if wj_type j = 1 then fullCompilationPipeline w j
      else if wj_type j = 2 then fullTestingPipeline w j
      else Inl (Panic ''Unknown job type''))"

lemma job_plan:
  assumes "handleNewJob j = Inr (Inr ks)"
  shows "\<exists>s rep. sandboxThread w j = Inr (s, rep) \<and> ended (set ks) s"
proof -
  consider (compile) "wj_type j = 1" "ks = compile_keys j" | (test) "wj_type j = 2" "ks = test_keys j"
    using assms by (auto simp: handleNewJob_def newCompileJob_def newTestJob_def compile_keys_def test_keys_def split: if_splits)
  then show ?thesis
  proof cases
    case compile
    then show ?thesis using compilation_pipeline [of w j] by (auto simp: sandboxThread_def)
  next
    case test
    then show ?thesis using testing_pipeline [of w j] by (auto simp: sandboxThread_def)
  qed
qed

section \<open>Runs of an invoker\<close>

text \<open>
  A request is with its handler and, once it is queued, with the sandbox threads.  A thread's job knows the world it will
  find, the result it will send, and the keys it will still ask the cache for.
\<close>

datatype handler_stage = Locking "cache_key list" | Registering | Replied | Dropped
datatype worker_stage = NotAdded | Queued | Working world job_result "cache_key list"
  | Awaiting world job_result cache_key "cache_key list" | Releasing job_result | Leaving job_result | Ended job_result

record job_run =
  jr_job :: invoker_job
  jr_handler :: handler_stage
  jr_worker :: worker_stage
  jr_held :: "cache_key list"

record invoker_run =
  ir_cache :: "(cache_key, string list, string) cache_run"
  ir_epoch :: int
  ir_jobs :: "job_run list"
  ir_sandboxes :: "nat executor"
  ir_active :: "string \<rightharpoonup> nat"
  ir_runner_closed :: bool

definition invoker_start :: "64 word \<Rightarrow> nat \<Rightarrow> invoker_run" where
  "invoker_start bound threads = \<lparr>ir_cache = cache_start bound True, ir_epoch = 0, ir_jobs = [], ir_sandboxes = newExecutor threads,
     ir_active = Map.empty, ir_runner_closed = False\<rparr>"

text \<open>The answer to the master: the jobs in the order of a walk over the map, and how many new ones fit.\<close>

definition getStatus_of :: "string \<Rightarrow> string \<Rightarrow> nat \<Rightarrow> string list \<Rightarrow> invoker_status" where
  "getStatus_of address epoch maxJobs order =
     \<lparr>is_address = address, is_epoch = epoch, is_max_new = (if length order > maxJobs then 0 else int maxJobs - int (length order)),
      is_active = order\<rparr>"

text \<open>What the cache gave is what the job finds.\<close>

definition finds :: "world \<Rightarrow> cache_key \<Rightarrow> string list option \<Rightarrow> string option \<Rightarrow> bool" where
  "finds w k v e \<longleftrightarrow> (case e of Some msg \<Rightarrow> wo_get w k = Inl msg | None \<Rightarrow> (\<exists>path. v = Some path \<and> wo_get w k = Inr path))"

definition set_job :: "nat \<Rightarrow> job_run \<Rightarrow> invoker_run \<Rightarrow> invoker_run" where
  "set_job i x S = S\<lparr>ir_jobs := (ir_jobs S)[i := x]\<rparr>"

definition job_at :: "invoker_run \<Rightarrow> nat \<Rightarrow> job_run \<Rightarrow> bool" where
  "job_at S i x \<longleftrightarrow> i < length (ir_jobs S) \<and> ir_jobs S ! i = x"

abbreviation cache_of :: "invoker_run \<Rightarrow> (cache_key, string list, string) lru_cache" where
  "cache_of S \<equiv> cr_cache (ir_cache S)"

inductive invoker_step :: "invoker_run \<Rightarrow> invoker_run \<Rightarrow> bool" where
  arrives: "initJob (ir_epoch S) sub prob rq = (codes, Some j) \<Longrightarrow> handleNewJob j = Inr (Inr ks) \<Longrightarrow>
    invoker_step S (S\<lparr>ir_jobs := ir_jobs S @ [\<lparr>jr_job = j, jr_handler = Locking ks, jr_worker = NotAdded, jr_held = []\<rparr>]\<rparr>)"
| locks: "job_at S i x \<Longrightarrow> jr_handler x = Locking (k # ks) \<Longrightarrow> room (ir_cache S) k \<Longrightarrow> Lock k (cache_of S) = Inr (c, started) \<Longrightarrow>
    invoker_step S (set_job i (x\<lparr>jr_handler := Locking ks, jr_held := jr_held x @ [k]\<rparr>)
      (S\<lparr>ir_cache := (ir_cache S)\<lparr>cr_cache := c, cr_loads := starts k started (cr_loads (ir_cache S)),
         cr_held := (cr_held (ir_cache S))(k := cr_held (ir_cache S) k + 1)\<rparr>\<rparr>))"
| adds: "job_at S i x \<Longrightarrow> jr_handler x = Locking [] \<Longrightarrow> add_value i (ir_sandboxes S) = (e, None) \<Longrightarrow>
    invoker_step S (set_job i (x\<lparr>jr_handler := Registering, jr_worker := Queued\<rparr>) (S\<lparr>ir_sandboxes := e\<rparr>))"
| drops: "job_at S i x \<Longrightarrow> jr_handler x = Locking [] \<Longrightarrow> add_value i (ir_sandboxes S) = (e, Some err) \<Longrightarrow>
    invoker_step S (set_job i (x\<lparr>jr_handler := Dropped\<rparr>) (S\<lparr>ir_sandboxes := e\<rparr>))"
| registers: "job_at S i x \<Longrightarrow> jr_handler x = Registering \<Longrightarrow>
    invoker_step S (set_job i (x\<lparr>jr_handler := Replied\<rparr>) (S\<lparr>ir_active := (ir_active S)(wj_id (jr_job x) \<mapsto> i)\<rparr>))"
| takes: "idle_thread n (ir_sandboxes S) \<Longrightarrow> receive n now (ir_sandboxes S) = (e, Taken i) \<Longrightarrow> job_at S i x \<Longrightarrow>
    sandboxThread w (jr_job x) = Inr (s, rep) \<Longrightarrow>
    invoker_step S (set_job i (x\<lparr>jr_worker := Working w rep (pl_gets s)\<rparr>) (S\<lparr>ir_sandboxes := e\<rparr>))"
| gets: "job_at S i x \<Longrightarrow> jr_worker x = Working w rep (k # ks) \<Longrightarrow> room (ir_cache S) k \<Longrightarrow> Get k (cache_of S) = Inr (c, Got v e) \<Longrightarrow>
    finds w k v e \<Longrightarrow>
    invoker_step S (set_job i (x\<lparr>jr_worker := Working w rep ks\<rparr>) (S\<lparr>ir_cache := (ir_cache S)\<lparr>cr_cache := c\<rparr>\<rparr>))"
| awaits: "job_at S i x \<Longrightarrow> jr_worker x = Working w rep (k # ks) \<Longrightarrow> room (ir_cache S) k \<Longrightarrow>
    Get k (cache_of S) = Inr (c, Waiting started) \<Longrightarrow>
    invoker_step S (set_job i (x\<lparr>jr_worker := Awaiting w rep k ks\<rparr>)
      (S\<lparr>ir_cache := (ir_cache S)\<lparr>cr_cache := c, cr_loads := starts k started (cr_loads (ir_cache S)),
         cr_gets := (cr_gets (ir_cache S))(k := cr_gets (ir_cache S) k + 1)\<rparr>\<rparr>))"
| resumes: "job_at S i x \<Longrightarrow> jr_worker x = Awaiting w rep k ks \<Longrightarrow> k \<notin> cr_loads (ir_cache S) \<Longrightarrow>
    Get_waited k (cache_of S) = Inr (c, v, e) \<Longrightarrow> finds w k v e \<Longrightarrow>
    invoker_step S (set_job i (x\<lparr>jr_worker := Working w rep ks\<rparr>)
      (S\<lparr>ir_cache := (ir_cache S)\<lparr>cr_cache := c, cr_gets := (cr_gets (ir_cache S))(k := cr_gets (ir_cache S) k - 1)\<rparr>\<rparr>))"
| ends: "job_at S i x \<Longrightarrow> jr_worker x = Working w rep [] \<Longrightarrow> invoker_step S (set_job i (x\<lparr>jr_worker := Releasing rep\<rparr>) S)"
| releases: "job_at S i x \<Longrightarrow> jr_worker x = Releasing rep \<Longrightarrow> jr_held x = ks @ [k] \<Longrightarrow> Unlock k (cache_of S) = Inr (c, gone, err) \<Longrightarrow>
    invoker_step S (set_job i (x\<lparr>jr_held := ks\<rparr>)
      (S\<lparr>ir_cache := (ir_cache S)\<lparr>cr_cache := c, cr_held := (cr_held (ir_cache S))(k := cr_held (ir_cache S) k - 1)\<rparr>\<rparr>))"
| leaves: "job_at S i x \<Longrightarrow> jr_worker x = Releasing rep \<Longrightarrow> jr_held x = [] \<Longrightarrow>
    invoker_step S (set_job i (x\<lparr>jr_worker := Leaving rep\<rparr>) (S\<lparr>ir_active := (ir_active S)(wj_id (jr_job x) := None)\<rparr>))"
| idles: "job_at S i x \<Longrightarrow> jr_worker x = Leaving rep \<Longrightarrow> ex_busy (ir_sandboxes S) n = Some i \<Longrightarrow>
    invoker_step S (set_job i (x\<lparr>jr_worker := Ended rep\<rparr>) (S\<lparr>ir_sandboxes := processed n now (ir_sandboxes S)\<rparr>))"
| loads: "k \<in> cr_loads (ir_cache S) \<Longrightarrow> getFiles answer k = Inr got \<Longrightarrow> loadAbsentValue k got (cache_of S) = Inr (c, gone) \<Longrightarrow>
    invoker_step S (S\<lparr>ir_cache := (ir_cache S)\<lparr>cr_cache := c, cr_loads := cr_loads (ir_cache S) - {k}\<rparr>\<rparr>)"
| resets: "invoker_step S (S\<lparr>ir_epoch := ir_epoch S + 1\<rparr>)"
| stops: "invoker_step S (S\<lparr>ir_sandboxes := stop_executor (ir_sandboxes S)\<rparr>)"
| thread_ends: "idle_thread n (ir_sandboxes S) \<Longrightarrow> receive n now (ir_sandboxes S) = (e, Leaves) \<Longrightarrow>
    invoker_step S (S\<lparr>ir_sandboxes := e\<rparr>)"
| runner_stops: "ex_left (ir_sandboxes S) = {..<length (ex_times (ir_sandboxes S))} \<Longrightarrow> invoker_step S (S\<lparr>ir_runner_closed := True\<rparr>)"

abbreviation invoker_runs :: "invoker_run \<Rightarrow> invoker_run \<Rightarrow> bool" where
  "invoker_runs \<equiv> rtranclp invoker_step"

end
