(* ===== verification/GoInvokerSteps.thy ===== *)
theory GoInvokerSteps
  imports GoInvokerRun
begin

text \<open>
  Invariants of the invoker: its users keep the protocol of the cache, its jobs are where the sandbox threads have them, and
  the map of active jobs has those that were registered and have not left.
\<close>

section \<open>Sums over the jobs\<close>

definition total :: "('a \<Rightarrow> nat) \<Rightarrow> 'a list \<Rightarrow> nat" where
  "total f xs = sum_list (map f xs)"

lemma total_update: "i < length xs \<Longrightarrow> total f (xs[i := y]) + f (xs ! i) = total f xs + f y"
  by (induction xs arbitrary: i) (auto simp: total_def nth_Cons split: nat.split)

lemma total_append [simp]: "total f (xs @ [y]) = total f xs + f y"
  by (simp add: total_def)

lemma total_ge: "i < length xs \<Longrightarrow> f (xs ! i) \<le> total f xs"
  by (simp add: total_def member_le_sum_list)

definition held_by :: "cache_key \<Rightarrow> job_run \<Rightarrow> nat" where
  "held_by k x = count_list (jr_held x) k"

definition waits_for :: "cache_key \<Rightarrow> job_run \<Rightarrow> nat" where
  "waits_for k x = (case jr_worker x of Awaiting w rep k' ks \<Rightarrow> (if k' = k then 1 else 0) | _ \<Rightarrow> 0)"

section \<open>The stages of a job\<close>

text \<open>
  A job locks what it was planned to lock, then holds all of it until it releases; what it asks the cache for is what it
  holds.
\<close>

fun worker_ok :: "invoker_job \<Rightarrow> cache_key list \<Rightarrow> worker_stage \<Rightarrow> bool" where
  "worker_ok j held NotAdded = False"
| "worker_ok j held Queued = (handleNewJob j = Inr (Inr held))"
| "worker_ok j held (Working w rep ks) = (handleNewJob j = Inr (Inr held) \<and>
     (\<exists>s done. sandboxThread w j = Inr (s, rep) \<and> pl_gets s = done @ ks))"
| "worker_ok j held (Awaiting w rep k ks) = (handleNewJob j = Inr (Inr held) \<and>
     (\<exists>s done. sandboxThread w j = Inr (s, rep) \<and> pl_gets s = done @ k # ks))"
| "worker_ok j held (Releasing rep) = (\<exists>w s. sandboxThread w j = Inr (s, rep))"
| "worker_ok j held (Leaving rep) = (held = [] \<and> (\<exists>w s. sandboxThread w j = Inr (s, rep)))"
| "worker_ok j held (Ended rep) = (held = [] \<and> (\<exists>w s. sandboxThread w j = Inr (s, rep)))"

definition stage_ok :: "job_run \<Rightarrow> bool" where
  "stage_ok x \<longleftrightarrow>
     (case jr_handler x of
        Locking ks \<Rightarrow> handleNewJob (jr_job x) = Inr (Inr (jr_held x @ ks)) \<and> jr_worker x = NotAdded
      | Dropped \<Rightarrow> handleNewJob (jr_job x) = Inr (Inr (jr_held x)) \<and> jr_worker x = NotAdded
      | _ \<Rightarrow> worker_ok (jr_job x) (jr_held x) (jr_worker x))"

lemma stage_worker: "stage_ok x \<Longrightarrow> jr_worker x \<noteq> NotAdded \<Longrightarrow> worker_ok (jr_job x) (jr_held x) (jr_worker x)"
  by (auto simp: stage_ok_def split: handler_stage.splits)

lemma stage_move:
  "stage_ok x \<Longrightarrow> jr_worker x \<noteq> NotAdded \<Longrightarrow> worker_ok (jr_job x) held wk \<Longrightarrow> stage_ok (x\<lparr>jr_worker := wk, jr_held := held\<rparr>)"
  by (auto simp: stage_ok_def split: handler_stage.splits)

lemma asks_for_held:
  assumes "handleNewJob j = Inr (Inr ks)" and "sandboxThread w j = Inr (s, rep)"
  shows "set (pl_gets s) \<subseteq> set ks"
  using job_plan [OF assms(1), of w] assms(2) by (auto simp: ended_def)

definition users_in :: "invoker_run \<Rightarrow> bool" where
  "users_in S \<longleftrightarrow> (\<forall>x \<in> set (ir_jobs S). stage_ok x) \<and>
     (\<forall>k. cr_held (ir_cache S) k = total (held_by k) (ir_jobs S)) \<and> (\<forall>k. cr_gets (ir_cache S) k = total (waits_for k) (ir_jobs S))"

lemma users_in_start: "users_in (invoker_start bound n)"
  by (simp add: users_in_def invoker_start_def cache_start_def total_def)

lemma job_atD: "job_at S i x \<Longrightarrow> i < length (ir_jobs S) \<and> ir_jobs S ! i = x \<and> x \<in> set (ir_jobs S)"
  by (auto simp: job_at_def)

lemma set_job_simps [simp]:
  "ir_cache (set_job i x S) = ir_cache S" "ir_epoch (set_job i x S) = ir_epoch S" "ir_jobs (set_job i x S) = (ir_jobs S)[i := x]"
  "ir_sandboxes (set_job i x S) = ir_sandboxes S" "ir_active (set_job i x S) = ir_active S"
  "ir_runner_closed (set_job i x S) = ir_runner_closed S"
  by (simp_all add: set_job_def)

text \<open>A step of one job changes the sums by what it changes for the job.\<close>

lemma users_in_job:
  assumes ok: "users_in S" and at: "job_at S i x" and y: "stage_ok y"
    and held: "\<And>k. h k + held_by k x = cr_held (ir_cache S) k + held_by k y"
    and waiting: "\<And>k. g k + waits_for k x = cr_gets (ir_cache S) k + waits_for k y"
    and T: "ir_jobs T = (ir_jobs S)[i := y]" "cr_held (ir_cache T) = h" "cr_gets (ir_cache T) = g"
  shows "users_in T"
proof -
  have i: "i < length (ir_jobs S)" "ir_jobs S ! i = x" using at by (auto simp: job_at_def)
  have "h k = total (held_by k) ((ir_jobs S)[i := y])" for k
    using total_update [OF i(1), of "held_by k" y] held [of k] ok i(2) by (simp add: users_in_def)
  moreover have "g k = total (waits_for k) ((ir_jobs S)[i := y])" for k
    using total_update [OF i(1), of "waits_for k" y] waiting [of k] ok i(2) by (simp add: users_in_def)
  moreover have "\<forall>z \<in> set ((ir_jobs S)[i := y]). stage_ok z"
    using ok y set_update_subset_insert [of "ir_jobs S" i y] by (auto simp: users_in_def)
  ultimately show ?thesis using T by (simp add: users_in_def)
qed

lemma held_positive:
  assumes "users_in S" and "job_at S i x" and "k \<in> set (jr_held x)"
  shows "cr_held (ir_cache S) k > 0"
proof -
  have i: "i < length (ir_jobs S)" "ir_jobs S ! i = x" using assms(2) by (auto simp: job_at_def)
  have "0 < held_by k x" using assms(3) by (simp add: held_by_def count_list_0_iff flip: neq0_conv)
  also have "\<dots> \<le> total (held_by k) (ir_jobs S)" using total_ge [OF i(1), of "held_by k"] i(2) by simp
  also have "\<dots> = cr_held (ir_cache S) k" using assms(1) by (simp add: users_in_def)
  finally show ?thesis .
qed

lemma waiting_positive:
  assumes "users_in S" and "job_at S i x" and "jr_worker x = Awaiting w rep k ks"
  shows "cr_gets (ir_cache S) k > 0"
proof -
  have i: "i < length (ir_jobs S)" "ir_jobs S ! i = x" using assms(2) by (auto simp: job_at_def)
  have "0 < waits_for k x" using assms(3) by (simp add: waits_for_def)
  also have "\<dots> \<le> total (waits_for k) (ir_jobs S)" using total_ge [OF i(1), of "waits_for k"] i(2) by simp
  also have "\<dots> = cr_gets (ir_cache S) k" using assms(1) by (simp add: users_in_def)
  finally show ?thesis .
qed

lemma working_handler: "stage_ok x \<Longrightarrow> jr_worker x \<noteq> NotAdded \<Longrightarrow> jr_handler x = Registering \<or> jr_handler x = Replied"
  by (cases "jr_handler x") (auto simp: stage_ok_def)

section \<open>The cache and its users\<close>

lemma receive_taken: "receive n now e = (e', Taken v) \<Longrightarrow> v \<in> set (ex_values e)"
  by (auto simp: receive_def Let_def split: list.splits if_splits)

definition stays_cache :: "invoker_run \<Rightarrow> invoker_run \<Rightarrow> bool" where
  "stays_cache S T \<longleftrightarrow> ir_cache T = ir_cache S \<or> cache_step (ir_cache S) (ir_cache T)"

lemma invoker_step_users:
  assumes step: "invoker_step S T" and ok: "users_in S"
    and queued: "\<And>i x. i \<in> set (ex_values (ir_sandboxes S)) \<Longrightarrow> job_at S i x \<Longrightarrow> jr_worker x = Queued"
  shows "users_in T \<and> stays_cache S T"
  using step
proof cases
  case (arrives sub prob rq codes j ks)
  then have "stage_ok \<lparr>jr_job = j, jr_handler = Locking ks, jr_worker = NotAdded, jr_held = []\<rparr>" by (simp add: stage_ok_def)
  then show ?thesis using ok by (simp add: arrives(1) users_in_def held_by_def waits_for_def stays_cache_def)
next
  case (locks i x k ks c started)
  have x: "stage_ok x" using ok job_atD [OF locks(2)] by (simp add: users_in_def)
  let ?y = "x\<lparr>jr_handler := Locking ks, jr_held := jr_held x @ [k]\<rparr>"
  have "stage_ok ?y" using x locks(3) by (simp add: stage_ok_def)
  then have "users_in T" unfolding locks(1)
    by (rule users_in_job [OF ok locks(2)]) (auto simp: held_by_def waits_for_def)
  moreover have "cache_step (ir_cache S) (ir_cache T)" unfolding locks(1) using cache_step.locked [OF locks(4,5)] by simp
  ultimately show ?thesis by (simp add: stays_cache_def)
next
  case (adds i x e)
  have x: "stage_ok x" using ok job_atD [OF adds(2)] by (simp add: users_in_def)
  then have "stage_ok (x\<lparr>jr_handler := Registering, jr_worker := Queued\<rparr>)" using adds(3) by (simp add: stage_ok_def)
  then have "users_in T" unfolding adds(1)
    by (rule users_in_job [OF ok adds(2)]) (use x adds(3) in \<open>auto simp: held_by_def waits_for_def stage_ok_def\<close>)
  then show ?thesis by (simp add: adds(1) stays_cache_def)
next
  case (drops i x e err)
  have x: "stage_ok x" using ok job_atD [OF drops(2)] by (simp add: users_in_def)
  then have "stage_ok (x\<lparr>jr_handler := Dropped\<rparr>)" using drops(3) by (simp add: stage_ok_def)
  then have "users_in T" unfolding drops(1)
    by (rule users_in_job [OF ok drops(2)]) (auto simp: held_by_def waits_for_def)
  then show ?thesis by (simp add: drops(1) stays_cache_def)
next
  case (registers i x)
  have x: "stage_ok x" using ok job_atD [OF registers(2)] by (simp add: users_in_def)
  then have "stage_ok (x\<lparr>jr_handler := Replied\<rparr>)" using registers(3) by (simp add: stage_ok_def)
  then have "users_in T" unfolding registers(1)
    by (rule users_in_job [OF ok registers(2)]) (auto simp: held_by_def waits_for_def)
  then show ?thesis by (simp add: registers(1) stays_cache_def)
next
  case (takes n now e i x w s rep)
  have x: "stage_ok x" "jr_worker x = Queued"
    using ok job_atD [OF takes(4)] queued [OF _ takes(4)] receive_taken [OF takes(3)] by (auto simp: users_in_def)
  then have "stage_ok (x\<lparr>jr_worker := Working w rep (pl_gets s), jr_held := jr_held x\<rparr>)"
    using takes(5) stage_worker [OF x(1)] by (intro stage_move) simp_all
  then have "users_in T" unfolding takes(1)
    by (intro users_in_job [OF ok takes(4)]) (use x(2) in \<open>auto simp: held_by_def waits_for_def\<close>)
  then show ?thesis by (simp add: takes(1) stays_cache_def)
next
  case (gets i x w rep k ks c v e)
  have x: "stage_ok x" using ok job_atD [OF gets(2)] by (simp add: users_in_def)
  then have "stage_ok (x\<lparr>jr_worker := Working w rep ks, jr_held := jr_held x\<rparr>)"
    using gets(3) stage_worker [OF x] by (intro stage_move) auto
  then have "users_in T" unfolding gets(1)
    by (intro users_in_job [OF ok gets(2)]) (use gets(3) in \<open>auto simp: held_by_def waits_for_def\<close>)
  moreover have "cache_step (ir_cache S) (ir_cache T)" unfolding gets(1) using cache_step.got [OF gets(4,5)] by simp
  ultimately show ?thesis by (simp add: stays_cache_def)
next
  case (awaits i x w rep k ks c started)
  have x: "stage_ok x" using ok job_atD [OF awaits(2)] by (simp add: users_in_def)
  then have "stage_ok (x\<lparr>jr_worker := Awaiting w rep k ks, jr_held := jr_held x\<rparr>)"
    using awaits(3) stage_worker [OF x] by (intro stage_move) simp_all
  then have "users_in T" unfolding awaits(1)
    by (intro users_in_job [OF ok awaits(2)]) (use awaits(3) in \<open>auto simp: held_by_def waits_for_def\<close>)
  moreover have "cache_step (ir_cache S) (ir_cache T)" unfolding awaits(1) using cache_step.waits [OF awaits(4,5)] by simp
  ultimately show ?thesis by (simp add: stays_cache_def)
next
  case (resumes i x w rep k ks c v e)
  have x: "stage_ok x" using ok job_atD [OF resumes(2)] by (simp add: users_in_def)
  then have "stage_ok (x\<lparr>jr_worker := Working w rep ks, jr_held := jr_held x\<rparr>)"
    using resumes(3) stage_worker [OF x] by (intro stage_move) auto
  moreover have pos: "cr_gets (ir_cache S) k > 0" by (rule waiting_positive [OF ok resumes(2,3)])
  ultimately have "users_in T" unfolding resumes(1)
    by (intro users_in_job [OF ok resumes(2)]) (use resumes(3) in \<open>auto simp: held_by_def waits_for_def\<close>)
  moreover have "cache_step (ir_cache S) (ir_cache T)" unfolding resumes(1) using cache_step.waited [OF pos resumes(4,5)] by simp
  ultimately show ?thesis by (simp add: stays_cache_def)
next
  case (ends i x w rep)
  have x: "stage_ok x" using ok job_atD [OF ends(2)] by (simp add: users_in_def)
  then have "stage_ok (x\<lparr>jr_worker := Releasing rep, jr_held := jr_held x\<rparr>)"
    using ends(3) stage_worker [OF x] by (intro stage_move) auto
  then have "users_in T" unfolding ends(1)
    by (intro users_in_job [OF ok ends(2)]) (use ends(3) in \<open>auto simp: held_by_def waits_for_def\<close>)
  then show ?thesis by (simp add: ends(1) stays_cache_def)
next
  case (releases i x rep ks k c gone err)
  have x: "stage_ok x" using ok job_atD [OF releases(2)] by (simp add: users_in_def)
  then have "stage_ok (x\<lparr>jr_worker := Releasing rep, jr_held := ks\<rparr>)"
    using releases(3) stage_worker [OF x] by (intro stage_move) simp_all
  moreover have same: "x\<lparr>jr_worker := Releasing rep, jr_held := ks\<rparr> = x\<lparr>jr_held := ks\<rparr>" using releases(3) by (cases x) simp
  moreover have pos: "cr_held (ir_cache S) k > 0" by (rule held_positive [OF ok releases(2)]) (simp add: releases(4))
  ultimately have "users_in T" unfolding releases(1)
    by (intro users_in_job [OF ok releases(2), of "x\<lparr>jr_held := ks\<rparr>"])
      (use releases(3,4) same in \<open>auto simp: held_by_def waits_for_def\<close>)
  moreover have "cache_step (ir_cache S) (ir_cache T)" unfolding releases(1) using cache_step.unlocked [OF pos releases(5)] by simp
  ultimately show ?thesis by (simp add: stays_cache_def)
next
  case (leaves i x rep)
  have x: "stage_ok x" using ok job_atD [OF leaves(2)] by (simp add: users_in_def)
  then have "stage_ok (x\<lparr>jr_worker := Leaving rep, jr_held := jr_held x\<rparr>)"
    using leaves(3,4) stage_worker [OF x] by (intro stage_move) auto
  then have "users_in T" unfolding leaves(1)
    by (intro users_in_job [OF ok leaves(2)]) (use leaves(3) in \<open>auto simp: held_by_def waits_for_def\<close>)
  then show ?thesis by (simp add: leaves(1) stays_cache_def)
next
  case (idles i x rep n now)
  have x: "stage_ok x" using ok job_atD [OF idles(2)] by (simp add: users_in_def)
  then have "stage_ok (x\<lparr>jr_worker := Ended rep, jr_held := jr_held x\<rparr>)"
    using idles(3) stage_worker [OF x] by (intro stage_move) simp_all
  then have "users_in T" unfolding idles(1)
    by (intro users_in_job [OF ok idles(2)]) (use idles(3) in \<open>auto simp: held_by_def waits_for_def\<close>)
  then show ?thesis by (simp add: idles(1) stays_cache_def)
next
  case (loads k answer got c gone)
  have "cache_step (ir_cache S) (ir_cache T)" unfolding loads(1) using cache_step.loaded [OF loads(2,4)] by simp
  moreover have "users_in T" using ok by (simp add: loads(1) users_in_def)
  ultimately show ?thesis by (simp add: stays_cache_def)
qed (use ok in \<open>simp_all add: users_in_def stays_cache_def\<close>)

section \<open>Jobs and threads\<close>

definition running :: "worker_stage \<Rightarrow> bool" where
  "running wk \<longleftrightarrow> (case wk of Working _ _ _ \<Rightarrow> True | Awaiting _ _ _ _ \<Rightarrow> True | Releasing _ \<Rightarrow> True | Leaving _ \<Rightarrow> True | _ \<Rightarrow> False)"

text \<open>The queue of the sandbox threads has the jobs that wait for one, and a thread has each job that runs.\<close>

definition threads_in :: "invoker_run \<Rightarrow> bool" where
  "threads_in S \<longleftrightarrow> executor_ok (ir_sandboxes S) \<and>
     (\<forall>i. i \<in> set (ex_values (ir_sandboxes S)) \<longleftrightarrow> i < length (ir_jobs S) \<and> jr_worker (ir_jobs S ! i) = Queued) \<and>
     (\<forall>i. (\<exists>n. ex_busy (ir_sandboxes S) n = Some i) \<longleftrightarrow> i < length (ir_jobs S) \<and> running (jr_worker (ir_jobs S ! i))) \<and>
     (ir_runner_closed S \<longrightarrow> ex_left (ir_sandboxes S) = {..<length (ex_times (ir_sandboxes S))})"

lemma threads_in_start: "threads_in (invoker_start bound n)"
  using executor_new [of n] by (simp add: threads_in_def invoker_start_def newExecutor_def)

lemma threads_inD:
  assumes "threads_in S"
  shows "executor_ok (ir_sandboxes S)"
    "i \<in> set (ex_values (ir_sandboxes S)) \<longleftrightarrow> i < length (ir_jobs S) \<and> jr_worker (ir_jobs S ! i) = Queued"
    "(\<exists>n. ex_busy (ir_sandboxes S) n = Some i) \<longleftrightarrow> i < length (ir_jobs S) \<and> running (jr_worker (ir_jobs S ! i))"
    "ir_runner_closed S \<Longrightarrow> ex_left (ir_sandboxes S) = {..<length (ex_times (ir_sandboxes S))}"
  using assms unfolding threads_in_def by blast+

text \<open>A step that moves a job within its thread, or outside of all threads.\<close>

lemma threads_in_same:
  assumes ok: "threads_in S" and at: "job_at S i x" and "jr_worker y = Queued \<longleftrightarrow> jr_worker x = Queued"
    and "running (jr_worker y) \<longleftrightarrow> running (jr_worker x)"
    and T: "ir_jobs T = (ir_jobs S)[i := y]" "ir_sandboxes T = ir_sandboxes S" "ir_runner_closed T = ir_runner_closed S"
  shows "threads_in T"
  using assms unfolding threads_in_def job_at_def by (auto simp: nth_list_update)

lemma ex_times_receive [simp]: "receive n now e = (e', r) \<Longrightarrow> length (ex_times e') = length (ex_times e)"
  by (auto simp: receive_def Let_def split: list.splits if_splits)

lemma not_over:
  assumes "threads_in S" and "idle_thread n (ir_sandboxes S)"
  shows "\<not> ir_runner_closed S"
  using threads_inD(4) [OF assms(1)] assms(2) by (auto simp: idle_thread_def)

lemma invoker_step_threads:
  assumes step: "invoker_step S T" and ok: "threads_in S" and users: "users_in S"
  shows "threads_in T"
  using step
proof cases
  note d = threads_inD [OF ok]
  case (arrives sub prob rq codes j ks)
  show ?thesis unfolding threads_in_def
    using d by (auto simp: arrives(1) nth_append running_def less_Suc_eq split: if_splits)
next
  case (locks i x k ks c started)
  show ?thesis by (rule threads_in_same [OF ok locks(2)]) (simp_all add: locks(1))
next
  note d = threads_inD [OF ok]
  case (adds i x e)
  have x: "jr_worker x = NotAdded" "i < length (ir_jobs S)" "ir_jobs S ! i = x"
    using users job_atD [OF adds(2)] adds(3) by (auto simp: users_in_def stage_ok_def)
  have i: "i \<notin> set (ex_values (ir_sandboxes S))" "\<forall>n. ex_busy (ir_sandboxes S) n \<noteq> Some i"
    using d(2) [of i] d(3) [of i] x by (auto simp: running_def)
  from executor_add [OF d(1) i adds(4)] have e: "executor_ok e" "\<not> ex_closed (ir_sandboxes S)"
    "ex_values e = ex_values (ir_sandboxes S) @ [i]" "ex_busy e = ex_busy (ir_sandboxes S)" by auto
  have "ex_left e = ex_left (ir_sandboxes S)" "ex_times e = ex_times (ir_sandboxes S)" using adds(4) by (auto simp: add_value_def split: if_splits)
  then show ?thesis unfolding threads_in_def
    using d e x by (auto simp: adds(1) nth_list_update running_def)
next
  case (drops i x e err)
  then have e: "e = ir_sandboxes S" by (auto simp: add_value_def split: if_splits)
  show ?thesis by (rule threads_in_same [OF ok drops(2)]) (simp_all add: drops(1) e)
next
  case (registers i x)
  show ?thesis by (rule threads_in_same [OF ok registers(2)]) (simp_all add: registers(1))
next
  note d = threads_inD [OF ok]
  case (takes n now e i x w s rep)
  have x: "i < length (ir_jobs S)" "ir_jobs S ! i = x" using job_atD [OF takes(4)] by auto
  from executor_take [OF d(1) takes(2,3)] have e: "executor_ok e" "ex_values (ir_sandboxes S) = i # ex_values e"
    "ex_busy e = (ex_busy (ir_sandboxes S))(n \<mapsto> i)" by auto
  have idle: "ex_busy (ir_sandboxes S) n = None" using takes(2) by (simp add: idle_thread_def)
  have dist: "i \<notin> set (ex_values e)" using d(1) e(2) by (auto simp: executor_ok_def)
  have q: "k \<in> set (ex_values e) \<longleftrightarrow> k \<noteq> i \<and> k < length (ir_jobs S) \<and> jr_worker (ir_jobs S ! k) = Queued" for k
    using d(2) [of k] e(2) dist by auto
  have b: "(\<exists>m. ex_busy e m = Some k) \<longleftrightarrow> k = i \<or> (\<exists>m. ex_busy (ir_sandboxes S) m = Some k)" for k
    using idle unfolding e(3) by (auto simp: fun_upd_apply) (metis option.distinct(1))
  show ?thesis unfolding threads_in_def
    using e(1) q b d(3) x not_over [OF ok takes(2)] by (auto simp: takes(1) nth_list_update running_def)
next
  case (gets i x w rep k ks c v e)
  show ?thesis by (rule threads_in_same [OF ok gets(2)]) (simp_all add: gets(1,3) running_def)
next
  case (awaits i x w rep k ks c started)
  show ?thesis by (rule threads_in_same [OF ok awaits(2)]) (simp_all add: awaits(1,3) running_def)
next
  case (resumes i x w rep k ks c v e)
  show ?thesis by (rule threads_in_same [OF ok resumes(2)]) (simp_all add: resumes(1,3) running_def)
next
  case (ends i x w rep)
  show ?thesis by (rule threads_in_same [OF ok ends(2)]) (simp_all add: ends(1,3) running_def)
next
  case (releases i x rep ks k c gone err)
  show ?thesis by (rule threads_in_same [OF ok releases(2)]) (simp_all add: releases(1,3) running_def)
next
  case (leaves i x rep)
  show ?thesis by (rule threads_in_same [OF ok leaves(2)]) (simp_all add: leaves(1,3) running_def)
next
  note d = threads_inD [OF ok]
  case (idles i x rep n now)
  have x: "i < length (ir_jobs S)" "ir_jobs S ! i = x" using job_atD [OF idles(2)] by auto
  have one: "m = n" if "ex_busy (ir_sandboxes S) m = Some i" for m
    using d(1) that idles(4) unfolding executor_ok_def by blast
  have b: "(\<exists>m. ex_busy (processed n now (ir_sandboxes S)) m = Some k) \<longleftrightarrow> k \<noteq> i \<and> (\<exists>m. ex_busy (ir_sandboxes S) m = Some k)" for k
  proof
    assume "\<exists>m. ex_busy (processed n now (ir_sandboxes S)) m = Some k"
    then obtain m where m: "m \<noteq> n" "ex_busy (ir_sandboxes S) m = Some k" by (auto simp: processed_def split: if_splits)
    with one show "k \<noteq> i \<and> (\<exists>m. ex_busy (ir_sandboxes S) m = Some k)" by blast
  next
    assume "k \<noteq> i \<and> (\<exists>m. ex_busy (ir_sandboxes S) m = Some k)"
    then obtain m where m: "k \<noteq> i" "ex_busy (ir_sandboxes S) m = Some k" by blast
    then have "m \<noteq> n" using idles(4) by auto
    with m(2) show "\<exists>m. ex_busy (processed n now (ir_sandboxes S)) m = Some k" by (auto simp: processed_def)
  qed
  have "n \<notin> ex_left (ir_sandboxes S)" "n < length (ex_times (ir_sandboxes S))" using d(1) idles(4) by (auto simp: executor_ok_def)
  then have "\<not> ir_runner_closed S" using d(4) by auto
  then show ?thesis unfolding threads_in_def
    using executor_processed [OF d(1), of n now] b d(2,3) x by (auto simp: idles(1,3) nth_list_update running_def processed_def)
next
  case (loads k answer got c gone)
  then show ?thesis using ok by (simp add: threads_in_def)
next
  case stops
  then show ?thesis using ok executor_stop [of "ir_sandboxes S"] by (simp add: threads_in_def stop_executor_def)
next
  note d = threads_inD [OF ok]
  case (thread_ends n now e)
  from executor_leave [OF d(1) thread_ends(2,3)] have "executor_ok e" "ex_values e = ex_values (ir_sandboxes S)"
    "ex_busy e = ex_busy (ir_sandboxes S)" by auto
  then show ?thesis unfolding threads_in_def using d not_over [OF ok thread_ends(2)] by (auto simp: thread_ends(1))
next
  case runner_stops
  then show ?thesis using ok by (simp add: threads_in_def)
qed (use ok in \<open>simp_all add: threads_in_def\<close>)

section \<open>Active jobs\<close>

definition in_hand :: "worker_stage \<Rightarrow> bool" where
  "in_hand wk \<longleftrightarrow> wk = Queued \<or> (running wk \<and> (\<forall>rep. wk \<noteq> Leaving rep))"

definition gone_stage :: "worker_stage \<Rightarrow> bool" where
  "gone_stage wk \<longleftrightarrow> (\<exists>rep. wk = Leaving rep \<or> wk = Ended rep)"

lemma stage_simps [simp]:
  "in_hand NotAdded = False" "in_hand Queued" "in_hand (Working w rep ks)" "in_hand (Awaiting w rep k ks)" "in_hand (Releasing rep)"
  "\<not> in_hand (Leaving rep)" "\<not> in_hand (Ended rep)"
  "\<not> gone_stage NotAdded" "\<not> gone_stage Queued" "\<not> gone_stage (Working w rep ks)" "\<not> gone_stage (Awaiting w rep k ks)"
  "\<not> gone_stage (Releasing rep)" "gone_stage (Leaving rep)" "gone_stage (Ended rep)"
  by (auto simp: in_hand_def gone_stage_def running_def)

definition id_of :: "invoker_run \<Rightarrow> nat \<Rightarrow> string" where
  "id_of S i = wj_id (jr_job (ir_jobs S ! i))"

definition ids_of :: "invoker_run \<Rightarrow> string list" where
  "ids_of S = map (\<lambda>x. wj_id (jr_job x)) (ir_jobs S)"

text \<open>What a step does to the jobs and to the map of active jobs.\<close>

lemma invoker_step_moves:
  assumes step: "invoker_step S T" and threads: "threads_in S" and users: "users_in S"
  obtains (same) "ir_jobs T = ir_jobs S" "ir_active T = ir_active S"
  | (new) j ks where "ir_jobs T = ir_jobs S @ [\<lparr>jr_job = j, jr_handler = Locking ks, jr_worker = NotAdded, jr_held = []\<rparr>]"
      "ir_active T = ir_active S"
  | (moved) i x y where "job_at S i x" "ir_jobs T = (ir_jobs S)[i := y]" "jr_job y = jr_job x" "ir_active T = ir_active S"
      "jr_handler y = Replied \<longleftrightarrow> jr_handler x = Replied" "jr_handler x = Replied \<Longrightarrow> in_hand (jr_worker y) \<Longrightarrow> in_hand (jr_worker x)"
      "gone_stage (jr_worker x) \<Longrightarrow> gone_stage (jr_worker y)"
  | (registered) i x y where "job_at S i x" "jr_handler x = Registering" "y = x\<lparr>jr_handler := Replied\<rparr>" "ir_jobs T = (ir_jobs S)[i := y]"
      "ir_active T = (ir_active S)(wj_id (jr_job x) \<mapsto> i)"
  | (left) i x y rep where "job_at S i x" "jr_worker x = Releasing rep" "y = x\<lparr>jr_worker := Leaving rep\<rparr>" "ir_jobs T = (ir_jobs S)[i := y]"
      "ir_active T = (ir_active S)(wj_id (jr_job x) := None)"
  using step
proof cases
  case (arrives sub prob rq codes j ks)
  then show thesis by (intro new) simp_all
next
  case (locks i x k ks c started)
  then show thesis by (intro moved [of i x "x\<lparr>jr_handler := Locking ks, jr_held := jr_held x @ [k]\<rparr>"]) simp_all
next
  case (adds i x e)
  then show thesis by (intro moved [of i x "x\<lparr>jr_handler := Registering, jr_worker := Queued\<rparr>"])
    (use users job_atD [OF adds(2)] in \<open>auto simp: users_in_def stage_ok_def\<close>)
next
  case (drops i x e err)
  then show thesis by (intro moved [of i x "x\<lparr>jr_handler := Dropped\<rparr>"]) simp_all
next
  case (registers i x)
  then show thesis by (intro registered) simp_all
next
  case (takes n now e i x w s rep)
  have "i \<in> set (ex_values (ir_sandboxes S))" using receive_taken [OF takes(3)] .
  then have "jr_worker x = Queued" using threads_inD(2) [OF threads, of i] takes(4) by (simp add: job_at_def)
  with takes show thesis by (intro moved [of i x "x\<lparr>jr_worker := Working w rep (pl_gets s)\<rparr>"]) simp_all
next
  case (gets i x w rep k ks c v e)
  then show thesis by (intro moved [of i x "x\<lparr>jr_worker := Working w rep ks\<rparr>"]) simp_all
next
  case (awaits i x w rep k ks c started)
  then show thesis by (intro moved [of i x "x\<lparr>jr_worker := Awaiting w rep k ks\<rparr>"]) simp_all
next
  case (resumes i x w rep k ks c v e)
  then show thesis by (intro moved [of i x "x\<lparr>jr_worker := Working w rep ks\<rparr>"]) simp_all
next
  case (ends i x w rep)
  then show thesis by (intro moved [of i x "x\<lparr>jr_worker := Releasing rep\<rparr>"]) simp_all
next
  case (releases i x rep ks k c gone err)
  then show thesis by (intro moved [of i x "x\<lparr>jr_held := ks\<rparr>"]) simp_all
next
  case (leaves i x rep)
  then show thesis by (intro left) simp_all
next
  case (idles i x rep n now)
  then show thesis by (intro moved [of i x "x\<lparr>jr_worker := Ended rep\<rparr>"]) simp_all
qed (simp_all add: same)

definition active_in :: "invoker_run \<Rightarrow> bool" where
  "active_in S \<longleftrightarrow>
     (\<forall>id i. ir_active S id = Some i \<longrightarrow> i < length (ir_jobs S) \<and> jr_handler (ir_jobs S ! i) = Replied \<and> id_of S i = id) \<and>
     (distinct (ids_of S) \<longrightarrow> (\<forall>i < length (ir_jobs S). jr_handler (ir_jobs S ! i) = Replied \<and> in_hand (jr_worker (ir_jobs S ! i)) \<longrightarrow>
        ir_active S (id_of S i) = Some i))"

lemma active_in_start: "active_in (invoker_start bound n)"
  by (simp add: active_in_def invoker_start_def)

lemma same_id:
  "distinct (ids_of S) \<Longrightarrow> i < length (ir_jobs S) \<Longrightarrow> k < length (ir_jobs S) \<Longrightarrow> id_of S i = id_of S k \<Longrightarrow> i = k"
  by (auto simp: ids_of_def id_of_def distinct_conv_nth)

lemma ids_update:
  assumes "job_at S i x" and "jr_job y = jr_job x" and "ir_jobs T = (ir_jobs S)[i := y]"
  shows "ids_of T = ids_of S" "id_of T k = id_of S k" "length (ir_jobs T) = length (ir_jobs S)"
proof -
  have i: "i < length (ir_jobs S)" "ir_jobs S ! i = x" using assms(1) by (auto simp: job_at_def)
  have "wj_id (jr_job y) = map (\<lambda>x. wj_id (jr_job x)) (ir_jobs S) ! i" using i assms(2) by simp
  then show "ids_of T = ids_of S" unfolding ids_of_def assms(3) map_update by (metis list_update_id)
  show "id_of T k = id_of S k" using i assms(2,3) by (cases "k = i") (simp_all add: id_of_def)
  show "length (ir_jobs T) = length (ir_jobs S)" using assms(3) by simp
qed

lemma invoker_step_active:
  assumes step: "invoker_step S T" and threads: "threads_in S" and users: "users_in S" and ok: "active_in S"
  shows "active_in T"
  using step threads users
proof (cases rule: invoker_step_moves)
  case same
  then show ?thesis using ok by (simp add: active_in_def ids_of_def id_of_def)
next
  case (new j ks)
  then show ?thesis using ok by (auto simp: active_in_def ids_of_def id_of_def nth_append less_Suc_eq)
next
  case (moved i x y)
  note ids = ids_update [OF moved(1,3,2)]
  have i: "i < length (ir_jobs S)" "ir_jobs S ! i = x" using moved(1) by (auto simp: job_at_def)
  show ?thesis unfolding active_in_def ids moved(4)
    using ok i moved(5,6) by (auto simp: active_in_def moved(2) nth_list_update)
next
  case (registered i x y)
  have same: "jr_job y = jr_job x" using registered(3) by simp
  note ids = ids_update [OF registered(1) same registered(4)]
  have i: "i < length (ir_jobs S)" "ir_jobs S ! i = x" using registered(1) by (auto simp: job_at_def)
  have x: "wj_id (jr_job x) = id_of S i" using i by (simp add: id_of_def)
  show ?thesis unfolding active_in_def ids registered(5) x
    using ok i registered(3) same_id [of S _ i] by (auto simp: active_in_def registered(4) nth_list_update)
next
  case (left i x y rep)
  have same: "jr_job y = jr_job x" using left(3) by simp
  note ids = ids_update [OF left(1) same left(4)]
  have i: "i < length (ir_jobs S)" "ir_jobs S ! i = x" using left(1) by (auto simp: job_at_def)
  have x: "wj_id (jr_job x) = id_of S i" using i by (simp add: id_of_def)
  show ?thesis unfolding active_in_def ids left(5) x
    using ok i left(3) same_id [of S _ i] by (auto simp: active_in_def left(4) nth_list_update)
qed

text \<open>A job that left before it was registered stays known.\<close>

definition ghost :: "invoker_run \<Rightarrow> nat \<Rightarrow> bool" where
  "ghost S i \<longleftrightarrow> i < length (ir_jobs S) \<and> gone_stage (jr_worker (ir_jobs S ! i)) \<and> ir_active S (id_of S i) = Some i"

lemma ghost_stays:
  assumes step: "invoker_step S T" and threads: "threads_in S" and users: "users_in S" and ok: "active_in S" and d: "distinct (ids_of T)" and g: "ghost S i"
  shows "ghost T i"
  using step threads users
proof (cases rule: invoker_step_moves)
  case same
  then show ?thesis using g by (simp add: ghost_def id_of_def)
next
  case (new j ks)
  then show ?thesis using g by (simp add: ghost_def id_of_def nth_append)
next
  case (moved k x y)
  note ids = ids_update [OF moved(1,3,2)]
  show ?thesis unfolding ghost_def ids moved(4)
    using g moved(1,7) by (auto simp: ghost_def moved(2) nth_list_update job_at_def)
next
  case (registered k x y)
  have same: "jr_job y = jr_job x" using registered(3) by simp
  note ids = ids_update [OF registered(1) same registered(4)]
  have k: "k < length (ir_jobs S)" "ir_jobs S ! k = x" using registered(1) by (auto simp: job_at_def)
  have "jr_handler (ir_jobs S ! i) = Replied" using g ok unfolding ghost_def active_in_def by blast
  then have "i \<noteq> k" using k registered(2) by auto
  then have "id_of S i \<noteq> wj_id (jr_job x)" using same_id [of S i k] d g k by (auto simp: ids ghost_def id_of_def)
  then show ?thesis unfolding ghost_def ids registered(5)
    using g \<open>i \<noteq> k\<close> by (simp add: ghost_def registered(4))
next
  case (left k x y rep)
  have same: "jr_job y = jr_job x" using left(3) by simp
  note ids = ids_update [OF left(1) same left(4)]
  have k: "k < length (ir_jobs S)" "ir_jobs S ! k = x" using left(1) by (auto simp: job_at_def)
  then have "i \<noteq> k" using g left(2) by (auto simp: ghost_def)
  then have "id_of S i \<noteq> wj_id (jr_job x)" using same_id [of S i k] d g k by (auto simp: ids ghost_def id_of_def)
  then show ?thesis unfolding ghost_def ids left(5)
    using g \<open>i \<noteq> k\<close> by (simp add: ghost_def left(4))
qed

section \<open>Runs\<close>

lemma invoker_run_ok:
  assumes "invoker_runs (invoker_start bound n) S"
  shows "users_in S \<and> threads_in S \<and> active_in S \<and> cache_runs (cache_start bound True) (ir_cache S)"
  using assms
proof (induction rule: rtranclp_induct)
  case base
  then show ?case using users_in_start threads_in_start active_in_start by (simp add: invoker_start_def)
next
  case (step S T)
  then have ok: "users_in S" "threads_in S" "active_in S" "cache_runs (cache_start bound True) (ir_cache S)" by blast+
  have queued: "jr_worker x = Queued" if "i \<in> set (ex_values (ir_sandboxes S))" "job_at S i x" for i x
    using threads_inD(2) [OF ok(2), of i] that by (simp add: job_at_def)
  have "users_in T \<and> stays_cache S T" by (rule invoker_step_users [OF step(2) ok(1) queued])
  then have u: "users_in T" "stays_cache S T" by blast+
  from u(2) have "cache_runs (cache_start bound True) (ir_cache T)"
    using ok(4) rtranclp.rtrancl_into_rtrancl unfolding stays_cache_def by metis
  with u(1) invoker_step_threads [OF step(2) ok(2,1)] invoker_step_active [OF step(2) ok(2,1,3)] show ?case by blast
qed

end
