(* ===== verification/GoInvokerClaims.thy ===== *)
theory GoInvokerClaims
  imports GoInvokerSteps GoIoiScores
begin

text \<open>The properties of an invoker: its jobs, their files and their results, with a concrete instance of each one.\<close>

section \<open>Results\<close>

text \<open>C14. What a sandbox thread does with an accepted job, in any world: it returns without a panic, finishes the job once and gives up its
  locks once, asks the cache only for what the job locked, and sends the result of the reference: the outcome of the run and
  of the checker when nothing around them failed, else a failed check with a message.  A test is only judged with its
  output, error output and checker's output stored, and a compilation only succeeds with its binary stored.\<close>

theorem sandbox_thread_results:
  assumes "handleNewJob j = Inr (Inr ks)"
  shows "\<exists>s rep. sandboxThread w j = Inr (s, rep) \<and> pl_finished s \<and> count_list (pl_deferred s) JobDefers = 1 \<and> set (pl_gets s) \<subseteq> set ks \<and>
    (case (if wj_type j = 1 then compile_outcome w j else tested_outcome w j) of
       None \<Rightarrow> \<exists>e. rep = failed_report j e
     | Some r \<Rightarrow> rep = run_report j r \<and>
         (rr_verdict r = V_CD \<and> wj_type j = 1 \<longrightarrow> (CompiledBinary, content w ''solution'') \<in> set (pl_uploads s)) \<and>
         (wj_type j = 2 \<and> rr_verdict (solution_run w j) = V_OK \<and> rr_verdict r \<noteq> V_SK \<longrightarrow> pl_uploads s = stored_results w))"
proof -
  consider (compile) "wj_type j = 1" "ks = compile_keys j" | (test) "wj_type j = 2" "ks = test_keys j"
    using assms by (auto simp: handleNewJob_def newCompileJob_def newTestJob_def compile_keys_def test_keys_def split: if_splits)
  then show ?thesis
  proof cases
    case compile
    from compilation_pipeline [of w j] obtain s rep where s: "fullCompilationPipeline w j = Inr (s, rep)" "ended (set (compile_keys j)) s"
      "case compile_outcome w j of None \<Rightarrow> \<exists>e. rep = failed_report j e
       | Some r \<Rightarrow> rep = run_report j r \<and> pl_uploads s = compile_uploads w j (rr_verdict r)" by blast
    then show ?thesis using compile
      by (intro exI [of _ s] exI [of _ rep]) (auto simp: sandboxThread_def ended_def compile_uploads_def split: option.splits)
  next
    case test
    from testing_pipeline [of w j] obtain s rep where s: "fullTestingPipeline w j = Inr (s, rep)" "ended (set (test_keys j)) s"
      "case tested_outcome w j of None \<Rightarrow> \<exists>e. rep = failed_report j e
       | Some r \<Rightarrow> rep = run_report j r \<and>
          pl_uploads s = (if rr_verdict (solution_run w j) = V_OK \<and> rr_verdict r \<noteq> V_SK then stored_results w else [])" by blast
    then show ?thesis using test
      by (intro exI [of _ s] exI [of _ rep]) (auto simp: sandboxThread_def ended_def split: option.splits)
  qed
qed

text \<open>A world where everything works, with the simple sandbox, and two jobs.\<close>

definition sample_end :: process_end where
  "sample_end = \<lparr>pe_stdin = None, pe_stdout = None, pe_stderr = None, pe_cancelled = False, pe_timeout = False, pe_error = None,
     pe_state = Some (0, 5, 7)\<rparr>"

definition working_world :: world where
  "working_world = \<lparr>wo_init = None, wo_get = (\<lambda>k. Inr [''0'', ''file'']), wo_copy = (\<lambda>f. CopyDone), wo_write = None, wo_threads = (\<lambda>c. None),
     wo_run = (\<lambda>c l. simple_Run l True sample_end), wo_report = Report ''points'' (Some (Fin 3)) ''well'', wo_open = (\<lambda>f. Inr ''text''),
     wo_upload = (\<lambda>r. None), wo_languages = (\<lambda>l. None),
     wo_checker_limits = \<lparr>rl_time = 10, rl_memory = 10, rl_wall = 10, rl_threads = 0, rl_open_files = 64, rl_output = 10\<rparr>,
     wo_output_head = Some 2\<rparr>"

definition sample_limits_row :: limits_row where
  "sample_limits_row = \<lparr>pr_id = 4, pr_tests = 9, pr_time = 10, pr_memory = 10, pr_wall = Some 20, pr_open_files = None, pr_threads = None,
     pr_output = Some 10\<rparr>"

definition sample_test_job :: invoker_job where
  "sample_test_job = \<lparr>wj_id = ''t'', wj_type = 2, wj_test = 3, wj_submission = 8, wj_language = ''c'', wj_problem = sample_limits_row, wj_epoch = 0\<rparr>"

definition sample_compile_job :: invoker_job where
  "sample_compile_job = sample_test_job\<lparr>wj_id := ''c'', wj_type := 1\<rparr>"

lemma working_world_run [simp]:
  "wo_run working_world c l = fresh_run\<lparr>rr_stats := \<lparr>st_time = 5, st_memory = 7168, st_wall_time = 5, st_exit_code = 0\<rparr>,
     rr_verdict := (if 5 > rl_time l then V_TL else V_OK)\<rparr>"
  by (simp add: working_world_def simple_Run_def sample_end_def simple_verdict_def Let_def)

lemma sample_test_accepted: "handleNewJob sample_test_job = Inr (Inr (test_keys sample_test_job))"
  by (simp add: handleNewJob_def newTestJob_def test_keys_def sample_test_job_def sample_limits_row_def)

lemma sample_outcome: "\<exists>r. tested_outcome working_world sample_test_job = Some r \<and> rr_verdict r = V_PT \<and> rr_points r = Some (Fin 3)"
proof -
  have run: "rr_verdict (solution_run working_world sample_test_job) = V_OK" "rr_err (solution_run working_world sample_test_job) = None"
    by (simp_all add: solution_run_def fillInTestRunConfigLimits_def sample_test_job_def sample_limits_row_def Let_def)
  moreover have "rr_verdict (checker_run working_world) = V_OK" "rr_err (checker_run working_world) = None"
    by (simp_all add: checker_run_def working_world_def simple_Run_def sample_end_def simple_verdict_def Let_def fresh_run_def)
  moreover have "judgement (wo_report working_world) = Some (V_PT, Some (Fin 3))" by (simp add: working_world_def judgement_def)
  moreover have "results_stored working_world" by (simp add: results_stored_def stored_file_def working_world_def)
  ultimately show ?thesis
    by (simp add: tested_outcome_def tested_def can_check_def got_file_def has_run_def judged_def Let_def)
      (simp add: working_world_def)
qed

lemma sandbox_thread_results_witness:
  "\<exists>s rep. sandboxThread working_world sample_test_job = Inr (s, rep) \<and> jres_verdict rep = V_PT \<and> jres_points rep = Some (Fin 3) \<and>
    set (pl_gets s) \<subseteq> set (test_keys sample_test_job)"
proof -
  obtain r where r: "tested_outcome working_world sample_test_job = Some r" "rr_verdict r = V_PT" "rr_points r = Some (Fin 3)"
    using sample_outcome by blast
  have "wj_type sample_test_job \<noteq> 1" by (simp add: sample_test_job_def)
  with sandbox_thread_results [OF sample_test_accepted, of working_world] r show ?thesis by (auto simp: run_report_def)
qed

text \<open>C20. The results fit the job generators: whatever happens around a job, the result of a compilation has a verdict that the
  generators know, and when the sandbox keeps its contract so has that of a test, and a partial solution comes with its
  points, which is what the scores of the IOI generator rely on.\<close>

theorem reports_fit:
  assumes "fullCompilationPipeline w j = Inr (s, C)"
    and "\<forall>t. \<exists>w j s. sandbox (\<lambda>(c, l). wo_run w c l) \<and> fullTestingPipeline w j = Inr (s, T t)"
  shows "normal_compile C = C \<and> (\<forall>t. normal_test (T t) = T t \<and> (jres_verdict (T t) = V_PT \<longrightarrow> jres_points (T t) \<noteq> None)) \<and>
    points_reported p T"
proof -
  have "normal_compile C = C"
    using compilation_pipeline [of w j] assms(1) compile_outcome_verdict [of w j]
    by (cases "compile_outcome w j") (auto simp: normal_compile_def failed_report_def run_report_def)
  moreover have fit: "normal_test (T t) = T t \<and> (jres_verdict (T t) = V_PT \<longrightarrow> jres_points (T t) \<noteq> None)" for t
  proof -
    obtain w j s where w: "sandbox (\<lambda>(c, l). wo_run w c l)" "fullTestingPipeline w j = Inr (s, T t)" using assms(2) by blast
    show ?thesis
    proof (cases "tested_outcome w j")
      case None
      then obtain e where "T t = failed_report j e" using testing_pipeline [of w j] w(2) by auto
      then show ?thesis by (simp add: normal_test_def failed_report_def)
    next
      case (Some r)
      then have t: "T t = run_report j r" using testing_pipeline [of w j] w(2) by auto
      have v: "rr_verdict (solution_run w j) \<in> sandbox_verdicts" if "tested w j"
        using that sandbox.verdicts [OF w(1), of "(''solution'', fillInTestRunConfigLimits (wj_problem j))"]
        by (simp add: tested_def has_run_def solution_run_def)
      have "rr_verdict r \<in> sandbox_verdicts \<or> (\<exists>v x. judgement (wo_report w) = Some (v, x) \<and> r = judged (wo_report w) (solution_run w j))"
        using Some v by (auto simp: tested_outcome_def can_check_def sandbox_verdicts_def Let_def split: if_splits)
      then show ?thesis
      proof
        assume "rr_verdict r \<in> sandbox_verdicts"
        then show ?thesis unfolding t by (auto simp: normal_test_def run_report_def sandbox_verdicts_def)
      next
        assume "\<exists>v x. judgement (wo_report w) = Some (v, x) \<and> r = judged (wo_report w) (solution_run w j)"
        then obtain v x where r: "judgement (wo_report w) = Some (v, x)" "r = judged (wo_report w) (solution_run w j)" by blast
        then have "v \<in> {V_OK, V_WA, V_CF, V_PT} \<and> (v = V_PT \<longrightarrow> x \<noteq> None)"
          using judgement_verdicts by blast
        then show ?thesis unfolding t r(2) by (auto simp: normal_test_def run_report_def judged_def r(1))
      qed
    qed
  qed
  moreover have "points_reported p T" using fit unfolding points_reported_def by blast
  ultimately show ?thesis by blast
qed

lemma reports_fit_witness:
  "\<exists>s rep C. fullTestingPipeline working_world sample_test_job = Inr (s, rep) \<and> normal_compile C = C \<and> normal_test rep = rep \<and>
    (jres_verdict rep = V_PT \<longrightarrow> jres_points rep \<noteq> None)"
proof -
  obtain s C where C: "fullCompilationPipeline working_world sample_compile_job = Inr (s, C)"
    using compilation_pipeline [of working_world sample_compile_job] by blast
  obtain u rep where rep: "fullTestingPipeline working_world sample_test_job = Inr (u, rep)"
    using testing_pipeline [of working_world sample_test_job] by blast
  have "sandbox (\<lambda>(c, l). wo_run working_world c l)"
    by unfold_locales (auto simp: sandbox_verdicts_def split: if_splits)
  with rep have "\<forall>t::nat. \<exists>w j s. sandbox (\<lambda>(c, l). wo_run w c l) \<and> fullTestingPipeline w j = Inr (s, rep)" by blast
  from reports_fit [OF C this] rep show ?thesis by blast
qed

section \<open>Files\<close>

text \<open>A run with one job: it arrives, and locks the source it will compile.\<close>

definition sample_key :: cache_key where
  "sample_key = submit_key SourceCode sample_compile_job"

definition sample_state :: "(cache_key, string list, string) cache_run \<Rightarrow> job_run list \<Rightarrow> nat executor \<Rightarrow> (string \<rightharpoonup> nat) \<Rightarrow> invoker_run" where
  "sample_state c xs e act = \<lparr>ir_cache = c, ir_epoch = 0, ir_jobs = xs, ir_sandboxes = e, ir_active = act, ir_runner_closed = False\<rparr>"

definition sample_stage :: "handler_stage \<Rightarrow> worker_stage \<Rightarrow> cache_key list \<Rightarrow> job_run" where
  "sample_stage h wk held = \<lparr>jr_job = sample_compile_job, jr_handler = h, jr_worker = wk, jr_held = held\<rparr>"

definition sample_locked :: "(cache_key, string list, string) cache_run" where
  "sample_locked = (cache_start 100 True)\<lparr>cr_cache := set_holder sample_key fresh_holder (NewLRUSizeCache 100 True), cr_loads := {sample_key},
     cr_held := (\<lambda>k. 0)(sample_key := 1)\<rparr>"

lemma sample_compile_accepted: "handleNewJob sample_compile_job = Inr (Inr [sample_key])"
  by (simp add: handleNewJob_def newCompileJob_def sample_compile_job_def sample_key_def)

lemma sample_job_at: "job_at (sample_state c [x] e act) 0 x"
  by (simp add: job_at_def sample_state_def)

lemma sample_arrives: "invoker_step (invoker_start 100 1) (sample_state (cache_start 100 True) [sample_stage (Locking [sample_key]) NotAdded []] (newExecutor 1) Map.empty)"
proof -
  let ?rq = "\<lparr>jq_id = ''c'', jq_type = 1, jq_submit = 8, jq_test = 3\<rparr>"
  have "initJob (ir_epoch (invoker_start 100 1)) (Row \<lparr>sr_id = 8, sr_problem = 4, sr_language = ''c''\<rparr>) (Row sample_limits_row) ?rq =
      ([], Some sample_compile_job)"
    by (simp add: initJob_def invoker_start_def sample_compile_job_def sample_test_job_def)
  from arrives [OF this sample_compile_accepted] show ?thesis by (simp add: invoker_start_def sample_state_def sample_stage_def)
qed

lemma sample_locks:
  "invoker_step (sample_state (cache_start 100 True) [sample_stage (Locking [sample_key]) NotAdded []] e act)
     (sample_state sample_locked [sample_stage (Locking []) NotAdded [sample_key]] e act)"
proof -
  let ?S = "sample_state (cache_start 100 True) [sample_stage (Locking [sample_key]) NotAdded []] e act"
  have room: "room (ir_cache ?S) sample_key" by (simp add: room_def sample_state_def cache_start_def)
  have lock: "Lock sample_key (cache_of ?S) = Inr (set_holder sample_key fresh_holder (NewLRUSizeCache 100 True), True)"
    by (simp add: sample_state_def cache_start_def Lock_def lockAndGetHolder_def NewLRUSizeCache_def Let_def)
  have handler: "jr_handler (sample_stage (Locking [sample_key]) NotAdded []) = Locking (sample_key # [])" by (simp add: sample_stage_def)
  note locks [OF sample_job_at handler room lock]
  then show ?thesis by (simp add: sample_state_def sample_stage_def set_job_def sample_locked_def cache_start_def starts_def)
qed

lemma sample_locked_runs:
  "invoker_runs (invoker_start 100 1) (sample_state sample_locked [sample_stage (Locking []) NotAdded [sample_key]] (newExecutor 1) Map.empty)"
  by (rule rtranclp.rtrancl_into_rtrancl [OF r_into_rtranclp [of invoker_step, OF sample_arrives] sample_locks])

text \<open>The file arrives.\<close>

definition sample_arrived :: "(cache_key, string list, string) cache_run" where
  "sample_arrived = sample_locked\<lparr>cr_cache := \<lparr>lc_holders = [sample_key \<mapsto> \<lparr>vh_value = Some [''0'', ''SourceCode'', ''8'', ''a.cpp''], vh_error = None,
     vh_locks = 1, vh_size = 30, vh_loading = False, vh_listed = True\<rparr>], lc_remover = True, lc_bound = 100, lc_total = 30, lc_rank = [sample_key]\<rparr>,
     cr_loads := {}\<rparr>"

lemma sample_arrived_runs:
  "invoker_runs (invoker_start 100 1) (sample_state sample_arrived [sample_stage (Locking []) NotAdded [sample_key]] (newExecutor 1) Map.empty)"
proof -
  let ?S = "sample_state sample_locked [sample_stage (Locking []) NotAdded [sample_key]] (newExecutor 1) Map.empty"
  have "uint_text 8 = ''8''" "string_of_int 0 = ''0''"
    by (simp_all add: uint_text_def string_of_int_def string_of_nat.simps digit_char_def char_of_def) code_simp+
  then have "getFiles (Downloaded ''a.cpp'' 30) sample_key = Inr (Some [''0'', ''SourceCode'', ''8'', ''a.cpp''], None, 30)"
    by (simp add: getFiles_def setRequestBaseFolder_def sample_key_def submit_key_def sample_compile_job_def sample_test_job_def resource_text_def Let_def)
  moreover have "loadAbsentValue sample_key (Some [''0'', ''SourceCode'', ''8'', ''a.cpp''], None, 30) (cache_of ?S) = Inr (cr_cache sample_arrived, [])"
    by (simp add: sample_state_def loadAbsentValue_def deref_def itemUsed_def removeItemsIfNeeded_def sample_locked_def sample_arrived_def NewLRUSizeCache_def)
  moreover have "sample_key \<in> cr_loads (ir_cache ?S)" by (simp add: sample_state_def sample_locked_def)
  ultimately have "invoker_step ?S (?S\<lparr>ir_cache := (ir_cache ?S)\<lparr>cr_cache := cr_cache sample_arrived, cr_loads := cr_loads (ir_cache ?S) - {sample_key}\<rparr>\<rparr>)"
    by (intro loads)
  then show ?thesis using sample_locked_runs rtranclp.rtrancl_into_rtrancl [of invoker_step]
    by (simp add: sample_state_def sample_arrived_def sample_locked_def)
qed

text \<open>C15. A file that a job has locked stays: once it is loaded, no step of the invoker, be it of another job, of a load, a reset of the cache
  or the shutdown, removes it or changes where it is, until the job gives its lock back.\<close>

theorem files_in_use_stay:
  assumes "invoker_runs (invoker_start bound n) S" and "invoker_step S T"
    and "job_at S i x" and "k \<in> set (jr_held x)" and "job_at T i y" and "k \<in> set (jr_held y)"
    and "lc_holders (cache_of S) k = Some h" and "\<not> vh_loading h"
  shows "\<exists>h'. lc_holders (cache_of T) k = Some h' \<and> vh_value h' = vh_value h \<and> vh_error h' = vh_error h \<and> vh_size h' = vh_size h"
proof -
  have S: "users_in S" "cache_runs (cache_start bound True) (ir_cache S)" using invoker_run_ok [OF assms(1)] by blast+
  have runT: "invoker_runs (invoker_start bound n) T" using assms(1,2) by (rule rtranclp.rtrancl_into_rtrancl)
  have T: "users_in T" using invoker_run_ok [OF runT] by blast
  have held: "cr_held (ir_cache S) k > 0" "cr_held (ir_cache T) k > 0"
    using held_positive [OF S(1) assms(3,4)] held_positive [OF T assms(5,6)] by simp_all
  have threads: "threads_in S" using invoker_run_ok [OF assms(1)] by blast
  have "jr_worker z = Queued" if "m \<in> set (ex_values (ir_sandboxes S))" "job_at S m z" for m z
    using threads_inD(2) [OF threads, of m] that by (simp add: job_at_def)
  then have "stays_cache S T" using invoker_step_users [OF assms(2) S(1)] by blast
  then show ?thesis
  proof (unfold stays_cache_def, elim disjE)
    assume "ir_cache T = ir_cache S"
    then show ?thesis using assms(7) by simp
  next
    assume "cache_step (ir_cache S) (ir_cache T)"
    from cache_step_ok [OF this cache_run_ok [OF S(2) users_ok_start]] held assms(7,8) show ?thesis by (auto simp: stays_def kept_def)
  qed
qed

lemma files_in_use_stay_witness:
  "\<exists>T. invoker_step (sample_state sample_arrived [sample_stage (Locking []) NotAdded [sample_key]] (newExecutor 1) Map.empty) T \<and>
    (\<exists>h. lc_holders (cache_of T) sample_key = Some h \<and> vh_value h = Some [''0'', ''SourceCode'', ''8'', ''a.cpp''])"
proof -
  let ?x = "sample_stage (Locking []) NotAdded [sample_key]"
  let ?S = "sample_state sample_arrived [?x] (newExecutor 1) Map.empty"
  let ?T = "?S\<lparr>ir_epoch := ir_epoch ?S + 1\<rparr>"
  have at: "job_at ?S 0 ?x" "job_at ?T 0 ?x" "sample_key \<in> set (jr_held ?x)" by (simp_all add: job_at_def sample_state_def sample_stage_def)
  from files_in_use_stay [OF sample_arrived_runs resets at(1,3,2,3)]
  have "\<exists>h. lc_holders (cache_of ?T) sample_key = Some h \<and> vh_value h = Some [''0'', ''SourceCode'', ''8'', ''a.cpp'']"
    by (simp add: sample_state_def sample_arrived_def)
  with resets show ?thesis by blast
qed

section \<open>Jobs\<close>

lemma run_users:
  assumes "invoker_runs (invoker_start bound n) S"
  shows "users_in S" "threads_in S" "active_in S" "users_ok (ir_cache S)"
proof -
  note r = invoker_run_ok [OF assms]
  then show "users_in S" "threads_in S" "active_in S" by blast+
  have "cache_runs (cache_start bound True) (ir_cache S)" using r by blast
  then show "users_ok (ir_cache S)" by (rule cache_run_ok [OF _ users_ok_start])
qed

text \<open>C18. No job gets stuck: in every state that the invoker can reach, the next call of a job to the cache returns.  Locking never
  panics; a job asks only for what it holds, so it never starts a download itself; it has its file when the load is over;
  and giving a lock back is never refused.\<close>

theorem jobs_never_stuck:
  assumes "invoker_runs (invoker_start bound n) S" and "job_at S i x"
  shows "(jr_handler x = Locking (k # ks) \<and> room (ir_cache S) k \<longrightarrow> (\<exists>c started. Lock k (cache_of S) = Inr (c, started))) \<and>
    (jr_worker x = Working w rep (k # ks) \<and> room (ir_cache S) k \<longrightarrow>
       k \<in> set (jr_held x) \<and> (\<exists>c g. Get k (cache_of S) = Inr (c, g) \<and> g \<noteq> Waiting True)) \<and>
    (jr_worker x = Awaiting w rep k ks \<and> k \<notin> cr_loads (ir_cache S) \<longrightarrow> (\<exists>c v e. Get_waited k (cache_of S) = Inr (c, v, e))) \<and>
    (jr_worker x = Releasing rep \<and> jr_held x = ks @ [k] \<longrightarrow> (\<exists>c gone. Unlock k (cache_of S) = Inr (c, gone, None)))"
proof -
  note u = run_users [OF assms(1)]
  note d = users_okD [OF u(4)]
  have x: "stage_ok x" using u(1) job_atD [OF assms(2)] by (simp add: users_in_def)
  have few: "locks_of (cache_of S) k + 1 < 2 ^ 64" if "room (ir_cache S) k" using that d(3) by (simp add: room_def)
  have 1: "\<exists>c started. Lock k (cache_of S) = Inr (c, started)" if "room (ir_cache S) k"
    using Lock_ok [OF d(1) few [OF that]] by blast
  have 2: "k \<in> set (jr_held x) \<and> (\<exists>c g. Get k (cache_of S) = Inr (c, g) \<and> g \<noteq> Waiting True)"
    if w: "jr_worker x = Working w rep (k # ks)" and r: "room (ir_cache S) k"
  proof -
    obtain s before where s: "handleNewJob (jr_job x) = Inr (Inr (jr_held x))" "sandboxThread w (jr_job x) = Inr (s, rep)"
      "pl_gets s = before @ k # ks" using stage_worker [OF x] w by auto
    have k: "k \<in> set (jr_held x)" using asks_for_held [OF s(1,2)] s(3) by auto
    have "cr_held (ir_cache S) k > 0" by (rule held_positive [OF u(1) assms(2) k])
    then obtain h where h: "lc_holders (cache_of S) k = Some h" using held_holder [OF u(4), of k] by auto
    obtain c g where g: "Get k (cache_of S) = Inr (c, g)" using Get_ok [OF d(1) few [OF r]] by blast
    then have "g \<noteq> Waiting True"
      using h by (auto simp: Get_def lockAndGetHolder_def Let_def bindE_eq_Inr split: if_splits)
    with k g show ?thesis by blast
  qed
  have 3: "\<exists>c v e. Get_waited k (cache_of S) = Inr (c, v, e)" if w: "jr_worker x = Awaiting w rep k ks" and l: "k \<notin> cr_loads (ir_cache S)"
  proof -
    have "cr_gets (ir_cache S) k > 0" by (rule waiting_positive [OF u(1) assms(2) w])
    then obtain h where h: "lc_holders (cache_of S) k = Some h" "vh_locks h \<noteq> 0" "k \<in> cr_loads (ir_cache S) \<longleftrightarrow> vh_loading h"
      using held_holder [OF u(4), of k] by auto
    then show ?thesis using Get_waited_ok [OF d(1) h(1) _ h(2)] l by blast
  qed
  have 4: "\<exists>c gone. Unlock k (cache_of S) = Inr (c, gone, None)" if "jr_held x = ks @ [k]"
  proof -
    have "cr_held (ir_cache S) k > 0" by (rule held_positive [OF u(1) assms(2)]) (simp add: that)
    then obtain h where h: "lc_holders (cache_of S) k = Some h" "vh_locks h \<noteq> 0" using held_holder [OF u(4), of k] by auto
    then show ?thesis using Unlock_ok [OF d(1) h] by blast
  qed
  show ?thesis using 1 2 3 4 by blast
qed

lemma jobs_never_stuck_witness:
  "\<exists>c started. Lock sample_key (cache_of (sample_state (cache_start 100 True) [sample_stage (Locking [sample_key]) NotAdded []] (newExecutor 1) Map.empty)) =
     Inr (c, started)"
proof -
  let ?S = "sample_state (cache_start 100 True) [sample_stage (Locking [sample_key]) NotAdded []] (newExecutor 1) Map.empty"
  have "room (ir_cache ?S) sample_key" by (simp add: room_def sample_state_def cache_start_def)
  moreover have "jr_handler (sample_stage (Locking [sample_key]) NotAdded []) = Locking (sample_key # [])" by (simp add: sample_stage_def)
  ultimately show ?thesis
    using jobs_never_stuck [OF r_into_rtranclp [of invoker_step, OF sample_arrives] sample_job_at, of sample_key "[]"] by blast
qed

text \<open>C16. Every accepted job is in one place: it waits in the queue of the sandbox threads exactly once, or one thread has it, or it is
  not queued yet or over.  The runner threads are only closed when no job runs or waits, so a shutdown takes them
  from no job.\<close>

theorem jobs_accounted:
  assumes "invoker_runs (invoker_start bound n) S" and "job_at S i x"
  shows "distinct (ex_values (ir_sandboxes S)) \<and> (i \<in> set (ex_values (ir_sandboxes S)) \<longleftrightarrow> jr_worker x = Queued) \<and>
    (running (jr_worker x) \<longleftrightarrow> (\<exists>!t. ex_busy (ir_sandboxes S) t = Some i)) \<and>
    (ir_runner_closed S \<and> ex_times (ir_sandboxes S) \<noteq> [] \<longrightarrow> jr_worker x = NotAdded \<or> (\<exists>rep. jr_worker x = Ended rep))"
proof -
  note t = threads_inD [OF run_users(2) [OF assms(1)]]
  have i: "i < length (ir_jobs S)" "ir_jobs S ! i = x" using assms(2) by (auto simp: job_at_def)
  have "distinct (ex_values (ir_sandboxes S))" using t(1) by (simp add: executor_ok_def)
  moreover have q: "i \<in> set (ex_values (ir_sandboxes S)) \<longleftrightarrow> jr_worker x = Queued" using t(2) [of i] i by simp
  moreover have b: "running (jr_worker x) \<longleftrightarrow> (\<exists>m. ex_busy (ir_sandboxes S) m = Some i)" using t(3) [of i] i by simp
  moreover have "m = m'" if "ex_busy (ir_sandboxes S) m = Some i" "ex_busy (ir_sandboxes S) m' = Some i" for m m'
    using t(1) that unfolding executor_ok_def by blast
  moreover have "jr_worker x = NotAdded \<or> (\<exists>rep. jr_worker x = Ended rep)"
    if "ir_runner_closed S" "ex_times (ir_sandboxes S) \<noteq> []"
    using executor_over [OF t(1) t(4) [OF that(1)] that(2)] q b by (cases "jr_worker x") (auto simp: running_def)
  ultimately show ?thesis by blast
qed

lemma jobs_accounted_witness:
  "(0 \<in> set (ex_values (ir_sandboxes (sample_state sample_locked [sample_stage (Locking []) NotAdded [sample_key]] (newExecutor 1) Map.empty)))) = False"
  using jobs_accounted [OF sample_locked_runs sample_job_at] by (simp add: sample_stage_def)




section \<open>Active jobs\<close>

lemma ids_grow:
  assumes "invoker_step S T" and "threads_in S" and "users_in S"
  shows "\<exists>new. ids_of T = ids_of S @ new" "i < length (ir_jobs S) \<Longrightarrow> id_of T i = id_of S i"
proof -
  have "(\<exists>new. ids_of T = ids_of S @ new) \<and> (i < length (ir_jobs S) \<longrightarrow> id_of T i = id_of S i)"
    using assms
  proof (cases rule: invoker_step_moves)
    case same
    then show ?thesis by (simp add: ids_of_def id_of_def)
  next
    case (new j ks)
    then show ?thesis by (simp add: ids_of_def id_of_def nth_append)
  next
    case (moved k x y)
    then show ?thesis using ids_update [OF moved(1,3,2)] by simp
  next
    case (registered k x y)
    have "jr_job y = jr_job x" using registered(3) by simp
    then show ?thesis using ids_update [OF registered(1) _ registered(4)] by simp
  next
    case (left k x y rep)
    have "jr_job y = jr_job x" using left(3) by simp
    then show ?thesis using ids_update [OF left(1) _ left(4)] by simp
  qed
  then show "\<exists>new. ids_of T = ids_of S @ new" "i < length (ir_jobs S) \<Longrightarrow> id_of T i = id_of S i" by blast+
qed

lemma ghost_run:
  assumes "invoker_runs S T" and "invoker_runs (invoker_start bound n) S" and "ghost S i" and "distinct (ids_of T)"
  shows "ghost T i"
  using assms(1,4)
proof (induction rule: rtranclp_induct)
  case base
  then show ?case using assms(3) by blast
next
  case (step U V)
  have "invoker_runs (invoker_start bound n) U" using assms(2) step(1) by (rule rtranclp_trans)
  note u = run_users [OF this]
  have "distinct (ids_of U)" using ids_grow(1) [OF step(2) u(2,1)] step(4) by auto
  then have "ghost U i" by (rule step(3))
  then show ?case by (rule ghost_stays [OF step(2) u(2,1,3) step(4)])
qed

text \<open>C19. What the invoker tells the master: when no id is used twice, every registered job that is queued or runs is among the active jobs.
  But a job is registered after it was queued, and one that is over by then is a ghost: it stays among the active jobs
  for ever and takes the place of a new job in every status from then on.\<close>

theorem active_jobs:
  assumes "invoker_runs (invoker_start bound n) S" and "invoker_runs S T" and "distinct (ids_of T)"
  shows "(\<forall>i x. job_at T i x \<and> jr_handler x = Replied \<and> in_hand (jr_worker x) \<longrightarrow> ir_active T (wj_id (jr_job x)) = Some i) \<and>
    (\<forall>i. ghost S i \<longrightarrow> ghost T i \<and> (\<forall>a e m order. distinct order \<and> set order = dom (ir_active T) \<longrightarrow>
       is_max_new (getStatus_of a e m order) \<le> max 0 (int m - 1)))"
proof (intro conjI allI impI)
  have T: "active_in T" using run_users(3) assms(1,2) rtranclp_trans [of invoker_step] by metis
  fix i x assume x: "job_at T i x \<and> jr_handler x = Replied \<and> in_hand (jr_worker x)"
  then have "i < length (ir_jobs T)" "ir_jobs T ! i = x" by (auto simp: job_at_def)
  then show "ir_active T (wj_id (jr_job x)) = Some i" using T assms(3) x unfolding active_in_def id_of_def by blast
next
  fix i assume g: "ghost S i"
  show "ghost T i" by (rule ghost_run [OF assms(2,1) g assms(3)])
next
  fix i a e m and order :: "string list"
  assume g: "ghost S i" and order: "distinct order \<and> set order = dom (ir_active T)"
  have "ghost T i" by (rule ghost_run [OF assms(2,1) g assms(3)])
  then have "id_of T i \<in> set order" using order by (auto simp: ghost_def)
  then have "order \<noteq> []" by auto
  then show "is_max_new (getStatus_of a e m order) \<le> max 0 (int m - 1)" by (cases order) (simp_all add: getStatus_of_def)
qed

text \<open>A job whose sandbox can not be initialized is over before its handler goes on.\<close>

definition broken_world :: world where
  "broken_world = working_world\<lparr>wo_init := Some ''no box''\<rparr>"

definition sample_checked :: job_result where
  "sample_checked = failed_report sample_compile_job ''can not initialize sandbox, error: no box''"

lemma broken_thread: "\<exists>s. sandboxThread broken_world sample_compile_job = Inr (s, sample_checked) \<and> pl_gets s = []"
  by (simp add: sandboxThread_def sample_compile_job_def fullCompilationPipeline_def compilationProcessPipeline_def andThen_def initSandbox_def
      broken_world_def failJob_def finish_def checkFinish_def newPipelineState_def sample_checked_def failed_report_def)

definition sample_released :: "(cache_key, string list, string) cache_run" where
  "sample_released = sample_locked\<lparr>cr_cache := set_holder sample_key (fresh_holder\<lparr>vh_locks := 0\<rparr>) (NewLRUSizeCache 100 True), cr_held := (\<lambda>k. 0)\<rparr>"

definition sample_queue :: "nat executor" where
  "sample_queue = (newExecutor 1)\<lparr>ex_values := [0]\<rparr>"

definition sample_busy :: "nat executor" where
  "sample_busy = fst (receive 0 0 sample_queue)"

lemma sample_adds:
  "invoker_step (sample_state c [sample_stage (Locking []) NotAdded held] (newExecutor 1) act) (sample_state c [sample_stage Registering Queued held] sample_queue act)"
proof -
  let ?S = "sample_state c [sample_stage (Locking []) NotAdded held] (newExecutor 1) act"
  have add: "add_value 0 (ir_sandboxes ?S) = (sample_queue, None)" by (simp add: add_value_def sample_state_def newExecutor_def sample_queue_def)
  have "jr_handler (sample_stage (Locking []) NotAdded held) = Locking []" by (simp add: sample_stage_def)
  note adds [OF sample_job_at this add]
  then show ?thesis by (simp add: sample_state_def sample_stage_def set_job_def)
qed

lemma sample_takes:
  "invoker_step (sample_state c [sample_stage h Queued held] sample_queue act)
     (sample_state c [sample_stage h (Working broken_world sample_checked []) held] sample_busy act)"
proof -
  let ?S = "sample_state c [sample_stage h Queued held] sample_queue act"
  have r: "receive 0 0 (ir_sandboxes ?S) = (sample_busy, Taken 0)"
    by (simp add: sample_state_def sample_busy_def receive_def sample_queue_def Let_def)
  have idle: "idle_thread 0 (ir_sandboxes ?S)" by (simp add: idle_thread_def sample_state_def sample_queue_def newExecutor_def)
  obtain s where s: "sandboxThread broken_world (jr_job (sample_stage h Queued held)) = Inr (s, sample_checked)" "pl_gets s = []"
    using broken_thread by (auto simp: sample_stage_def)
  note takes [OF idle r sample_job_at s(1)]
  then show ?thesis by (simp add: s(2) sample_state_def sample_stage_def set_job_def)
qed

lemma sample_ends:
  "invoker_step (sample_state c [sample_stage h (Working broken_world rep []) held] e act) (sample_state c [sample_stage h (Releasing rep) held] e act)"
proof -
  have "jr_worker (sample_stage h (Working broken_world rep []) held) = Working broken_world rep []" by (simp add: sample_stage_def)
  note ends [OF sample_job_at this]
  then show ?thesis by (simp add: sample_state_def sample_stage_def set_job_def)
qed

lemma sample_releases:
  "invoker_step (sample_state sample_locked [sample_stage h (Releasing rep) [sample_key]] e act) (sample_state sample_released [sample_stage h (Releasing rep) []] e act)"
proof -
  let ?x = "sample_stage h (Releasing rep) [sample_key]"
  let ?S = "sample_state sample_locked [?x] e act"
  have u: "Unlock sample_key (cache_of ?S) = Inr (set_holder sample_key (fresh_holder\<lparr>vh_locks := 0\<rparr>) (NewLRUSizeCache 100 True), [], None)"
    by (simp add: sample_state_def sample_locked_def Unlock_def NewLRUSizeCache_def removeItemsIfNeeded_def)
  have "jr_worker ?x = Releasing rep" "jr_held ?x = [] @ [sample_key]" by (simp_all add: sample_stage_def)
  note releases [OF sample_job_at this u]
  then show ?thesis by (simp add: sample_state_def sample_stage_def set_job_def sample_released_def sample_locked_def cache_start_def fun_upd_idem)
qed

lemma sample_leaves:
  "invoker_step (sample_state c [sample_stage h (Releasing rep) []] e Map.empty) (sample_state c [sample_stage h (Leaving rep) []] e Map.empty)"
proof -
  have "jr_worker (sample_stage h (Releasing rep) []) = Releasing rep" "jr_held (sample_stage h (Releasing rep) []) = []" by (simp_all add: sample_stage_def)
  note leaves [OF sample_job_at [of c _ e Map.empty] this]
  then show ?thesis by (simp add: sample_state_def sample_stage_def set_job_def)
qed

lemma sample_registers:
  "invoker_step (sample_state c [sample_stage Registering wk held] e Map.empty) (sample_state c [sample_stage Replied wk held] e [''c'' \<mapsto> 0])"
proof -
  have "jr_handler (sample_stage Registering wk held) = Registering" by (simp add: sample_stage_def)
  note registers [OF sample_job_at this]
  then show ?thesis by (simp add: sample_state_def sample_stage_def set_job_def sample_compile_job_def)
qed

definition sample_ghost :: invoker_run where
  "sample_ghost = sample_state sample_released [sample_stage Replied (Leaving sample_checked) []] sample_busy [''c'' \<mapsto> 0]"

lemma sample_ghost_runs: "invoker_runs (invoker_start 100 1) sample_ghost"
proof -
  note add_step = rtranclp.rtrancl_into_rtrancl [of invoker_step]
  show ?thesis unfolding sample_ghost_def
    by (rule add_step [OF add_step [OF add_step [OF add_step [OF add_step [OF add_step [OF sample_locked_runs sample_adds] sample_takes]
      sample_ends] sample_releases] sample_leaves] sample_registers])
qed

lemma active_jobs_witness:
  "ghost sample_ghost 0 \<and> (\<forall>a e. is_max_new (getStatus_of a e 1 [''c'']) = 0)"
proof -
  have g: "ghost sample_ghost 0" by (simp add: ghost_def sample_ghost_def sample_state_def sample_stage_def id_of_def sample_compile_job_def)
  have d: "distinct (ids_of sample_ghost)" by (simp add: ids_of_def sample_ghost_def sample_state_def)
  have dom: "distinct [''c''] \<and> set [''c''] = dom (ir_active sample_ghost)" by (simp add: sample_ghost_def sample_state_def)
  from active_jobs [OF sample_ghost_runs rtranclp.rtrancl_refl d] g dom
  have "\<forall>a e. is_max_new (getStatus_of a e 1 [''c'']) \<le> max 0 (int 1 - 1)" by blast
  moreover have "\<forall>a e. is_max_new (getStatus_of a e 1 [''c'']) \<ge> 0" by (simp add: getStatus_of_def)
  ultimately show ?thesis using g by (simp add: order_antisym)
qed

section \<open>Limits\<close>

text \<open>
  Isolate's verdict on a run that did not fail: fine exactly when the meta file tells of no trouble, the exit code is zero, and
  time, memory and wall time are within the limits.
\<close>

lemma isolate_accepts:
  assumes "rr_err (isolate_Run wild l cancelled err meta) = None"
  shows "rr_verdict (isolate_Run wild l cancelled err meta) = V_OK \<longleftrightarrow> \<not> cancelled \<and>
    (\<exists>lines. meta = Some lines \<and> (\<forall>line \<in> set lines. \<not> trouble line)) \<and>
    within_limits l (rr_stats (isolate_Run wild l cancelled err meta)) \<and> st_exit_code (rr_stats (isolate_Run wild l cancelled err meta)) = 0"
proof (cases cancelled)
  case True
  then show ?thesis by (simp add: isolate_Run_def)
next
  case False
  have eq: "isolate_Run wild l cancelled err meta = parseMeta wild l meta fresh_run"
    using False assms by (auto simp: isolate_Run_def split: option.splits prod.splits bool.splits)
  with assms have "rr_err (parseMeta wild l meta fresh_run) = None" by simp
  then show ?thesis unfolding eq using False by (cases rule: parseMeta_verdict) auto
qed

text \<open>The simple sandbox measures memory and does not look at its limit.\<close>

lemma simple_ignores_memory: "simple_Run (l\<lparr>rl_memory := m\<rparr>) joined p = simple_Run l joined p"
proof -
  have "simple_verdict (l\<lparr>rl_memory := m\<rparr>) = simple_verdict l" by (intro ext) (simp add: simple_verdict_def)
  then show ?thesis by (simp only: simple_Run_def)
qed

text \<open>The wall time of a solution is by default the maximum of five seconds and twice its time, as documented, up to half the range.\<close>

lemma wall_limit_default:
  assumes "pr_wall p = None" and "unat (pr_time p) < 2 ^ 63"
  shows "unat (rl_wall (fillInTestRunConfigLimits p)) = max 5000000000 (2 * unat (pr_time p))"
proof -
  let ?t = "pr_time p"
  have written: "string_of_nat 5 @ time_suffix 3 = ''5s''" by (simp add: time_suffix_def) code_simp
  have five: "or_old (Time_FromStr ''5s'') 0 = 5000000000"
    using Time_FromStr_suffix [of 3 5] by (simp add: written or_old_def)
  have wall: "rl_wall (fillInTestRunConfigLimits p) = (if 5000000000 < ?t * 2 then ?t * 2 else 5000000000)"
    unfolding fillInTestRunConfigLimits_def Let_def assms(1) option.case five by simp
  have two: "unat (?t * 2) = unat ?t * 2"
    using assms(2) unat_mult_lem [of ?t 2] by simp
  have n: "unat (5000000000 :: 64 word) = 5000000000" by simp
  show ?thesis
  proof (cases "5000000000 < ?t * 2")
    case True
    then have "5000000000 < unat ?t * 2" unfolding word_less_nat_alt two n .
    then show ?thesis unfolding wall using True two by simp
  next
    case False
    then have "\<not> 5000000000 < unat ?t * 2" unfolding word_less_nat_alt two n .
    then show ?thesis unfolding wall using False n by simp
  qed
qed

end
