(* ===== verification/Spec2Isabelle.thy ===== *)
theory Spec2Isabelle
  imports JsClaims GoMasterClaims GoCacheClaims GoInvokerClaims
begin

text \<open>
  A testing system for programming contests: clients (a web API and an admin frontend) take problems and
  submissions, a master turns each submission into jobs, invokers run the jobs.  This development models
  the admin frontend (src/clients/frontend/admin, JavaScript with React) in full, and of the Go side what
  the frontend talks to and what decides the result of a submission: the routes of the API, its check
  of problems and its copy of the master's status; the master with its queue, its generators of jobs and its
  registry of invokers; an invoker with its jobs, pipelines, sandboxes and cache of files; and the numbers with units
  of all configuration.

  \<^bold>\<open>Frontend.\<close>  \<open>JsCore\<close> has the values of JavaScript the code uses: primitive values with
  truthiness and equality, numbers as doubles, exceptions.  \<open>JsView\<close> has the trees that JSX denotes,
  with handlers inside, and the relation \<open>fires\<close> between a tree and the actions one interaction of a
  user with it can cause; so what a page can do follows from what it shows.  Then one theory per part:
  \<^item> \<open>JsProblemForm\<close>: components/problem/ProblemForm.jsx.  \<open>ProblemReducer\<close> with all its cases, the
    form \<open>RenderProblemForm\<close>; invariant \<open>wf\<close> of the groups and its preservation.
  \<^item> \<open>JsWidgets\<close>: Body, Links, Pagination, Verdict, ChangeAlert, RenderResource, SubmissionsFilters.
  \<^item> \<open>JsSubmission\<close>: components/submission/TestData.jsx; the reducer, the rows, and the effect
    \<open>WatchTestData\<close> that requests data; runs of dispatches, effects and replies as an inductive relation.
  \<^item> \<open>JsCompilation\<close>: components/submission/CompilationData.jsx, over a highlighter that is a parameter.
  \<^item> \<open>JsListPages\<close>, \<open>JsProblemPages\<close>, \<open>JsSubmissionPages\<close>, \<open>JsStatusPage\<close>: the pages of the
    directory pages; each is a state, the requests its effects and handlers send, what a reply does to the
    state, and a view.
  \<^item> \<open>JsApp\<close>: Admin.jsx, the routes between pages, and the list of all requests; \<open>GoRoutes\<close>: the
    routes of clients/tsapi/handler.go, and the contract of a router.
  \<^item> \<open>JsClaims\<close>: the properties.

  \<^bold>\<open>Master and API.\<close>  \<open>GoModels\<close> has the shared records (common/db/models, common/connectors,
  common/constants/verdict) and the common part of the generators.  A call that can panic returns a
  \<open>panic + 'a\<close>; a loop is a function with its measure; the mutex of a generator makes each call one step.
  \<^item> \<open>GoFields\<close>: lib/customfields; locale \<open>unit_field\<close>, interpreted for times and for memory.
  \<^item> \<open>GoIcpc\<close> and \<open>GoIoi\<close>: icpc_generator.go and ioi_generator.go of master/queue/jobgenerators,
    function by function, and loop by loop.
  \<^item> \<open>GoGenerator\<close>: the interface of a generator as the locale \<open>job_generator\<close>, and \<open>gen_run\<close>,
    its runs: jobs asked for and results delivered in any order.
  \<^item> \<open>GoIcpcRun\<close>: \<open>icpc_final\<close>, the submission that testing one test after the other gives, the
    invariant of the generator, and the interpretation of \<open>job_generator\<close>.
  \<^item> \<open>GoIoiRef\<close>, \<open>GoIoiRun\<close>, \<open>GoIoiScores\<close>: the same for problems with groups. \<open>ioi_valid\<close> are
    the problems that are accepted, \<open>lost_groups\<close> and \<open>ref_results\<close> the sequential reference; the
    invariant \<open>ioi_core\<close> and the loop over the tested prefix; when the groups have scores and when
    scoring panics.
  \<^item> \<open>GoProblemApi\<close>: checkProblemIsOK of clients/tsapi/problem.go, and its relation to \<open>ioi_valid\<close>.
  \<^item> \<open>GoQueueStatus\<close>: master/queue/queuestatus and clients/tsapi/masterstatus: the list of submissions by their
    last update, the answers with what changed since an epoch, and the copy of the API; \<open>view_step\<close>, their runs.
  \<^item> \<open>GoQueue\<close>: queue.go, interface.go and jobgenerators/generator.go of the queue.
  \<^item> \<open>GoQueueRun\<close>, \<open>GoQueueSteps\<close>: the queue with its clients. \<open>ending_generator\<close> extends the contract by what
    the queue needs, and is interpreted on both kinds of generators together; \<open>testing_step\<close> is a submission that
    arrives, a job that is asked for, a result, a lost invoker, or a submission that was saved; \<open>run_ok\<close> is the
    invariant, and \<open>t_work\<close> the number of calls that the generators can still serve.
  \<^item> \<open>GoRegistry\<close>, \<open>GoInvokers\<close>: master/registry: invokers, their tables of jobs and the counters over them, and
    the registry that sends jobs, takes results and puts the jobs of failed invokers back; \<open>invoker_ok\<close>, and
    \<open>same_jobs\<close>, what every call but three leaves alone.
  \<^item> \<open>GoMaster\<close>: master.go, actions.go, client_handlers.go and invoker_handlers.go: the handlers over the three.
  \<^item> \<open>GoMasterRun\<close>, \<open>GoMasterSteps\<close>: \<open>master_step\<close>, what can happen next in the master and its background: one
    call under a mutex or one iteration of a loop that calls the queue; \<open>master_ok\<close>, the invariant, says where every
    job is; every step is a run of the queue with its clients, and loops and handlers are sequences of steps.
  \<^item> \<open>GoCache\<close>, \<open>GoCacheRun\<close>: lib/cache/cache.go, the cache of files on an invoker: its calls, \<open>evicted\<close>, the
    specification of what is removed, and \<open>cache_step\<close>, its runs with users, waiting calls and loads.
  \<^item> \<open>GoStorage\<close>: invoker/storage: the keys and the folders of the files in the cache.
  \<^item> \<open>GoClaims\<close>, \<open>GoQueueClaims\<close>, \<open>GoMasterClaims\<close>, \<open>GoCacheClaims\<close>: the properties.

  \<^bold>\<open>Jobs of an invoker.\<close>  What the operating system, the storage and the database answer is a parameter.
  \<^item> \<open>GoSandbox\<close>: invoker/sandbox: the results that the two sandboxes make of how a process ended; the locale
    \<open>sandbox\<close> is what the pipelines rely on, interpreted on both.
  \<^item> \<open>GoPipeline\<close>: pipeline.go, pipeline_files.go, compile_pipeline.go, test_run_pipeline.go and check_pipeline.go of
    invoker, step by step; a \<open>world\<close> has the answers a job finds, the record \<open>pipeline\<close> what it did.
    \<open>GoPipelineSteps\<close>: triples over the steps, and the references \<open>compile_outcome\<close> and \<open>tested_outcome\<close>.
  \<^item> \<open>GoExecutor\<close>: threads_executor.go, the threads that take values from a queue.
  \<^item> \<open>GoInvokerRun\<close>: job.go, handler.go and invoker.go: how a job is accepted and what it locks, and
    \<open>invoker_step\<close>, the runs of an invoker: requests, locks, threads, pipelines that ask the cache, loads, resets and the
    shutdown, one call under a mutex at a time.  \<open>GoInvokerSteps\<close>: the invariants \<open>users_in\<close>, \<open>threads_in\<close> and
    \<open>active_in\<close>; every run is a run of the cache with users that keep its protocol.
  \<^item> \<open>GoInvokerClaims\<close>: the properties.

  \<open>Prelude\<close> holds what all share: results with errors (\<open>bindE\<close>), decimal numerals, splitting of
  paths, lists.

  \<^bold>\<open>What is shown.\<close>  For the frontend: no session of a user makes the problem editor or the page of a
  submission throw, exactly when the reducers and views do throw, that every request reaches the handler
  it is meant for and every link a page, that data of tests is requested once and the effects come to
  rest (but not for an empty list of tests), what the lists show when replies are late, and what alerts
  show.  For the master: whatever the order of jobs and results, a submission ends with the results,
  scores and verdict of the sequential reference, generators do not panic (but do in the two cases that
  the properties name), their runs are finite; the same through the queue, for any number of submissions with
  results and losses of invokers in any order: no job is lost or handed out twice, no operation panics, every
  answer is that of testing the submission alone, and testing comes to its end; the API shows the last
  update of a submission.  The master uses its queue by that protocol whatever happens to the invokers, so its answers
  are right, and it does not panic; it knows where every job is as long as no result was dropped; but the result of
  a job that was taken from a failed invoker is dropped, and then its submission is never answered.  Which problems are accepted by the generator and by the
  API, and the gap between them.  The cache of an
  invoker keeps what is locked, removes the least recently used of the rest and no more than it must, does not panic, and is
  within its bound after every load and unlock; removing one file does not touch another.  For fields with units: printing and parsing agree, parsing is exact
  below 64 bits and wraps above, rounding is upwards and bounded.
  An invoker: whatever its surroundings answer, an accepted job finishes its pipeline once without a panic and sends the result
  of the reference, which is one that the generators of the master understand; a file stays as long as a job has it
  locked, no job is stuck in the cache or lost between the threads, and locks are returned, except by a job that arrives
  during the shutdown; the active jobs it tells the master are those in hand, and ghosts of jobs that ended
  before they were registered.

  \<^bold>\<open>Bounds.\<close>  No fuel is used: every function terminates.  The reducer's numbers are doubles with
  rounding to 53 bits; limits are 64-bit words.  Test numbers and the counters over them are naturals:
  the code's 64-bit counters go one above the number of tests, so the model is exact for fewer than
  \<open>2 ^ 64 - 1\<close> tests, and for a group that starts at test 0, which is refused before and after.
  Strings are UTF-8 bytes; white space and letter case beyond ASCII are exact only where noted.

  \<^bold>\<open>Not modelled.\<close>  Ids are arguments, so the panic when the source of random ids fails is left out.
  React's strict mode (reducers called twice, in development only) and the aliasing of arrays that the
  reducers change in place; page numbers of 10 to the 21 and above, which print with an exponent; actions
  named like a property of Object.prototype.  The generators' status updater is the flag \<open>updated\<close> of
  their answers.  Jobs keep their required jobs as a set, since the code fills the list from a map.
  A slice of test results beyond their length panics in the model, and so it does in the code when the
  capacity is exceeded; no run reaches it.  New epochs (UUIDs of version 7) never decrease: a premise of the runs of
  the status.  In the queue the reports of a submission do not depend on time and ids are fresh; an
  invoker's result names a job that the registry has, or is ignored.  Jobs are values, though the code shares
  pointers to them whose id a reschedule changes: the table of the failed invoker is empty by then, and a job that is
  still on its way to it is unknown to it under both ids.  Data races are not modelled.  Timers may end at any
  time.  The cache is modelled with fewer than
  \<open>2 ^ 64\<close> locks of a key.  Of an invoker its setup and addresses, the command lines and redirections
  of the sandboxes, the templates of compile scripts and all measured durations are left out; stopping a job shows only as a
  cancelled run; a process waits for its runner thread inside one step of its pipeline.  In the meta file of isolate hexadecimal numbers are
  refused, and what a number of seconds outside 64 bits becomes is a parameter, as Go leaves it open.
  Storage, database, configuration, metrics, logging and the importer of problems are input and output
  around the modelled data; the bundler script is build configuration, and the bundles under
  clients/resources are generated or third-party.
\<close>

end
